(* ===== verification/Prelude.thy ===== *)
theory Prelude
  imports Main "HOL-Library.List_Lexorder" "HOL-Library.Char_ord" "HOL-Library.Product_Lexorder"
begin

text \<open>
  Shared ground of the development: the fallible-result combinators every component uses, the
  byte-string operations of the Rust standard library that the sources call (\<open>str::split\<close>,
  \<open>[T]::join\<close>, \<open>str::chars\<close>, \<open>starts_with\<close>), the ordered map (\<open>BTreeMap\<close>) as a sorted
  association list, and the collections that carry the proofs of the components.

  A Rust \<open>String\<close> is its UTF-8 byte sequence: a HOL \<open>string\<close> whose characters are bytes, so
  \<open>length\<close> is \<open>str::len\<close>. \<open>chars\<close> groups the bytes into code points. The order on strings is the
  lexicographic byte order, as Rust's \<open>Ord for str\<close>.
\<close>

named_theorems res_simps \<open>unfolding of fallible results\<close>
named_theorems str_simps \<open>byte strings\<close>
named_theorems wf_intros \<open>preservation of well-formedness\<close>

section \<open>Fallible results\<close>

text \<open>\<open>Result<T, E>\<close> is \<open>'e + 'a\<close>; the \<open>?\<close> operator is \<open>andThen\<close>.\<close>

fun andThen :: "'e + 'a \<Rightarrow> ('a \<Rightarrow> 'e + 'b) \<Rightarrow> 'e + 'b" where
  "andThen (Inl e) f = Inl e"
| "andThen (Inr x) f = f x"

lemma andThen_eq_Inr [res_simps]: "andThen r f = Inr y \<longleftrightarrow> (\<exists>x. r = Inr x \<and> f x = Inr y)"
  by (cases r) auto

lemma andThen_eq_Inl [res_simps]:
  "andThen r f = Inl e \<longleftrightarrow> r = Inl e \<or> (\<exists>x. r = Inr x \<and> f x = Inl e)"
  by (cases r) auto

definition ensure :: "bool \<Rightarrow> 'e \<Rightarrow> 'e + unit" where
  "ensure b e = (if b then Inr () else Inl e)"

lemma ensure_eq [res_simps]:
  "ensure b e = Inr u \<longleftrightarrow> b" "ensure b e = Inl e' \<longleftrightarrow> \<not> b \<and> e' = e"
  by (auto simp: ensure_def)

definition is_ok :: "'e + 'a \<Rightarrow> bool" where
  "is_ok r = (case r of Inl _ \<Rightarrow> False | Inr _ \<Rightarrow> True)"

lemma is_ok_simps [simp]: "is_ok (Inr x)" "\<not> is_ok (Inl e)"
  by (auto simp: is_ok_def)

lemma is_ok_iff: "is_ok r \<longleftrightarrow> (\<exists>x. r = Inr x)"
  by (cases r) auto

text \<open>\<open>Option::ok_or\<close>, and a loop whose body may return early with an error.\<close>

definition ok_or :: "'a option \<Rightarrow> 'e \<Rightarrow> 'e + 'a" where
  "ok_or x e = (case x of None \<Rightarrow> Inl e | Some y \<Rightarrow> Inr y)"

lemma ok_or_eq [res_simps]:
  "ok_or x e = Inr y \<longleftrightarrow> x = Some y" "ok_or x e = Inl e' \<longleftrightarrow> x = None \<and> e' = e"
  by (auto simp: ok_or_def split: option.splits)

fun foldR :: "('s \<Rightarrow> 'a \<Rightarrow> 'e + 's) \<Rightarrow> 's \<Rightarrow> 'a list \<Rightarrow> 'e + 's" where
  "foldR f s [] = Inr s"
| "foldR f s (x # xs) = andThen (f s x) (\<lambda>s'. foldR f s' xs)"

lemma foldR_append: "foldR f s (xs @ ys) = andThen (foldR f s xs) (\<lambda>s'. foldR f s' ys)"
proof (induction xs arbitrary: s)
  case (Cons x xs)
  then show ?case by (cases "f s x") simp_all
qed simp

text \<open>An invariant of the loop body is an invariant of the loop.\<close>

lemma foldR_inv:
  assumes "foldR f s xs = Inr s'" and "P s"
    and "\<And>s x s'. x \<in> set xs \<Longrightarrow> P s \<Longrightarrow> f s x = Inr s' \<Longrightarrow> P s'"
  shows "P s'"
  using assms
proof (induction xs arbitrary: s)
  case (Cons x xs)
  from Cons.prems(1) obtain t where t: "f s x = Inr t" and r: "foldR f t xs = Inr s'"
    by (auto simp: res_simps)
  have "P t" by (rule Cons.prems(3) [OF _ Cons.prems(2) t]) simp
  show ?case by (rule Cons.IH [OF r \<open>P t\<close>]) (auto intro: Cons.prems(3))
qed simp

section \<open>Byte strings\<close>

definition is_prefix :: "'a list \<Rightarrow> 'a list \<Rightarrow> bool" where
  "is_prefix p s \<longleftrightarrow> take (length p) s = p"

lemma is_prefix_iff: "is_prefix p s \<longleftrightarrow> (\<exists>r. s = p @ r)"
  unfolding is_prefix_def by (metis append_eq_conv_conj append_take_drop_id)

lemma is_prefix_simps [simp]:
  "is_prefix [] s" "is_prefix s s" "is_prefix p (p @ r)"
  "is_prefix (a # p) (b # s) \<longleftrightarrow> a = b \<and> is_prefix p s"
  "is_prefix (a # p) [] \<longleftrightarrow> False"
  by (auto simp: is_prefix_iff)

text \<open>\<open>str::split(sep)\<close>: the empty string has one empty part.\<close>

fun split_on :: "'a \<Rightarrow> 'a list \<Rightarrow> 'a list list" where
  "split_on c [] = [[]]"
| "split_on c (x # xs) =
     (if x = c then [] # split_on c xs
      else case split_on c xs of [] \<Rightarrow> [[x]] | p # ps \<Rightarrow> (x # p) # ps)"

fun join_with :: "'a \<Rightarrow> 'a list list \<Rightarrow> 'a list" where
  "join_with c [] = []"
| "join_with c [p] = p"
| "join_with c (p # ps) = p @ c # join_with c ps"

lemma split_on_not_Nil [simp]: "split_on c xs \<noteq> []"
  by (cases xs) (auto split: list.splits)

lemma join_with_Cons: "ps \<noteq> [] \<Longrightarrow> join_with c (p # ps) = p @ c # join_with c ps"
  by (cases ps) auto

lemma join_split [simp]: "join_with c (split_on c xs) = xs"
proof (induction xs)
  case (Cons x xs)
  obtain p ps where s: "split_on c xs = p # ps"
    using split_on_not_Nil by (metis list.exhaust)
  show ?case
  proof (cases "x = c")
    case True
    with Cons s show ?thesis by simp
  next
    case False
    with Cons s show ?thesis by (cases ps) simp_all
  qed
qed simp

lemma split_on_no_sep: "c \<notin> set p \<Longrightarrow> split_on c p = [p]"
  by (induction p) auto

lemma split_on_append_sep: "c \<notin> set p \<Longrightarrow> split_on c (p @ c # xs) = p # split_on c xs"
  by (induction p) (auto split: list.splits)

lemma split_join:
  assumes "ps \<noteq> []" and "\<forall>p\<in>set ps. c \<notin> set p"
  shows "split_on c (join_with c ps) = ps"
  using assms
proof (induction c ps rule: join_with.induct)
  case (3 c p q qs)
  then show ?case by (simp add: split_on_append_sep)
qed (auto simp: split_on_no_sep)

lemma split_on_parts_no_sep: "p \<in> set (split_on c xs) \<Longrightarrow> c \<notin> set p"
proof (induction xs arbitrary: p)
  case (Cons x xs)
  obtain q qs where s: "split_on c xs = q # qs"
    using split_on_not_Nil by (metis list.exhaust)
  from Cons s show ?case by (auto split: if_splits)
qed simp

lemma split_on_append:
  "split_on c (xs @ c # ys) = split_on c xs @ split_on c ys"
proof (induction xs)
  case (Cons x xs)
  obtain q qs where s: "split_on c xs = q # qs"
    using split_on_not_Nil by (metis list.exhaust)
  from Cons s show ?case by simp
qed simp

lemma set_split_on_subset: "p \<in> set (split_on c xs) \<Longrightarrow> set p \<subseteq> set xs"
proof (induction xs arbitrary: p)
  case (Cons x xs)
  obtain q qs where s: "split_on c xs = q # qs"
    using split_on_not_Nil by (metis list.exhaust)
  have q: "set q \<subseteq> set xs" and qs: "\<And>p. p \<in> set qs \<Longrightarrow> set p \<subseteq> set xs"
    using Cons.IH s by auto
  from Cons.prems s q qs show ?case by (auto split: if_splits)
qed simp

text \<open>\<open>[String]::join(sep)\<close> with a string separator, and the decimal form of a number.\<close>

fun join_str :: "string \<Rightarrow> string list \<Rightarrow> string" where
  "join_str sep [] = []"
| "join_str sep [p] = p"
| "join_str sep (p # q # ps) = p @ sep @ join_str sep (q # ps)"

fun show_nat :: "nat \<Rightarrow> string" where
  "show_nat n = (if n < 10 then [char_of (48 + n)] else show_nat (n div 10) @ [char_of (48 + n mod 10)])"

declare show_nat.simps [simp del]

text \<open>\<open>str::chars\<close>: a code point is a byte and the continuation bytes (10xxxxxx) after it.\<close>

definition is_cont :: "char \<Rightarrow> bool" where
  "is_cont c \<longleftrightarrow> 128 \<le> (of_char c :: nat) \<and> (of_char c :: nat) < 192"

function chars :: "string \<Rightarrow> string list" where
  "chars [] = []"
| "chars (b # bs) = (b # takeWhile is_cont bs) # chars (dropWhile is_cont bs)"
  by pat_completeness auto
termination
  by (relation "measure length") (auto simp: le_imp_less_Suc length_dropWhile_le)

lemma concat_chars [simp]: "concat (chars s) = s"
  by (induction s rule: chars.induct) auto

lemma length_chars_le: "length (chars s) \<le> length s"
proof (induction s rule: chars.induct)
  case (2 b bs)
  have "length (dropWhile is_cont bs) \<le> length bs" by (rule length_dropWhile_le)
  with 2 show ?case by simp
qed simp

lemma chars_append:
  assumes "t = [] \<or> \<not> is_cont (hd t)"
  shows "chars (s @ t) = chars s @ chars t"
proof (induction s rule: chars.induct)
  case (2 b bs)
  have t: "takeWhile is_cont t = []" "dropWhile is_cont t = t"
    using assms by (cases t; auto)+
  show ?case
  proof (cases "\<forall>x\<in>set bs. is_cont x")
    case True
    then have "takeWhile is_cont (bs @ t) = bs" "dropWhile is_cont (bs @ t) = t"
      "takeWhile is_cont bs = bs" "dropWhile is_cont bs = []"
      using t by (auto simp: takeWhile_append2 dropWhile_append2 takeWhile_eq_all_conv)
    then show ?thesis by (simp only: append_Cons chars.simps append_Nil append_Nil2)
  next
    case False
    then obtain x where "x \<in> set bs" "\<not> is_cont x" by blast
    then have "takeWhile is_cont (bs @ t) = takeWhile is_cont bs"
      "dropWhile is_cont (bs @ t) = dropWhile is_cont bs @ t"
      by (auto simp: takeWhile_append1 dropWhile_append1)
    with 2 show ?thesis by simp
  qed
qed simp

text \<open>A prefix of whole code points has those code points.\<close>

lemma chars_concat_take: "chars (concat (take n (chars s))) = take n (chars s)"
proof (induction s arbitrary: n rule: chars.induct)
  case (2 b bs)
  show ?case
  proof (cases n)
    case (Suc m)
    let ?r = "concat (take m (chars (dropWhile is_cont bs)))"
    have hd: "?r = [] \<or> \<not> is_cont (hd ?r)"
    proof (cases "dropWhile is_cont bs")
      case Nil
      then show ?thesis by (simp only: chars.simps take_Nil concat.simps simp_thms)
    next
      case (Cons x xs)
      then have "\<not> is_cont x" using hd_dropWhile [of is_cont bs] by auto
      then show ?thesis using Cons by (cases m) auto
    qed
    have one: "chars (b # takeWhile is_cont bs) = [b # takeWhile is_cont bs]"
    proof -
      have "takeWhile is_cont (takeWhile is_cont bs) = takeWhile is_cont bs"
        "dropWhile is_cont (takeWhile is_cont bs) = []"
        by (auto simp: takeWhile_eq_all_conv dropWhile_eq_Nil_conv dest: set_takeWhileD)
      then show ?thesis by (simp only: chars.simps)
    qed
    have "chars (concat (take n (chars (b # bs)))) = chars ((b # takeWhile is_cont bs) @ ?r)"
      by (simp only: Suc chars.simps take_Suc_Cons concat.simps)
    also have "\<dots> = [b # takeWhile is_cont bs] @ chars ?r"
      by (simp only: chars_append [OF hd] one)
    also have "\<dots> = take n (chars (b # bs))"
      by (simp only: 2 Suc chars.simps take_Suc_Cons append_Cons append_Nil)
    finally show ?thesis .
  qed simp
qed simp

section \<open>Ordered maps\<close>

text \<open>\<open>BTreeMap<K, V>\<close>: the association list sorted by key; an insert replaces.\<close>

fun bt_insert :: "'k::linorder \<Rightarrow> 'v \<Rightarrow> ('k \<times> 'v) list \<Rightarrow> ('k \<times> 'v) list" where
  "bt_insert k v [] = [(k, v)]"
| "bt_insert k v ((a, b) # xs) =
     (if k < a then (k, v) # (a, b) # xs
      else if k = a then (k, v) # xs
      else (a, b) # bt_insert k v xs)"

definition bt_of_list :: "('k::linorder \<times> 'v) list \<Rightarrow> ('k \<times> 'v) list" where
  "bt_of_list xs = fold (\<lambda>(k, v) m. bt_insert k v m) xs []"

abbreviation bt_keys :: "('k \<times> 'v) list \<Rightarrow> 'k list" where
  "bt_keys m \<equiv> map fst m"

abbreviation bt_values :: "('k \<times> 'v) list \<Rightarrow> 'v list" where
  "bt_values m \<equiv> map snd m"

definition bt_ok :: "('k::linorder \<times> 'v) list \<Rightarrow> bool" where
  "bt_ok m \<longleftrightarrow> sorted_wrt (<) (bt_keys m)"

lemma map_of_bt_insert [simp]: "map_of (bt_insert k v m) = (map_of m)(k \<mapsto> v)"
  by (induction m) auto

lemma keys_bt_insert: "set (bt_keys (bt_insert k v m)) = insert k (set (bt_keys m))"
proof (induction m)
  case (Cons x xs)
  obtain a b where x: "x = (a, b)" by (cases x)
  show ?case
  proof (cases "k = a")
    case False
    with Cons show ?thesis by (simp add: x insert_commute)
  qed (simp add: x)
qed simp

lemma fst_set_bt_insert [simp]: "fst ` set (bt_insert k v m) = insert k (fst ` set m)"
  using keys_bt_insert [of k v m] by (simp only: set_map)

lemma bt_ok_insert [wf_intros]: "bt_ok m \<Longrightarrow> bt_ok (bt_insert k v m)"
proof (induction m)
  case (Cons x xs)
  obtain a b where x: "x = (a, b)" by (cases x)
  from Cons.prems have ok: "bt_ok xs" and lt: "\<forall>c\<in>set (bt_keys xs). a < c"
    by (auto simp: bt_ok_def x)
  show ?case
  proof (cases "a < k")
    case True
    with Cons.IH [OF ok] lt show ?thesis
      by (auto simp: bt_ok_def x ball_Un)
  next
    case False
    with Cons.prems lt show ?thesis
      by (auto simp: bt_ok_def x)
  qed
qed (simp add: bt_ok_def)

lemma bt_ok_Nil [simp]: "bt_ok []"
  by (simp add: bt_ok_def)

lemma bt_ok_distinct: "bt_ok m \<Longrightarrow> distinct (bt_keys m)"
  by (auto simp: bt_ok_def strict_sorted_iff)

lemma map_of_eq_Some_iff_bt: "bt_ok m \<Longrightarrow> map_of m k = Some v \<longleftrightarrow> (k, v) \<in> set m"
  by (rule map_of_eq_Some_iff) (rule bt_ok_distinct)

lemma bt_fold_ok: "bt_ok m \<Longrightarrow> bt_ok (fold (\<lambda>(k, v) m. bt_insert k v m) xs m)"
  by (induction xs arbitrary: m) (auto intro: bt_ok_insert)

lemma bt_of_list_ok [simp, wf_intros]: "bt_ok (bt_of_list xs)"
  by (simp add: bt_of_list_def bt_fold_ok)

lemma map_of_bt_fold:
  "map_of (fold (\<lambda>(k, v) m. bt_insert k v m) xs m) = map_of m ++ map_of (rev xs)"
  by (induction xs arbitrary: m) (auto simp: fun_eq_iff map_add_def split: option.splits)

lemma map_of_bt_of_list: "map_of (bt_of_list xs) = map_of (rev xs)"
  by (simp add: bt_of_list_def map_of_bt_fold)

lemma bt_of_list_distinct: "distinct (map fst xs) \<Longrightarrow> set (bt_of_list xs) = set xs"
proof -
  assume d: "distinct (map fst xs)"
  have d': "distinct (map fst (rev xs))" using d by (simp add: rev_map [symmetric])
  have "(k, v) \<in> set (bt_of_list xs) \<longleftrightarrow> (k, v) \<in> set xs" for k v
  proof -
    have "(k, v) \<in> set (bt_of_list xs) \<longleftrightarrow> map_of (rev xs) k = Some v"
      by (simp add: map_of_eq_Some_iff_bt [symmetric] map_of_bt_of_list)
    also have "\<dots> \<longleftrightarrow> (k, v) \<in> set xs"
      using map_of_eq_Some_iff [OF d'] by simp
    finally show ?thesis .
  qed
  then show ?thesis by auto
qed

section \<open>Sorted, duplicate-free lists\<close>

text \<open>\<open>Vec::sort\<close> followed by \<open>Vec::dedup\<close>.\<close>

definition sort_dedup :: "'a::linorder list \<Rightarrow> 'a list" where
  "sort_dedup xs = remdups_adj (sort xs)"

lemma set_sort_dedup [simp]: "set (sort_dedup xs) = set xs"
  by (simp add: sort_dedup_def)

lemma remdups_adj_strict: "sorted xs \<Longrightarrow> sorted_wrt (<) (remdups_adj xs)"
proof (induction xs rule: remdups_adj.induct)
  case (3 x y xs)
  have "set (remdups_adj (y # xs)) = set (y # xs)" by (rule remdups_adj_set)
  with 3 show ?case by (auto simp: less_le)
qed simp_all

lemma sort_dedup_strict [simp]: "sorted_wrt (<) (sort_dedup xs)"
  by (simp add: sort_dedup_def remdups_adj_strict)

end
