(* ===== verification/Errors.thy ===== *)
theory Errors
  imports Prelude
begin

text \<open>
  The error values of the service and their client-visible form: \<open>src/src/error.rs\<close>. Every
  fallible operation of the development returns \<open>app_error + 'a\<close>. \<open>to_string\<close> is the
  \<open>Display\<close> implementation that \<open>thiserror\<close> derives from the \<open>#[error]\<close> attributes.
\<close>

datatype app_error =
    Unauthorized
  | InvalidProject
  | SessionNotFound
  | NotFound string
  | Capacity string
  | SessionNotRunning
  | Conflict string
  | ProjectReuploadRequired string
  | WorkflowBusy
  | WorkflowPhase string
  | ShuttingDown
  | PreconditionFailed string
  | BadRequest string
  | RequestTimeout
  | PayloadTooLarge
  | Internal string

type_synonym 'a res = "app_error + 'a"

fun to_string :: "app_error \<Rightarrow> string" where
  "to_string Unauthorized = ''authentication is required''"
| "to_string InvalidProject = ''invalid project name''"
| "to_string SessionNotFound = ''session not found''"
| "to_string (NotFound m) = ''not found: '' @ m"
| "to_string (Capacity m) = ''capacity reached: '' @ m"
| "to_string SessionNotRunning = ''session is not running''"
| "to_string (Conflict m) = ''conflict: '' @ m"
| "to_string (ProjectReuploadRequired m) = ''project requires a complete upload: '' @ m"
| "to_string WorkflowBusy = ''another workflow is active''"
| "to_string (WorkflowPhase m) = ''invalid workflow phase: '' @ m"
| "to_string ShuttingDown = ''service is shutting down''"
| "to_string (PreconditionFailed m) = ''precondition failed: '' @ m"
| "to_string (BadRequest m) = ''bad request: '' @ m"
| "to_string RequestTimeout = ''request body timed out''"
| "to_string PayloadTooLarge = ''request body is too large''"
| "to_string (Internal m) = ''internal error: '' @ m"

fun status :: "app_error \<Rightarrow> nat" where
  "status Unauthorized = 401"
| "status InvalidProject = 400"
| "status (BadRequest _) = 400"
| "status RequestTimeout = 408"
| "status PayloadTooLarge = 413"
| "status SessionNotFound = 404"
| "status (NotFound _) = 404"
| "status (Capacity _) = 429"
| "status SessionNotRunning = 409"
| "status (Conflict _) = 409"
| "status (ProjectReuploadRequired _) = 409"
| "status WorkflowBusy = 409"
| "status (WorkflowPhase _) = 409"
| "status (PreconditionFailed _) = 412"
| "status (Internal _) = 500"
| "status ShuttingDown = 503"

fun code :: "app_error \<Rightarrow> string" where
  "code Unauthorized = ''unauthorized''"
| "code InvalidProject = ''invalid_project''"
| "code SessionNotFound = ''session_not_found''"
| "code (NotFound _) = ''not_found''"
| "code (Capacity _) = ''capacity_reached''"
| "code SessionNotRunning = ''session_not_running''"
| "code (Conflict _) = ''sync_conflict''"
| "code (ProjectReuploadRequired _) = ''project_reupload_required''"
| "code WorkflowBusy = ''workflow_busy''"
| "code (WorkflowPhase _) = ''workflow_phase_conflict''"
| "code ShuttingDown = ''service_shutting_down''"
| "code (PreconditionFailed _) = ''precondition_failed''"
| "code (BadRequest _) = ''invalid_request''"
| "code RequestTimeout = ''request_timeout''"
| "code PayloadTooLarge = ''payload_too_large''"
| "code (Internal _) = ''internal_error''"

definition max_client_message_chars :: nat where
  "max_client_message_chars = 1024"

text \<open>The pushed character is U+2026, in UTF-8 the three bytes E2 80 A6.\<close>

definition truncate_message :: "string \<Rightarrow> string" where
  "truncate_message value =
     (if length (chars value) \<le> max_client_message_chars then value
      else concat (take (max_client_message_chars - 1) (chars value))
             @ [CHR 0xE2, CHR 0x80, CHR 0xA6])"

definition client_message :: "app_error \<Rightarrow> string" where
  "client_message e =
     (case e of
        Internal _ \<Rightarrow> ''internal server error''
      | _ \<Rightarrow> truncate_message (to_string e))"

text \<open>\<open>details\<close> is always the empty JSON object, so the body has three fields that vary.\<close>

record error_body =
  body_code :: string
  body_message :: string
  body_request_id :: string

definition envelope :: "app_error \<Rightarrow> string \<Rightarrow> error_body" where
  "envelope e request_id =
     \<lparr>body_code = code e, body_message = client_message e, body_request_id = request_id\<rparr>"

definition is_server_error :: "nat \<Rightarrow> bool" where
  "is_server_error st \<longleftrightarrow> 500 \<le> st \<and> st < 600"

text \<open>
  \<open>into_response\<close>: the status line, the envelope, the diagnostic extension that request
  telemetry consumes, and the \<open>WWW-Authenticate\<close> header.
\<close>

record error_response =
  resp_status :: nat
  resp_body :: error_body
  diag_code :: string
  diag_text :: "string option"
  www_authenticate :: "string option"

definition into_response :: "app_error \<Rightarrow> error_response" where
  "into_response e =
     \<lparr>resp_status = status e,
      resp_body = envelope e [],
      diag_code = code e,
      diag_text = (if is_server_error (status e)
                   then Some (concat (take 4096 (chars (to_string e)))) else None),
      www_authenticate = (if status e = 401 then Some ''Bearer'' else None)\<rparr>"

subsection \<open>Client-visible messages\<close>

lemma chars_of_ellipsis: "chars [CHR 0xE2, CHR 0x80, CHR 0xA6] = [[CHR 0xE2, CHR 0x80, CHR 0xA6]]"
  by (simp add: is_cont_def)

lemma truncate_message_bound: "length (chars (truncate_message s)) \<le> max_client_message_chars"
proof (cases "length (chars s) \<le> max_client_message_chars")
  case False
  let ?e = "[CHR 0xE2, CHR 0x80, CHR 0xA6]"
  let ?p = "concat (take (max_client_message_chars - 1) (chars s))"
  have "chars (?p @ ?e) = chars ?p @ chars ?e"
    by (rule chars_append) (simp add: is_cont_def)
  with False show ?thesis
    unfolding truncate_message_def
    by (simp only: if_False chars_concat_take chars_of_ellipsis)
       (simp add: max_client_message_chars_def)
qed (simp add: truncate_message_def)

lemma truncate_message_prefix:
  "truncate_message s = s \<or> (\<exists>p r. s = p @ r \<and> truncate_message s = p @ [CHR 0xE2, CHR 0x80, CHR 0xA6])"
proof (cases "length (chars s) \<le> max_client_message_chars")
  case False
  have "s = concat (take (max_client_message_chars - 1) (chars s))
          @ concat (drop (max_client_message_chars - 1) (chars s))"
    by (metis append_take_drop_id concat_append concat_chars)
  with False show ?thesis by (auto simp: truncate_message_def)
qed (simp add: truncate_message_def)

end
