(* ===== verification/FileSystem.thy ===== *)
theory FileSystem
  imports Errors "HOL-Library.Word"
begin

unbundle bit_operations_syntax

text \<open>
  The file-system calls of the Rust standard library that the sources use
  (\<open>std::fs\<close>, and \<open>tokio::fs\<close>, which runs the same calls on a worker thread).

  A path is the list of its components below the root. A store is the association list of the
  existing paths with their nodes; a well-formed store (\<open>store_ok\<close>) has one node per path and a
  real directory above every node. The calls have their POSIX meaning. No call resolves a path
  through a symbolic link that is not its last component: it fails with \<open>ELoop\<close> (the service
  rejects such paths before it uses them). Following a link that is the last component is one
  hop.

  Any call may also fail for a reason outside the store (no space, an I/O error, a lost
  device). The record \<open>fs\<close> therefore carries a schedule \<open>faults\<close>: each call consumes one entry
  and fails with it, without an effect, if the entry is an error. Every theorem about a
  component holds for all schedules, hence for every pattern of such failures.
\<close>

datatype io_kind =
    NotFoundK | AlreadyExistsK | PermissionDeniedK | InterruptedK | NotADirectoryK
  | IsADirectoryK | DirectoryNotEmptyK | InvalidInputK | CrossesDevicesK | ELoop | OtherK

datatype io_error = IoError (io_kind: io_kind) (io_text: string)

type_synonym path = "string list"

text \<open>File metadata: modification time in nanoseconds since the epoch, and the mode bits.\<close>

record file_data =
  fbytes :: string
  mtime_ns :: int
  fmode :: "32 word"

datatype node = Dir | File file_data | Link path | Special

type_synonym store = "(path \<times> node) list"

abbreviation lookup :: "store \<Rightarrow> path \<Rightarrow> node option" where
  "lookup \<equiv> map_of"

abbreviation is_file_node :: "node \<Rightarrow> bool" where
  "is_file_node n \<equiv> (case n of File _ \<Rightarrow> True | _ \<Rightarrow> False)"

definition below :: "path \<Rightarrow> path \<Rightarrow> bool" where
  "below p q \<longleftrightarrow> is_prefix p q \<and> p \<noteq> q"

definition parent :: "path \<Rightarrow> path option" where
  "parent p = (if p = [] then None else Some (butlast p))"

definition store_ok :: "store \<Rightarrow> bool" where
  "store_ok st \<longleftrightarrow> distinct (map fst st) \<and> lookup st [] = Some Dir \<and>
     (\<forall>p n. lookup st p = Some n \<and> p \<noteq> [] \<longrightarrow> lookup st (butlast p) = Some Dir)"

section \<open>Calls on a store\<close>

fun strerror :: "io_kind \<Rightarrow> string" where
  "strerror NotFoundK = ''No such file or directory (os error 2)''"
| "strerror AlreadyExistsK = ''File exists (os error 17)''"
| "strerror PermissionDeniedK = ''Permission denied (os error 13)''"
| "strerror InterruptedK = ''Interrupted system call (os error 4)''"
| "strerror NotADirectoryK = ''Not a directory (os error 20)''"
| "strerror IsADirectoryK = ''Is a directory (os error 21)''"
| "strerror DirectoryNotEmptyK = ''Directory not empty (os error 39)''"
| "strerror InvalidInputK = ''Invalid argument (os error 22)''"
| "strerror CrossesDevicesK = ''Invalid cross-device link (os error 18)''"
| "strerror ELoop = ''Too many levels of symbolic links (os error 40)''"
| "strerror OtherK = ''Input/output error (os error 5)''"

definition err :: "io_kind \<Rightarrow> io_error" where
  "err k = IoError k (strerror k)"

lemma io_kind_err [simp]: "io_kind (err k) = k"
  by (simp add: err_def)

text \<open>The errors of path resolution: the first component that is not a real directory.\<close>

fun walk :: "store \<Rightarrow> path \<Rightarrow> path \<Rightarrow> io_error + unit" where
  "walk st cur [] = Inr ()"
| "walk st cur [c] = Inr ()"
| "walk st cur (c # d # cs) =
     (case lookup st (cur @ [c]) of
        Some Dir \<Rightarrow> walk st (cur @ [c]) (d # cs)
      | Some (Link _) \<Rightarrow> Inl (err ELoop)
      | Some _ \<Rightarrow> Inl (err NotADirectoryK)
      | None \<Rightarrow> Inl (err NotFoundK))"

definition lstat :: "path \<Rightarrow> store \<Rightarrow> io_error + node" where
  "lstat p st =
     (case walk st [] p of
        Inl e \<Rightarrow> Inl e
      | Inr _ \<Rightarrow> (case lookup st p of None \<Rightarrow> Inl (err NotFoundK) | Some n \<Rightarrow> Inr n))"

definition stat :: "path \<Rightarrow> store \<Rightarrow> io_error + node" where
  "stat p st =
     (case lstat p st of
        Inr (Link t) \<Rightarrow> (case lstat t st of Inr (Link _) \<Rightarrow> Inl (err ELoop) | r \<Rightarrow> r)
      | r \<Rightarrow> r)"

definition children :: "path \<Rightarrow> store \<Rightarrow> string list" where
  "children p st = map last (filter (\<lambda>q. q \<noteq> [] \<and> butlast q = p) (map fst st))"

definition occupied_below :: "path \<Rightarrow> store \<Rightarrow> bool" where
  "occupied_below p st \<longleftrightarrow> (\<exists>q\<in>set (map fst st). below p q)"

text \<open>The parent directory a new entry needs.\<close>

definition entry_slot :: "path \<Rightarrow> store \<Rightarrow> io_error + unit" where
  "entry_slot p st =
     (case walk st [] p of
        Inl e \<Rightarrow> Inl e
      | Inr _ \<Rightarrow>
          (case lookup st (butlast p) of
             Some Dir \<Rightarrow> Inr ()
           | Some _ \<Rightarrow> Inl (err NotADirectoryK)
           | None \<Rightarrow> Inl (err NotFoundK)))"

definition mkdir :: "path \<Rightarrow> store \<Rightarrow> io_error + unit \<times> store" where
  "mkdir p st =
     (case entry_slot p st of
        Inl e \<Rightarrow> Inl e
      | Inr _ \<Rightarrow> if p = [] \<or> lookup st p \<noteq> None then Inl (err AlreadyExistsK)
                 else Inr ((), (p, Dir) # st))"

definition delete_key :: "path \<Rightarrow> store \<Rightarrow> store" where
  "delete_key p st = filter (\<lambda>(q, _). q \<noteq> p) st"

definition rmdir :: "path \<Rightarrow> store \<Rightarrow> io_error + unit \<times> store" where
  "rmdir p st =
     (case lstat p st of
        Inl e \<Rightarrow> Inl e
      | Inr Dir \<Rightarrow> if p = [] \<or> occupied_below p st then Inl (err DirectoryNotEmptyK)
                   else Inr ((), delete_key p st)
      | Inr _ \<Rightarrow> Inl (err NotADirectoryK))"

definition unlink :: "path \<Rightarrow> store \<Rightarrow> io_error + unit \<times> store" where
  "unlink p st =
     (case lstat p st of
        Inl e \<Rightarrow> Inl e
      | Inr Dir \<Rightarrow> Inl (err IsADirectoryK)
      | Inr _ \<Rightarrow> Inr ((), delete_key p st))"

text \<open>\<open>remove_dir_all\<close>: nested links are unlinked, not followed.\<close>

definition rmtree :: "path \<Rightarrow> store \<Rightarrow> io_error + unit \<times> store" where
  "rmtree p st =
     (case lstat p st of
        Inl e \<Rightarrow> Inl e
      | Inr Dir \<Rightarrow> if p = [] then Inl (err InvalidInputK)
                   else Inr ((), filter (\<lambda>(q, _). \<not> is_prefix p q) st)
      | Inr _ \<Rightarrow> Inl (err NotADirectoryK))"

definition rebase :: "path \<Rightarrow> path \<Rightarrow> path \<Rightarrow> path" where
  "rebase src dst p = (if is_prefix src p then dst @ drop (length src) p else p)"

definition move :: "path \<Rightarrow> path \<Rightarrow> store \<Rightarrow> store" where
  "move src dst st = map (\<lambda>(p, n). (rebase src dst p, n)) (delete_key dst st)"

definition mv :: "(path \<Rightarrow> nat) \<Rightarrow> path \<Rightarrow> path \<Rightarrow> store \<Rightarrow> io_error + unit \<times> store" where
  "mv dev src dst st =
     (case lstat src st of
        Inl e \<Rightarrow> Inl e
      | Inr n \<Rightarrow>
          (case entry_slot dst st of
             Inl e \<Rightarrow> Inl e
           | Inr _ \<Rightarrow>
               if dev src \<noteq> dev dst then Inl (err CrossesDevicesK)
               else if src = dst then Inr ((), st)
               else if is_prefix src dst \<or> src = [] \<or> dst = [] then Inl (err InvalidInputK)
               else
                 (case (n, lookup st dst) of
                    (_, None) \<Rightarrow> Inr ((), move src dst st)
                  | (Dir, Some Dir) \<Rightarrow>
                      if occupied_below dst st then Inl (err DirectoryNotEmptyK)
                      else Inr ((), move src dst st)
                  | (Dir, Some _) \<Rightarrow> Inl (err NotADirectoryK)
                  | (_, Some Dir) \<Rightarrow> Inl (err IsADirectoryK)
                  | (_, Some _) \<Rightarrow> Inr ((), move src dst st))))"

definition set_node :: "path \<Rightarrow> node \<Rightarrow> store \<Rightarrow> store" where
  "set_node p n st = map (\<lambda>(q, m). if q = p then (q, n) else (q, m)) st"

text \<open>Creating or truncating a regular file for writing.\<close>

definition put_file :: "path \<Rightarrow> file_data \<Rightarrow> store \<Rightarrow> io_error + unit \<times> store" where
  "put_file p d st =
     (case entry_slot p st of
        Inl e \<Rightarrow> Inl e
      | Inr _ \<Rightarrow>
          (case lookup st p of
             None \<Rightarrow> Inr ((), (p, File d) # st)
           | Some (File _) \<Rightarrow> Inr ((), set_node p (File d) st)
           | Some Dir \<Rightarrow> Inl (err IsADirectoryK)
           | Some (Link _) \<Rightarrow> Inl (err ELoop)
           | Some Special \<Rightarrow> Inl (err OtherK)))"

text \<open>\<open>create_dir_all\<close>: each missing component in turn; an existing one must be a directory.\<close>

fun mkdirs_from :: "path \<Rightarrow> path \<Rightarrow> store \<Rightarrow> io_error + unit \<times> store" where
  "mkdirs_from cur [] st = Inr ((), st)"
| "mkdirs_from cur (c # cs) st =
     (case lookup st (cur @ [c]) of
        None \<Rightarrow> (case mkdir (cur @ [c]) st of
                   Inl e \<Rightarrow> Inl e
                 | Inr (_, st') \<Rightarrow> mkdirs_from (cur @ [c]) cs st')
      | Some Dir \<Rightarrow> mkdirs_from (cur @ [c]) cs st
      | Some (Link _) \<Rightarrow> Inl (err ELoop)
      | Some _ \<Rightarrow> Inl (err (if cs = [] then AlreadyExistsK else NotADirectoryK)))"

section \<open>Calls that may fail for outside reasons\<close>

record fs =
  store :: store
  device :: "path \<Rightarrow> nat"
  faults :: "io_error option list"

type_synonym ('a, 'z) io = "'z fs_scheme \<Rightarrow> (io_error + 'a) \<times> 'z fs_scheme"

definition syscall :: "('z fs_scheme \<Rightarrow> io_error + 'a \<times> store) \<Rightarrow> ('a, 'z) io" where
  "syscall f s =
     (case faults s of
        Some e # r \<Rightarrow> (Inl e, s\<lparr>faults := r\<rparr>)
      | fl \<Rightarrow>
          (case f s of
             Inl e \<Rightarrow> (Inl e, s\<lparr>faults := tl fl\<rparr>)
           | Inr (x, st) \<Rightarrow> (Inr x, s\<lparr>store := st, faults := tl fl\<rparr>)))"

definition query :: "(store \<Rightarrow> io_error + 'a) \<Rightarrow> ('a, 'z) io" where
  "query f = syscall (\<lambda>s. case f (store s) of Inl e \<Rightarrow> Inl e | Inr x \<Rightarrow> Inr (x, store s))"

text \<open>
  An outside failure is honest if it does not claim that a path is absent or present: \<open>ENOENT\<close>
  and \<open>EEXIST\<close> report the store, and only it.
\<close>

definition honest :: "'z fs_scheme \<Rightarrow> bool" where
  "honest s \<longleftrightarrow> (\<forall>e. Some e \<in> set (faults s) \<longrightarrow> io_kind e \<noteq> NotFoundK \<and> io_kind e \<noteq> AlreadyExistsK)"

definition symlink_metadata :: "path \<Rightarrow> (node, 'z) io" where
  "symlink_metadata p = query (lstat p)"

definition metadata :: "path \<Rightarrow> (node, 'z) io" where
  "metadata p = query (stat p)"

definition create_dir :: "path \<Rightarrow> (unit, 'z) io" where
  "create_dir p = syscall (\<lambda>s. mkdir p (store s))"

definition create_dir_all :: "path \<Rightarrow> (unit, 'z) io" where
  "create_dir_all p = syscall (\<lambda>s. mkdirs_from [] p (store s))"

definition remove_dir :: "path \<Rightarrow> (unit, 'z) io" where
  "remove_dir p = syscall (\<lambda>s. rmdir p (store s))"

definition remove_file :: "path \<Rightarrow> (unit, 'z) io" where
  "remove_file p = syscall (\<lambda>s. unlink p (store s))"

definition remove_dir_all :: "path \<Rightarrow> (unit, 'z) io" where
  "remove_dir_all p = syscall (\<lambda>s. rmtree p (store s))"

definition rename :: "path \<Rightarrow> path \<Rightarrow> (unit, 'z) io" where
  "rename src dst = syscall (\<lambda>s. mv (device s) src dst (store s))"

definition read_dir :: "path \<Rightarrow> (string list, 'z) io" where
  "read_dir p = query (\<lambda>st. case lstat p st of
       Inl e \<Rightarrow> Inl e
     | Inr Dir \<Rightarrow> Inr (children p st)
     | Inr _ \<Rightarrow> Inl (err NotADirectoryK))"

definition write_file :: "path \<Rightarrow> file_data \<Rightarrow> (unit, 'z) io" where
  "write_file p d = syscall (\<lambda>s. put_file p d (store s))"

text \<open>\<open>fsync\<close>, \<open>syncfs\<close>: they only report.\<close>

definition sync_path :: "path \<Rightarrow> (unit, 'z) io" where
  "sync_path p = query (\<lambda>st. case lstat p st of Inl e \<Rightarrow> Inl e | Inr _ \<Rightarrow> Inr ())"

text \<open>The \<open>map_err\<close> of the sources: an internal error that names the failed step.\<close>

definition internal :: "string \<Rightarrow> io_error \<Rightarrow> app_error" where
  "internal what e = Internal (what @ '': '' @ io_text e)"

section \<open>Sequencing fallible effects\<close>

text \<open>
  An operation of a component returns its result and the new state; an error keeps the state
  reached so far.
\<close>

definition bindS :: "('s \<Rightarrow> ('e + 'a) \<times> 's) \<Rightarrow> ('a \<Rightarrow> 's \<Rightarrow> ('e + 'b) \<times> 's) \<Rightarrow> 's \<Rightarrow> ('e + 'b) \<times> 's" where
  "bindS m f s = (case m s of (Inl e, s') \<Rightarrow> (Inl e, s') | (Inr x, s') \<Rightarrow> f x s')"

definition mapErr :: "('e \<Rightarrow> 'f) \<Rightarrow> ('s \<Rightarrow> ('e + 'a) \<times> 's) \<Rightarrow> 's \<Rightarrow> ('f + 'a) \<times> 's" where
  "mapErr g m s = (case m s of (Inl e, s') \<Rightarrow> (Inl (g e), s') | (Inr x, s') \<Rightarrow> (Inr x, s'))"

definition okS :: "'a \<Rightarrow> 's \<Rightarrow> ('e + 'a) \<times> 's" where
  "okS x s = (Inr x, s)"

definition failS :: "'e \<Rightarrow> 's \<Rightarrow> ('e + 'a) \<times> 's" where
  "failS e s = (Inl e, s)"

definition liftR :: "'e + 'a \<Rightarrow> 's \<Rightarrow> ('e + 'a) \<times> 's" where
  "liftR r s = (r, s)"

fun mapS :: "('a \<Rightarrow> 's \<Rightarrow> ('e + 'b) \<times> 's) \<Rightarrow> 'a list \<Rightarrow> 's \<Rightarrow> ('e + 'b list) \<times> 's" where
  "mapS f [] = okS []"
| "mapS f (x # xs) = bindS (f x) (\<lambda>y. bindS (mapS f xs) (\<lambda>ys. okS (y # ys)))"

fun forS :: "('a \<Rightarrow> 's \<Rightarrow> ('e + unit) \<times> 's) \<Rightarrow> 'a list \<Rightarrow> 's \<Rightarrow> ('e + unit) \<times> 's" where
  "forS f [] = okS ()"
| "forS f (x # xs) = bindS (f x) (\<lambda>_. forS f xs)"

text \<open>
  A state relation that every step respects is respected by a sequence, whatever the results:
  the rule by which frame properties and invariants pass through an operation.
\<close>

definition keeps :: "('s \<Rightarrow> 's \<Rightarrow> bool) \<Rightarrow> ('s \<Rightarrow> 'r \<times> 's) \<Rightarrow> bool" where
  "keeps R m \<longleftrightarrow> (\<forall>s. R s (snd (m s)))"

lemma keepsD: "keeps R m \<Longrightarrow> m s = (r, s') \<Longrightarrow> R s s'"
  by (auto simp: keeps_def dest: spec [of _ s])

lemma keeps_bindS:
  assumes "transp R" and "keeps R m" and "\<And>x. keeps R (f x)"
  shows "keeps R (bindS m f)"
  unfolding keeps_def
proof
  fix s
  show "R s (snd (bindS m f s))"
  proof (cases "m s")
    case (Pair r s1)
    have 1: "R s s1" using assms(2) Pair by (rule keepsD)
    show ?thesis
    proof (cases r)
      case (Inr x)
      have "R s1 (snd (f x s1))" using assms(3) by (auto simp: keeps_def)
      with 1 assms(1) show ?thesis by (auto simp: bindS_def Pair Inr dest: transpD)
    qed (simp add: bindS_def Pair 1)
  qed
qed

lemma keeps_mapErr: "keeps R m \<Longrightarrow> keeps R (mapErr g m)"
  by (auto simp: keeps_def mapErr_def split: prod.splits sum.splits) (metis snd_conv)+

lemma keeps_pure:
  assumes "reflp R"
  shows "keeps R (okS x)" "keeps R (failS e)" "keeps R (liftR r)"
  using assms by (auto simp: keeps_def okS_def failS_def liftR_def reflp_def)

lemma keeps_forS:
  assumes "transp R" "reflp R" and "\<And>x. x \<in> set xs \<Longrightarrow> keeps R (f x)"
  shows "keeps R (forS f xs)"
  using assms(3)
proof (induction xs)
  case Nil
  then show ?case using assms(2) by (simp add: keeps_pure)
next
  case (Cons x xs)
  then have "keeps R (f x)" "keeps R (forS f xs)" by auto
  then show ?case using assms(1) by (simp add: keeps_bindS)
qed

lemma keeps_mapS:
  assumes "transp R" "reflp R" and "\<And>x. x \<in> set xs \<Longrightarrow> keeps R (f x)"
  shows "keeps R (mapS f xs)"
  using assms(3)
proof (induction xs)
  case Nil
  then show ?case using assms(2) by (simp add: keeps_pure)
next
  case (Cons x xs)
  then have "keeps R (f x)" "keeps R (mapS f xs)" by auto
  then show ?case using assms(1,2) by (simp add: keeps_bindS keeps_pure)
qed

lemma keeps_query: "(\<And>s r. R s (s\<lparr>faults := r\<rparr>)) \<Longrightarrow> keeps R (query f)"
proof -
  assume R: "\<And>s r. R s (s\<lparr>faults := r\<rparr>)"
  have "R s (snd (query f s))" for s
    using R [of s "tl (faults s)"]
    by (auto simp: query_def syscall_def split: list.splits option.splits sum.splits)
  then show ?thesis by (simp add: keeps_def)
qed

end
