(* ===== verification/Store_Facts.thy ===== *)
theory Store_Facts
  imports FileSystem
begin

text \<open>
  Facts about stores and calls that the components share: path resolution in a well-formed
  store, preservation of well-formedness by every call, and the inverse laws that make rollback
  work (\<open>rmdir\<close> undoes \<open>mkdir\<close>, a rename back undoes a rename to a free name).
\<close>

section \<open>Paths\<close>

lemma below_append: "below p q \<longleftrightarrow> (\<exists>r. r \<noteq> [] \<and> q = p @ r)"
  by (auto simp: below_def is_prefix_iff)

lemma below_butlast: "p \<noteq> [] \<Longrightarrow> below (butlast p) p"
  unfolding below_append by (rule exI [of _ "[last p]"]) simp

lemma is_prefix_butlast: "is_prefix p (butlast q) \<Longrightarrow> is_prefix p q"
  by (auto simp: is_prefix_iff) (metis append_butlast_last_id append_assoc append_Nil2 butlast.simps(1))

lemma is_prefix_iff_butlast: "is_prefix p q \<longleftrightarrow> p = q \<or> (q \<noteq> [] \<and> is_prefix p (butlast q))"
proof (cases q rule: rev_cases)
  case (snoc r x)
  show ?thesis
  proof
    assume "is_prefix p q"
    then obtain t where t: "q = p @ t" by (auto simp: is_prefix_iff)
    show "p = q \<or> (q \<noteq> [] \<and> is_prefix p (butlast q))"
      by (cases t rule: rev_cases) (auto simp: t is_prefix_iff butlast_append)
  qed (auto intro: is_prefix_butlast)
qed (auto simp: is_prefix_iff)

lemma is_prefix_trans: "is_prefix p q \<Longrightarrow> is_prefix q r \<Longrightarrow> is_prefix p r"
  by (auto simp: is_prefix_iff)

lemma is_prefix_antisym: "is_prefix p q \<Longrightarrow> is_prefix q p \<Longrightarrow> p = q"
  by (auto simp: is_prefix_iff)

lemma rebase_simps [simp]:
  "rebase src dst (src @ r) = dst @ r" "rebase src dst src = dst"
  "\<not> is_prefix src p \<Longrightarrow> rebase src dst p = p"
  by (auto simp: rebase_def is_prefix_def)

section \<open>Resolution in a well-formed store\<close>

lemma store_okD:
  assumes "store_ok st"
  shows "distinct (map fst st)" "lookup st [] = Some Dir"
    "\<And>p n. lookup st p = Some n \<Longrightarrow> p \<noteq> [] \<Longrightarrow> lookup st (butlast p) = Some Dir"
  using assms by (auto simp: store_ok_def)

lemma store_ok_code [code]:
  "store_ok st \<longleftrightarrow> distinct (map fst st) \<and> lookup st [] = Some Dir \<and>
     list_all (\<lambda>(p, n). p = [] \<or> lookup st (butlast p) = Some Dir) st"
proof (cases "distinct (map fst st)")
  case True
  then have "\<And>p n. lookup st p = Some n \<longleftrightarrow> (p, n) \<in> set st" by (simp add: map_of_eq_Some_iff)
  then show ?thesis by (force simp: store_ok_def list_all_iff)
qed (simp add: store_ok_def)

lemma honest_code [code]:
  "honest s \<longleftrightarrow> list_all (\<lambda>f. case f of None \<Rightarrow> True
     | Some e \<Rightarrow> io_kind e \<noteq> NotFoundK \<and> io_kind e \<noteq> AlreadyExistsK) (faults s)"
  by (auto simp: honest_def list_all_iff split: option.splits)

lemma lookup_above:
  assumes "store_ok st" "lookup st (p @ r) = Some n" "r \<noteq> []"
  shows "lookup st p = Some Dir"
  using assms(2,3)
proof (induction r arbitrary: n rule: rev_induct)
  case (snoc x r)
  have "lookup st (p @ r) = Some Dir"
    using store_okD(3) [OF assms(1) snoc.prems(1)] by (simp add: butlast_append)
  then show ?case using snoc.IH by (cases "r = []") auto
qed simp

lemma lookup_below_Dir:
  "store_ok st \<Longrightarrow> lookup st q = Some n \<Longrightarrow> below p q \<Longrightarrow> lookup st p = Some Dir"
  by (auto simp: below_append intro: lookup_above)

lemma not_occupied: "store_ok st \<Longrightarrow> lookup st p \<noteq> Some Dir \<Longrightarrow> \<not> occupied_below p st"
proof
  assume ok: "store_ok st" and nd: "lookup st p \<noteq> Some Dir" and "occupied_below p st"
  then obtain q where q: "q \<in> fst ` set st" "below p q" by (auto simp: occupied_below_def)
  then obtain n where "lookup st q = Some n" by (auto dest: weak_map_of_SomeI)
  with ok q(2) nd show False by (auto dest: lookup_below_Dir)
qed

lemma walk_ok:
  assumes "\<And>p r. r \<noteq> [] \<Longrightarrow> ds = p @ r \<Longrightarrow> p \<noteq> [] \<Longrightarrow> lookup st (cur @ p) = Some Dir"
  shows "walk st cur ds = Inr ()"
  using assms
proof (induction st cur ds rule: walk.induct)
  case (3 st cur c d cs)
  have D: "lookup st (cur @ [c]) = Some Dir" by (rule "3.prems" [of "d # cs" "[c]"]) auto
  have "walk st (cur @ [c]) (d # cs) = Inr ()"
  proof (rule "3.IH" [OF D refl])
    fix p r assume pr: "r \<noteq> []" "d # cs = p @ r" "p \<noteq> []"
    show "lookup st ((cur @ [c]) @ p) = Some Dir"
      using "3.prems" [of r "c # p"] pr by simp
  qed
  with D show ?case by simp
qed auto

lemma walk_slot:
  assumes "store_ok st" "lookup st (butlast p) = Some Dir"
  shows "walk st [] p = Inr ()"
proof (rule walk_ok)
  fix q r assume qr: "r \<noteq> []" "p = q @ r" "q \<noteq> []"
  have b: "butlast p = q @ butlast r" using qr by (simp add: butlast_append)
  show "lookup st ([] @ q) = Some Dir"
  proof (cases "butlast r = []")
    case True
    with assms(2) b show ?thesis by simp
  next
    case False
    with assms b show ?thesis using lookup_above by fastforce
  qed
qed

lemma walk_present: "store_ok st \<Longrightarrow> lookup st p = Some n \<Longrightarrow> walk st [] p = Inr ()"
  by (cases "p = []") (auto intro: walk_slot dest: store_okD(3))

lemma lstat_Inr:
  assumes "store_ok st" shows "lstat p st = Inr n \<longleftrightarrow> lookup st p = Some n"
  using walk_present [OF assms] by (auto simp: lstat_def split: sum.splits option.splits)

lemma lstat_present [simp]: "store_ok st \<Longrightarrow> lookup st p = Some n \<Longrightarrow> lstat p st = Inr n"
  by (simp add: lstat_Inr)

lemma lstat_None:
  assumes "store_ok st" "lookup st p = None" "lookup st (butlast p) = Some Dir"
  shows "lstat p st = Inl (err NotFoundK)"
  using walk_slot [OF assms(1,3)] assms(2) by (simp add: lstat_def)

lemma entry_slot_Inr:
  assumes "store_ok st" shows "entry_slot p st = Inr () \<longleftrightarrow> lookup st (butlast p) = Some Dir"
  using walk_slot [OF assms]
  by (auto simp: entry_slot_def split: sum.splits option.splits node.splits)

section \<open>Lookups after a call\<close>

lemma lookup_delete_key: "lookup (delete_key p st) q = (if q = p then None else lookup st q)"
  by (induction st) (auto simp: delete_key_def)

lemma delete_key_absent: "p \<notin> fst ` set st \<Longrightarrow> delete_key p st = st"
  unfolding delete_key_def by (rule filter_True) force

lemma lookup_None_notin: "lookup st p = None \<longleftrightarrow> p \<notin> fst ` set st"
  by (simp add: map_of_eq_None_iff)

lemma lookup_filter_prefix:
  "lookup (filter (\<lambda>(q, _). \<not> is_prefix p q) st) q = (if is_prefix p q then None else lookup st q)"
  by (induction st) auto

lemma lookup_set_node:
  "lookup (set_node p n st) q = (if q = p \<and> lookup st p \<noteq> None then Some n else lookup st q)"
  by (induction st) (auto simp: set_node_def)

lemma keys_set_node [simp]: "map fst (set_node p n st) = map fst st"
  by (induction st) (auto simp: set_node_def)

lemma lookup_rebase_in:
  assumes "\<And>p n. (p, n) \<in> set st \<Longrightarrow> is_prefix dst p \<Longrightarrow> False"
  shows "lookup (map (\<lambda>(p, n). (rebase src dst p, n)) st) (dst @ r) = lookup st (src @ r)"
  using assms
proof (induction st)
  case (Cons x st)
  obtain p n where x: "x = (p, n)" by (cases x)
  have np: "\<not> is_prefix dst p" using Cons.prems [of p n] x by auto
  have "rebase src dst p = dst @ r \<longleftrightarrow> p = src @ r"
  proof (cases "is_prefix src p")
    case True
    then obtain t where "p = src @ t" by (auto simp: is_prefix_iff)
    then show ?thesis by simp
  next
    case False
    with np show ?thesis by auto
  qed
  moreover have "lookup (map (\<lambda>(p, n). (rebase src dst p, n)) st) (dst @ r) = lookup st (src @ r)"
    using Cons by (auto intro: Cons.IH)
  ultimately show ?case by (cases "p = src @ r") (auto simp: x)
qed simp

lemma lookup_rebase_out:
  assumes "\<not> is_prefix dst q"
  shows "lookup (map (\<lambda>(p, n). (rebase src dst p, n)) st) q
         = (if is_prefix src q then None else lookup st q)"
proof (induction st)
  case (Cons x st)
  obtain p n where x: "x = (p, n)" by (cases x)
  show ?case
  proof (cases "is_prefix src p")
    case True
    then obtain t where p: "p = src @ t" by (auto simp: is_prefix_iff)
    with assms have "q \<noteq> dst @ t" by auto
    with Cons True show ?thesis by (auto simp: x p)
  next
    case False
    with Cons show ?thesis by (auto simp: x)
  qed
qed simp

text \<open>A move onto a name with nothing at or below it.\<close>

definition vacant :: "path \<Rightarrow> store \<Rightarrow> bool" where
  "vacant p st \<longleftrightarrow> (\<forall>q\<in>fst ` set st. \<not> is_prefix p q)"

lemma vacantI:
  assumes "store_ok st" "lookup st p = None"
  shows "vacant p st"
  unfolding vacant_def
proof
  fix q assume q: "q \<in> fst ` set st"
  show "\<not> is_prefix p q"
  proof
    assume pq: "is_prefix p q"
    have "p \<noteq> q" using q assms(2) by (metis lookup_None_notin)
    with q pq have "occupied_below p st" by (auto simp: occupied_below_def below_def)
    with not_occupied [OF assms(1)] assms(2) show False by simp
  qed
qed

lemma vacant_notin: "vacant p st \<Longrightarrow> p \<notin> fst ` set st"
  using is_prefix_simps(2) unfolding vacant_def by blast

lemma move_vacant: "vacant dst st \<Longrightarrow> move src dst st = map (\<lambda>(p, n). (rebase src dst p, n)) st"
  unfolding move_def by (simp only: delete_key_absent [OF vacant_notin])

lemma lookup_move_in:
  "vacant dst st \<Longrightarrow> lookup (move src dst st) (dst @ r) = lookup st (src @ r)"
  by (simp add: move_vacant) (rule lookup_rebase_in, force simp: vacant_def)

lemma lookup_move_out:
  "vacant dst st \<Longrightarrow> \<not> is_prefix dst q \<Longrightarrow>
   lookup (move src dst st) q = (if is_prefix src q then None else lookup st q)"
  by (simp add: move_vacant lookup_rebase_out)

lemma move_back:
  assumes "vacant dst st" "\<not> is_prefix src dst" "\<not> is_prefix dst src"
  shows "move dst src (move src dst st) = st"
proof -
  let ?st' = "map (\<lambda>(p, n). (rebase src dst p, n)) st"
  have "\<not> is_prefix src (rebase src dst q)" if "\<not> is_prefix dst q" for q
  proof (cases "is_prefix src q")
    case True
    then obtain t where "q = src @ t" by (auto simp: is_prefix_iff)
    moreover have "\<not> is_prefix src (dst @ t)"
    proof
      assume "is_prefix src (dst @ t)"
      then have "is_prefix src dst \<or> is_prefix dst src"
        by (auto simp: is_prefix_iff append_eq_append_conv2)
      with assms(2,3) show False by blast
    qed
    ultimately show ?thesis by simp
  qed simp
  then have v: "vacant src ?st'" using assms(1) by (force simp: vacant_def)
  have "rebase dst src (rebase src dst q) = q" if "\<not> is_prefix dst q" for q
  proof (cases "is_prefix src q")
    case True
    then obtain t where "q = src @ t" by (auto simp: is_prefix_iff)
    then show ?thesis by simp
  qed (use that in simp)
  then have "map (\<lambda>(p, n). (rebase dst src p, n)) ?st' = st"
    using assms(1) by (auto simp: vacant_def intro!: map_idI)
  then show ?thesis using v assms(1) by (simp add: move_vacant)
qed

section \<open>Calls preserve well-formedness\<close>

lemma store_okI:
  assumes "distinct (map fst st)" "lookup st [] = Some Dir"
    "\<And>p n. lookup st p = Some n \<Longrightarrow> p \<noteq> [] \<Longrightarrow> lookup st (butlast p) = Some Dir"
  shows "store_ok st"
  using assms by (auto simp: store_ok_def)

lemma butlast_neq: "p \<noteq> [] \<Longrightarrow> butlast p \<noteq> p"
  by (metis append_butlast_last_id append_self_conv not_Cons_self2)

lemma mkdir_InrE:
  assumes "mkdir p st = Inr ((), st')" "store_ok st"
  shows "p \<noteq> []" "lookup st p = None" "lookup st (butlast p) = Some Dir" "st' = (p, Dir) # st"
  using assms by (auto simp: mkdir_def entry_slot_Inr split: sum.splits if_splits)

lemma mkdir_ok [wf_intros]: "mkdir p st = Inr ((), st') \<Longrightarrow> store_ok st \<Longrightarrow> store_ok st'"
  by (frule (1) mkdir_InrE(4), frule (1) mkdir_InrE(1), frule (1) mkdir_InrE(2), drule (1) mkdir_InrE(3))
     (auto intro!: store_okI simp: store_okD lookup_None_notin butlast_neq split: if_splits)

lemma delete_leaf_ok:
  assumes ok: "store_ok st" and p: "p \<noteq> []" and free: "\<not> occupied_below p st"
  shows "store_ok (delete_key p st)"
proof (rule store_okI)
  show "distinct (map fst (delete_key p st))"
    using store_okD(1) [OF ok] by (induction st) (auto simp: delete_key_def)
  show "lookup (delete_key p st) [] = Some Dir"
    using p store_okD(2) [OF ok] by (simp add: lookup_delete_key)
  fix q n assume q: "lookup (delete_key p st) q = Some n" "q \<noteq> []"
  then have lq: "lookup st q = Some n" by (auto simp: lookup_delete_key split: if_splits)
  have "butlast q \<noteq> p"
  proof
    assume "butlast q = p"
    with below_butlast [OF q(2)] have "below p q" by simp
    moreover have "q \<in> fst ` set st" using lq by (metis lookup_None_notin option.distinct(1))
    ultimately show False using free by (auto simp: occupied_below_def)
  qed
  then show "lookup (delete_key p st) (butlast q) = Some Dir"
    using store_okD(3) [OF ok lq q(2)] by (simp add: lookup_delete_key)
qed

lemma rmdir_InrE:
  assumes "rmdir p st = Inr ((), st')" "store_ok st"
  shows "p \<noteq> []" "lookup st p = Some Dir" "\<not> occupied_below p st" "st' = delete_key p st"
  using assms
  by (auto simp: rmdir_def lstat_Inr split: sum.splits node.splits if_splits)

lemma rmdir_ok [wf_intros]: "rmdir p st = Inr ((), st') \<Longrightarrow> store_ok st \<Longrightarrow> store_ok st'"
  by (metis rmdir_InrE delete_leaf_ok)

lemma unlink_InrE:
  assumes "unlink p st = Inr ((), st')" "store_ok st"
  shows "p \<noteq> []" "lookup st p \<noteq> Some Dir" "lookup st p \<noteq> None" "st' = delete_key p st"
  using assms store_okD(2) [OF assms(2)]
  by (auto simp: unlink_def lstat_Inr split: sum.splits node.splits if_splits)

lemma unlink_ok [wf_intros]: "unlink p st = Inr ((), st') \<Longrightarrow> store_ok st \<Longrightarrow> store_ok st'"
  by (metis unlink_InrE delete_leaf_ok not_occupied)

lemma distinct_move:
  assumes "vacant dst st" "distinct (map fst st)"
  shows "distinct (map fst (move src dst st))"
proof -
  have "inj_on (rebase src dst) (fst ` set st)"
  proof (rule inj_onI)
    fix p q assume p: "p \<in> fst ` set st" and q: "q \<in> fst ` set st"
      and eq: "rebase src dst p = rebase src dst q"
    have "\<not> is_prefix dst p" "\<not> is_prefix dst q" using assms(1) p q by (auto simp: vacant_def)
    then show "p = q" using eq
      by (cases "is_prefix src p"; cases "is_prefix src q") (auto simp: is_prefix_iff rebase_def)
  qed
  moreover have "map fst (move src dst st) = map (rebase src dst) (map fst st)"
    using assms(1) by (auto simp: move_vacant)
  ultimately show ?thesis using assms(2) by (metis distinct_map set_map)
qed

lemma move_ok:
  assumes ok: "store_ok st" and v: "vacant dst st" and slot: "lookup st (butlast dst) = Some Dir"
    and src: "src \<noteq> []" and dst: "dst \<noteq> []" and np: "\<not> is_prefix src dst"
  shows "store_ok (move src dst st)"
proof (rule store_okI)
  show "distinct (map fst (move src dst st))"
    by (rule distinct_move [OF v store_okD(1) [OF ok]])
  show "lookup (move src dst st) [] = Some Dir"
    using src dst store_okD(2) [OF ok] by (auto simp: lookup_move_out [OF v] is_prefix_iff)
  fix q n assume q: "lookup (move src dst st) q = Some n" "q \<noteq> []"
  have nps: "\<not> is_prefix src (butlast dst)" using np is_prefix_butlast by blast
  have npd: "\<not> is_prefix dst (butlast dst)"
    using dst butlast_neq is_prefix_antisym is_prefix_butlast is_prefix_simps(2) by blast
  show "lookup (move src dst st) (butlast q) = Some Dir"
  proof (cases "is_prefix dst q")
    case True
    then obtain r where r: "q = dst @ r" by (auto simp: is_prefix_iff)
    show ?thesis
    proof (cases r rule: rev_cases)
      case Nil
      with r nps npd slot show ?thesis by (simp add: lookup_move_out [OF v])
    next
      case (snoc t x)
      have "lookup st (src @ r) = Some n" using q r by (simp add: lookup_move_in [OF v])
      then have "lookup st (butlast (src @ r)) = Some Dir"
        using store_okD(3) [OF ok] src by blast
      then show ?thesis using r snoc by (simp add: butlast_append lookup_move_in [OF v])
    qed
  next
    case False
    then have ns: "\<not> is_prefix src q" and lq: "lookup st q = Some n"
      using q by (auto simp: lookup_move_out [OF v] split: if_splits)
    have "\<not> is_prefix dst (butlast q)" "\<not> is_prefix src (butlast q)"
      using False ns is_prefix_butlast by blast+
    then show ?thesis
      using store_okD(3) [OF ok lq q(2)] by (simp add: lookup_move_out [OF v])
  qed
qed

text \<open>A rename to a free name, and its inverse.\<close>

lemma mv_vacantE:
  assumes "mv dev src dst st = Inr ((), st')" "store_ok st" "lookup st dst = None"
  shows "\<exists>n. lookup st src = Some n" "lookup st (butlast dst) = Some Dir" "dev src = dev dst"
    "\<not> is_prefix src dst" "src \<noteq> []" "dst \<noteq> []" "st' = move src dst st"
    "\<not> is_prefix dst src"
proof -
  note v = vacantI [OF assms(2,3)]
  obtain n where n: "lookup st src = Some n"
    using assms by (auto simp: mv_def lstat_Inr split: sum.splits)
  then show "\<exists>n. lookup st src = Some n" ..
  have "src \<noteq> dst" using n assms(3) by auto
  then show "lookup st (butlast dst) = Some Dir" "dev src = dev dst"
    "\<not> is_prefix src dst" "src \<noteq> []" "dst \<noteq> []" "st' = move src dst st"
    using assms by (auto simp: mv_def entry_slot_Inr split: sum.splits if_splits node.splits)
  show "\<not> is_prefix dst src"
    using v n by (force simp: vacant_def dest: map_of_SomeD)
qed

lemma mv_vacantI:
  assumes "store_ok st" "lookup st dst = None" "lookup st src = Some n"
    "lookup st (butlast dst) = Some Dir" "dev src = dev dst" "\<not> is_prefix src dst"
    "src \<noteq> []" "dst \<noteq> []"
  shows "mv dev src dst st = Inr ((), move src dst st)"
proof -
  have "lstat src st = Inr n" "entry_slot dst st = Inr ()"
    using assms by (auto simp: entry_slot_Inr)
  moreover have "src \<noteq> dst" using assms(6) by auto
  ultimately show ?thesis using assms by (cases n) (simp_all add: mv_def)
qed

lemma mv_vacant_ok:
  assumes "mv dev src dst st = Inr ((), st')" "store_ok st" "lookup st dst = None"
  shows "store_ok st'"
  using mv_vacantE [OF assms] vacantI [OF assms(2,3)] by (auto intro: move_ok assms(2))

lemma mv_back:
  assumes "mv dev src dst st = Inr ((), st')" "store_ok st" "lookup st dst = None"
  shows "mv dev dst src st' = Inr ((), st)" "lookup st' src = None" "lookup st' dst = lookup st src"
proof -
  note E = mv_vacantE [OF assms] and v = vacantI [OF assms(2,3)]
  have l: "lookup st' (dst @ r) = lookup st (src @ r)" for r
    by (simp add: E(7) lookup_move_in [OF v])
  show 1: "lookup st' src = None" by (simp add: E(7) lookup_move_out [OF v E(8)])
  show 2: "lookup st' dst = lookup st src" using l [of "[]"] by simp
  obtain n where n: "lookup st src = Some n" using E(1) by blast
  have b: "lookup st (butlast src) = Some Dir" using store_okD(3) [OF assms(2) n E(5)] .
  have "\<not> is_prefix dst (butlast src)" using E(8) is_prefix_butlast by blast
  moreover have "\<not> is_prefix src (butlast src)"
    using E(5) butlast_neq is_prefix_antisym is_prefix_butlast is_prefix_simps(2) by blast
  ultimately have slot: "lookup st' (butlast src) = Some Dir"
    using b by (simp add: E(7) lookup_move_out [OF v])
  have "mv dev dst src st' = Inr ((), move dst src st')"
    by (rule mv_vacantI [OF mv_vacant_ok [OF assms] 1 _ slot]) (use 2 n E in auto)
  then show "mv dev dst src st' = Inr ((), st)"
    by (simp add: E(7) move_back [OF v E(4,8)])
qed

lemma mkdir_back:
  assumes "mkdir p st = Inr ((), st')" "store_ok st"
  shows "rmdir p st' = Inr ((), st)"
proof -
  note E = mkdir_InrE [OF assms]
  have ok': "store_ok st'" by (rule mkdir_ok [OF assms])
  have "lstat p st' = Inr Dir" using ok' by (simp add: E(4))
  moreover have "\<not> occupied_below p st'"
    using not_occupied [OF assms(2), of p] E(2) by (auto simp: E(4) occupied_below_def below_def)
  moreover have "delete_key p st' = st"
    using E(2) by (simp add: E(4) delete_key_def lookup_None_notin)
      (rule filter_True, force)
  ultimately show ?thesis using E(1) by (simp add: rmdir_def)
qed

section \<open>Outside failures\<close>

definition calm :: "'z fs_scheme \<Rightarrow> bool" where
  "calm s \<longleftrightarrow> (\<forall>f\<in>set (faults s). f = None)"

lemma calm_honest: "calm s \<Longrightarrow> honest s"
  by (auto simp: calm_def honest_def)

lemma honest_tl: "honest s \<Longrightarrow> honest (s\<lparr>faults := tl (faults s)\<rparr>)"
  by (cases "faults s") (auto simp: honest_def)

lemma calm_tl: "calm s \<Longrightarrow> calm (s\<lparr>faults := tl (faults s)\<rparr>)"
  by (cases "faults s") (auto simp: calm_def)

lemma honest_cong: "faults s' = faults s \<Longrightarrow> honest s' = honest s"
  by (simp add: honest_def)

lemma calm_cong: "faults s' = faults s \<Longrightarrow> calm s' = calm s"
  by (simp add: calm_def)

section \<open>What a call reports and does\<close>

lemma syscall_InrD:
  assumes "syscall f s = (Inr x, s')"
  shows "\<exists>st. f s = Inr (x, st) \<and> s' = s\<lparr>store := st, faults := tl (faults s)\<rparr>"
  using assms by (auto simp: syscall_def split: list.splits option.splits sum.splits)

lemma syscall_InlD:
  assumes "syscall f s = (Inl e, s')"
  shows "s' = s\<lparr>faults := tl (faults s)\<rparr> \<and> (Some e \<in> set (faults s) \<or> f s = Inl e)"
  using assms by (auto simp: syscall_def split: list.splits option.splits sum.splits)

lemma syscall_calm:
  assumes "calm s"
  shows "syscall f s = (case f s of
           Inl e \<Rightarrow> (Inl e, s\<lparr>faults := tl (faults s)\<rparr>)
         | Inr (x, st) \<Rightarrow> (Inr x, s\<lparr>store := st, faults := tl (faults s)\<rparr>))"
  using assms unfolding syscall_def calm_def by (cases "faults s") (auto split: sum.splits)

lemma set_tl_subset: "x \<in> set (tl xs) \<Longrightarrow> x \<in> set xs"
  by (cases xs) auto

lemma syscall_faults: "faults (snd (syscall f s)) = tl (faults s)"
  by (auto simp: syscall_def split: list.splits option.splits sum.splits)

lemma syscall_device [simp]: "device (snd (syscall f s)) = device s"
  by (auto simp: syscall_def split: list.splits option.splits sum.splits)

lemma syscall_honest: "honest s \<Longrightarrow> honest (snd (syscall f s))"
  unfolding honest_def syscall_faults by (blast dest: set_tl_subset)

lemma syscall_calm_kept: "calm s \<Longrightarrow> calm (snd (syscall f s))"
  unfolding calm_def syscall_faults by (blast dest: set_tl_subset)

lemma query_InrD: "query f s = (Inr x, s') \<Longrightarrow> f (store s) = Inr x \<and> s' = s\<lparr>faults := tl (faults s)\<rparr>"
  unfolding query_def by (drule syscall_InrD) (auto split: sum.splits)

lemma query_InlD:
  "query f s = (Inl e, s') \<Longrightarrow>
   s' = s\<lparr>faults := tl (faults s)\<rparr> \<and> (Some e \<in> set (faults s) \<or> f (store s) = Inl e)"
  unfolding query_def by (drule syscall_InlD) (auto split: sum.splits)

lemma honest_NotFound: "honest s \<Longrightarrow> io_kind e = NotFoundK \<Longrightarrow> Some e \<notin> set (faults s)"
  by (auto simp: honest_def)


lemmas call_defs = create_dir_def create_dir_all_def remove_dir_def remove_file_def
  remove_dir_all_def rename_def write_file_def

lemma rename_InrD:
  "rename a b s = (Inr x, s') \<Longrightarrow>
   \<exists>st. mv (device s) a b (store s) = Inr ((), st) \<and> s' = s\<lparr>store := st, faults := tl (faults s)\<rparr>"
  unfolding rename_def by (drule syscall_InrD) auto

lemma rename_InlD: "rename a b s = (Inl e, s') \<Longrightarrow> s' = s\<lparr>faults := tl (faults s)\<rparr>"
  unfolding rename_def by (drule syscall_InlD) auto

lemma honest_call: "honest s \<Longrightarrow> syscall f s = (r, s') \<Longrightarrow> honest s'"
  using syscall_honest [of s f] by simp

lemma honest_vol_calls:
  "honest s \<Longrightarrow> rename a b s = (r, s') \<Longrightarrow> honest s'"
  "honest s \<Longrightarrow> remove_dir a s = (r2, s') \<Longrightarrow> honest s'"
  "honest s \<Longrightarrow> remove_file a s = (r2, s') \<Longrightarrow> honest s'"
  "honest s \<Longrightarrow> create_dir a s = (r2, s') \<Longrightarrow> honest s'"
  "honest s \<Longrightarrow> symlink_metadata a s = (r3, s') \<Longrightarrow> honest s'"
  "honest s \<Longrightarrow> read_dir a s = (r4, s') \<Longrightarrow> honest s'"
  unfolding call_defs symlink_metadata_def read_dir_def query_def
  by (erule (1) honest_call)+

lemma symlink_metadata_cases:
  assumes "symlink_metadata p s = (r, s')" "honest s"
  shows "s' = s\<lparr>faults := tl (faults s)\<rparr>"
    "r = Inr n \<Longrightarrow> lstat p (store s) = Inr n"
    "r = Inl e \<Longrightarrow> io_kind e = NotFoundK \<Longrightarrow> lstat p (store s) = Inl e"
  using assms unfolding symlink_metadata_def
  by (cases r; auto dest!: query_InrD query_InlD simp: honest_NotFound)+

lemma lstat_NotFound_absent:
  "lstat p st = Inl e \<Longrightarrow> io_kind e = NotFoundK \<Longrightarrow> store_ok st \<Longrightarrow> lookup st p = None"
  by (metis Inl_Inr_False lstat_Inr not_Some_eq)

lemma lstat_Some: "lstat p st = Inr n \<Longrightarrow> lookup st p = Some n"
  by (auto simp: lstat_def split: sum.splits option.splits)

lemma symlink_metadata_state:
  "symlink_metadata p s = (r, s') \<Longrightarrow> s' = s\<lparr>faults := tl (faults s)\<rparr>"
  unfolding symlink_metadata_def by (cases r) (auto dest!: query_InrD query_InlD)

lemma read_dir_state: "read_dir p s = (r, s') \<Longrightarrow> s' = s\<lparr>faults := tl (faults s)\<rparr>"
  unfolding read_dir_def by (cases r) (auto dest!: query_InrD query_InlD)

end
