(* ===== verification/Rollback.thy ===== *)
theory Rollback
  imports Transaction
begin

text \<open>
  Correctness of the commit transaction. The interface \<open>undo_log\<close> states what a log of applied
  changes promises: executing the undo of a change, when it reports success, has the effect of
  its pure counterpart. Its client lemma is that unwinding the log restores the recorded view.
  It is interpreted on the operations of \<open>Transaction\<close>.
\<close>

section \<open>Logs of undoable changes\<close>

fun undo_all :: "('c \<Rightarrow> 'v \<Rightarrow> 'v option) \<Rightarrow> 'c list \<Rightarrow> 'v \<Rightarrow> 'v option" where
  "undo_all u [] v = Some v"
| "undo_all u (c # cs) v = (case u c v of None \<Rightarrow> None | Some w \<Rightarrow> undo_all u cs w)"

fun unwind :: "('c \<Rightarrow> 's \<Rightarrow> ('e + unit) \<times> 's) \<Rightarrow> 'c list \<Rightarrow> 's \<Rightarrow> bool \<times> 's" where
  "unwind ex [] s = (True, s)"
| "unwind ex (c # cs) s =
     (case ex c s of (r, s1) \<Rightarrow> case unwind ex cs s1 of (b, s2) \<Rightarrow> (is_ok r \<and> b, s2))"

locale undo_log =
  fixes view :: "'s \<Rightarrow> 'v"
    and good :: "'s \<Rightarrow> bool"
    and undo :: "'c \<Rightarrow> 'v \<Rightarrow> 'v option"
    and exec :: "'c \<Rightarrow> 's \<Rightarrow> ('e + unit) \<times> 's"
  assumes exec_good: "good s \<Longrightarrow> good (snd (exec c s))"
    and exec_undo: "good s \<Longrightarrow> undo c (view s) = Some v \<Longrightarrow> exec c s = (Inr u, s') \<Longrightarrow> view s' = v"
begin

lemma unwind_restores:
  "good s \<Longrightarrow> undo_all undo cs (view s) = Some v \<Longrightarrow> unwind exec cs s = (True, s') \<Longrightarrow> view s' = v"
proof (induction cs arbitrary: s)
  case (Cons c cs)
  obtain r s1 where e: "exec c s = (r, s1)" by fastforce
  obtain w where w: "undo c (view s) = Some w" "undo_all undo cs w = Some v"
    using Cons.prems(2) by (auto split: option.splits)
  have ok: "is_ok r" and u: "unwind exec cs s1 = (True, s')"
    using Cons.prems(3) e by (auto split: prod.splits)
  then obtain x where "r = Inr x" by (auto simp: is_ok_iff)
  with e have "view s1 = w" using exec_undo [OF Cons.prems(1) w(1)] by simp
  moreover have "good s1" using exec_good [OF Cons.prems(1), of c] e by simp
  ultimately show ?case using Cons.IH u w(2) by blast
qed simp

end

text \<open>A log whose undo also succeeds when no outside failure intervenes.\<close>

locale undo_log_calm = undo_log +
  fixes calm :: "'s \<Rightarrow> bool"
  assumes calm_good: "calm s \<Longrightarrow> good s"
    and exec_calm: "calm s \<Longrightarrow> undo c (view s) = Some v \<Longrightarrow> \<exists>s'. exec c s = (Inr (), s') \<and> calm s'"
begin

lemma unwind_succeeds:
  "calm s \<Longrightarrow> undo_all undo cs (view s) = Some v \<Longrightarrow> \<exists>s'. unwind exec cs s = (True, s')"
proof (induction cs arbitrary: s)
  case (Cons c cs)
  obtain w where w: "undo c (view s) = Some w" "undo_all undo cs w = Some v"
    using Cons.prems(2) by (auto split: option.splits)
  obtain s1 where e: "exec c s = (Inr (), s1)" "calm s1"
    using exec_calm [OF Cons.prems(1) w(1)] by blast
  have "view s1 = w" using exec_undo [OF calm_good [OF Cons.prems(1)] w(1) e(1)] .
  then obtain s' where "unwind exec cs s1 = (True, s')"
    using Cons.IH [OF e(2)] w(2) by auto
  with e show ?case by simp
qed simp

end

section \<open>The pure counterpart of undoing a change\<close>

type_synonym vol = "(path \<Rightarrow> nat) \<times> store"

definition vol :: "'z fs_scheme \<Rightarrow> vol" where
  "vol s = (device s, store s)"

definition mv_free :: "path \<Rightarrow> path \<Rightarrow> vol \<Rightarrow> vol option" where
  "mv_free src dst v =
     (if lookup (snd v) dst = None
      then case mv (fst v) src dst (snd v) of Inr (_, st) \<Rightarrow> Some (fst v, st) | Inl _ \<Rightarrow> None
      else None)"

fun undo_vol :: "applied_change \<Rightarrow> vol \<Rightarrow> vol option" where
  "undo_vol (Created t) v =
     (case rmdir t (snd v) of Inr (_, st) \<Rightarrow> Some (fst v, st) | Inl _ \<Rightarrow> None)"
| "undo_vol (Replaced t b) v = mv_free b t v"
| "undo_vol (Installed t sg bk) v =
     (case mv_free t sg v of
        None \<Rightarrow> None
      | Some w \<Rightarrow> (case bk of None \<Rightarrow> Some w | Some b \<Rightarrow> mv_free b t w))"

section \<open>Executing an undo\<close>

lemma rename_view:
  assumes "rename a b s = (Inr x, s')" "mv_free a b (vol s) = Some v"
  shows "vol s' = v"
  using rename_InrD [OF assms(1)] assms(2)
  by (auto simp: mv_free_def vol_def split: if_splits sum.splits)

lemma remove_created_undo:
  assumes "honest s" "undo_vol (Created t) (vol s) = Some v" "remove_created_path t s = (Inr u, s')"
  shows "vol s' = v"
proof -
  obtain r s1 where r: "remove_dir t s = (r, s1)" by fastforce
  obtain st where st: "rmdir t (store s) = Inr ((), st)" "v = (device s, st)"
    using assms(2) by (auto simp: vol_def split: sum.splits)
  show ?thesis
  proof (cases r)
    case (Inr x)
    then show ?thesis
      using assms(3) r st unfolding remove_created_path_def remove_dir_def
      by (auto dest!: syscall_InrD simp: vol_def)
  next
    case (Inl e)
    then have "io_kind e = NotFoundK"
      using assms(3) r by (auto simp: remove_created_path_def split: if_splits)
    with Inl r st assms(1) show ?thesis
      unfolding remove_dir_def by (auto dest!: syscall_InlD simp: honest_NotFound)
  qed
qed

lemma replacement_target_view:
  assumes "honest s" "lookup (store s) t = None" "remove_replacement_target t s = (Inr u, s')"
  shows "vol s' = vol s"
proof -
  obtain r s1 where r: "symlink_metadata t s = (r, s1)" by fastforce
  note c = symlink_metadata_cases [OF r assms(1)]
  have "\<nexists>n. r = Inr n" using c(2) assms(2) lstat_Some by fastforce
  then show ?thesis using assms(3) r c(1)
    by (cases r) (auto simp: remove_replacement_target_def vol_def split: if_splits)
qed

lemma honest_remove_replacement:
  "honest s \<Longrightarrow> remove_replacement_target t s = (r, s') \<Longrightarrow> honest s'"
  by (auto simp: remove_replacement_target_def mapErr_def split: prod.splits sum.splits if_splits
      dest: honest_vol_calls)

lemma undo_change_honest:
  assumes "honest s" shows "honest (snd (undo_change c s))"
proof (cases c)
  case (Created t)
  then show ?thesis using assms
    by (auto simp: remove_created_path_def split: prod.splits sum.splits if_splits dest: honest_vol_calls)
next
  case (Replaced t b)
  then show ?thesis using assms
    by (auto simp: mapErr_def split: prod.splits sum.splits
        dest: honest_vol_calls honest_remove_replacement)
next
  case (Installed t sg bk)
  then show ?thesis using assms
    by (auto simp: mapErr_def split: prod.splits sum.splits option.splits dest: honest_vol_calls)
qed

lemma undo_change_view:
  assumes h: "honest s" and u: "undo_vol c (vol s) = Some v" and e: "undo_change c s = (Inr u', s')"
  shows "vol s' = v"
proof (cases c)
  case (Created t)
  with h u e show ?thesis using remove_created_undo by fastforce
next
  case (Replaced t b)
  have n: "lookup (store s) t = None"
    using u Replaced by (auto simp: mv_free_def vol_def split: if_splits)
  obtain s1 where s1: "remove_replacement_target t s = (Inr (), s1)"
    and r: "rename b t s1 = (Inr (), s')"
    using e Replaced by (auto simp: mapErr_def split: prod.splits sum.splits)
  have "mv_free b t (vol s1) = Some v"
    using u Replaced replacement_target_view [OF h n s1] by simp
  with rename_view [OF r] show ?thesis by simp
next
  case (Installed t sg bk)
  obtain w where w: "mv_free t sg (vol s) = Some w"
    and v: "(case bk of None \<Rightarrow> Some w | Some b \<Rightarrow> mv_free b t w) = Some v"
    using u Installed by (auto split: option.splits)
  obtain s1 where s1: "rename t sg s = (Inr (), s1)"
    and s': "(case bk of Some b \<Rightarrow> mapErr (internal ''failed to restore replaced path'') (rename b t) s1
              | None \<Rightarrow> (Inr (), s1)) = (Inr u', s')"
    using e Installed by (auto simp: mapErr_def split: prod.splits sum.splits)
  have w1: "vol s1 = w" by (rule rename_view [OF s1 w])
  show ?thesis
  proof (cases bk)
    case None
    with s' v w1 show ?thesis by simp
  next
    case (Some b)
    then have "rename b t s1 = (Inr (), s')"
      using s' by (auto simp: mapErr_def split: prod.splits sum.splits)
    with rename_view v Some w1 show ?thesis by fastforce
  qed
qed

text \<open>Without outside failures every recorded change can be undone.\<close>

lemma rename_calm:
  assumes "calm s" "mv_free a b (vol s) = Some v"
  shows "\<exists>s'. rename a b s = (Inr (), s') \<and> calm s' \<and> vol s' = v"
proof -
  obtain st where "mv (device s) a b (store s) = Inr ((), st)"
    using assms(2) by (auto simp: mv_free_def vol_def split: if_splits sum.splits)
  then have r: "rename a b s = (Inr (), s\<lparr>store := st, faults := tl (faults s)\<rparr>)"
    using assms(1) by (simp add: rename_def syscall_calm)
  moreover have "calm (s\<lparr>store := st, faults := tl (faults s)\<rparr>)"
    using calm_tl [OF assms(1)] by (simp add: calm_def)
  ultimately show ?thesis using rename_view [OF r assms(2)] by blast
qed

lemma replacement_target_calm:
  assumes "calm s" "mv_free b t (vol s) = Some v"
  shows "\<exists>s'. remove_replacement_target t s = (Inr (), s') \<and> calm s' \<and> vol s' = vol s"
proof -
  have n: "lookup (store s) t = None" and "\<exists>st. mv (device s) b t (store s) = Inr ((), st)"
    using assms(2) by (auto simp: mv_free_def vol_def split: if_splits sum.splits)
  then have "walk (store s) [] t = Inr ()"
    by (auto simp: mv_def entry_slot_def split: sum.splits)
  with n have "lstat t (store s) = Inl (err NotFoundK)" by (simp add: lstat_def)
  then have "symlink_metadata t s = (Inl (err NotFoundK), s\<lparr>faults := tl (faults s)\<rparr>)"
    using assms(1) by (simp add: symlink_metadata_def query_def syscall_calm)
  then show ?thesis
    using calm_tl [OF assms(1)] by (simp add: remove_replacement_target_def vol_def)
qed

lemma undo_change_calm:
  assumes "calm s" "undo_vol c (vol s) = Some v"
  shows "\<exists>s'. undo_change c s = (Inr (), s') \<and> calm s'"
proof (cases c)
  case (Created t)
  obtain st where st: "rmdir t (store s) = Inr ((), st)"
    using assms(2) Created by (auto simp: vol_def split: sum.splits)
  then show ?thesis using assms(1) Created calm_tl [OF assms(1)]
    by (simp add: remove_created_path_def remove_dir_def syscall_calm calm_def)
next
  case (Replaced t b)
  then obtain s1 where "remove_replacement_target t s = (Inr (), s1)" "calm s1" "vol s1 = vol s"
    using replacement_target_calm assms by fastforce
  with rename_calm [of s1 b t v] assms(2) Replaced show ?thesis by (auto simp: mapErr_def)
next
  case (Installed t sg bk)
  obtain w where w: "mv_free t sg (vol s) = Some w"
    and v: "(case bk of None \<Rightarrow> Some w | Some b \<Rightarrow> mv_free b t w) = Some v"
    using assms(2) Installed by (auto split: option.splits)
  obtain s1 where s1: "rename t sg s = (Inr (), s1)" "calm s1" "vol s1 = w"
    using rename_calm [OF assms(1) w] by blast
  show ?thesis
  proof (cases bk)
    case (Some b)
    with v s1(3) rename_calm [OF s1(2), of b t v] s1 Installed show ?thesis by (auto simp: mapErr_def)
  qed (use s1 Installed in \<open>simp add: mapErr_def\<close>)
qed

interpretation txlog: undo_log_calm vol honest undo_vol undo_change calm
  by unfold_locales
    (auto intro: undo_change_honest undo_change_view calm_honest undo_change_calm)

section \<open>Rollback\<close>

lemma rollback_loop_unwind:
  "fst (rollback_loop cs errs s) = [] \<longleftrightarrow> errs = [] \<and> fst (unwind undo_change cs s)"
  "snd (rollback_loop cs errs s) = snd (unwind undo_change cs s)"
  by (induction cs arbitrary: errs s) (auto split: prod.splits sum.splits)

definition undoable :: "vol \<Rightarrow> 'z txn_scheme \<Rightarrow> bool" where
  "undoable v s \<longleftrightarrow> undo_all undo_vol (changes s) (vol s) = Some v"

lemma rollback_unwind:
  "rollback s = (Inr u, s') \<longleftrightarrow> unwind undo_change (changes s) (s\<lparr>changes := []\<rparr>) = (True, s')"
proof -
  let ?r = "rollback_loop (changes s) [] (s\<lparr>changes := []\<rparr>)"
  have "rollback s = (Inr u, s') \<longleftrightarrow> fst ?r = [] \<and> snd ?r = s'"
    by (cases ?r; cases "fst ?r") (auto simp: rollback_def)
  then show ?thesis by (auto simp: rollback_loop_unwind prod_eq_iff)
qed

lemma rollback_restores:
  assumes "honest s" "undoable v s" "rollback s = (Inr u, s')"
  shows "vol s' = v"
  using txlog.unwind_restores [of "s\<lparr>changes := []\<rparr>" "changes s" v s'] assms
  by (simp add: rollback_unwind undoable_def honest_def vol_def)

lemma rollback_succeeds:
  assumes "calm s" "undoable v s"
  shows "\<exists>s'. rollback s = (Inr (), s')"
  using txlog.unwind_succeeds [of "s\<lparr>changes := []\<rparr>" "changes s" v] assms
  by (simp add: rollback_unwind undoable_def calm_def vol_def)

end
