(* ===== verification/Commit_Undo.thy ===== *)
theory Commit_Undo
  imports Rollback
begin

text \<open>
  Every operation of the transaction keeps the log undoable: whatever it returns, and whatever
  outside failure interrupts it, undoing the recorded changes leads back to the same store.
\<close>

definition apart :: "path \<Rightarrow> path \<Rightarrow> bool" where
  "apart p q \<longleftrightarrow> \<not> is_prefix p q \<and> \<not> is_prefix q p"

lemma apart_sym: "apart p q \<longleftrightarrow> apart q p"
  by (auto simp: apart_def)

lemma apart_child: "apart p root \<Longrightarrow> \<not> is_prefix p (root @ [x])"
  by (auto simp: apart_def is_prefix_iff append_eq_append_conv2 Cons_eq_append_conv)

text \<open>
  The state of a running transaction: the store is well-formed, outside failures are honest and
  the backup names still to be issued are unused.
\<close>

definition fresh_backups :: "(nat \<Rightarrow> string) \<Rightarrow> 'z txn_scheme \<Rightarrow> bool" where
  "fresh_backups uuid s \<longleftrightarrow>
     (\<forall>n\<ge>issued s. lookup (store s) (backup_root s @ [uuid n]) = None)"

definition tx_inv :: "(nat \<Rightarrow> string) \<Rightarrow> path \<Rightarrow> vol \<Rightarrow> 'z txn_scheme \<Rightarrow> bool" where
  "tx_inv uuid root v s \<longleftrightarrow>
     inj uuid \<and> backup_root s = root \<and> store_ok (store s) \<and> honest s \<and> fresh_backups uuid s \<and>
     undoable v s"

lemma tx_invD:
  assumes "tx_inv uuid root v s"
  shows "inj uuid" "backup_root s = root" "store_ok (store s)" "honest s" "fresh_backups uuid s"
    "undoable v s"
  using assms by (auto simp: tx_inv_def)

lemma tx_inv_faults [wf_intros]:
  "tx_inv uuid root v s \<Longrightarrow> tx_inv uuid root v (s\<lparr>faults := tl (faults s)\<rparr>)"
  using honest_tl [of s]
  by (auto simp: tx_inv_def fresh_backups_def undoable_def vol_def)

lemma undoable_push:
  "undo_vol c (vol s) = Some w \<Longrightarrow> undo_all undo_vol (changes s) w = Some v \<Longrightarrow>
   undoable v (push_change c s)"
  by (simp add: undoable_def push_change_def vol_def)

subsection \<open>Recording a created directory\<close>

lemma tx_inv_created:
  assumes I: "tx_inv uuid root v s" and m: "mkdir t (store s) = Inr ((), st)" and a: "apart t root"
  shows "tx_inv uuid root v (push_change (Created t) (s\<lparr>store := st, faults := tl (faults s)\<rparr>))"
    (is "tx_inv _ _ _ (push_change _ ?s)")
proof -
  note D = tx_invD [OF I] and E = mkdir_InrE [OF m tx_invD(3) [OF I]]
  have u: "undo_vol (Created t) (vol ?s) = Some (vol s)"
    using mkdir_back [OF m D(3)] by (simp add: vol_def)
  have "undoable v (push_change (Created t) ?s)"
    by (rule undoable_push [OF u]) (use D(6) in \<open>simp add: undoable_def\<close>)
  moreover have "fresh_backups uuid ?s"
    using D(2,5) a by (auto simp: fresh_backups_def E(4) apart_def)
  moreover have "honest ?s" using honest_tl [OF D(4)] by (simp add: honest_def)
  ultimately show ?thesis
    using D mkdir_ok [OF m D(3)]
    by (simp add: tx_inv_def push_change_def fresh_backups_def honest_def)
qed

lemma tx_create_dir_inv [wf_intros]:
  assumes I: "tx_inv uuid root v s" and a: "apart t root" and r: "tx_create_dir t name s = (r, s')"
  shows "tx_inv uuid root v s'"
proof -
  obtain q s1 where q: "symlink_metadata t s = (q, s1)" by fastforce
  have s1: "tx_inv uuid root v s1" using symlink_metadata_state [OF q] tx_inv_faults [OF I] by simp
  obtain q2 s2 where q2: "create_dir t s1 = (q2, s2)" by fastforce
  have "tx_inv uuid root v s2" if "q2 = Inl e" for e
    using q2 that tx_inv_faults [OF s1] unfolding create_dir_def by (auto dest!: syscall_InlD)
  moreover have "tx_inv uuid root v (push_change (Created t) s2)" if "q2 = Inr ()"
    using q2 that tx_inv_created [OF s1 _ a] unfolding create_dir_def by (auto dest!: syscall_InrD)
  ultimately show ?thesis
    using r q q2 s1
    by (cases q; cases q2) (auto simp: tx_create_dir_def split: node.splits if_splits)
qed

subsection \<open>Moving a target into the backup directory\<close>

lemma rename_state:
  "rename a b s = (r, s') \<Longrightarrow>
   (\<exists>e. r = Inl e \<and> s' = s\<lparr>faults := tl (faults s)\<rparr>) \<or>
   (\<exists>st. r = Inr () \<and> mv (device s) a b (store s) = Inr ((), st) \<and>
         s' = s\<lparr>store := st, faults := tl (faults s)\<rparr>)"
  by (cases r) (auto dest: rename_InrD rename_InlD)

lemma fresh_move:
  assumes "fresh_backups uuid s" "vacant dst (store s)"
    and "\<And>n. n \<ge> k \<Longrightarrow> \<not> is_prefix dst (backup_root s @ [uuid n])" and "issued s \<le> k"
  shows "\<forall>n\<ge>k. lookup (move src dst (store s)) (backup_root s @ [uuid n]) = None"
  using assms by (auto simp: fresh_backups_def lookup_move_out)

lemma tx_inv_replaced:
  assumes I: "tx_inv uuid root v s" and a: "apart t root"
    and b: "backup uuid t s = (Inr b, s')"
  shows "tx_inv uuid root v (push_change (Replaced t b) s')" "lookup (store s') t = None"
    "b = root @ [uuid (issued s)]"
proof -
  note D = tx_invD [OF I]
  show bb: "b = root @ [uuid (issued s)]"
    using b D(2) by (auto simp: backup_def Let_def split: prod.splits sum.splits)
  obtain st where mv: "mv (device s) t b (store s) = Inr ((), st)"
    and s': "s' = s\<lparr>issued := Suc (issued s), store := st, faults := tl (faults s)\<rparr>"
    using b D(2) bb by (auto simp: backup_def Let_def split: prod.splits sum.splits dest!: rename_InrD)
  have nb: "lookup (store s) b = None" using D(2,5) bb by (simp add: fresh_backups_def)
  note E = mv_vacantE [OF mv D(3) nb] and B = mv_back [OF mv D(3) nb]
  show lt: "lookup (store s') t = None" using B(2) by (simp add: s')
  have u: "undo_vol (Replaced t b) (vol s') = Some (vol s)"
    using B(1) lt by (simp add: vol_def s' mv_free_def)
  have "undoable v (push_change (Replaced t b) s')"
    by (rule undoable_push [OF u]) (use D(6) in \<open>simp add: undoable_def s'\<close>)
  moreover have "fresh_backups uuid s'"
    using fresh_move [OF D(5) vacantI [OF D(3) nb], of "Suc (issued s)" t] D(1,2) bb E(7)
    by (auto simp: fresh_backups_def s' is_prefix_iff inj_eq)
  moreover have "honest s'" using honest_tl [OF D(4)] by (simp add: honest_def s')
  ultimately show "tx_inv uuid root v (push_change (Replaced t b) s')"
    using D mv_vacant_ok [OF mv D(3) nb]
    by (simp add: tx_inv_def push_change_def fresh_backups_def honest_def s')
qed

lemma backup_Inl_inv:
  assumes I: "tx_inv uuid root v s" and b: "backup uuid t s = (Inl e, s')"
  shows "tx_inv uuid root v s'"
proof -
  have "s' = s\<lparr>issued := Suc (issued s), faults := tl (faults s)\<rparr>"
    using b by (auto simp: backup_def Let_def split: prod.splits sum.splits dest!: rename_InlD)
  then show ?thesis using tx_inv_faults [OF I]
    by (auto simp: tx_inv_def fresh_backups_def undoable_def vol_def honest_def)
qed

subsection \<open>Installing a staged path\<close>

lemma tx_inv_installed:
  assumes I: "tx_inv uuid root v s" and a: "apart t root"
    and m: "mv (device s) sg t (store s) = Inr ((), st)" and n: "lookup (store s) t = None"
    and u: "(case bk of None \<Rightarrow> Some (vol s) | Some b \<Rightarrow> mv_free b t (vol s)) = Some w"
    and w: "undo_all undo_vol cs w = Some v"
  shows "tx_inv uuid root v
           (s\<lparr>store := st, faults := tl (faults s), changes := Installed t sg bk # cs\<rparr>)"
    (is "tx_inv _ _ _ ?s")
proof -
  note D = tx_invD [OF I] and E = mv_vacantE [OF m tx_invD(3) [OF I] n]
    and B = mv_back [OF m tx_invD(3) [OF I] n]
  have "mv_free t sg (vol ?s) = Some (vol s)" using B(1,2) by (simp add: mv_free_def vol_def)
  then have "undo_vol (Installed t sg bk) (vol ?s) = Some w" using u by simp
  then have "undoable v ?s" using w by (simp add: undoable_def vol_def)
  moreover have "fresh_backups uuid ?s"
    using fresh_move [OF D(5) vacantI [OF D(3) n], of "issued s" sg] D(2) E(7) apart_child [OF a]
    by (auto simp: fresh_backups_def)
  moreover have "honest ?s" using honest_tl [OF D(4)] by (simp add: honest_def)
  ultimately show ?thesis
    using D mv_vacant_ok [OF m D(3) n] by (simp add: tx_inv_def)
qed

lemma install_staged_inv:
  assumes I: "tx_inv uuid root v (case bk of Some b \<Rightarrow> push_change (Replaced t b) s | None \<Rightarrow> s)"
    (is "tx_inv _ _ _ ?p")
    and a: "apart t root" and n: "lookup (store s) t = None"
    and r: "install_staged what sg t bk s = (r, s')"
  shows "tx_inv uuid root v s'"
proof -
  obtain q s2 where q: "rename sg t ?p = (q, s2)" by fastforce
  from rename_state [OF q] show ?thesis
  proof (elim disjE exE conjE)
    fix e assume "q = Inl e" "s2 = ?p\<lparr>faults := tl (faults ?p)\<rparr>"
    then show ?thesis using r q tx_inv_faults [OF I] by (simp add: install_staged_def Let_def)
  next
    fix st assume q': "q = Inr ()" and m: "mv (device ?p) sg t (store ?p) = Inr ((), st)"
      and s2: "s2 = ?p\<lparr>store := st, faults := tl (faults ?p)\<rparr>"
    have np: "lookup (store ?p) t = None" using n by (simp add: push_change_def split: option.split)
    obtain w where u: "(case bk of None \<Rightarrow> Some (vol ?p) | Some b \<Rightarrow> mv_free b t (vol ?p)) = Some w"
      and w: "undo_all undo_vol (changes s) w = Some v"
      using tx_invD(6) [OF I]
      by (cases bk) (auto simp: undoable_def push_change_def vol_def split: option.splits)
    have "s' = ?p\<lparr>store := st, faults := tl (faults ?p), changes := Installed t sg bk # changes s\<rparr>"
      using r q q' s2
      by (cases bk) (simp_all add: install_staged_def Let_def push_change_def pop_change_def)
    then show ?thesis using tx_inv_installed [OF I a m np u w] by simp
  qed
qed

lemma install_file_inv [wf_intros]:
  assumes I: "tx_inv uuid root v s" and a: "apart t root"
    and r: "install_file uuid sg t name s = (r, s')"
  shows "tx_inv uuid root v s'"
proof -
  obtain q s1 where q: "symlink_metadata t s = (q, s1)" by fastforce
  have s1: "s1 = s\<lparr>faults := tl (faults s)\<rparr>" by (rule symlink_metadata_state [OF q])
  have I1: "tx_inv uuid root v s1" using s1 tx_inv_faults [OF I] by simp
  note ok = tx_invD(3) [OF I1]
  let ?w = "''failed to commit staged file '' @ name"
  show ?thesis
  proof (cases q)
    case (Inl e)
    show ?thesis
    proof (cases "io_kind e = NotFoundK")
      case True
      have "lookup (store s1) t = None"
        using symlink_metadata_cases(3) [OF q tx_invD(4) [OF I] Inl True]
          lstat_NotFound_absent [OF _ True] tx_invD(3) [OF I] s1 by simp
      with install_staged_inv [where bk = None and s = s1 and t = t and what = ?w and sg = sg and r = r and s' = s'] I1 a r q Inl True
      show ?thesis by (simp add: install_file_def)
    qed (use r q Inl I1 in \<open>simp add: install_file_def\<close>)
  next
    case (Inr n)
    show ?thesis
    proof (cases n)
      case (File d)
      obtain b s2 where b: "backup uuid t s1 = (b, s2)" by fastforce
      show ?thesis
      proof (cases b)
        case (Inl e)
        with backup_Inl_inv [OF I1] b r q Inr File show ?thesis by (simp add: install_file_def)
      next
        case b': (Inr bp)
        note R = tx_inv_replaced [OF I1 a b [unfolded b']]
        with install_staged_inv [where bk = "Some bp" and s = s2 and t = t and what = ?w and sg = sg and r = r and s' = s'] a r q Inr File b b'
        show ?thesis by (simp add: install_file_def)
      qed
    qed (use r q Inr I1 in \<open>simp_all add: install_file_def\<close>)
  qed
qed

lemma replace_project_inv [wf_intros]:
  assumes I: "tx_inv uuid root v s" and a: "apart t root"
    and r: "replace_project uuid sg t s = (r, s')"
  shows "tx_inv uuid root v s'"
proof -
  obtain q s1 where q: "symlink_metadata t s = (q, s1)" by fastforce
  have s1: "s1 = s\<lparr>faults := tl (faults s)\<rparr>" by (rule symlink_metadata_state [OF q])
  have I1: "tx_inv uuid root v s1" using s1 tx_inv_faults [OF I] by simp
  let ?w = "''failed to install rebuilt project''"
  show ?thesis
  proof (cases q)
    case (Inl e)
    show ?thesis
    proof (cases "io_kind e = NotFoundK")
      case True
      have "lookup (store s1) t = None"
        using symlink_metadata_cases(3) [OF q tx_invD(4) [OF I] Inl True]
          lstat_NotFound_absent [OF _ True] tx_invD(3) [OF I] s1 by simp
      with install_staged_inv [where bk = None and s = s1 and t = t and what = ?w and sg = sg and r = r and s' = s'] I1 a r q Inl True
      show ?thesis by (simp add: replace_project_def)
    qed (use r q Inl I1 in \<open>simp add: replace_project_def\<close>)
  next
    case (Inr n)
    show ?thesis
    proof (cases n)
      case Dir
      obtain b s2 where b: "backup uuid t s1 = (b, s2)" by fastforce
      show ?thesis
      proof (cases b)
        case (Inl e)
        with backup_Inl_inv [OF I1] b r q Inr Dir show ?thesis by (simp add: replace_project_def)
      next
        case b': (Inr bp)
        note R = tx_inv_replaced [OF I1 a b [unfolded b']]
        with install_staged_inv [where bk = "Some bp" and s = s2 and t = t and what = ?w and sg = sg and r = r and s' = s'] a r q Inr Dir b b'
        show ?thesis by (simp add: replace_project_def)
      qed
    qed (use r q Inr I1 in \<open>simp_all add: replace_project_def\<close>)
  qed
qed

lemma delete_file_inv [wf_intros]:
  assumes I: "tx_inv uuid root v s" and a: "apart t root" and r: "delete_file uuid t name s = (r, s')"
  shows "tx_inv uuid root v s'"
proof -
  obtain q s1 where q: "symlink_metadata t s = (q, s1)" by fastforce
  have I1: "tx_inv uuid root v s1" using symlink_metadata_state [OF q] tx_inv_faults [OF I] by simp
  obtain b s2 where b: "backup uuid t s1 = (b, s2)" by fastforce
  show ?thesis
    using r q b I1 backup_Inl_inv [OF I1] tx_inv_replaced(1) [OF I1 a]
    by (cases q; cases b) (auto simp: delete_file_def split: node.splits if_splits)
qed

lemma delete_empty_dir_inv [wf_intros]:
  assumes I: "tx_inv uuid root v s" and a: "apart t root"
    and r: "delete_empty_dir uuid t name s = (r, s')"
  shows "tx_inv uuid root v s'"
proof -
  obtain q s1 where q: "symlink_metadata t s = (q, s1)" by fastforce
  have I1: "tx_inv uuid root v s1" using symlink_metadata_state [OF q] tx_inv_faults [OF I] by simp
  obtain d s2 where d: "read_dir t s1 = (d, s2)" by fastforce
  have I2: "tx_inv uuid root v s2" using read_dir_state [OF d] tx_inv_faults [OF I1] by simp
  obtain b s3 where b: "backup uuid t s2 = (b, s3)" by fastforce
  show ?thesis
    using r q d b I1 I2 backup_Inl_inv [OF I2] tx_inv_replaced(1) [OF I2 a]
    by (cases q; cases d; cases b) (auto simp: delete_empty_dir_def split: node.splits if_splits)
qed


section \<open>What an operation leaves alone\<close>

definition tx_frame :: "'z txn_scheme \<Rightarrow> 'z txn_scheme \<Rightarrow> bool" where
  "tx_frame s s' \<longleftrightarrow>
     set (faults s') \<subseteq> set (faults s) \<and> device s' = device s \<and> backup_root s' = backup_root s"

lemma tx_frame_refl [simp]: "tx_frame s s"
  by (simp add: tx_frame_def)

lemma tx_frame_trans [trans]: "tx_frame s t \<Longrightarrow> tx_frame t u \<Longrightarrow> tx_frame s u"
  by (auto simp: tx_frame_def)

lemma tx_frame_syscall: "syscall f s = (r, s') \<Longrightarrow> tx_frame s s'"
  unfolding syscall_def tx_frame_def
  by (cases "faults s") (auto split: option.splits sum.splits)

lemmas frame_calls =
  tx_frame_syscall [of "\<lambda>s. mkdir p (store s)" for p, folded create_dir_def]
  tx_frame_syscall [of "\<lambda>s. mv (device s) p q (store s)" for p q, folded rename_def]
  tx_frame_syscall [of "\<lambda>s. rmdir p (store s)" for p, folded remove_dir_def]
  tx_frame_syscall [of "\<lambda>s. unlink p (store s)" for p, folded remove_file_def]

lemma frame_queries:
  "symlink_metadata p s = (r, s') \<Longrightarrow> tx_frame s s'" "read_dir p s = (r', s') \<Longrightarrow> tx_frame s s'"
  unfolding symlink_metadata_def read_dir_def query_def by (erule tx_frame_syscall)+

lemma tx_frame_push [simp]: "tx_frame s (push_change c t) \<longleftrightarrow> tx_frame s t"
  "tx_frame s (pop_change t) \<longleftrightarrow> tx_frame s t" "tx_frame (push_change c s) t \<longleftrightarrow> tx_frame s t"
  by (auto simp: tx_frame_def push_change_def pop_change_def)

lemma tx_create_dir_frame: "tx_create_dir t name s = (r, s') \<Longrightarrow> tx_frame s s'"
  by (auto simp: tx_create_dir_def split: prod.splits sum.splits node.splits if_splits
      dest!: frame_queries frame_calls intro: tx_frame_trans)

lemma backup_frame: "backup uuid t s = (r, s') \<Longrightarrow> tx_frame s s'"
proof -
  assume b: "backup uuid t s = (r, s')"
  let ?s = "s\<lparr>issued := Suc (issued s)\<rparr>"
  obtain q s1 where q: "rename t (backup_root s @ [uuid (issued s)]) ?s = (q, s1)" by fastforce
  have "tx_frame ?s s1" using q by (rule frame_calls(2))
  then show ?thesis using b q
    by (cases q) (auto simp: backup_def Let_def tx_frame_def)
qed

lemma install_staged_frame: "install_staged what sg t bk s = (r, s') \<Longrightarrow> tx_frame s s'"
  by (auto simp: install_staged_def Let_def split: prod.splits sum.splits option.splits
      dest!: frame_calls)

lemma install_file_frame: "install_file uuid sg t name s = (r, s') \<Longrightarrow> tx_frame s s'"
  by (auto simp: install_file_def split: prod.splits sum.splits node.splits if_splits
      dest!: frame_queries backup_frame install_staged_frame intro: tx_frame_trans)

lemma replace_project_frame: "replace_project uuid sg t s = (r, s') \<Longrightarrow> tx_frame s s'"
  by (auto simp: replace_project_def split: prod.splits sum.splits node.splits if_splits
      dest!: frame_queries backup_frame install_staged_frame intro: tx_frame_trans)

lemma delete_file_frame: "delete_file uuid t name s = (r, s') \<Longrightarrow> tx_frame s s'"
  by (auto simp: delete_file_def split: prod.splits sum.splits node.splits if_splits
      dest!: frame_queries backup_frame intro: tx_frame_trans)

lemma delete_empty_dir_frame: "delete_empty_dir uuid t name s = (r, s') \<Longrightarrow> tx_frame s s'"
  by (auto simp: delete_empty_dir_def split: prod.splits sum.splits node.splits if_splits
      dest!: frame_queries backup_frame intro: tx_frame_trans)

lemma tx_frame_calm: "tx_frame s s' \<Longrightarrow> calm s \<Longrightarrow> calm s'"
  by (auto simp: tx_frame_def calm_def)

section \<open>A transaction and its rollback\<close>

text \<open>
  The operations a commit performs, as data, and their execution with the results dropped: a run
  of any operations, of which any may have failed.
\<close>

datatype tx_op =
    OpCreateDir path string
  | OpInstallFile path path string
  | OpReplaceProject path path
  | OpDeleteFile path string
  | OpDeleteEmptyDir path string

fun op_target :: "tx_op \<Rightarrow> path" where
  "op_target (OpCreateDir t _) = t"
| "op_target (OpInstallFile _ t _) = t"
| "op_target (OpReplaceProject _ t) = t"
| "op_target (OpDeleteFile t _) = t"
| "op_target (OpDeleteEmptyDir t _) = t"

fun run_op :: "(nat \<Rightarrow> string) \<Rightarrow> tx_op \<Rightarrow> 'z txn_scheme \<Rightarrow> 'z txn_scheme" where
  "run_op uuid (OpCreateDir t name) s = snd (tx_create_dir t name s)"
| "run_op uuid (OpInstallFile sg t name) s = snd (install_file uuid sg t name s)"
| "run_op uuid (OpReplaceProject sg t) s = snd (replace_project uuid sg t s)"
| "run_op uuid (OpDeleteFile t name) s = snd (delete_file uuid t name s)"
| "run_op uuid (OpDeleteEmptyDir t name) s = snd (delete_empty_dir uuid t name s)"

definition run_ops :: "(nat \<Rightarrow> string) \<Rightarrow> tx_op list \<Rightarrow> 'z txn_scheme \<Rightarrow> 'z txn_scheme" where
  "run_ops uuid ops s = fold (run_op uuid) ops s"

text \<open>A transaction that has not recorded anything, over an unused backup directory.\<close>

definition tx_start :: "(nat \<Rightarrow> string) \<Rightarrow> 'z txn_scheme \<Rightarrow> bool" where
  "tx_start uuid s \<longleftrightarrow>
     inj uuid \<and> store_ok (store s) \<and> honest s \<and> changes s = [] \<and>
     (\<forall>p\<in>set (map fst (store s)). \<not> below (backup_root s) p)"

lemma run_op_inv:
  assumes I: "tx_inv uuid root v s" and a: "apart (op_target op) root"
  shows "tx_inv uuid root v (run_op uuid op s)"
proof (cases op)
  case (OpCreateDir t name)
  then show ?thesis using tx_create_dir_inv [OF I _ prod.collapse [symmetric]] a by simp
next
  case (OpInstallFile sg t name)
  then show ?thesis using install_file_inv [OF I _ prod.collapse [symmetric]] a by simp
next
  case (OpReplaceProject sg t)
  then show ?thesis using replace_project_inv [OF I _ prod.collapse [symmetric]] a by simp
next
  case (OpDeleteFile t name)
  then show ?thesis using delete_file_inv [OF I _ prod.collapse [symmetric]] a by simp
next
  case (OpDeleteEmptyDir t name)
  then show ?thesis using delete_empty_dir_inv [OF I _ prod.collapse [symmetric]] a by simp
qed

lemma run_ops_inv:
  "tx_inv uuid root v s \<Longrightarrow> \<forall>op\<in>set ops. apart (op_target op) root \<Longrightarrow>
   tx_inv uuid root v (run_ops uuid ops s)"
  unfolding run_ops_def by (induction ops arbitrary: s) (auto simp: run_op_inv)

lemma tx_start_inv:
  assumes T: "tx_start uuid s" shows "tx_inv uuid (backup_root s) (vol s) s"
proof -
  have "lookup (store s) (backup_root s @ [x]) = None" for x
  proof (rule ccontr)
    assume "lookup (store s) (backup_root s @ [x]) \<noteq> None"
    then have "backup_root s @ [x] \<in> set (map fst (store s))" by (simp add: map_of_eq_None_iff)
    moreover have "below (backup_root s) (backup_root s @ [x])" by (simp add: below_append)
    ultimately show False using T unfolding tx_start_def by blast
  qed
  then show ?thesis using T
    by (simp add: tx_start_def tx_inv_def fresh_backups_def undoable_def)
qed

lemma run_op_frame: "tx_frame s (run_op uuid op s)"
proof (cases op)
  case (OpCreateDir t name)
  then show ?thesis using tx_create_dir_frame [OF prod.collapse [symmetric]] by simp
next
  case (OpInstallFile sg t name)
  then show ?thesis using install_file_frame [OF prod.collapse [symmetric]] by simp
next
  case (OpReplaceProject sg t)
  then show ?thesis using replace_project_frame [OF prod.collapse [symmetric]] by simp
next
  case (OpDeleteFile t name)
  then show ?thesis using delete_file_frame [OF prod.collapse [symmetric]] by simp
next
  case (OpDeleteEmptyDir t name)
  then show ?thesis using delete_empty_dir_frame [OF prod.collapse [symmetric]] by simp
qed

lemma run_ops_frame: "tx_frame s (run_ops uuid ops s)"
  unfolding run_ops_def
proof (induction ops arbitrary: s)
  case (Cons op ops)
  then show ?case using run_op_frame tx_frame_trans by fastforce
qed simp

definition same_log :: "'z txn_scheme \<Rightarrow> 'z txn_scheme \<Rightarrow> bool" where
  "same_log s s' \<longleftrightarrow> changes s' = changes s \<and> backup_root s' = backup_root s \<and> issued s' = issued s"

lemma same_log_refl [simp]: "same_log s s"
  by (simp add: same_log_def)

lemma same_log_trans: "same_log s s' \<Longrightarrow> same_log s' s'' \<Longrightarrow> same_log s s''"
  by (simp add: same_log_def)

lemma same_log_syscall: "syscall f s = (r, s') \<Longrightarrow> same_log s s'"
  by (auto simp: syscall_def same_log_def split: list.splits option.splits sum.splits)

lemma same_log_calls:
  "create_dir p s = (r, s') \<Longrightarrow> same_log s s'" "rename p q s = (r, s') \<Longrightarrow> same_log s s'"
  "remove_dir p s = (r, s') \<Longrightarrow> same_log s s'" "remove_file p s = (r, s') \<Longrightarrow> same_log s s'"
  "symlink_metadata p s = (r2, s') \<Longrightarrow> same_log s s'"
  unfolding call_defs symlink_metadata_def query_def by (erule same_log_syscall)+

lemma same_log_replacement: "remove_replacement_target t s = (r, s') \<Longrightarrow> same_log s s'"
  unfolding remove_replacement_target_def mapErr_def
  by (auto split: prod.splits sum.splits if_splits dest!: same_log_calls intro: same_log_trans)

lemma undo_change_log: "undo_change c s = (r, s') \<Longrightarrow> same_log s s'"
proof (cases c)
  case (Created t)
  then show "undo_change c s = (r, s') \<Longrightarrow> same_log s s'"
    by (auto simp: remove_created_path_def split: prod.splits sum.splits if_splits
        dest!: same_log_calls)
next
  case (Replaced t b)
  then show "undo_change c s = (r, s') \<Longrightarrow> same_log s s'"
    by (auto simp: mapErr_def split: prod.splits sum.splits
        dest!: same_log_calls same_log_replacement intro: same_log_trans)
next
  case (Installed t sg bk)
  then show "undo_change c s = (r, s') \<Longrightarrow> same_log s s'"
    by (auto simp: mapErr_def split: prod.splits sum.splits option.splits
        dest!: same_log_calls intro: same_log_trans)
qed

lemma rollback_loop_log: "rollback_loop cs errs s = (r, s') \<Longrightarrow> same_log s s'"
proof (induction cs arbitrary: errs s)
  case (Cons c cs)
  then show ?case
    by (auto split: prod.splits sum.splits dest!: undo_change_log intro: same_log_trans)
qed simp

lemma rollback_changes: "rollback s = (r, s') \<Longrightarrow> changes s' = []"
  by (auto simp: rollback_def same_log_def split: prod.splits list.splits dest!: rollback_loop_log)


section \<open>Properties\<close>

text \<open>
  A small disk for the witnesses: a project with one file, a staged replacement, and the backup
  directory of the transaction.
\<close>

definition demo_file :: "string \<Rightarrow> file_data" where
  "demo_file b = \<lparr>fbytes = b, mtime_ns = 1000000, fmode = 0x1A4\<rparr>"

definition demo_store :: store where
  "demo_store =
     [([], Dir), ([''w''], Dir), ([''w'', ''p''], Dir), ([''w'', ''p'', ''a''], File (demo_file ''old'')),
      ([''w'', ''s''], Dir), ([''w'', ''s'', ''files''], Dir),
      ([''w'', ''s'', ''files'', ''a''], File (demo_file ''new'')), ([''w'', ''s'', ''rollback''], Dir)]"

definition demo_uuid :: "nat \<Rightarrow> string" where
  "demo_uuid n = replicate n CHR ''u''"

definition demo_txn :: "io_error option list \<Rightarrow> unit txn_scheme" where
  "demo_txn fl = \<lparr>store = demo_store, device = (\<lambda>_. 0), faults = fl,
     backup_root = [''w'', ''s'', ''rollback''], changes = [], issued = 0, \<dots> = ()\<rparr>"

definition demo_ops :: "tx_op list" where
  "demo_ops = [OpCreateDir [''w'', ''p'', ''d''] ''d'',
     OpInstallFile [''w'', ''s'', ''files'', ''a''] [''w'', ''p'', ''a''] ''a'',
     OpDeleteEmptyDir [''w'', ''p'', ''d''] ''d'']"

lemma demo_start: "list_all (\<lambda>f. f = None \<or> f = Some (err OtherK)) fl \<Longrightarrow> tx_start demo_uuid (demo_txn fl)"
proof -
  assume "list_all (\<lambda>f. f = None \<or> f = Some (err OtherK)) fl"
  then have "honest (demo_txn fl)" by (auto simp: honest_def demo_txn_def list_all_iff)
  moreover have "inj demo_uuid" by (auto simp: inj_def demo_uuid_def replicate_eq_replicate)
  moreover have "store_ok demo_store" by code_simp
  ultimately show ?thesis
    by (auto simp: tx_start_def demo_txn_def demo_store_def below_def)
qed

lemma demo_apart: "\<forall>op\<in>set demo_ops. apart (op_target op) (backup_root (demo_txn fl))"
  by (auto simp: demo_ops_def demo_txn_def apart_def)

text \<open>
  C12. Rollback is exact. Take a transaction that has recorded nothing and whose backup directory is
  empty, run any operations on targets apart from the backup directory, with any results and any
  outside failures. If \<open>rollback\<close> then reports success, the store is what it was before the first
  operation and the record is empty.
\<close>

theorem rollback_exact:
  assumes "tx_start uuid s" "\<forall>op\<in>set ops. apart (op_target op) (backup_root s)"
    and "rollback (run_ops uuid ops s) = (Inr u, s')"
  shows "store s' = store s \<and> device s' = device s \<and> changes s' = []"
proof -
  have I: "tx_inv uuid (backup_root s) (vol s) (run_ops uuid ops s)"
    by (rule run_ops_inv [OF tx_start_inv [OF assms(1)] assms(2)])
  then have "vol s' = vol s"
    using rollback_restores [OF _ _ assms(3)] by (simp add: tx_inv_def)
  then show ?thesis using rollback_changes [OF assms(3)] by (simp add: vol_def)
qed

theorem rollback_exact_witness:
  "\<exists>s'. rollback (run_ops demo_uuid demo_ops (demo_txn ([None, None, None, None, None, Some (err OtherK)]))) = (Inr (), s') \<and>
     store s' = demo_store"
proof -
  let ?s = "demo_txn ([None, None, None, None, None, Some (err OtherK)])"
  have "fst (rollback (run_ops demo_uuid demo_ops ?s)) = Inr ()" by code_simp
  then obtain s' where r: "rollback (run_ops demo_uuid demo_ops ?s) = (Inr (), s')"
    by (metis prod.collapse)
  have "tx_start demo_uuid ?s" by (rule demo_start) simp
  from rollback_exact [OF this demo_apart r] r show ?thesis by (simp add: demo_txn_def)
qed

text \<open>
  C13. Rollback cannot fail by itself: whatever the operations did, if no outside failure is left, a
  rollback succeeds, and it restores the store.
\<close>

theorem rollback_total:
  assumes "tx_start uuid s" "\<forall>op\<in>set ops. apart (op_target op) (backup_root s)"
    and "calm (run_ops uuid ops s)"
  shows "\<exists>s'. rollback (run_ops uuid ops s) = (Inr (), s') \<and> store s' = store s"
proof -
  have I: "tx_inv uuid (backup_root s) (vol s) (run_ops uuid ops s)"
    by (rule run_ops_inv [OF tx_start_inv [OF assms(1)] assms(2)])
  then obtain s' where r: "rollback (run_ops uuid ops s) = (Inr (), s')"
    using rollback_succeeds [OF assms(3), of "vol s"] by (auto simp: tx_inv_def)
  have "vol s' = vol s" using rollback_restores [OF _ _ r] I by (simp add: tx_inv_def)
  with r show ?thesis by (auto simp: vol_def)
qed

theorem rollback_total_witness:
  "\<exists>s'. rollback (run_ops demo_uuid demo_ops (demo_txn [None, Some (err OtherK)])) = (Inr (), s') \<and>
     store s' = demo_store"
proof -
  let ?s = "demo_txn [None, Some (err OtherK)]"
  have "faults (run_ops demo_uuid demo_ops ?s) = []" by code_simp
  then have c: "calm (run_ops demo_uuid demo_ops ?s)" by (simp add: calm_def)
  have "tx_start demo_uuid ?s" by (rule demo_start) simp
  from rollback_total [OF this demo_apart c] show ?thesis by (simp add: demo_txn_def)
qed

end
