(* ===== verification/Paths.thy ===== *)
theory Paths
  imports FileSystem
begin

text \<open>
  Portable names and relative paths: the string checks of \<open>src/src/workspace.rs\<close>
  (\<open>validate_project_name\<close>, \<open>validate_portable_segment\<close>) and the path, digest, time and order
  helpers at the end of \<open>src/src/sync/files.rs\<close>. The characters the source rejects are ASCII, and
  a byte of a longer UTF-8 sequence is never ASCII, so a test on characters is a test on bytes.

  The lemmas: a normalised path is a fixed point, its parts are portable, it stays below the root it
  is resolved against, and the helper conversions invert each other where the source needs it.
\<close>

section \<open>Names\<close>

definition internal_dir :: string where
  "internal_dir = ''.vivado-server''"

definition bad_segment_bytes :: "char set" where
  "bad_segment_bytes =
     {CHR 0x7F, CHR ''<'', CHR ''>'', CHR 0x22, CHR ''|'', CHR ''?'', CHR ''*'', CHR '':'', CHR ''/'', CHR 0x5C}"

definition validate_portable_segment :: "string \<Rightarrow> bool" where
  "validate_portable_segment segment \<longleftrightarrow>
     \<not> (segment = [] \<or> segment = ''.'' \<or> segment = ''..'' \<or> segment = internal_dir \<or>
        length segment > 255 \<or>
        (\<exists>ch\<in>set segment. (of_char ch :: nat) \<le> 31 \<or> ch \<in> bad_segment_bytes))"

definition is_ascii_alphanumeric :: "char \<Rightarrow> bool" where
  "is_ascii_alphanumeric c \<longleftrightarrow>
     (CHR ''0'' \<le> c \<and> c \<le> CHR ''9'') \<or> (CHR ''A'' \<le> c \<and> c \<le> CHR ''Z'') \<or> (CHR ''a'' \<le> c \<and> c \<le> CHR ''z'')"

definition validate_project_name :: "string \<Rightarrow> unit res" where
  "validate_project_name project =
     ensure
       (\<not> (project = [] \<or> project = ''.'' \<or> project = ''..'' \<or> length project > 64 \<or>
           \<not> validate_portable_segment project \<or>
           \<not> (\<forall>ch\<in>set project.
               is_ascii_alphanumeric ch \<or> ch = CHR ''_'' \<or> ch = CHR ''-'' \<or> ch = CHR ''.'')))
       InvalidProject"

section \<open>Relative paths\<close>

definition is_internal_path :: "string \<Rightarrow> bool" where
  "is_internal_path p \<longleftrightarrow> (\<exists>part\<in>set (split_on CHR ''/'' p). part = ''.vivado-server'')"

definition bad_path_part :: "string \<Rightarrow> bool" where
  "bad_path_part part \<longleftrightarrow>
     part = [] \<or> part = ''.'' \<or> part = ''..'' \<or> \<not> validate_portable_segment part"

definition normalize_sync_path_allow_internal :: "string \<Rightarrow> string res" where
  "normalize_sync_path_allow_internal raw =
     (if raw = [] \<or> length raw > 4096 \<or> raw = ''.'' \<or> raw = ''..'' \<or>
         is_prefix ''/'' raw \<or> is_prefix [CHR 0x5C] raw \<or>
         CHR 0x5C \<in> set raw \<or> CHR '':'' \<in> set raw \<or> CHR 0x00 \<in> set raw
      then Inl (BadRequest ''invalid sync path'')
      else andThen
        (foldR (\<lambda>parts part. if bad_path_part part then Inl (BadRequest ''invalid sync path'')
                            else Inr (parts @ [part]))
           [] (split_on CHR ''/'' raw))
        (\<lambda>parts. Inr (join_with CHR ''/'' parts)))"

definition normalize_sync_path :: "string \<Rightarrow> string res" where
  "normalize_sync_path raw =
     andThen (normalize_sync_path_allow_internal raw) (\<lambda>normalized.
       if is_internal_path normalized then Inl (BadRequest ''internal sync path is reserved'')
       else Inr normalized)"

definition resolve_relative_path :: "path \<Rightarrow> string \<Rightarrow> path res" where
  "resolve_relative_path root p =
     andThen (normalize_sync_path p) (\<lambda>n. Inr (root @ split_on CHR ''/'' n))"

text \<open>
  A walked path is the root with further components; names that are not UTF-8 (here: bytes that
  \<open>utf8\<close> rejects) and the empty remainder are refused.
\<close>

definition raw_relative_path_from_disk :: "(string \<Rightarrow> bool) \<Rightarrow> path \<Rightarrow> path \<Rightarrow> string res" where
  "raw_relative_path_from_disk utf8 p root =
     (if \<not> is_prefix root p
      then Inl (Internal ''failed to derive relative manifest path: prefix not found'')
      else let rel = drop (length root) p in
        andThen
          (foldR (\<lambda>parts part.
             if part = ''..'' then Inl (BadRequest ''invalid filesystem path in project'')
             else if \<not> utf8 part then Inl (BadRequest ''non-UTF-8 filesystem path is not supported'')
             else Inr (parts @ [part])) [] rel)
          (\<lambda>parts. if parts = [] then Inl (BadRequest ''empty filesystem path in project'')
                   else Inr (join_with CHR ''/'' parts)))"

text \<open>
  \<open>parent_paths\<close>: the loop cuts the last component off until no slash is left, then reverses.
  \<open>rsplit_once\<close> keeps what is before the last slash.
\<close>

definition rsplit_parent :: "string \<Rightarrow> string option" where
  "rsplit_parent s =
     (let parts = split_on CHR ''/'' s in
      if length parts \<le> 1 then None else Some (join_with CHR ''/'' (butlast parts)))"

lemma length_join_butlast:
  "length ps > 1 \<Longrightarrow> length (join_with c (butlast ps)) < length (join_with c ps)"
proof (induction c ps rule: join_with.induct)
  case (3 c p q qs)
  then show ?case by (cases qs) auto
qed auto

lemma rsplit_parent_shorter: "rsplit_parent s = Some t \<Longrightarrow> length t < length s"
  using length_join_butlast [of "split_on CHR ''/'' s" "CHR ''/''"]
  by (auto simp: rsplit_parent_def Let_def split: if_splits)

function parents_up :: "string \<Rightarrow> string list" where
  "parents_up current =
     (case rsplit_parent current of None \<Rightarrow> [] | Some up \<Rightarrow> up # parents_up up)"
  by pat_completeness auto
termination
  by (relation "measure length") (auto dest: rsplit_parent_shorter)

declare parents_up.simps [simp del]

definition parent_paths :: "string \<Rightarrow> string list" where
  "parent_paths p = rev (parents_up p)"

section \<open>Digests, times and order\<close>

definition hex_digit :: "nat \<Rightarrow> char" where
  "hex_digit n = (if n < 10 then char_of (48 + n) else char_of (87 + n))"

definition hex_digest :: "string \<Rightarrow> string" where
  "hex_digest bytes =
     concat (map (\<lambda>b. [hex_digit (of_char b div 16), hex_digit (of_char b mod 16)]) bytes)"

definition is_ascii_hexdigit :: "char \<Rightarrow> bool" where
  "is_ascii_hexdigit c \<longleftrightarrow>
     (CHR ''0'' \<le> c \<and> c \<le> CHR ''9'') \<or> (CHR ''A'' \<le> c \<and> c \<le> CHR ''F'') \<or> (CHR ''a'' \<le> c \<and> c \<le> CHR ''f'')"

definition is_sha256_hex :: "string \<Rightarrow> bool" where
  "is_sha256_hex value \<longleftrightarrow> length value = 64 \<and> (\<forall>b\<in>set value. is_ascii_hexdigit b)"

definition lower_byte :: "char \<Rightarrow> char" where
  "lower_byte c = (if CHR ''A'' \<le> c \<and> c \<le> CHR ''Z'' then char_of ((of_char c :: nat) + 32) else c)"

definition to_ascii_lowercase :: "string \<Rightarrow> string" where
  "to_ascii_lowercase = map lower_byte"

text \<open>
  Times are nanoseconds relative to the epoch; \<open>duration_since\<close> fails for a time before it with the
  (positive) distance. Milliseconds are clamped to the range of \<open>i64\<close>.
\<close>

definition i64_max :: int where
  "i64_max = 2 ^ 63 - 1"

definition system_time_to_ms :: "int \<Rightarrow> int" where
  "system_time_to_ms t =
     (if t \<ge> 0 then min (t div 1000000) i64_max else - min ((- t) div 1000000) i64_max)"

text \<open>\<open>FileTime::from_unix_time(seconds, nanos)\<close> with the Euclidean quotient and remainder.\<close>

definition file_time_of_ms :: "int \<Rightarrow> int" where
  "file_time_of_ms ms = (ms div 1000) * 1000000000 + (ms mod 1000) * 1000000"

definition exec_bits :: "32 word" where
  "exec_bits = 0x49"

definition executable_from_metadata :: "file_data \<Rightarrow> bool" where
  "executable_from_metadata d \<longleftrightarrow> fmode d AND exec_bits \<noteq> 0"

definition mode_with_exec :: "bool \<Rightarrow> 32 word \<Rightarrow> 32 word" where
  "mode_with_exec executable m =
     (let mode = m AND NOT exec_bits in if executable then mode OR exec_bits else mode)"

definition sort_paths :: "string list \<Rightarrow> string list" where
  "sort_paths paths = sort_dedup paths"

definition slash_count :: "string \<Rightarrow> nat" where
  "slash_count p = length (filter (\<lambda>c. c = CHR ''/'') p)"

definition deep_key :: "string \<Rightarrow> int \<times> string" where
  "deep_key p = (- int (slash_count p), p)"

definition sort_paths_deepest_first :: "string list \<Rightarrow> string list" where
  "sort_paths_deepest_first paths = remdups_adj (sort_key deep_key paths)"


section \<open>Normal paths\<close>

definition normal_parts :: "string list \<Rightarrow> bool" where
  "normal_parts ps \<longleftrightarrow> ps \<noteq> [] \<and> (\<forall>p\<in>set ps. validate_portable_segment p \<and> CHR ''/'' \<notin> set p)"

abbreviation parts :: "string \<Rightarrow> string list" where
  "parts \<equiv> split_on CHR ''/''"

lemma foldR_collect:
  "foldR (\<lambda>acc x. if bad x then Inl e else Inr (acc @ [x])) acc xs =
     (if \<exists>x\<in>set xs. bad x then Inl e else Inr (acc @ xs))"
  by (induction xs arbitrary: acc) auto

lemma normalize_InrD:
  assumes "normalize_sync_path raw = Inr p"
  shows "p = raw" "normal_parts (parts raw)" "\<not> is_internal_path raw" "length raw \<le> 4096"
    "CHR 0x5C \<notin> set raw" "CHR '':'' \<notin> set raw"
  using assms split_on_parts_no_sep [of _ "CHR ''/''" raw]
  by (auto simp: normalize_sync_path_def normalize_sync_path_allow_internal_def res_simps foldR_collect
      bad_path_part_def normal_parts_def split: if_splits)

lemma normalize_fixed: "normalize_sync_path raw = Inr p \<Longrightarrow> normalize_sync_path p = Inr p"
  using normalize_InrD(1) by blast

lemma portable_not_dots:
  "validate_portable_segment s \<Longrightarrow> s \<noteq> [] \<and> s \<noteq> ''.'' \<and> s \<noteq> ''..'' \<and> s \<noteq> internal_dir"
  by (auto simp: validate_portable_segment_def)

lemma portable_no_slash: "validate_portable_segment s \<Longrightarrow> CHR ''/'' \<notin> set s"
  by (auto simp: validate_portable_segment_def bad_segment_bytes_def)

lemma portable_bytes:
  "validate_portable_segment s \<Longrightarrow> c \<in> set s \<Longrightarrow> 32 \<le> (of_char c :: nat) \<and> c \<notin> bad_segment_bytes"
  by (fastforce simp: validate_portable_segment_def)

lemma project_name_ok:
  assumes "validate_project_name p = Inr u"
  shows "validate_portable_segment p" "length p \<le> 64" "CHR ''/'' \<notin> set p"
  using assms portable_no_slash by (auto simp: validate_project_name_def res_simps)

lemma resolve_InrD:
  assumes "resolve_relative_path root p = Inr q"
  shows "q = root @ parts p" "normal_parts (parts p)"
  using assms normalize_InrD(1,2) by (auto simp: resolve_relative_path_def res_simps)

lemma resolve_any:
  assumes "resolve_relative_path root p = Inr q"
  shows "resolve_relative_path root' p = Inr (root' @ parts p)"
proof -
  obtain n where n: "normalize_sync_path p = Inr n"
    using assms by (auto simp: resolve_relative_path_def res_simps)
  then show ?thesis using normalize_InrD(1) [OF n] by (simp add: resolve_relative_path_def)
qed

lemma resolve_below: "resolve_relative_path root p = Inr q \<Longrightarrow> below root q"
  using resolve_InrD [of root p q] by (auto simp: below_def normal_parts_def)

lemma resolve_inj:
  assumes "resolve_relative_path root p = Inr q" "resolve_relative_path root p' = Inr q"
  shows "p = p'"
proof -
  have "parts p = parts p'"
    using resolve_InrD(1) [OF assms(1)] resolve_InrD(1) [OF assms(2)] by simp
  then show ?thesis by (metis join_split)
qed

section \<open>Parents\<close>

definition ancestors :: "string list \<Rightarrow> string list" where
  "ancestors ps = map (\<lambda>k. join_with CHR ''/'' (take k ps)) [1..<length ps]"

lemma parents_up_join:
  assumes "ps \<noteq> []" "\<forall>p\<in>set ps. CHR ''/'' \<notin> set p"
  shows "parents_up (join_with CHR ''/'' ps) = rev (ancestors ps)"
  using assms
proof (induction "length ps" arbitrary: ps rule: less_induct)
  case less
  have s: "parts (join_with CHR ''/'' ps) = ps" by (rule split_join) (use less.prems in auto)
  show ?case
  proof (cases "length ps \<le> 1")
    case True
    then show ?thesis using s less.prems
      by (simp add: parents_up.simps [of "join_with CHR ''/'' ps"] rsplit_parent_def Let_def ancestors_def)
  next
    case False
    let ?b = "butlast ps"
    have b: "?b \<noteq> []" "\<forall>p\<in>set ?b. CHR ''/'' \<notin> set p" "length ?b < length ps"
      using False less.prems by (auto simp: in_set_butlastD simp flip: length_greater_0_conv)
    have "parents_up (join_with CHR ''/'' ps) = join_with CHR ''/'' ?b # rev (ancestors ?b)"
      using less.hyps [OF b(3,1,2)] s False
      by (simp add: parents_up.simps [of "join_with CHR ''/'' ps"] rsplit_parent_def Let_def)
    also have "\<dots> = rev (ancestors ps)"
    proof -
      have "[1..<length ps] = [1..<length ps - 1] @ [length ps - 1]"
        using False by (metis One_nat_def Suc_le_eq Suc_pred length_greater_0_conv less.prems(1)
            less_Suc_eq_le not_le upt_Suc_append)
      moreover have "take k ?b = take k ps" if "k < length ps" for k
        using that by (simp add: take_butlast)
      ultimately show ?thesis by (simp add: ancestors_def butlast_conv_take)
    qed
    finally show ?thesis .
  qed
qed

lemma parent_paths_ancestors: "parent_paths p = ancestors (parts p)"
proof -
  have "parents_up (join_with CHR ''/'' (parts p)) = rev (ancestors (parts p))"
    by (rule parents_up_join) (auto dest: split_on_parts_no_sep)
  then show ?thesis by (simp add: parent_paths_def)
qed

lemma parent_paths_iff:
  "q \<in> set (parent_paths p) \<longleftrightarrow> (\<exists>k. 0 < k \<and> k < length (parts p) \<and> parts q = take k (parts p))"
proof -
  have n: "\<forall>x\<in>set (take k (parts p)). CHR ''/'' \<notin> set x" for k
    by (auto dest: in_set_takeD split_on_parts_no_sep)
  have "parts (join_with CHR ''/'' (take k (parts p))) = take k (parts p)"
    if "0 < k" "k < length (parts p)" for k
    by (rule split_join [OF _ n]) (use that in auto)
  then show ?thesis
    unfolding parent_paths_ancestors ancestors_def
    by (auto simp: Suc_le_eq image_iff) (metis Suc_le_eq atLeastLessThan_iff join_split)
qed

lemma parent_paths_normal:
  "normal_parts (parts p) \<Longrightarrow> q \<in> set (parent_paths p) \<Longrightarrow> normal_parts (parts q)"
proof -
  assume n: "normal_parts (parts p)" and q: "q \<in> set (parent_paths p)"
  then obtain k where k: "0 < k" "parts q = take k (parts p)" by (auto simp: parent_paths_iff)
  have "set (parts q) \<subseteq> set (parts p)" unfolding k(2) by (rule set_take_subset)
  with n show ?thesis by (auto simp: normal_parts_def)
qed

lemma parent_paths_trans:
  "q \<in> set (parent_paths p) \<Longrightarrow> r \<in> set (parent_paths q) \<Longrightarrow> r \<in> set (parent_paths p)"
  unfolding parent_paths_iff by (fastforce simp: min_def)

lemma parent_shorter: "q \<in> set (parent_paths p) \<Longrightarrow> length (parts q) < length (parts p)"
  by (auto simp: parent_paths_iff)

lemma slash_count_append [simp]: "slash_count (xs @ ys) = slash_count xs + slash_count ys"
  by (simp add: slash_count_def)

lemma slash_count_Cons [simp]:
  "slash_count (c # cs) = (if c = CHR ''/'' then 1 else 0) + slash_count cs" "slash_count [] = 0"
  by (simp_all add: slash_count_def)

lemma length_parts: "length (parts p) = Suc (slash_count p)"
proof (induction p)
  case (Cons c cs)
  obtain q qs where "parts cs = q # qs" using split_on_not_Nil by (metis list.exhaust)
  with Cons show ?case by auto
qed simp

section \<open>Sorting\<close>

lemma inj_deep_key: "inj deep_key"
  by (auto simp: inj_def deep_key_def)

lemma sort_deep_eq: "sort_paths_deepest_first xs = remdups_adj (sort_key deep_key xs)"
  by (simp add: sort_paths_deepest_first_def)

lemma remdups_adj_map_strict:
  assumes "inj f" "sorted (map f xs)"
  shows "sorted_wrt (\<lambda>x y. f x < f y) (remdups_adj xs)"
proof -
  have "map f (remdups_adj xs) = remdups_adj (map f xs)"
    by (rule remdups_adj_map_injective [OF assms(1), symmetric])
  then have "sorted_wrt (<) (map f (remdups_adj xs))"
    using remdups_adj_strict [OF assms(2)] by simp
  then show ?thesis by (simp add: sorted_wrt_map)
qed

lemma sort_deep_strict:
  "sorted_wrt (\<lambda>x y. deep_key x < deep_key y) (sort_paths_deepest_first xs)"
  unfolding sort_deep_eq by (rule remdups_adj_map_strict [OF inj_deep_key]) simp

lemma set_sort_deep [simp]: "set (sort_paths_deepest_first xs) = set xs"
  by (simp add: sort_deep_eq)

lemma distinct_sort_deep [simp]: "distinct (sort_paths_deepest_first xs)"
  using sort_deep_strict [of xs] by (auto simp: distinct_conv_nth sorted_wrt_iff_nth_less)
    (metis linorder_neqE_nat order_less_irrefl)

lemma set_sort_paths [simp]: "set (sort_paths xs) = set xs"
  by (simp add: sort_paths_def)

lemma sort_paths_strict [simp]: "sorted_wrt (<) (sort_paths xs)"
  by (simp add: sort_paths_def)

text \<open>A parent is never listed before its child.\<close>

lemma deepest_first_parent:
  assumes "sort_paths_deepest_first xs = ys @ q # zs" "p \<in> set zs"
  shows "q \<notin> set (parent_paths p)"
proof -
  have "deep_key q < deep_key p"
    using sort_deep_strict [of xs] assms by (auto simp: sorted_wrt_append)
  then show ?thesis
    using parent_shorter [of q p] by (auto simp: deep_key_def length_parts)
qed

text \<open>In the increasing order a parent comes before its children.\<close>

lemma less_append_list: "t \<noteq> [] \<Longrightarrow> (s :: 'a::linorder list) < s @ t"
  by (induction s) (auto simp: neq_Nil_conv)

lemma join_with_append:
  "as \<noteq> [] \<Longrightarrow> bs \<noteq> [] \<Longrightarrow> join_with c (as @ bs) = join_with c as @ c # join_with c bs"
  by (induction as rule: induct_list012) (auto simp: join_with_Cons)

lemma parent_decomp:
  assumes "q \<in> set (parent_paths p)" shows "\<exists>r. p = q @ CHR ''/'' # r"
proof -
  obtain k where k: "0 < k" "k < length (parts p)" "parts q = take k (parts p)"
    using assms unfolding parent_paths_iff by blast
  have "p = join_with CHR ''/'' (parts q @ drop k (parts p))" by (simp add: k(3))
  also have "\<dots> = q @ CHR ''/'' # join_with CHR ''/'' (drop k (parts p))"
    using k(2) by (simp add: join_with_append)
  finally show ?thesis by blast
qed

lemma parent_less: "q \<in> set (parent_paths p) \<Longrightarrow> q < p"
  by (auto dest!: parent_decomp intro: less_append_list)

section \<open>Digests, times and modes\<close>

lemma hex_digit_hex: "n < 16 \<Longrightarrow> is_ascii_hexdigit (hex_digit n) \<and> lower_byte (hex_digit n) = hex_digit n"
proof -
  have "\<forall>n\<in>set [0..<16]. is_ascii_hexdigit (hex_digit n) \<and> lower_byte (hex_digit n) = hex_digit n"
    by code_simp
  then show "n < 16 \<Longrightarrow> is_ascii_hexdigit (hex_digit n) \<and> lower_byte (hex_digit n) = hex_digit n"
    by simp
qed

lemma length_hex_digest [simp]: "length (hex_digest bs) = 2 * length bs"
  by (induction bs) (auto simp: hex_digest_def)

lemma hex_digest_hex: "c \<in> set (hex_digest bs) \<Longrightarrow> is_ascii_hexdigit c \<and> lower_byte c = c"
proof (induction bs)
  case (Cons b bs)
  have "of_char b div 16 < (16::nat)" by (simp add: less_mult_imp_div_less)
  then show ?case using Cons hex_digit_hex by (auto simp: hex_digest_def)
qed (simp add: hex_digest_def)

lemma hex_digest_sha256: "is_sha256_hex (hex_digest bs) \<longleftrightarrow> length bs = 32"
  using hex_digest_hex by (auto simp: is_sha256_hex_def)

lemma hex_digest_lowercase: "to_ascii_lowercase (hex_digest bs) = hex_digest bs"
  using hex_digest_hex by (auto simp: to_ascii_lowercase_def intro: map_idI)

lemma system_time_roundtrip:
  "\<bar>ms\<bar> \<le> i64_max \<Longrightarrow> system_time_to_ms (file_time_of_ms ms) = ms"
proof -
  have "file_time_of_ms ms = ms * 1000000"
    by (simp add: file_time_of_ms_def) presburger
  then show "\<bar>ms\<bar> \<le> i64_max \<Longrightarrow> system_time_to_ms (file_time_of_ms ms) = ms"
    by (auto simp: system_time_to_ms_def)
qed

lemma exec_bits_pos: "exec_bits \<noteq> 0"
  by (simp add: exec_bits_def)

lemma mode_with_exec_exec: "mode_with_exec e m AND exec_bits \<noteq> 0 \<longleftrightarrow> e"
proof -
  have "(m AND NOT exec_bits) AND exec_bits = 0" by (simp add: and.assoc)
  moreover have "((m AND NOT exec_bits) OR exec_bits) AND exec_bits = exec_bits"
    by (simp add: bit.conj_disj_distrib2)
  ultimately show ?thesis using exec_bits_pos by (simp add: mode_with_exec_def Let_def)
qed

lemma mode_with_exec_other: "mode_with_exec e m AND NOT exec_bits = m AND NOT exec_bits"
proof -
  have "exec_bits AND NOT exec_bits = 0" by simp
  then show ?thesis
    by (simp add: mode_with_exec_def Let_def bit.conj_disj_distrib2 and.assoc)
qed

end
