(* ===== verification/Workspace.thy ===== *)
theory Workspace
  imports Paths Store_Facts
begin

text \<open>
  The workspace boundary of \<open>src/src/workspace.rs\<close>: every directory from the root of the file
  system to the workspace is a real directory, a project is a real directory directly inside it, and
  a relative path is used only if no component that exists is a symbolic link. A path argument
  is absolute and carries its raw components, so that \<open>.\<close> and \<open>..\<close> can occur.

  The theorems: what the checks accept has the promised shape in the store they looked at, for every
  schedule of outside failures; the checks change nothing.
\<close>

section \<open>Real paths\<close>

text \<open>
  \<open>canonicalize\<close> resolves every link; the kernel gives up after 40 of them.
\<close>

function realpath_from :: "nat \<Rightarrow> path \<Rightarrow> path \<Rightarrow> store \<Rightarrow> io_error + path" where
  "realpath_from fuel cur [] st = Inr cur"
| "realpath_from fuel cur (c # cs) st =
     (case lookup st (cur @ [c]) of
        None \<Rightarrow> Inl (err NotFoundK)
      | Some Dir \<Rightarrow> realpath_from fuel (cur @ [c]) cs st
      | Some (Link t) \<Rightarrow> if fuel = 0 then Inl (err ELoop) else realpath_from (fuel - 1) [] (t @ cs) st
      | Some _ \<Rightarrow> if cs = [] then Inr (cur @ [c]) else Inl (err NotADirectoryK))"
  by pat_completeness auto
termination
  by (relation "measures [\<lambda>(fuel, _, _, _). fuel, \<lambda>(_, _, cs, _). length cs]") auto

definition canonicalize :: "path \<Rightarrow> (path, 'z) io" where
  "canonicalize p = query (realpath_from 40 [] p)"

section \<open>The checks\<close>

definition resolve_project_dir :: "path \<Rightarrow> string \<Rightarrow> path res" where
  "resolve_project_dir workspace_root project =
     andThen (validate_project_name project) (\<lambda>_. Inr (workspace_root @ [project]))"

definition check_real_dir :: "path \<Rightarrow> 'z fs_scheme \<Rightarrow> unit res \<times> 'z fs_scheme" where
  "check_real_dir current =
     bindS (mapErr (internal ''failed to inspect directory'') (symlink_metadata current)) (\<lambda>n.
       liftR (ensure (n = Dir) (BadRequest ''directory paths must contain only real directories'')))"

fun real_chain_from :: "path \<Rightarrow> path \<Rightarrow> 'z fs_scheme \<Rightarrow> unit res \<times> 'z fs_scheme" where
  "real_chain_from current [] = okS ()"
| "real_chain_from current (c # cs) =
     (if c = ''.'' then real_chain_from current cs
      else if c = ''..'' then failS (BadRequest ''directory paths must not contain parent traversal'')
      else bindS (check_real_dir (current @ [c])) (\<lambda>_. real_chain_from (current @ [c]) cs))"

definition ensure_real_directory_chain :: "path \<Rightarrow> 'z fs_scheme \<Rightarrow> unit res \<times> 'z fs_scheme" where
  "ensure_real_directory_chain p = bindS (check_real_dir []) (\<lambda>_. real_chain_from [] p)"

definition ensure_safe_project_root :: "path \<Rightarrow> path \<Rightarrow> 'z fs_scheme \<Rightarrow> unit res \<times> 'z fs_scheme" where
  "ensure_safe_project_root workspace_root project_dir =
     bindS (ensure_real_directory_chain workspace_root) (\<lambda>_.
     bindS (mapErr (internal ''failed to canonicalize workspace root'') (canonicalize workspace_root))
       (\<lambda>canonical_root.
     bindS (mapErr (internal ''failed to inspect project directory'') (symlink_metadata project_dir))
       (\<lambda>n.
     bindS (liftR (ensure (n = Dir)
         (BadRequest ''project path must be a real directory, not a symbolic link''))) (\<lambda>_.
     bindS (mapErr (internal ''failed to canonicalize project directory'') (canonicalize project_dir))
       (\<lambda>canonical_project.
     liftR (ensure (parent canonical_project = Some canonical_root)
         (BadRequest ''project directory escapes workspace_root'')))))))"

definition ensure_project_dir :: "path \<Rightarrow> string \<Rightarrow> 'z fs_scheme \<Rightarrow> path res \<times> 'z fs_scheme" where
  "ensure_project_dir workspace_root project =
     bindS (ensure_real_directory_chain workspace_root) (\<lambda>_.
     bindS (liftR (resolve_project_dir workspace_root project)) (\<lambda>project_dir.
     bindS (\<lambda>s. case symlink_metadata project_dir s of
               (Inr _, s1) \<Rightarrow> (Inr (), s1)
             | (Inl e, s1) \<Rightarrow>
                 if io_kind e = NotFoundK
                 then mapErr (internal ''failed to create project directory'') (create_dir project_dir) s1
                 else (Inl (internal ''failed to inspect project directory'' e), s1)) (\<lambda>_.
     bindS (ensure_safe_project_root workspace_root project_dir) (\<lambda>_.
     okS project_dir))))"

fun no_links_from :: "path \<Rightarrow> string \<Rightarrow> string list \<Rightarrow> 'z fs_scheme \<Rightarrow> unit res \<times> 'z fs_scheme" where
  "no_links_from current normalized [] s = (Inr (), s)"
| "no_links_from current normalized (part # rest) s =
     (case symlink_metadata (current @ [part]) s of
        (Inr (Link _), s1) \<Rightarrow> (Inl (BadRequest (''symbolic links are not supported: '' @ normalized)), s1)
      | (Inr Dir, s1) \<Rightarrow> no_links_from (current @ [part]) normalized rest s1
      | (Inr _, s1) \<Rightarrow> (Inr (), s1)
      | (Inl e, s1) \<Rightarrow>
          if io_kind e = NotFoundK then (Inr (), s1)
          else (Inl (internal ''failed to inspect workspace path'' e), s1))"

definition ensure_path_has_no_links :: "path \<Rightarrow> string \<Rightarrow> 'z fs_scheme \<Rightarrow> unit res \<times> 'z fs_scheme" where
  "ensure_path_has_no_links root normalized =
     (if \<exists>part\<in>set (split_on CHR ''/'' normalized). \<not> validate_portable_segment part
      then failS (BadRequest ''invalid workspace path'')
      else bindS (ensure_real_directory_chain root)
             (\<lambda>_. no_links_from root normalized (split_on CHR ''/'' normalized)))"

section \<open>The checks only look\<close>

definition only_faults :: "'z fs_scheme \<Rightarrow> 'z fs_scheme \<Rightarrow> bool" where
  "only_faults s s' \<longleftrightarrow>
     (\<exists>r. s' = s\<lparr>faults := r\<rparr> \<and> set r \<subseteq> set (faults s))"

lemma only_faults_refl [simp]: "only_faults s s"
  by (auto simp: only_faults_def intro: exI [of _ "faults s"])

lemma only_faults_trans: "only_faults s s' \<Longrightarrow> only_faults s' s'' \<Longrightarrow> only_faults s s''"
  unfolding only_faults_def by (elim exE conjE) (rule exI, auto)

lemma only_faults_rel: "transp only_faults" "reflp only_faults"
  by (auto simp: transp_def reflp_def intro: only_faults_trans)

lemma only_faultsD:
  assumes "only_faults s s'"
  shows "store s' = store s" "device s' = device s" "honest s \<Longrightarrow> honest s'"
  using assms by (auto simp: only_faults_def honest_def)

lemma only_faults_tl [simp]: "only_faults s (s\<lparr>faults := tl (faults s)\<rparr>)"
  by (auto simp: only_faults_def intro: exI [of _ "tl (faults s)"] dest: set_tl_subset)

lemma keeps_only_query [intro!, simp]: "keeps only_faults (query f)"
  unfolding keeps_def
proof
  show "only_faults s (snd (query f s))" for s
    by (cases "query f s"; cases "fst (query f s)") (auto dest: query_InrD query_InlD)
qed

lemmas keeps_only = keeps_bindS [OF only_faults_rel(1)] keeps_mapErr keeps_pure [OF only_faults_rel(2)]
  keeps_forS [OF only_faults_rel] keeps_mapS [OF only_faults_rel]

lemma keeps_only_calls [simp]:
  "keeps only_faults (symlink_metadata p)" "keeps only_faults (canonicalize p)"
  "keeps only_faults (metadata p)" "keeps only_faults (read_dir p)" "keeps only_faults (sync_path p)"
  by (simp_all add: symlink_metadata_def canonicalize_def metadata_def read_dir_def sync_path_def)

lemma keeps_only_real_dir [simp]: "keeps only_faults (check_real_dir p)"
  by (simp add: check_real_dir_def keeps_only)

lemma keeps_only_chain_from [simp]: "keeps only_faults (real_chain_from cur p)"
  by (induction cur p rule: real_chain_from.induct) (simp_all add: keeps_only)

lemma keeps_only_chain [simp]: "keeps only_faults (ensure_real_directory_chain p)"
  by (simp add: ensure_real_directory_chain_def keeps_only)

lemma keeps_only_safe_root [simp]: "keeps only_faults (ensure_safe_project_root w p)"
  by (simp add: ensure_safe_project_root_def keeps_only)

lemma no_links_only: "only_faults s (snd (no_links_from cur n ps s))"
proof (induction cur n ps s rule: no_links_from.induct)
  case (2 cur n part rest s)
  obtain r s1 where r: "symlink_metadata (cur @ [part]) s = (r, s1)" by fastforce
  have "only_faults s s1" using keepsD [OF keeps_only_calls(1) r] .
  then show ?case using 2 r
    by (cases r) (auto split: node.splits intro: only_faults_trans)
qed simp

lemma keeps_only_no_links_from [simp]: "keeps only_faults (no_links_from r n ps)"
  by (simp add: keeps_def no_links_only)

lemma keeps_only_no_links [simp]: "keeps only_faults (ensure_path_has_no_links r n)"
  by (simp add: ensure_path_has_no_links_def keeps_only)

section \<open>What an accepted path is\<close>

lemma bindS_InrE:
  assumes "bindS m f s = (Inr y, s'')"
  obtains x s' where "m s = (Inr x, s')" "f x s' = (Inr y, s'')"
  using assms by (auto simp: bindS_def split: prod.splits sum.splits)

lemma mapErr_InrD: "mapErr g m s = (Inr x, s') \<Longrightarrow> m s = (Inr x, s')"
  by (auto simp: mapErr_def split: prod.splits sum.splits)

lemma liftR_ensureD: "liftR (ensure b e) s = (Inr u, s') \<Longrightarrow> b \<and> s' = s"
  by (auto simp: liftR_def ensure_def split: if_splits)

text \<open>The components a raw path names, and that each of its prefixes is a real directory.\<close>

definition real_dirs :: "store \<Rightarrow> path \<Rightarrow> bool" where
  "real_dirs st p \<longleftrightarrow> (\<forall>k\<le>length p. lookup st (take k p) = Some Dir)"

definition clean_path :: "path \<Rightarrow> bool" where
  "clean_path p \<longleftrightarrow> ''.'' \<notin> set p \<and> ''..'' \<notin> set p"

lemma check_real_dirD:
  assumes "check_real_dir p s = (Inr u, s')"
  shows "lookup (store s) p = Some Dir \<and> only_faults s s'"
proof -
  obtain n s1 where n: "symlink_metadata p s = (Inr n, s1)" "n = Dir" "s1 = s'"
    using assms by (auto simp: check_real_dir_def elim!: bindS_InrE dest!: mapErr_InrD liftR_ensureD)
  then show ?thesis
    using keepsD [OF keeps_only_calls(1) n(1)]
    by (auto simp: symlink_metadata_def dest!: query_InrD lstat_Some)
qed

lemma real_chain_fromD:
  assumes "real_chain_from cur p s = (Inr u, s')" "''.'' \<notin> set p"
  shows "''..'' \<notin> set p \<and> (\<forall>k<length p. lookup (store s) (cur @ take (Suc k) p) = Some Dir)"
  using assms
proof (induction cur p arbitrary: s rule: real_chain_from.induct)
  case (2 cur c cs)
  then have c: "c \<noteq> ''..''" "c \<noteq> ''.''" by (auto simp: failS_def split: if_splits)
  with 2(3) obtain s1 where s1: "check_real_dir (cur @ [c]) s = (Inr (), s1)"
    and r: "real_chain_from (cur @ [c]) cs s1 = (Inr u, s')"
    by (auto elim!: bindS_InrE)
  note d = check_real_dirD [OF s1]
  have IH: "''..'' \<notin> set cs \<and> (\<forall>k<length cs. lookup (store s1) ((cur @ [c]) @ take (Suc k) cs) = Some Dir)"
    using 2(2) [OF c(2,1) r] 2(4) by simp
  have "lookup (store s) (cur @ take (Suc k) (c # cs)) = Some Dir" if "k < length (c # cs)" for k
  proof (cases k)
    case 0 then show ?thesis using d by simp
  next
    case (Suc j)
    then show ?thesis using IH that only_faultsD(1) d by fastforce
  qed
  with IH c show ?case by simp
qed simp

lemma real_directory_chainD:
  assumes "ensure_real_directory_chain p s = (Inr u, s')" "''.'' \<notin> set p"
  shows "real_dirs (store s) p" "clean_path p" "only_faults s s'"
proof -
  obtain s1 where s1: "check_real_dir [] s = (Inr (), s1)" and r: "real_chain_from [] p s1 = (Inr u, s')"
    using assms by (auto simp: ensure_real_directory_chain_def elim!: bindS_InrE)
  note d = check_real_dirD [OF s1] and c = real_chain_fromD [OF r assms(2)]
  have "lookup (store s) (take k p) = Some Dir" if "k \<le> length p" for k
    using that d c only_faultsD(1) [of s s1] by (cases k) (auto simp: less_eq_Suc_le)
  then show "real_dirs (store s) p" by (simp add: real_dirs_def)
  show "clean_path p" using c assms(2) by (simp add: clean_path_def)
  show "only_faults s s'" using d keepsD [OF keeps_only_chain_from r] only_faults_trans by blast
qed

lemma realpath_real:
  "(\<And>k. 0 < k \<Longrightarrow> k \<le> length p \<Longrightarrow> lookup st (cur @ take k p) = Some Dir) \<Longrightarrow>
   realpath_from fuel cur p st = Inr (cur @ p)"
proof (induction p arbitrary: cur)
  case (Cons c cs)
  have "lookup st (cur @ [c]) = Some Dir" using Cons.prems [of 1] by simp
  moreover have "realpath_from fuel (cur @ [c]) cs st = Inr ((cur @ [c]) @ cs)"
    by (rule Cons.IH) (use Cons.prems [of "Suc k" for k] in auto)
  ultimately show ?case by simp
qed simp

lemma safe_project_rootD:
  assumes "ensure_safe_project_root w p s = (Inr u, s')" "''.'' \<notin> set w"
  shows "real_dirs (store s) w" "clean_path w" "lookup (store s) p = Some Dir" "only_faults s s'"
proof -
  obtain s1 s2 s3 s4 r n where
    c: "ensure_real_directory_chain w s = (Inr (), s1)"
    and r: "canonicalize w s1 = (Inr r, s2)"
    and n: "symlink_metadata p s2 = (Inr n, s3)" "n = Dir"
    using assms(1) unfolding ensure_safe_project_root_def
    by (elim bindS_InrE) (auto dest!: mapErr_InrD liftR_ensureD)
  note C = real_directory_chainD [OF c assms(2)]
  show "real_dirs (store s) w" "clean_path w" by (rule C)+
  have "only_faults s s2" using C(3) keepsD [OF keeps_only_calls(2) r] only_faults_trans by blast
  moreover have "lookup (store s2) p = Some Dir"
    using n by (auto simp: symlink_metadata_def dest!: query_InrD lstat_Some)
  ultimately show "lookup (store s) p = Some Dir" using only_faultsD(1) by fastforce
  show "only_faults s s'" using keepsD [OF keeps_only_safe_root assms(1)] .
qed

lemma lookup_below_nondir:
  "store_ok st \<Longrightarrow> lookup st p \<noteq> Some Dir \<Longrightarrow> r \<noteq> [] \<Longrightarrow> lookup st (p @ r) = None"
  using lookup_below_Dir [of st "p @ r" _ p] by (cases "lookup st (p @ r)") (auto simp: below_append)

lemma no_link_past:
  assumes "store_ok st" "lookup st (cur @ [c]) \<noteq> Some Dir" "\<nexists>t. lookup st (cur @ [c]) = Some (Link t)"
  shows "\<nexists>t. lookup st ((cur @ [c]) @ r) = Some (Link t)"
  using assms lookup_below_nondir [OF assms(1,2), of r] by (cases "r = []") auto

lemma no_links_fromD:
  assumes "no_links_from cur n ps s = (Inr u, s')" "store_ok (store s)" "honest s"
    and "lookup (store s) cur = Some Dir"
  shows "\<nexists>t. lookup (store s) (cur @ take k ps) = Some (Link t)"
  using assms
proof (induction ps arbitrary: cur s k)
  case (Cons part rest)
  obtain r s1 where r: "symlink_metadata (cur @ [part]) s = (r, s1)" by fastforce
  note of = only_faultsD [OF keepsD [OF keeps_only_calls(1) r]]
  note M = symlink_metadata_cases [OF r Cons.prems(3)]
  show ?case
  proof (cases k)
    case (Suc j)
    have "\<nexists>t. lookup (store s) ((cur @ [part]) @ take j rest) = Some (Link t)"
    proof (cases r)
      case (Inl e)
      then have "io_kind e = NotFoundK" using Cons.prems(1) r by (simp split: if_splits)
      with M(3) [OF Inl] Cons.prems(2) have "lookup (store s) (cur @ [part]) = None"
        by (blast intro: lstat_NotFound_absent)
      then show ?thesis using no_link_past [OF Cons.prems(2)] by simp
    next
      case (Inr nd)
      have l: "lookup (store s) (cur @ [part]) = Some nd" using M(2) [OF Inr] by (rule lstat_Some)
      show ?thesis
      proof (cases "nd = Dir")
        case True
        then have "no_links_from (cur @ [part]) n rest s1 = (Inr u, s')"
          using Cons.prems(1) r Inr by simp
        from Cons.IH [OF this, of j] show ?thesis using l True of Cons.prems(2,3) by simp
      next
        case False
        moreover have "\<nexists>t. nd = Link t" using Cons.prems(1) r Inr by auto
        ultimately show ?thesis using no_link_past [OF Cons.prems(2)] l by simp
      qed
    qed
    then show ?thesis using Suc by simp
  qed (use Cons.prems in simp)
qed simp

text \<open>Nothing an accepted relative path names or passes through is a link.\<close>

lemma path_has_no_linksD:
  assumes "ensure_path_has_no_links root n s = (Inr u, s')" "store_ok (store s)" "honest s"
    "''.'' \<notin> set root"
  shows "real_dirs (store s) root" "normal_parts (parts n)"
    "\<nexists>t. lookup (store s) (root @ take k (parts n)) = Some (Link t)" "only_faults s s'"
proof -
  have v: "\<forall>p\<in>set (parts n). validate_portable_segment p"
    using assms(1) by (auto simp: ensure_path_has_no_links_def failS_def split: if_splits)
  then obtain s1 where c: "ensure_real_directory_chain root s = (Inr (), s1)"
    and l: "no_links_from root n (parts n) s1 = (Inr u, s')"
    using assms(1) by (auto simp: ensure_path_has_no_links_def elim!: bindS_InrE split: if_splits)
  note C = real_directory_chainD [OF c assms(4)] and of = only_faultsD [OF real_directory_chainD(3) [OF c assms(4)]]
  show "real_dirs (store s) root" by (rule C)
  then have "lookup (store s) root = Some Dir" by (auto simp: real_dirs_def dest: spec [of _ "length root"])
  then show "\<nexists>t. lookup (store s) (root @ take k (parts n)) = Some (Link t)"
    using no_links_fromD [OF l, of k] of assms(2,3) by simp
  show "normal_parts (parts n)" using v portable_no_slash by (auto simp: normal_parts_def)
  show "only_faults s s'" using keepsD [OF keeps_only_no_links assms(1)] .
qed

lemma project_dirD:
  assumes "ensure_project_dir w project s = (Inr p, s')" "''.'' \<notin> set w"
  shows "p = w @ [project]" "validate_portable_segment project" "real_dirs (store s') w"
    "lookup (store s') p = Some Dir"
proof -
  obtain s1 s2 s3 where
    d: "resolve_project_dir w project = Inr p"
    and r: "ensure_safe_project_root w p s3 = (Inr (), s')"
    using assms(1) unfolding ensure_project_dir_def
    by (auto elim!: bindS_InrE simp: okS_def liftR_def)
  show "p = w @ [project]" "validate_portable_segment project"
    using d project_name_ok by (auto simp: resolve_project_dir_def res_simps)
  note S = safe_project_rootD [OF r assms(2)]
  show "real_dirs (store s') w" "lookup (store s') p = Some Dir"
    using S only_faultsD(1) [OF S(4)] by simp_all
qed

end
