(* ===== verification/Utf8.thy ===== *)
theory Utf8
  imports Prelude
begin

text \<open>
  UTF-8 validation as \<open>std::str::from_utf8\<close> performs it: the length of the valid prefix, and
  for what follows either the length of the invalid sequence (\<open>error_len\<close>) or the fact that the input
  ends inside a sequence that may still become valid.
\<close>

datatype utf8_step = Good nat | Bad nat | Cut

definition in_range :: "nat \<Rightarrow> nat \<Rightarrow> char \<Rightarrow> bool" where
  "in_range lo hi c \<longleftrightarrow> lo \<le> of_char c \<and> of_char c \<le> hi"

text \<open>The continuation bytes still expected, the first of them in a given range.\<close>

fun conts :: "(nat \<times> nat) list \<Rightarrow> nat \<Rightarrow> string \<Rightarrow> utf8_step" where
  "conts [] n bs = Good n"
| "conts (_ # _) n [] = Cut"
| "conts ((lo, hi) # rs) n (b # bs) = (if in_range lo hi b then conts rs (Suc n) bs else Bad n)"

definition cont_ranges :: "char \<Rightarrow> (nat \<times> nat) list option" where
  "cont_ranges b =
     (let c = of_char b :: nat; t = (128, 191) in
      if c < 128 then Some []
      else if 194 \<le> c \<and> c \<le> 223 then Some [t]
      else if c = 224 then Some [(160, 191), t]
      else if 225 \<le> c \<and> c \<le> 236 \<or> c = 238 \<or> c = 239 then Some [t, t]
      else if c = 237 then Some [(128, 159), t]
      else if c = 240 then Some [(144, 191), t, t]
      else if 241 \<le> c \<and> c \<le> 243 then Some [t, t, t]
      else if c = 244 then Some [(128, 143), t, t]
      else None)"

fun utf8_head :: "string \<Rightarrow> utf8_step" where
  "utf8_head [] = Cut"
| "utf8_head (b # bs) = (case cont_ranges b of None \<Rightarrow> Bad 1 | Some rs \<Rightarrow> conts rs 1 bs)"

lemma conts_Good: "conts rs n bs = Good m \<Longrightarrow> n \<le> m \<and> m = n + length rs \<and> length rs \<le> length bs"
  by (induction rs n bs rule: conts.induct) (auto split: if_splits)

lemma conts_Bad: "conts rs n bs = Bad m \<Longrightarrow> n \<le> m \<and> m \<le> n + length bs"
  by (induction rs n bs rule: conts.induct) (fastforce split: if_splits)+

lemma utf8_head_pos:
  "utf8_head bs = Good n \<Longrightarrow> 0 < n \<and> n \<le> length bs" "utf8_head bs = Bad n \<Longrightarrow> 0 < n \<and> n \<le> length bs"
  by (cases bs; auto split: option.splits dest!: conts_Good conts_Bad)+

text \<open>\<open>from_utf8\<close>: \<open>valid_up_to\<close>, and the error's \<open>error_len\<close> if there is an error.\<close>

function valid_prefix :: "string \<Rightarrow> nat \<times> nat option option" where
  "valid_prefix bs =
     (if bs = [] then (0, None)
      else case utf8_head bs of
        Good n \<Rightarrow> (let (k, e) = valid_prefix (drop n bs) in (n + k, e))
      | Bad n \<Rightarrow> (0, Some (Some n))
      | Cut \<Rightarrow> (0, Some None))"
  by pat_completeness auto
termination
  by (relation "measure length") (auto dest: utf8_head_pos)

declare valid_prefix.simps [simp del]

definition utf8 :: "string \<Rightarrow> bool" where
  "utf8 bs \<longleftrightarrow> snd (valid_prefix bs) = None"

end
