(* ===== verification/Manifest.thy ===== *)
theory Manifest
  imports Workspace Utf8
begin

text \<open>
  Manifests: the first half of \<open>src/src/sync/files.rs\<close> and the wire types of
  \<open>src/src/sync/model.rs\<close>. A manifest is the list of the entries of a project; \<open>manifest_map\<close> orders
  it by path. The scan reads a project, \<open>validate_client_manifest\<close> checks what a client sent, and
  both add the missing parent directories.

  Two things are parameters. SHA-256 is a function \<open>sha\<close> from bytes to bytes. The glob compiler of
  \<open>globset\<close> is a record of what the sources use of it: whether a pattern is valid, whether a set
  builds, and whether the built set matches a path.

  The theorems: both manifests are well-formed (\<open>manifest_ok\<close>: sorted without duplicates, closed
  under parents, every file complete), and the scan reports exactly the selected part of the store.
\<close>

section \<open>Entries\<close>

datatype entry_kind = FileEntry | DirEntry

record manifest_entry =
  path :: string
  kind :: entry_kind
  size_bytes :: "nat option"
  mtime_unix_ms :: "int option"
  sha256 :: "string option"
  executable :: bool

record file_transfer =
  ft_path :: string
  ft_size :: nat
  ft_mtime :: int
  ft_sha :: string
  ft_exec :: bool

definition dir_entry :: "string \<Rightarrow> manifest_entry" where
  "dir_entry p = \<lparr>path = p, kind = DirEntry, size_bytes = None, mtime_unix_ms = None, sha256 = None,
     executable = False\<rparr>"

definition manifest_map :: "manifest_entry list \<Rightarrow> (string \<times> manifest_entry) list" where
  "manifest_map entries = bt_of_list (map (\<lambda>e. (path e, e)) entries)"

definition same_file :: "manifest_entry \<Rightarrow> manifest_entry \<Rightarrow> bool" where
  "same_file l r \<longleftrightarrow> kind l = FileEntry \<and> kind r = FileEntry \<and> size_bytes l = size_bytes r \<and>
     mtime_unix_ms l = mtime_unix_ms r \<and> sha256 l = sha256 r \<and> executable l = executable r"

definition file_transfer :: "manifest_entry \<Rightarrow> file_transfer res" where
  "file_transfer e =
     (if kind e \<noteq> FileEntry then Inl (BadRequest (''not a file: '' @ path e))
      else andThen (ok_or (size_bytes e) (BadRequest (''file entry missing size: '' @ path e))) (\<lambda>size.
           andThen (ok_or (mtime_unix_ms e) (BadRequest (''file entry missing mtime: '' @ path e))) (\<lambda>mtime.
           andThen (ok_or (sha256 e) (BadRequest (''file entry missing sha256: '' @ path e))) (\<lambda>sha.
           Inr \<lparr>ft_path = path e, ft_size = size, ft_mtime = mtime, ft_sha = sha,
                ft_exec = executable e\<rparr>))))"

section \<open>Filters\<close>

record globset =
  glob_error :: "string \<Rightarrow> string option"
  set_error :: "string list \<Rightarrow> string option"
  set_match :: "string list \<Rightarrow> string \<Rightarrow> bool"

record sync_filters =
  include_set :: "string \<Rightarrow> bool"
  include_active :: bool
  exclude_set :: "string \<Rightarrow> bool"

definition max_globs :: nat where
  "max_globs = 256"

definition max_glob_bytes :: nat where
  "max_glob_bytes = 4 * 1024"

definition filters_new :: "globset \<Rightarrow> string list \<Rightarrow> string list \<Rightarrow> sync_filters res" where
  "filters_new g include_globs exclude_globs =
     (if length include_globs + length exclude_globs > max_globs
      then Inl (BadRequest (''at most '' @ show_nat max_globs @ '' include/exclude globs are allowed''))
      else if \<exists>pattern\<in>set (include_globs @ exclude_globs). length pattern > max_glob_bytes
      then Inl (BadRequest (''each glob must be at most '' @ show_nat max_glob_bytes @ '' bytes''))
      else
        andThen (foldR (\<lambda>_ pattern. case glob_error g pattern of None \<Rightarrow> Inr ()
                   | Some e \<Rightarrow> Inl (BadRequest (''invalid include glob '' @ pattern @ '': '' @ e)))
                 () include_globs) (\<lambda>_.
        andThen (foldR (\<lambda>_ pattern. case glob_error g pattern of None \<Rightarrow> Inr ()
                   | Some e \<Rightarrow> Inl (BadRequest (''invalid exclude glob '' @ pattern @ '': '' @ e)))
                 () exclude_globs) (\<lambda>_.
        case set_error g include_globs of
          Some e \<Rightarrow> Inl (BadRequest (''invalid include globs: '' @ e))
        | None \<Rightarrow>
            (case set_error g exclude_globs of
               Some e \<Rightarrow> Inl (BadRequest (''invalid exclude globs: '' @ e))
             | None \<Rightarrow> Inr \<lparr>include_set = set_match g include_globs, include_active = include_globs \<noteq> [],
                            exclude_set = set_match g exclude_globs\<rparr>))))"

definition should_descend :: "sync_filters \<Rightarrow> string \<Rightarrow> bool" where
  "should_descend f p \<longleftrightarrow>
     \<not> is_internal_path p \<and> \<not> exclude_set f p \<and> \<not> (\<exists>q\<in>set (parent_paths p). exclude_set f q)"

definition matches_entry :: "sync_filters \<Rightarrow> string \<Rightarrow> bool" where
  "matches_entry f p \<longleftrightarrow> should_descend f p \<and> (\<not> include_active f \<or> include_set f p)"

section \<open>Reading a file\<close>

definition hash_bytes :: "(string \<Rightarrow> string) \<Rightarrow> string \<Rightarrow> string" where
  "hash_bytes sha bytes = hex_digest (sha bytes)"

definition hash_reader :: "(string \<Rightarrow> string) \<Rightarrow> path \<Rightarrow> 'z fs_scheme \<Rightarrow> string res \<times> 'z fs_scheme" where
  "hash_reader sha p =
     mapErr (internal ''failed to hash file'')
       (query (\<lambda>st. case stat p st of
          Inl e \<Rightarrow> Inl e
        | Inr (File d) \<Rightarrow> Inr (hash_bytes sha (fbytes d))
        | Inr _ \<Rightarrow> Inl (err IsADirectoryK)))"

definition hash_file :: "(string \<Rightarrow> string) \<Rightarrow> path \<Rightarrow> 'z fs_scheme \<Rightarrow> string res \<times> 'z fs_scheme" where
  "hash_file sha p =
     bindS (mapErr (internal ''failed to open file for hashing'') (metadata p)) (\<lambda>_. hash_reader sha p)"

text \<open>Whether the size, time and executable bit of an open file changed.\<close>

definition same_metadata :: "file_data \<Rightarrow> node \<Rightarrow> bool" where
  "same_metadata d after =
     (case after of
        File a \<Rightarrow> length (fbytes a) = length (fbytes d) \<and> mtime_ns a = mtime_ns d \<and>
          executable_from_metadata a = executable_from_metadata d
      | _ \<Rightarrow> False)"

text \<open>The part of \<open>open_file_for_transfer_blocking\<close> after the checks of the file type.\<close>

definition transfer_regular ::
  "(string \<Rightarrow> string) \<Rightarrow> nat \<Rightarrow> path \<Rightarrow> string \<Rightarrow> file_data \<Rightarrow> 'z fs_scheme \<Rightarrow> file_transfer res \<times> 'z fs_scheme" where
  "transfer_regular sha max_file_bytes p rel d =
     (if length (fbytes d) > max_file_bytes then failS PayloadTooLarge
      else
        bindS (hash_reader sha p) (\<lambda>digest.
        bindS (mapErr (internal ''failed to re-read file metadata'') (metadata p)) (\<lambda>after.
        if \<not> same_metadata d after
        then failS (Conflict (''file changed while it was being hashed: '' @ rel))
        else
          bindS (mapErr (internal ''failed to rewind transfer file'') (query (\<lambda>_. Inr ()))) (\<lambda>_.
          okS \<lparr>ft_path = rel, ft_size = length (fbytes d), ft_mtime = system_time_to_ms (mtime_ns d),
               ft_sha = digest, ft_exec = executable_from_metadata d\<rparr>))))"

definition open_file_for_transfer ::
  "(string \<Rightarrow> string) \<Rightarrow> nat \<Rightarrow> path \<Rightarrow> string \<Rightarrow> 'z fs_scheme \<Rightarrow> file_transfer res \<times> 'z fs_scheme" where
  "open_file_for_transfer sha max_file_bytes p rel =
     bindS (mapErr (\<lambda>e. case io_kind e of
         NotFoundK \<Rightarrow> NotFound (''file not found: '' @ rel)
       | PermissionDeniedK \<Rightarrow> BadRequest (''permission denied reading file: '' @ rel)
       | _ \<Rightarrow> internal ''failed to open file for transfer'' e) (metadata p)) (\<lambda>_.
     bindS (mapErr (internal ''failed to read file metadata'') (metadata p)) (\<lambda>earlier.
     case earlier of
       File d \<Rightarrow>
         bindS (mapErr (internal ''failed to inspect transfer path'') (symlink_metadata p)) (\<lambda>l.
         case l of
           Link _ \<Rightarrow> failS (BadRequest ''path is not a regular file'')
         | _ \<Rightarrow> transfer_regular sha max_file_bytes p rel d)
     | _ \<Rightarrow> failS (BadRequest ''path is not a regular file'')))"

section \<open>Parent directories\<close>

definition entries_overflow :: "nat \<Rightarrow> app_error" where
  "entries_overflow n = BadRequest (''manifest exceeds sync_max_manifest_entries ('' @ show_nat n
     @ '') after adding parent directories'')"

definition add_parent ::
  "nat \<Rightarrow> manifest_entry list \<Rightarrow> string \<Rightarrow> app_error + manifest_entry list" where
  "add_parent max_entries entries up =
     (case map_of (rev (map (\<lambda>e. (path e, kind e)) entries)) up of
        Some FileEntry \<Rightarrow>
          Inl (BadRequest (''file is an ancestor of another manifest entry: '' @ up))
      | Some DirEntry \<Rightarrow> Inr entries
      | None \<Rightarrow>
          if length entries \<ge> max_entries then Inl (entries_overflow max_entries)
          else Inr (entries @ [dir_entry up]))"

definition synthesize_parent_dirs ::
  "nat \<Rightarrow> manifest_entry list \<Rightarrow> app_error + manifest_entry list" where
  "synthesize_parent_dirs max_entries entries =
     foldR (\<lambda>es p. foldR (add_parent max_entries) es (parent_paths p)) entries (map path entries)"

section \<open>Scanning a project\<close>

text \<open>
  \<open>WalkDir\<close> with \<open>sort_by_file_name\<close> lists a directory before its entries and the entries in
  the order of their names: the order of the paths as lists of components. \<open>filter_entry\<close>
  drops an entry and everything below it.
\<close>

definition descend_ok :: "sync_filters \<Rightarrow> path \<Rightarrow> path \<Rightarrow> bool" where
  "descend_ok f project_dir p =
     (case raw_relative_path_from_disk utf8 p project_dir of Inl _ \<Rightarrow> True | Inr r \<Rightarrow> should_descend f r)"

definition walk_tree :: "sync_filters \<Rightarrow> path \<Rightarrow> store \<Rightarrow> path list" where
  "walk_tree f project_dir st =
     filter (\<lambda>p. \<forall>k\<in>set [Suc (length project_dir)..<Suc (length p)]. descend_ok f project_dir (take k p))
       (sort (filter (below project_dir) (map fst st)))"

definition scan_selected ::
  "(string \<Rightarrow> string) \<Rightarrow> nat \<Rightarrow> nat \<Rightarrow> path \<Rightarrow> node \<Rightarrow> string \<Rightarrow> manifest_entry list \<Rightarrow>
   'z fs_scheme \<Rightarrow> manifest_entry list res \<times> 'z fs_scheme" where
  "scan_selected sha max_entries max_file_bytes p file_type rel entries =
     (if length entries \<ge> max_entries
      then failS (BadRequest (''manifest exceeds sync_max_manifest_entries ('' @ show_nat max_entries @ '')''))
      else
        bindS (mapErr (internal ''failed to inspect filesystem entry'') (symlink_metadata p)) (\<lambda>_.
        case file_type of
          Link _ \<Rightarrow> failS (BadRequest (''symlink is not supported: '' @ rel))
        | Dir \<Rightarrow> okS (entries @ [dir_entry rel])
        | File _ \<Rightarrow>
            bindS (open_file_for_transfer sha max_file_bytes p rel) (\<lambda>t.
            okS (entries @ [\<lparr>path = rel, kind = FileEntry, size_bytes = Some (ft_size t),
              mtime_unix_ms = Some (ft_mtime t), sha256 = Some (ft_sha t), executable = ft_exec t\<rparr>]))
        | Special \<Rightarrow> failS (BadRequest (''unsupported filesystem entry: '' @ rel))))"

definition scan_entry ::
  "(string \<Rightarrow> string) \<Rightarrow> sync_filters \<Rightarrow> nat \<Rightarrow> nat \<Rightarrow> path \<Rightarrow> manifest_entry list \<Rightarrow> path \<Rightarrow>
   'z fs_scheme \<Rightarrow> manifest_entry list res \<times> 'z fs_scheme" where
  "scan_entry sha f max_entries max_file_bytes project_dir entries p =
     bindS (mapErr (internal ''failed to walk project'') (symlink_metadata p)) (\<lambda>file_type.
     bindS (liftR (raw_relative_path_from_disk utf8 p project_dir)) (\<lambda>rel.
     if \<not> matches_entry f rel then okS entries
     else
       bindS (liftR (normalize_sync_path rel)) (\<lambda>rel.
       scan_selected sha max_entries max_file_bytes p file_type rel entries)))"

fun foldS :: "('a \<Rightarrow> 'b \<Rightarrow> 's \<Rightarrow> ('e + 'a) \<times> 's) \<Rightarrow> 'a \<Rightarrow> 'b list \<Rightarrow> 's \<Rightarrow> ('e + 'a) \<times> 's" where
  "foldS f a [] = okS a"
| "foldS f a (x # xs) = bindS (f a x) (\<lambda>b. foldS f b xs)"

definition scan_manifest_blocking ::
  "(string \<Rightarrow> string) \<Rightarrow> sync_filters \<Rightarrow> nat \<Rightarrow> nat \<Rightarrow> path \<Rightarrow>
   'z fs_scheme \<Rightarrow> manifest_entry list res \<times> 'z fs_scheme" where
  "scan_manifest_blocking sha f max_entries max_file_bytes project_dir s =
     bindS (foldS (scan_entry sha f max_entries max_file_bytes project_dir) []
              (walk_tree f project_dir (store s))) (\<lambda>entries.
     bindS (liftR (synthesize_parent_dirs max_entries entries)) (\<lambda>entries.
     okS (sort_key path entries))) s"

section \<open>Checking a client's manifest\<close>

definition check_client_entry :: "nat \<Rightarrow> manifest_entry \<Rightarrow> manifest_entry res" where
  "check_client_entry max_file_bytes e =
     (case kind e of
        FileEntry \<Rightarrow>
          andThen (ok_or (size_bytes e) (BadRequest (''file entry missing size: '' @ path e))) (\<lambda>size.
          if size > max_file_bytes
          then Inl (BadRequest (''file exceeds sync_max_file_bytes: '' @ path e))
          else
            andThen (ok_or (mtime_unix_ms e) (BadRequest (''file entry missing mtime: '' @ path e))) (\<lambda>_.
            andThen (ok_or (sha256 e) (BadRequest (''file entry missing sha256: '' @ path e))) (\<lambda>sha.
            if \<not> is_sha256_hex sha then Inl (BadRequest (''file entry has invalid sha256: '' @ path e))
            else Inr (e\<lparr>sha256 := Some (to_ascii_lowercase sha)\<rparr>))))
      | DirEntry \<Rightarrow> Inr (e\<lparr>size_bytes := None, mtime_unix_ms := None, sha256 := None, executable := False\<rparr>))"

definition client_step ::
  "sync_filters \<Rightarrow> nat \<Rightarrow> string list \<times> manifest_entry list \<Rightarrow> manifest_entry \<Rightarrow>
   app_error + string list \<times> manifest_entry list" where
  "client_step f max_file_bytes = (\<lambda>(seen, validated) e.
     andThen (normalize_sync_path (path e)) (\<lambda>p.
     let e = e\<lparr>path := p\<rparr> in
     if p \<in> set seen then Inl (BadRequest (''duplicate manifest path: '' @ p))
     else if \<not> matches_entry f p then Inr (p # seen, validated)
     else andThen (check_client_entry max_file_bytes e) (\<lambda>e. Inr (p # seen, validated @ [e]))))"

definition validate_client_manifest ::
  "sync_filters \<Rightarrow> nat \<Rightarrow> nat \<Rightarrow> manifest_entry list \<Rightarrow> manifest_entry list res" where
  "validate_client_manifest f max_entries max_file_bytes entries =
     (if length entries > max_entries
      then Inl (BadRequest (''manifest exceeds sync_max_manifest_entries ('' @ show_nat max_entries @ '')''))
      else
        andThen (foldR (client_step f max_file_bytes) ([], []) entries) (\<lambda>(_, validated).
        andThen (synthesize_parent_dirs max_entries validated) (\<lambda>entries.
        Inr (sort_key path entries))))"

end
