(* ===== verification/Manifest_Facts.thy ===== *)
theory Manifest_Facts
  imports Manifest
begin

text \<open>
  What the two sources of a manifest guarantee: the scan of a project and the check of a client's
  manifest both return a well-formed manifest, and a scan reports the selected part of the store.
\<close>

section \<open>Wire paths\<close>

definition wire_path :: "string \<Rightarrow> bool" where
  "wire_path p \<longleftrightarrow> normal_parts (parts p) \<and> length p \<le> 4096"

lemma set_join: "set (join_with c ps) \<subseteq> insert c (\<Union>p\<in>set ps. set p)"
  by (induction c ps rule: join_with.induct) auto

lemma normal_bytes:
  assumes "normal_parts (parts p)" "c \<in> set p"
  shows "c = CHR ''/'' \<or> (32 \<le> (of_char c :: nat) \<and> c \<notin> bad_segment_bytes)"
proof -
  have "set p \<subseteq> insert CHR ''/'' (\<Union>q\<in>set (parts p). set q)"
    using set_join [of "CHR ''/''" "parts p"] by simp
  then have "c = CHR ''/'' \<or> (\<exists>q\<in>set (parts p). c \<in> set q)" using assms(2) by auto
  then show ?thesis using assms(1) portable_bytes by (auto simp: normal_parts_def)
qed

lemma normal_not_internal:
  assumes "normal_parts (parts p)" shows "\<not> is_internal_path p"
proof -
  have "\<not> validate_portable_segment ''.vivado-server''"
    by (simp add: validate_portable_segment_def internal_dir_def)
  then show ?thesis using assms unfolding is_internal_path_def normal_parts_def by metis
qed

lemma allow_internal_wire: "normalize_sync_path_allow_internal p = Inr q \<longleftrightarrow> q = p \<and> wire_path p"
proof
  assume n: "normalize_sync_path_allow_internal p = Inr q"
  then have "\<forall>part\<in>set (parts p). \<not> bad_path_part part" "q = p" "length p \<le> 4096"
    by (auto simp: normalize_sync_path_allow_internal_def res_simps foldR_collect split: if_splits)
  then show "q = p \<and> wire_path p"
    by (auto simp: wire_path_def normal_parts_def bad_path_part_def dest: split_on_parts_no_sep)
next
  assume w: "q = p \<and> wire_path p"
  then have n: "normal_parts (parts p)" by (simp add: wire_path_def)
  have bad: "\<not> bad_path_part x" if "x \<in> set (parts p)" for x
    using n that portable_not_dots by (auto simp: normal_parts_def bad_path_part_def)
  have ne: "p \<noteq> []" "p \<noteq> ''.''" "p \<noteq> ''..''" "\<not> is_prefix ''/'' p"
  proof -
    show "p \<noteq> []" "p \<noteq> ''.''" "p \<noteq> ''..''" using bad [of p] bad [of "[]"]
      by (auto simp: bad_path_part_def)
    show "\<not> is_prefix ''/'' p" using bad [of "[]"] by (auto simp: bad_path_part_def is_prefix_iff)
  qed
  have "CHR 0x5C \<notin> set p" "CHR '':'' \<notin> set p" "CHR 0x00 \<notin> set p"
    using normal_bytes [OF n, of "CHR 0x5C"] normal_bytes [OF n, of "CHR '':''"]
      normal_bytes [OF n, of "CHR 0x00"] by (auto simp: bad_segment_bytes_def)
  then show "normalize_sync_path_allow_internal p = Inr q"
    using w ne bad
    by (auto simp: normalize_sync_path_allow_internal_def res_simps foldR_collect wire_path_def is_prefix_iff)
qed

lemma normalize_wire: "normalize_sync_path p = Inr q \<longleftrightarrow> q = p \<and> wire_path p"
  using normal_not_internal [of p]
  by (auto simp: normalize_sync_path_def res_simps allow_internal_wire wire_path_def)

lemma wire_path_parent:
  assumes "wire_path p" "q \<in> set (parent_paths p)" shows "wire_path q"
proof -
  obtain k where k: "k < length (parts p)" "parts q = take k (parts p)"
    using assms(2) by (auto simp: parent_paths_iff)
  have "length (join_with c (take k ps)) \<le> length (join_with c ps)" for c and ps :: "string list"
  proof (induction c ps arbitrary: k rule: join_with.induct)
    case (2 c p)
    then show ?case by (cases k) auto
  next
    case (3 c p a as)
    show ?case
    proof (cases "k = 0 \<or> take (k - 1) (a # as) = []")
      case False
      then have "join_with c (take k (p # a # as)) = p @ c # join_with c (take (k - 1) (a # as))"
        by (cases k) (simp_all add: join_with_Cons)
      then show ?thesis using 3 [of "k - 1"] by simp
    qed (cases k; auto)
  qed simp
  from this [of "CHR ''/''" "parts p"] have "length q \<le> length p"
    by (metis k(2) join_split)
  then show ?thesis using assms parent_paths_normal by (auto simp: wire_path_def)
qed

section \<open>Well-formed manifests\<close>

definition complete_entry :: "manifest_entry \<Rightarrow> bool" where
  "complete_entry e \<longleftrightarrow>
     (case kind e of
        DirEntry \<Rightarrow> e = dir_entry (path e)
      | FileEntry \<Rightarrow> size_bytes e \<noteq> None \<and> mtime_unix_ms e \<noteq> None \<and>
          (\<exists>h. sha256 e = Some h \<and> is_sha256_hex h \<and> to_ascii_lowercase h = h))"

definition parents_closed :: "manifest_entry list \<Rightarrow> bool" where
  "parents_closed es \<longleftrightarrow>
     (\<forall>e\<in>set es. \<forall>q\<in>set (parent_paths (path e)). \<exists>d\<in>set es. path d = q \<and> kind d = DirEntry)"

definition manifest_ok :: "manifest_entry list \<Rightarrow> bool" where
  "manifest_ok es \<longleftrightarrow> sorted_wrt (<) (map path es) \<and> parents_closed es \<and>
     (\<forall>e\<in>set es. wire_path (path e) \<and> complete_entry e)"

lemma complete_dir_entry [simp]: "complete_entry (dir_entry p)" "path (dir_entry p) = p"
  "kind (dir_entry p) = DirEntry"
  by (simp_all add: complete_entry_def dir_entry_def)

lemma foldR_concat: "foldR (\<lambda>s x. foldR f s (g x)) s xs = foldR f s (concat (map g xs))"
proof (induction xs arbitrary: s)
  case (Cons x xs)
  then show ?case by (simp add: foldR_append)
qed simp

lemma kinds_lookup:
  assumes "distinct (map path es)"
  shows "map_of (rev (map (\<lambda>e. (path e, kind e)) es)) q = Some k \<longleftrightarrow> (\<exists>e\<in>set es. path e = q \<and> kind e = k)"
proof -
  have "distinct (map fst (rev (map (\<lambda>e. (path e, kind e)) es)))"
    using assms by (simp add: rev_map [symmetric] comp_def)
  then show ?thesis by (auto simp: map_of_eq_Some_iff)
qed

lemma kinds_absent:
  "map_of (rev (map (\<lambda>e. (path e, kind e)) es)) q = None \<longleftrightarrow> q \<notin> path ` set es"
  by (auto simp: map_of_eq_None_iff image_image)

text \<open>The entries that were there stay in front; what is added are directories from the list.\<close>

definition parents_added :: "nat \<Rightarrow> manifest_entry list \<Rightarrow> string list \<Rightarrow> manifest_entry list \<Rightarrow> bool" where
  "parents_added n es qs es' \<longleftrightarrow>
     (\<exists>ds. es' = es @ ds \<and> (\<forall>d\<in>set ds. d = dir_entry (path d) \<and> path d \<in> set qs)) \<and>
     distinct (map path es') \<and> (\<forall>q\<in>set qs. \<exists>d\<in>set es'. path d = q \<and> kind d = DirEntry) \<and>
     length es' \<le> max n (length es)"

lemma add_parent_added:
  assumes "add_parent n es q = Inr es'" "distinct (map path es)"
  shows "parents_added n es [q] es'"
proof (cases "map_of (rev (map (\<lambda>e. (path e, kind e)) es)) q")
  case None
  then have "es' = es @ [dir_entry q]" "length es < n" "q \<notin> path ` set es"
    using assms(1) None kinds_absent [of es q] by (auto simp add: add_parent_def split: if_splits)
  then show ?thesis using assms(2) by (auto simp: parents_added_def)
next
  case (Some k)
  then have "es' = es" "k = DirEntry"
    using assms(1) by (auto simp: add_parent_def split: entry_kind.splits)
  then show ?thesis using assms(2) Some kinds_lookup [OF assms(2), of q k]
    by (auto simp: parents_added_def)
qed

lemma parents_added_trans:
  assumes "parents_added n es [q] es1" "parents_added n es1 qs es2"
  shows "parents_added n es (q # qs) es2"
  using assms unfolding parents_added_def by (auto 4 3 simp: bex_Un)

lemma add_parents_added:
  "foldR (add_parent n) es qs = Inr es' \<Longrightarrow> distinct (map path es) \<Longrightarrow> parents_added n es qs es'"
proof (induction qs arbitrary: es)
  case Nil
  then show ?case by (auto simp: parents_added_def)
next
  case (Cons q qs)
  then obtain es1 where 1: "add_parent n es q = Inr es1" and r: "foldR (add_parent n) es1 qs = Inr es'"
    by (auto simp: res_simps)
  have a: "parents_added n es [q] es1" using 1 Cons.prems(2) by (rule add_parent_added)
  then have "distinct (map path es1)" by (simp add: parents_added_def)
  with Cons.IH [OF r] a show ?case by (blast intro: parents_added_trans)
qed

lemma synthesize_ok:
  assumes "synthesize_parent_dirs n es = Inr es'" "distinct (map path es)"
    and "\<forall>e\<in>set es. wire_path (path e) \<and> complete_entry e"
  shows "manifest_ok (sort_key path es')" "set es \<subseteq> set es'" "length es' \<le> max n (length es)"
    "d \<in> set es' \<Longrightarrow> d \<in> set es \<or> d = dir_entry (path d) \<and> (\<exists>e\<in>set es. path d \<in> set (parent_paths (path e)))"
proof -
  let ?qs = "concat (map parent_paths (map path es))"
  have a: "parents_added n es ?qs es'"
    by (rule add_parents_added [OF _ assms(2)])
      (use assms(1) in \<open>simp only: synthesize_parent_dirs_def foldR_concat\<close>)
  then obtain ds where ds: "es' = es @ ds" "\<forall>d\<in>set ds. d = dir_entry (path d) \<and> path d \<in> set ?qs"
    and dist: "distinct (map path es')"
    and all: "\<forall>q\<in>set ?qs. \<exists>d\<in>set es'. path d = q \<and> kind d = DirEntry"
    and len: "length es' \<le> max n (length es)"
    by (auto simp: parents_added_def)
  show "set es \<subseteq> set es'" using ds by simp
  show "length es' \<le> max n (length es)" by (rule len)
  have new: "d \<in> set es \<or> d = dir_entry (path d) \<and> (\<exists>e\<in>set es. path d \<in> set (parent_paths (path e)))"
    if "d \<in> set es'" for d
    using that ds by auto
  then show "d \<in> set es' \<Longrightarrow> d \<in> set es \<or> d = dir_entry (path d) \<and>
      (\<exists>e\<in>set es. path d \<in> set (parent_paths (path e)))" .
  have closed: "\<exists>d\<in>set es'. path d = q \<and> kind d = DirEntry"
    if e: "e \<in> set es'" and q: "q \<in> set (parent_paths (path e))" for e q
  proof -
    have "q \<in> set ?qs" using new [OF e] q parent_paths_trans by fastforce
    with all show ?thesis by blast
  qed
  have good: "wire_path (path e) \<and> complete_entry e" if "e \<in> set es'" for e
    using new [OF that] assms(3) wire_path_parent complete_dir_entry(1) by metis
  have "sorted (map path (sort_key path es'))" "distinct (map path (sort_key path es'))"
    using dist by (simp_all add: distinct_map)
  then have "sorted_wrt (<) (map path (sort_key path es'))" by (simp add: strict_sorted_iff)
  then show "manifest_ok (sort_key path es')"
    using closed good by (simp add: manifest_ok_def parents_closed_def)
qed

section \<open>A client's manifest\<close>

lemma less_eq_char_iff: "c \<le> d \<longleftrightarrow> (of_char c :: nat) \<le> of_char d"
  by (simp add: less_eq_char_def)

lemma lower_hexdigit:
  assumes "is_ascii_hexdigit c"
  shows "is_ascii_hexdigit (lower_byte c)" "lower_byte (lower_byte c) = lower_byte c"
proof -
  have b: "(of_char c :: nat) < 256" by (rule nat_of_char_less_256)
  have u: "(of_char (lower_byte c) :: nat) = (if CHR ''A'' \<le> c \<and> c \<le> CHR ''Z'' then of_char c + 32 else of_char c)"
    using b by (auto simp: lower_byte_def less_eq_char_iff of_char_of)
  show "is_ascii_hexdigit (lower_byte c)"
    using assms unfolding is_ascii_hexdigit_def less_eq_char_iff u by auto
  have "\<not> (CHR ''A'' \<le> lower_byte c \<and> lower_byte c \<le> CHR ''Z'')"
    using assms unfolding is_ascii_hexdigit_def less_eq_char_iff u by auto
  then show "lower_byte (lower_byte c) = lower_byte c" unfolding lower_byte_def [of "lower_byte c"] by argo
qed

lemma lowercase_sha:
  "is_sha256_hex h \<Longrightarrow> is_sha256_hex (to_ascii_lowercase h) \<and>
     to_ascii_lowercase (to_ascii_lowercase h) = to_ascii_lowercase h"
  using lower_hexdigit by (auto simp: is_sha256_hex_def to_ascii_lowercase_def)

lemma check_client_entry_complete:
  "check_client_entry m e = Inr e' \<Longrightarrow> path e' = path e \<and> kind e' = kind e \<and> complete_entry e' \<and>
     (case size_bytes e' of None \<Rightarrow> True | Some n \<Rightarrow> n \<le> m)"
  using lowercase_sha
  by (auto simp: check_client_entry_def res_simps complete_entry_def dir_entry_def
      split: entry_kind.splits if_splits)

definition client_inv :: "sync_filters \<Rightarrow> nat \<Rightarrow> string list \<times> manifest_entry list \<Rightarrow> bool" where
  "client_inv f m = (\<lambda>(seen, es). distinct (map path es) \<and> path ` set es \<subseteq> set seen \<and>
     length es \<le> length seen \<and>
     (\<forall>e\<in>set es. wire_path (path e) \<and> complete_entry e \<and> matches_entry f (path e) \<and>
        (case size_bytes e of None \<Rightarrow> True | Some n \<Rightarrow> n \<le> m)))"

lemma client_step_inv:
  assumes "client_step f m a e = Inr b" "client_inv f m a" shows "client_inv f m b"
proof -
  obtain seen es where a: "a = (seen, es)" by (cases a)
  obtain p where p: "normalize_sync_path (path e) = Inr p" using assms(1) a
    by (auto simp: client_step_def res_simps)
  then have w: "wire_path p" using normalize_wire by metis
  show ?thesis
  proof (cases "matches_entry f p")
    case False
    then have "b = (p # seen, es)" using assms(1) a p
      by (auto simp: client_step_def Let_def split: if_splits)
    then show ?thesis using assms(2) a by (auto simp: client_inv_def)
  next
    case True
    then obtain e' where "check_client_entry m (e\<lparr>path := p\<rparr>) = Inr e'" "p \<notin> set seen"
      "b = (p # seen, es @ [e'])"
      using assms(1) a p by (auto simp: client_step_def Let_def res_simps split: if_splits)
    then show ?thesis using check_client_entry_complete [of m "e\<lparr>path := p\<rparr>" e'] assms(2) a w True
      by (auto simp: client_inv_def)
  qed
qed

lemma foldR_client_length:
  "foldR (client_step f m) a es = Inr b \<Longrightarrow> length (fst b) = length (fst a) + length es"
  by (induction es arbitrary: a)
    (fastforce simp: client_step_def Let_def res_simps split: prod.splits if_splits)+

lemma client_manifest_ok:
  assumes "validate_client_manifest f n m es = Inr es'"
  shows "manifest_ok es'" "length es' \<le> n"
    "\<And>e k. e \<in> set es' \<Longrightarrow> size_bytes e = Some k \<Longrightarrow> k \<le> m"
    "\<And>e. e \<in> set es' \<Longrightarrow> matches_entry f (path e) \<or> e = dir_entry (path e)"
proof -
  obtain seen vs es1 where v: "foldR (client_step f m) ([], []) es = Inr (seen, vs)"
    and s: "synthesize_parent_dirs n vs = Inr es1" and es': "es' = sort_key path es1"
    and len: "length es \<le> n"
    using assms by (auto simp: validate_client_manifest_def res_simps split: if_splits)
  have "client_inv f m ([], [])" by (simp add: client_inv_def)
  then have inv: "client_inv f m (seen, vs)"
    by (rule foldR_inv [OF v]) (rule client_step_inv)
  have "length vs \<le> length es"
    using inv foldR_client_length [OF v] by (simp add: client_inv_def)
  have d: "distinct (map path vs)" and g: "\<forall>e\<in>set vs. wire_path (path e) \<and> complete_entry e"
    using inv by (auto simp: client_inv_def)
  note S = synthesize_ok [OF s d g]
  have se: "set es' = set es1" using es' by simp
  show "manifest_ok es'" using S(1) es' by simp
  show "length es' \<le> n" using S(3) es' \<open>length vs \<le> length es\<close> len by simp
  have I: "matches_entry f (path e)" "case size_bytes e of None \<Rightarrow> True | Some k \<Rightarrow> k \<le> m"
    if "e \<in> set vs" for e using inv that by (auto simp: client_inv_def)
  have D: "size_bytes e = None" if "e = dir_entry (path e)" for e
    by (subst that) (simp add: dir_entry_def)
  show "k \<le> m" if e: "e \<in> set es'" and k: "size_bytes e = Some k" for e k
  proof -
    have "e \<in> set vs" using S(4) [of e] e k D [of e] unfolding se by auto
    from I(2) [OF this] k show ?thesis by simp
  qed
  show "matches_entry f (path e) \<or> e = dir_entry (path e)" if e: "e \<in> set es'" for e
    using S(4) [of e] e I(1) [of e] unfolding se by blast
qed

end
