(* ===== verification/Scan_Facts.thy ===== *)
theory Scan_Facts
  imports Manifest_Facts
begin

text \<open>
  The scan of a project reports the store: every entry describes the node at its path, and every
  node that the filters select has an entry.
\<close>

section \<open>What the scan reports\<close>

definition file_entry :: "(string \<Rightarrow> string) \<Rightarrow> string \<Rightarrow> file_data \<Rightarrow> manifest_entry" where
  "file_entry sha rel d = \<lparr>path = rel, kind = FileEntry, size_bytes = Some (length (fbytes d)),
     mtime_unix_ms = Some (system_time_to_ms (mtime_ns d)), sha256 = Some (hash_bytes sha (fbytes d)),
     executable = executable_from_metadata d\<rparr>"

text \<open>An entry describes the node below a root at the entry's path.\<close>

definition describes :: "(string \<Rightarrow> string) \<Rightarrow> store \<Rightarrow> path \<Rightarrow> manifest_entry \<Rightarrow> bool" where
  "describes sha st root e \<longleftrightarrow>
     (case lookup st (root @ parts (path e)) of
        Some Dir \<Rightarrow> e = dir_entry (path e)
      | Some (File d) \<Rightarrow> e = file_entry sha (path e) d
      | _ \<Rightarrow> False)"

definition rel_name :: "path \<Rightarrow> path \<Rightarrow> string" where
  "rel_name root p = join_with CHR ''/'' (drop (length root) p)"

definition pure_scan :: "(string \<Rightarrow> string) \<Rightarrow> sync_filters \<Rightarrow> path \<Rightarrow> store \<Rightarrow> path \<Rightarrow> manifest_entry list" where
  "pure_scan sha f root st p =
     (if matches_entry f (rel_name root p)
      then (case lookup st p of
              Some Dir \<Rightarrow> [dir_entry (rel_name root p)]
            | Some (File d) \<Rightarrow> [file_entry sha (rel_name root p) d]
            | _ \<Rightarrow> [])
      else [])"

text \<open>Component names have no separator, as the kernel guarantees.\<close>

definition names_ok :: "store \<Rightarrow> bool" where
  "names_ok st \<longleftrightarrow> (\<forall>p\<in>set (map fst st). \<forall>c\<in>set p. CHR ''/'' \<notin> set c)"

lemma parts_rel_name:
  assumes "names_ok st" "p \<in> set (map fst st)" "below root p"
  shows "parts (rel_name root p) = drop (length root) p" "root @ parts (rel_name root p) = p"
proof -
  obtain r where r: "r \<noteq> []" "p = root @ r" using assms(3) by (auto simp: below_append)
  have "\<forall>c\<in>set r. CHR ''/'' \<notin> set c" using assms(1,2) r(2) by (fastforce simp: names_ok_def)
  then show "parts (rel_name root p) = drop (length root) p"
    using r split_join [of r "CHR ''/''"] by (simp add: rel_name_def)
  then show "root @ parts (rel_name root p) = p" using r by simp
qed

lemma foldR_all:
  "foldR f acc xs = Inr ys \<Longrightarrow> (\<And>acc x y. f acc x = Inr y \<Longrightarrow> y = acc @ [x]) \<Longrightarrow> ys = acc @ xs"
proof (induction xs arbitrary: acc)
  case (Cons x xs)
  then obtain b where b: "f acc x = Inr b" "foldR f b xs = Inr ys" by (auto simp: res_simps)
  with Cons.IH [OF b(2) Cons.prems(2)] Cons.prems(2) [OF b(1)] show ?case by simp
qed simp

lemma raw_relative_Inr:
  assumes "raw_relative_path_from_disk u p root = Inr r"
  shows "is_prefix root p \<and> r = rel_name root p \<and> p \<noteq> root"
proof -
  let ?rel = "drop (length root) p"
  obtain ps where pre: "is_prefix root p" and ne: "ps \<noteq> []" and r: "r = join_with CHR ''/'' ps"
    and f: "foldR (\<lambda>parts part.
             if part = ''..'' then Inl (BadRequest ''invalid filesystem path in project'')
             else if \<not> u part then Inl (BadRequest ''non-UTF-8 filesystem path is not supported'')
             else Inr (parts @ [part])) [] ?rel = Inr ps"
    using assms by (auto simp: raw_relative_path_from_disk_def Let_def res_simps split: if_splits)
  have "ps = [] @ ?rel" by (rule foldR_all [OF f]) (auto split: if_splits)
  with pre ne r show ?thesis by (auto simp: rel_name_def)
qed

lemma failS_simp [simp]: "failS e s = (Inr x, s') \<longleftrightarrow> False" "okS y s = (Inr x, s') \<longleftrightarrow> y = x \<and> s = s'"
  by (auto simp: failS_def okS_def)

lemma hash_readerD:
  "hash_reader sha p s = (Inr h, s') \<Longrightarrow>
   store s' = store s \<and> (\<exists>d. stat p (store s) = Inr (File d) \<and> h = hash_bytes sha (fbytes d))"
  by (auto simp: hash_reader_def dest!: mapErr_InrD query_InrD split: sum.splits node.splits)

definition transfer_of :: "(string \<Rightarrow> string) \<Rightarrow> string \<Rightarrow> file_data \<Rightarrow> file_transfer" where
  "transfer_of sha rel d = \<lparr>ft_path = rel, ft_size = length (fbytes d),
     ft_mtime = system_time_to_ms (mtime_ns d), ft_sha = hash_bytes sha (fbytes d),
     ft_exec = executable_from_metadata d\<rparr>"

lemma transfer_regularD:
  assumes "transfer_regular sha m p rel d s = (Inr t, s')" "stat p (store s) = Inr (File d)"
  shows "length (fbytes d) \<le> m" "t = transfer_of sha rel d"
proof -
  show "length (fbytes d) \<le> m" using assms by (auto simp: transfer_regular_def split: if_splits)
  obtain h s1 where h: "hash_reader sha p s = (Inr h, s1)"
    and t: "t = \<lparr>ft_path = rel, ft_size = length (fbytes d), ft_mtime = system_time_to_ms (mtime_ns d),
               ft_sha = h, ft_exec = executable_from_metadata d\<rparr>"
    using assms(1) unfolding transfer_regular_def by (auto split: if_splits elim!: bindS_InrE)
  show "t = transfer_of sha rel d" using hash_readerD [OF h] assms(2) t by (simp add: transfer_of_def)
qed

lemma keeps_only_hash [simp]: "keeps only_faults (hash_reader sha p)" "keeps only_faults (hash_file sha p)"
  by (simp_all add: hash_reader_def hash_file_def keeps_only)

lemma keeps_only_transfer [simp]:
  "keeps only_faults (transfer_regular sha m p rel d)" "keeps only_faults (open_file_for_transfer sha m p rel)"
  by (auto simp: transfer_regular_def open_file_for_transfer_def intro!: keeps_only split: node.split)

lemma open_transferD:
  assumes "open_file_for_transfer sha m p rel s = (Inr t, s')"
  shows "\<exists>d. lookup (store s) p = Some (File d) \<and> length (fbytes d) \<le> m \<and> t = transfer_of sha rel d"
    and "only_faults s s'"
proof -
  let ?s2 = "s\<lparr>faults := tl (tl (faults s))\<rparr>"
  obtain d where b: "stat p (store s) = Inr (File d)"
    and k: "bindS (mapErr (internal ''failed to inspect transfer path'') (symlink_metadata p)) (\<lambda>l.
         case l of
           Link _ \<Rightarrow> failS (BadRequest ''path is not a regular file'')
         | _ \<Rightarrow> transfer_regular sha m p rel d) ?s2 = (Inr t, s')"
    using assms unfolding open_file_for_transfer_def
    by (elim bindS_InrE) (auto simp: metadata_def dest!: mapErr_InrD query_InrD split: node.splits)
  obtain l s3 where l: "symlink_metadata p ?s2 = (Inr l, s3)" "\<nexists>x. l = Link x"
    and t: "transfer_regular sha m p rel d s3 = (Inr t, s')"
    using k by (elim bindS_InrE) (auto dest!: mapErr_InrD split: node.splits)
  have a: "lstat p (store s) = Inr l" "store s3 = store s"
    using l(1) by (auto simp: symlink_metadata_def dest!: query_InrD)
  have "l = File d" using b(1) a(1) l(2) by (cases l) (auto simp: stat_def)
  with a(1) have L: "lookup (store s) p = Some (File d)" by (simp add: lstat_Some)
  have st: "stat p (store s3) = Inr (File d)" using b a by simp
  from L transfer_regularD [OF t st]
  show "\<exists>d. lookup (store s) p = Some (File d) \<and> length (fbytes d) \<le> m \<and> t = transfer_of sha rel d"
    by blast
  show "only_faults s s'" using keepsD [OF keeps_only_transfer(2) assms] .
qed

section \<open>The scan\<close>

lemma keeps_only_scan_selected [simp]: "keeps only_faults (scan_selected sha n m p ft rel es)"
  unfolding scan_selected_def by (auto intro!: keeps_only split: node.split)

lemma keeps_only_scan_entry [simp]: "keeps only_faults (scan_entry sha f n m root es p)"
  unfolding scan_entry_def by (auto intro!: keeps_only)

lemma scan_selectedD:
  assumes "scan_selected sha n m p ft rel es s = (Inr es', s')" "lookup (store s) p = Some ft"
  shows "length es < n \<and> (case ft of Dir \<Rightarrow> es' = es @ [dir_entry rel]
    | File d \<Rightarrow> es' = es @ [file_entry sha rel d] | _ \<Rightarrow> False)"
proof -
  obtain l s1 where ne: "length es < n" and l: "symlink_metadata p s = (Inr l, s1)"
    and k: "(case ft of
          Link _ \<Rightarrow> failS (BadRequest (''symlink is not supported: '' @ rel))
        | Dir \<Rightarrow> okS (es @ [dir_entry rel])
        | File _ \<Rightarrow>
            bindS (open_file_for_transfer sha m p rel) (\<lambda>t.
            okS (es @ [\<lparr>path = rel, kind = FileEntry, size_bytes = Some (ft_size t),
              mtime_unix_ms = Some (ft_mtime t), sha256 = Some (ft_sha t), executable = ft_exec t\<rparr>]))
        | Special \<Rightarrow> failS (BadRequest (''unsupported filesystem entry: '' @ rel))) s1 = (Inr es', s')"
    using assms(1) unfolding scan_selected_def
    by (auto elim!: bindS_InrE dest!: mapErr_InrD split: if_splits)
  have st: "store s1 = store s" using l by (auto simp: symlink_metadata_def dest!: query_InrD)
  show ?thesis
  proof (cases ft)
    case (File d)
    then obtain t s2 where t: "open_file_for_transfer sha m p rel s1 = (Inr t, s2)"
      and e: "es' = es @ [\<lparr>path = rel, kind = FileEntry, size_bytes = Some (ft_size t),
              mtime_unix_ms = Some (ft_mtime t), sha256 = Some (ft_sha t), executable = ft_exec t\<rparr>]"
      using k by (auto elim!: bindS_InrE)
    show ?thesis using open_transferD(1) [OF t] assms(2) File st e ne
      by (auto simp: file_entry_def transfer_of_def)
  qed (use k ne in auto)
qed

lemma scan_entryD:
  assumes "scan_entry sha f n m root es p s = (Inr es', s')"
  shows "only_faults s s'" "es' = es @ pure_scan sha f root (store s) p"
    "matches_entry f (rel_name root p) \<Longrightarrow> wire_path (rel_name root p) \<and>
       (\<exists>e. pure_scan sha f root (store s) p = [e]) \<and> length es < n"
proof -
  show "only_faults s s'" using keepsD [OF keeps_only_scan_entry assms] .
  obtain ft s1 where ft: "symlink_metadata p s = (Inr ft, s1)"
    and k: "(if \<not> matches_entry f (rel_name root p) then okS es
     else
       bindS (liftR (normalize_sync_path (rel_name root p))) (\<lambda>rel.
       scan_selected sha n m p ft rel es)) s1 = (Inr es', s')"
    using assms unfolding scan_entry_def
    by (elim bindS_InrE) (auto simp: liftR_def dest!: mapErr_InrD dest: raw_relative_Inr)
  have L: "lookup (store s1) p = Some ft" "store s1 = store s"
    using ft by (auto simp: symlink_metadata_def dest!: query_InrD lstat_Some)
  have "es' = es @ pure_scan sha f root (store s) p \<and>
    (matches_entry f (rel_name root p) \<longrightarrow> wire_path (rel_name root p) \<and>
     (\<exists>e. pure_scan sha f root (store s) p = [e]) \<and> length es < n)"
  proof (cases "matches_entry f (rel_name root p)")
    case True
    then have w: "wire_path (rel_name root p)"
      and sel: "scan_selected sha n m p ft (rel_name root p) es s1 = (Inr es', s')"
      using k by (auto elim!: bindS_InrE simp: liftR_def normalize_wire)
    show ?thesis using scan_selectedD [OF sel L(1)] L True w
      by (auto simp: pure_scan_def split: node.splits)
  qed (use k in \<open>simp add: pure_scan_def\<close>)
  then show "es' = es @ pure_scan sha f root (store s) p"
    "matches_entry f (rel_name root p) \<Longrightarrow> wire_path (rel_name root p) \<and>
       (\<exists>e. pure_scan sha f root (store s) p = [e]) \<and> length es < n" by auto
qed

lemma scan_foldD:
  assumes "foldS (scan_entry sha f n m root) es ps s = (Inr es', s')"
  shows "only_faults s s' \<and> es' = es @ concat (map (pure_scan sha f root (store s)) ps) \<and>
    (\<forall>p\<in>set ps. matches_entry f (rel_name root p) \<longrightarrow> wire_path (rel_name root p) \<and>
       (\<exists>e. pure_scan sha f root (store s) p = [e])) \<and> length es' \<le> max n (length es)"
  using assms
proof (induction ps arbitrary: es s)
  case (Cons p ps)
  obtain es1 s1 where 1: "scan_entry sha f n m root es p s = (Inr es1, s1)"
    and r: "foldS (scan_entry sha f n m root) es1 ps s1 = (Inr es', s')"
    using Cons.prems by (auto elim!: bindS_InrE)
  note D = scan_entryD [OF 1]
  have st: "store s1 = store s" using D(1) only_faultsD(1) by blast
  have "length es1 \<le> max n (length es)"
    using D(2,3) by (cases "matches_entry f (rel_name root p)") (auto simp: pure_scan_def)
  then show ?case using Cons.IH [OF r] D st only_faults_trans by auto
qed simp


definition node_entry :: "(string \<Rightarrow> string) \<Rightarrow> node option \<Rightarrow> string \<Rightarrow> manifest_entry \<Rightarrow> bool" where
  "node_entry sha n rel e \<longleftrightarrow>
     (case n of Some Dir \<Rightarrow> e = dir_entry rel | Some (File d) \<Rightarrow> e = file_entry sha rel d | _ \<Rightarrow> False)"

lemma in_node_list:
  "e \<in> set (case n of Some Dir \<Rightarrow> [dir_entry rel] | Some (File d) \<Rightarrow> [file_entry sha rel d] | _ \<Rightarrow> []) \<longleftrightarrow>
     node_entry sha n rel e"
proof (cases n)
  case (Some m)
  then show ?thesis unfolding node_entry_def by (cases m) simp_all
qed (simp add: node_entry_def)

lemma in_pure_scan:
  "e \<in> set (pure_scan sha f root st p) \<longleftrightarrow>
     matches_entry f (rel_name root p) \<and> node_entry sha (lookup st p) (rel_name root p) e"
  unfolding pure_scan_def by (cases "matches_entry f (rel_name root p)") (simp_all only: if_True if_False in_node_list simp_thms list.set empty_iff)

lemma describes_node: "describes sha st root e \<longleftrightarrow> node_entry sha (lookup st (root @ parts (path e))) (path e) e"
  by (simp add: describes_def node_entry_def)

lemma node_entry_path: "node_entry sha n rel e \<Longrightarrow> path e = rel"
  unfolding node_entry_def by (auto simp: file_entry_def split: option.splits node.splits)

lemma path_file_entry [simp]: "path (file_entry sha p d) = p" "kind (file_entry sha p d) = FileEntry"
  by (simp_all add: file_entry_def)

lemma pure_scan_path:
  "e \<in> set (pure_scan sha f root st p) \<Longrightarrow> path e = rel_name root p"
  "e \<in> set (pure_scan sha f root st p) \<Longrightarrow> matches_entry f (rel_name root p)"
  unfolding in_pure_scan by (auto dest: node_entry_path)

lemma node_list_single:
  "(case n of Some Dir \<Rightarrow> [dir_entry rel] | Some (File d) \<Rightarrow> [file_entry sha rel d] | _ \<Rightarrow> []) = [] \<or>
   (\<exists>e. (case n of Some Dir \<Rightarrow> [dir_entry rel] | Some (File d) \<Rightarrow> [file_entry sha rel d] | _ \<Rightarrow> []) = [e] \<and>
        path e = rel)"
proof (cases n)
  case (Some m)
  then show ?thesis by (cases m) simp_all
qed simp

lemma pure_scan_single:
  "pure_scan sha f root st p = [] \<or> (\<exists>e. pure_scan sha f root st p = [e] \<and> path e = rel_name root p)"
  unfolding pure_scan_def using node_list_single by presburger

lemma distinct_pure_scan:
  assumes "distinct ps" "inj_on (rel_name root) (set ps)"
  shows "distinct (map path (concat (map (pure_scan sha f root st) ps)))"
  using assms
proof (induction ps)
  case (Cons p ps)
  have n: "rel_name root p \<notin> rel_name root ` set ps" using Cons.prems by (auto simp: inj_on_insert)
  have "path e \<in> rel_name root ` set ps" if "e \<in> set (concat (map (pure_scan sha f root st) ps))" for e
    using that pure_scan_path(1) by fastforce
  with n have "rel_name root p \<notin> path ` set (concat (map (pure_scan sha f root st) ps))"
    by (metis imageE)
  moreover have "distinct (map path (concat (map (pure_scan sha f root st) ps)))"
    using Cons by (simp add: inj_on_insert)
  ultimately show ?case using pure_scan_single [of sha f root st p] by (elim disjE exE) simp_all
qed simp

lemma sorted_walk: "distinct (map fst st) \<Longrightarrow> distinct (walk_tree f root st)"
  by (simp add: walk_tree_def)

lemma walk_treeD: "p \<in> set (walk_tree f root st) \<Longrightarrow> p \<in> set (map fst st) \<and> below root p"
  by (auto simp: walk_tree_def)

lemma inj_rel_name:
  assumes "names_ok st" shows "inj_on (rel_name root) {p \<in> set (map fst st). below root p}"
proof (rule inj_onI)
  fix p q
  assume "p \<in> {p \<in> set (map fst st). below root p}" "q \<in> {p \<in> set (map fst st). below root p}"
    and e: "rel_name root p = rel_name root q"
  then show "p = q" using parts_rel_name(2) [OF assms] by (metis (no_types, lifting) mem_Collect_eq)
qed

text \<open>A selected path is reached: the filters let the walk descend to it.\<close>

lemma should_descend_prefix:
  assumes "should_descend f (join_with CHR ''/'' q)" "\<forall>c\<in>set q. CHR ''/'' \<notin> set c" "0 < k" "k \<le> length q"
  shows "should_descend f (join_with CHR ''/'' (take k q))"
proof (cases "k = length q")
  case False
  let ?p = "join_with CHR ''/'' q" and ?t = "join_with CHR ''/'' (take k q)"
  have p: "parts ?p = q" by (rule split_join) (use assms in auto)
  have t: "parts ?t = take k q" by (rule split_join) (use assms in \<open>auto dest: in_set_takeD\<close>)
  have in_p: "?t \<in> set (parent_paths ?p)"
    unfolding parent_paths_iff p t using assms False by auto
  have "set (parts ?t) \<subseteq> set (parts ?p)" unfolding p t by (rule set_take_subset)
  then have "\<not> is_internal_path ?t"
    using assms(1) unfolding should_descend_def is_internal_path_def by blast
  moreover have "set (parent_paths ?t) \<subseteq> set (parent_paths ?p)"
    using parent_paths_trans [OF in_p] by blast
  ultimately show ?thesis using assms(1) in_p by (auto simp: should_descend_def)
qed (use assms in simp)

lemma walk_tree_selects:
  assumes "p \<in> set (map fst st)" "below root p" "names_ok st" "matches_entry f (rel_name root p)"
  shows "p \<in> set (walk_tree f root st)"
proof -
  obtain q where q: "q \<noteq> []" "p = root @ q" using assms(2) by (auto simp: below_append)
  have sl: "\<forall>c\<in>set q. CHR ''/'' \<notin> set c" using assms(1,3) q(2) by (fastforce simp: names_ok_def)
  have d: "should_descend f (join_with CHR ''/'' q)"
    using assms(4) q by (simp add: matches_entry_def rel_name_def)
  have "descend_ok f root (take k p)" if "length root < k" "k \<le> length p" for k
  proof (cases "raw_relative_path_from_disk utf8 (take k p) root")
    case (Inr r)
    then have "r = join_with CHR ''/'' (take (k - length root) q)"
      using raw_relative_Inr [OF Inr] that q by (simp add: rel_name_def)
    then show ?thesis
      using should_descend_prefix [OF d sl, of "k - length root"] that q Inr by (simp add: descend_ok_def)
  qed (simp add: descend_ok_def)
  then have "\<forall>k\<in>set [Suc (length root)..<Suc (length p)]. descend_ok f root (take k p)"
    by (auto simp only: set_upt atLeastLessThan_iff Suc_le_eq less_Suc_eq_le)
  moreover have "p \<in> set (sort (filter (below root) (map fst st)))" using assms(1,2) by simp
  ultimately show ?thesis unfolding walk_tree_def by (simp only: set_filter mem_Collect_eq simp_thms)
qed

section \<open>The scan is faithful\<close>

definition digest_ok :: "(string \<Rightarrow> string) \<Rightarrow> bool" where
  "digest_ok sha \<longleftrightarrow> (\<forall>x. length (sha x) = 32)"

lemma complete_file_entry: "digest_ok sha \<Longrightarrow> complete_entry (file_entry sha p d)"
  by (simp add: complete_entry_def file_entry_def hash_bytes_def hex_digest_sha256 hex_digest_lowercase
      digest_ok_def)

lemma describes_complete: "digest_ok sha \<Longrightarrow> describes sha st root e \<Longrightarrow> complete_entry e"
  unfolding describes_node node_entry_def
  by (auto split: option.splits node.splits) (metis complete_file_entry complete_dir_entry(1))+

lemma describes_pure:
  assumes "e \<in> set (pure_scan sha f root st p)" "root @ parts (rel_name root p) = p"
  shows "describes sha st root e"
proof -
  have "path e = rel_name root p" using pure_scan_path(1) [OF assms(1)] by blast
  then show ?thesis using assms by (simp add: describes_node in_pure_scan)
qed

lemma describes_parent:
  assumes "store_ok st" "describes sha st root e" "q \<in> set (parent_paths (path e))"
  shows "describes sha st root (dir_entry q)"
proof -
  obtain k where k: "0 < k" "k < length (parts (path e))" "parts q = take k (parts (path e))"
    using assms(3) by (auto simp: parent_paths_iff)
  obtain n where "lookup st (root @ parts (path e)) = Some n"
    using assms(2) by (auto simp: describes_def split: option.splits)
  then have "lookup st ((root @ parts q) @ drop k (parts (path e))) = Some n" by (simp add: k(3))
  from lookup_above [OF assms(1) this] k have "lookup st (root @ parts q) = Some Dir" by simp
  then show ?thesis by (simp add: describes_def)
qed

lemma scan_manifest_facts:
  assumes "scan_manifest_blocking sha f n m root s = (Inr es, s')"
    and "store_ok (store s)" "names_ok (store s)" "digest_ok sha"
  shows "manifest_ok es" "length es \<le> n" "only_faults s s'"
    "\<And>e. e \<in> set es \<Longrightarrow> describes sha (store s) root e"
    "\<And>e. e \<in> set es \<Longrightarrow> matches_entry f (path e) \<or> e = dir_entry (path e)"
    "\<And>p. p \<in> set (map fst (store s)) \<Longrightarrow> below root p \<Longrightarrow> matches_entry f (rel_name root p) \<Longrightarrow>
       rel_name root p \<in> path ` set es"
proof -
  let ?st = "store s" and ?ps = "walk_tree f root (store s)"
  let ?es = "concat (map (pure_scan sha f root ?st) ?ps)"
  obtain es1 where fold: "foldS (scan_entry sha f n m root) [] ?ps s = (Inr ?es, s')"
    and syn: "synthesize_parent_dirs n ?es = Inr es1" and es: "es = sort_key path es1"
  proof -
    obtain es0 s1 where f0: "foldS (scan_entry sha f n m root) [] ?ps s = (Inr es0, s1)"
      and k: "bindS (liftR (synthesize_parent_dirs n es0)) (\<lambda>es. okS (sort_key path es)) s1 = (Inr es, s')"
      using assms(1) unfolding scan_manifest_blocking_def by (rule bindS_InrE)
    have "es0 = ?es" using scan_foldD [OF f0] by simp
    then show thesis using that f0 k by (auto elim!: bindS_InrE simp: liftR_def)
  qed
  note F = scan_foldD [OF fold]
  show "only_faults s s'" using F by blast
  have keys: "set ?ps \<subseteq> {p \<in> set (map fst ?st). below root p}" by (auto dest!: walk_treeD)
  have d: "distinct (map path ?es)"
  proof (rule distinct_pure_scan)
    show "distinct ?ps" using assms(2) by (simp add: sorted_walk store_ok_def)
    show "inj_on (rel_name root) (set ?ps)" by (rule inj_on_subset [OF inj_rel_name [OF assms(3)] keys])
  qed
  have E: "describes sha ?st root e" "wire_path (path e)" "matches_entry f (path e)" if "e \<in> set ?es" for e
  proof -
    obtain p where p: "p \<in> set ?ps" "e \<in> set (pure_scan sha f root ?st p)" using \<open>e \<in> set ?es\<close> by auto
    have "root @ parts (rel_name root p) = p"
      using parts_rel_name(2) [OF assms(3)] walk_treeD [OF p(1)] by blast
    with p(2) show "describes sha ?st root e" by (rule describes_pure)
    show "wire_path (path e)" "matches_entry f (path e)"
      using pure_scan_path [OF p(2)] F p(1) by auto
  qed
  have C: "complete_entry e" if "e \<in> set ?es" for e
    using E(1) [OF that] by (rule describes_complete [OF assms(4)])
  note S = synthesize_ok [OF syn d]
  have g: "\<forall>e\<in>set ?es. wire_path (path e) \<and> complete_entry e" using C E(2) by blast
  have se: "set es = set es1" using es by simp
  show "manifest_ok es" using S(1) [OF g] es by simp
  show "length es \<le> n" using S(3) [OF g] F es by simp
  show "describes sha ?st root e" if "e \<in> set es" for e
    using S(4) [OF g, of e] that E(1) describes_parent [OF assms(2)] unfolding se by metis
  show "matches_entry f (path e) \<or> e = dir_entry (path e)" if "e \<in> set es" for e
    using S(4) [OF g, of e] that E(3) unfolding se by blast
  show "rel_name root p \<in> path ` set es"
    if p: "p \<in> set (map fst ?st)" "below root p" "matches_entry f (rel_name root p)" for p
  proof -
    have w: "p \<in> set ?ps" using walk_tree_selects [OF p(1,2) assms(3) p(3)] .
    then obtain e where "pure_scan sha f root ?st p = [e]" using F p(3) by blast
    then have "e \<in> set ?es" "path e = rel_name root p"
      using w pure_scan_path(1) [of e sha f root ?st p]
      by (simp_all only: set_concat set_map) (auto intro!: bexI [of _ p])
    moreover have "e \<in> set es" using S(2) [OF g] \<open>e \<in> set ?es\<close> unfolding se by (rule subsetD)
    ultimately show ?thesis by (metis imageI)
  qed
qed

end
