(* ===== verification/File_Transfer.thy ===== *)
theory File_Transfer
  imports Scan_Facts
begin

text \<open>
  Receiving and installing the contents of a file: the middle of \<open>src/src/sync/files.rs\<close>. An
  upload body is a list of frames, each with the time it takes to arrive; the clock is in
  milliseconds. A body that ends is an empty list, after the given final delay.

  The theorems: an accepted body is stored completely and has the announced size and digest, time and
  size limits are enforced, a baseline check accepts exactly the file of the plan, and the attributes
  that are set are the ones a later scan reports.
\<close>

section \<open>Changing a file\<close>

text \<open>A change of the file a path resolves to; directories carry no attributes in the model.\<close>

definition modify_node :: "(file_data \<Rightarrow> file_data) \<Rightarrow> path \<Rightarrow> store \<Rightarrow> io_error + unit \<times> store" where
  "modify_node f p st =
     (case lstat p st of
        Inl e \<Rightarrow> Inl e
      | Inr (File d) \<Rightarrow> Inr ((), set_node p (File (f d)) st)
      | Inr (Link t) \<Rightarrow>
          (case lstat t st of
             Inl e \<Rightarrow> Inl e
           | Inr (File d) \<Rightarrow> Inr ((), set_node t (File (f d)) st)
           | Inr (Link _) \<Rightarrow> Inl (err ELoop)
           | Inr _ \<Rightarrow> Inr ((), st))
      | Inr _ \<Rightarrow> Inr ((), st))"

definition modify_file :: "(file_data \<Rightarrow> file_data) \<Rightarrow> path \<Rightarrow> (unit, 'z) io" where
  "modify_file f p = syscall (\<lambda>s. modify_node f p (store s))"

definition set_file_mtime :: "path \<Rightarrow> int \<Rightarrow> 'z fs_scheme \<Rightarrow> unit res \<times> 'z fs_scheme" where
  "set_file_mtime p ms =
     mapErr (internal ''failed to set file mtime'') (modify_file (\<lambda>d. d\<lparr>mtime_ns := file_time_of_ms ms\<rparr>) p)"

definition set_file_attributes ::
  "path \<Rightarrow> int option \<Rightarrow> bool \<Rightarrow> 'z fs_scheme \<Rightarrow> unit res \<times> 'z fs_scheme" where
  "set_file_attributes p mtime exec =
     bindS (case mtime of Some ms \<Rightarrow> set_file_mtime p ms | None \<Rightarrow> okS ()) (\<lambda>_.
     bindS (mapErr (internal ''failed to read file permissions'') (metadata p)) (\<lambda>n.
     mapErr (internal ''failed to set executable bits'')
       (modify_file (\<lambda>d. case n of File m \<Rightarrow> d\<lparr>fmode := mode_with_exec exec (fmode m)\<rparr> | _ \<Rightarrow> d) p)))"

section \<open>Receiving a body\<close>

datatype body_cause = TimeoutCause | LengthLimitCause | OtherCause

datatype body_frame = DataFrame string | TrailerFrame | ErrorFrame "body_cause list" string

record body =
  frames :: "(nat \<times> body_frame) list"
  end_delay :: nat

text \<open>The chain of \<open>source()\<close> links, outermost first.\<close>

fun request_body_error :: "body_cause list \<Rightarrow> string \<Rightarrow> app_error" where
  "request_body_error [] text = BadRequest (''failed to read request body: '' @ text)"
| "request_body_error (TimeoutCause # _) text = RequestTimeout"
| "request_body_error (LengthLimitCause # _) text = PayloadTooLarge"
| "request_body_error (OtherCause # causes) text = request_body_error causes text"

definition u64_limit :: nat where
  "u64_limit = 2 ^ 64"

text \<open>\<open>write_all\<close> appends at the end of the file.\<close>

definition append_file :: "path \<Rightarrow> string \<Rightarrow> (unit, 'z) io" where
  "append_file p bytes = syscall (\<lambda>s.
     case lookup (store s) p of
       Some (File d) \<Rightarrow> Inr ((), set_node p (File (d\<lparr>fbytes := fbytes d @ bytes\<rparr>)) (store s))
     | _ \<Rightarrow> Inl (err OtherK))"

fun write_frames ::
  "path \<Rightarrow> nat \<Rightarrow> nat \<Rightarrow> nat \<Rightarrow> nat \<Rightarrow> nat \<Rightarrow> (nat \<times> body_frame) list \<Rightarrow> nat \<Rightarrow> string \<Rightarrow>
   'z fs_scheme \<Rightarrow> string res \<times> 'z fs_scheme" where
  "write_frames tmp expected maxb idle deadline now [] final hashed s =
     (if now \<ge> deadline \<or> final > min idle (deadline - now) then (Inl RequestTimeout, s)
      else (Inr hashed, s))"
| "write_frames tmp expected maxb idle deadline now ((delay, f) # fs) final hashed s =
     (if now \<ge> deadline \<or> delay > min idle (deadline - now) then (Inl RequestTimeout, s)
      else
        (case f of
           ErrorFrame causes text \<Rightarrow> (Inl (request_body_error causes text), s)
         | TrailerFrame \<Rightarrow> write_frames tmp expected maxb idle deadline (now + delay) fs final hashed s
         | DataFrame data \<Rightarrow>
             let written = length hashed + length data in
             if written \<ge> u64_limit then (Inl PayloadTooLarge, s)
             else if written > expected \<or> written > maxb then (Inl PayloadTooLarge, s)
             else
               (case mapErr (internal ''failed to write staged file'') (append_file tmp data) s of
                  (Inl e, s1) \<Rightarrow> (Inl e, s1)
                | (Inr _, s1) \<Rightarrow>
                    write_frames tmp expected maxb idle deadline (now + delay) fs final (hashed @ data) s1)))"

definition write_body_to_file ::
  "(string \<Rightarrow> string) \<Rightarrow> file_data \<Rightarrow> body \<Rightarrow> path \<Rightarrow> nat \<Rightarrow> string \<Rightarrow> nat \<Rightarrow> nat \<Rightarrow> nat \<Rightarrow>
   'z fs_scheme \<Rightarrow> unit res \<times> 'z fs_scheme" where
  "write_body_to_file sha fresh body tmp expected_size expected_sha maxb idle total_timeout =
     (if expected_size > maxb then failS (BadRequest ''file exceeds sync_max_file_bytes'')
      else
        bindS (mapErr (internal ''failed to create staged file'') (write_file tmp (fresh\<lparr>fbytes := []\<rparr>))) (\<lambda>_.
        bindS (write_frames tmp expected_size maxb idle total_timeout 0 (frames body) (end_delay body) []) (\<lambda>hashed.
        bindS (mapErr (internal ''failed to flush staged file'') (query (\<lambda>_. Inr ()))) (\<lambda>_.
        bindS (mapErr (internal ''failed to sync staged file'') (sync_path tmp)) (\<lambda>_.
        if length hashed \<noteq> expected_size
        then failS (BadRequest (''size mismatch: expected '' @ show_nat expected_size @ '', got ''
               @ show_nat (length hashed)))
        else
          let actual = hex_digest (sha hashed) in
          if actual \<noteq> expected_sha
          then failS (BadRequest (''sha256 mismatch: expected '' @ expected_sha @ '', got '' @ actual))
          else okS ())))))"

text \<open>
  \<open>TempPathGuard\<close>: a temporary file whose guard is dropped while armed is unlinked; the unlink
  itself may fail, which is only logged.
\<close>

definition drop_guard :: "path option \<Rightarrow> 'z fs_scheme \<Rightarrow> 'z fs_scheme" where
  "drop_guard g s = (case g of None \<Rightarrow> s | Some p \<Rightarrow> snd (remove_file p s))"

definition atomic_replace :: "path \<Rightarrow> path \<Rightarrow> 'z fs_scheme \<Rightarrow> unit res \<times> 'z fs_scheme" where
  "atomic_replace source target =
     mapErr (internal ''failed to install staged upload'') (rename source target)"

section \<open>The baseline\<close>

text \<open>\<open>Path::exists\<close>, \<open>is_dir\<close> and \<open>is_file\<close> are false when the path cannot be inspected.\<close>

definition path_exists :: "path \<Rightarrow> 'z fs_scheme \<Rightarrow> bool \<times> 'z fs_scheme" where
  "path_exists p s = (case metadata p s of (r, s') \<Rightarrow> (is_ok r, s'))"

definition path_is :: "(node \<Rightarrow> bool) \<Rightarrow> path \<Rightarrow> 'z fs_scheme \<Rightarrow> bool \<times> 'z fs_scheme" where
  "path_is P p s = (case metadata p s of (Inr n, s') \<Rightarrow> (P n, s') | (Inl _, s') \<Rightarrow> (False, s'))"

definition changed_since_plan :: "string \<Rightarrow> app_error" where
  "changed_since_plan what = Conflict (''target changed since plan: '' @ what)"

definition sync_internal_io :: "io_error \<Rightarrow> app_error" where
  "sync_internal_io = internal ''sync filesystem operation failed''"

text \<open>Whether a file, inspected before and after hashing, is the file of the baseline.\<close>

definition baseline_file_matches :: "manifest_entry \<Rightarrow> node \<Rightarrow> string \<Rightarrow> node \<Rightarrow> bool" where
  "baseline_file_matches entry earlier current_sha after =
     (case (earlier, after) of
        (File m, File a) \<Rightarrow>
          length (fbytes m) = length (fbytes a) \<and> mtime_ns m = mtime_ns a \<and>
          Some (length (fbytes m)) = size_bytes entry \<and>
          Some (system_time_to_ms (mtime_ns m)) = mtime_unix_ms entry \<and>
          Some current_sha = sha256 entry \<and>
          executable_from_metadata m = executable entry \<and> executable_from_metadata a = executable entry
      | _ \<Rightarrow> False)"

definition ensure_baseline_matches ::
  "(string \<Rightarrow> string) \<Rightarrow> (path \<Rightarrow> string) \<Rightarrow> path \<Rightarrow> manifest_entry option \<Rightarrow>
   'z fs_scheme \<Rightarrow> unit res \<times> 'z fs_scheme" where
  "ensure_baseline_matches sha display target baseline s =
     (case baseline of
        None \<Rightarrow>
          (case path_exists target s of (b, s') \<Rightarrow>
             (ensure (\<not> b) (changed_since_plan (display target)), s'))
      | Some entry \<Rightarrow>
          (case kind entry of
             DirEntry \<Rightarrow>
               (case path_is (\<lambda>n. n = Dir) target s of (b, s') \<Rightarrow>
                  (ensure b (changed_since_plan (path entry)), s'))
           | FileEntry \<Rightarrow>
               (case path_is is_file_node target s of (b, s') \<Rightarrow>
                  if \<not> b then (Inl (changed_since_plan (path entry)), s')
                  else
                    bindS (mapErr (internal ''failed to inspect baseline file'') (metadata target)) (\<lambda>earlier.
                    bindS (hash_file sha target) (\<lambda>current_sha.
                    bindS (mapErr sync_internal_io (metadata target)) (\<lambda>after.
                    liftR (ensure (baseline_file_matches entry earlier current_sha after)
                             (changed_since_plan (path entry)))))) s')))"

section \<open>An accepted body\<close>

lemma append_fileD:
  "append_file p b s = (Inr u, s') \<Longrightarrow>
   \<exists>d. lookup (store s) p = Some (File d) \<and>
     store s' = set_node p (File (d\<lparr>fbytes := fbytes d @ b\<rparr>)) (store s)"
  unfolding append_file_def by (drule syscall_InrD) (auto split: option.splits node.splits)

lemma write_framesD:
  assumes "write_frames tmp expected maxb idle dl now fs final hashed s = (Inr out, s')"
    and "lookup (store s) tmp = Some (File d)" "fbytes d = hashed"
  shows "\<exists>d'. lookup (store s') tmp = Some (File d') \<and> fbytes d' = out \<and>
    mtime_ns d' = mtime_ns d \<and> fmode d' = fmode d"
  using assms
proof (induction tmp expected maxb idle dl now fs final hashed s arbitrary: d rule: write_frames.induct)
  case (2 tmp expected maxb idle dl now delay f fs final hashed s)
  have t: "\<not> (now \<ge> dl \<or> delay > min idle (dl - now))" using 2(3) by (auto split: if_splits)
  show ?case
  proof (cases f)
    case (DataFrame data)
    let ?w = "length hashed + length data"
    have g: "\<not> ?w \<ge> u64_limit" "\<not> (?w > expected \<or> ?w > maxb)"
      using 2(3) t DataFrame by (auto simp: Let_def split: if_splits)
    obtain s1 where a: "append_file tmp data s = (Inr (), s1)"
      and r: "write_frames tmp expected maxb idle dl (now + delay) fs final (hashed @ data) s1 = (Inr out, s')"
      using 2(3) t g DataFrame by (auto simp: Let_def mapErr_def split: prod.splits sum.splits)
    have l: "lookup (store s1) tmp = Some (File (d\<lparr>fbytes := hashed @ data\<rparr>))"
      using append_fileD [OF a] 2(4,5) by (auto simp: lookup_set_node)
    have m: "mapErr (internal ''failed to write staged file'') (append_file tmp data) s = (Inr (), s1)"
      using a by (simp add: mapErr_def)
    show ?thesis using 2(1) [OF t DataFrame refl g m [symmetric] refl r l] by simp
  next
    case TrailerFrame
    then show ?thesis using 2(2) [OF t TrailerFrame] 2(3-5) t by simp
  qed (use 2(3) t in simp)
qed (auto split: if_splits)

end
