(* ===== verification/Sync_Plan.thy ===== *)
theory Sync_Plan
  imports Scan_Facts
begin

text \<open>
  The plans of \<open>src/src/sync.rs\<close>: \<open>create_plan\<close> compares a client's manifest with the server's
  and lists what a push must do; \<open>create_pull_plan\<close> does the same with the roles exchanged.

  The abstract specification is the tree a plan must lead to (\<open>target_tree\<close>).
\<close>

section \<open>Plans\<close>

record planned_upload =
  up_entry :: manifest_entry
  up_transfer :: file_transfer

record plan_diff =
  upload_files :: "(string \<times> planned_upload) list"
  create_dirs :: "string list"
  delete_files :: "string list"
  delete_dirs :: "string list"

record commit_plan = plan_diff +
  project_dir :: path
  staging_dir :: path
  reset :: bool
  baseline :: "(string \<times> manifest_entry) list"

definition empty_diff :: plan_diff where
  "empty_diff = \<lparr>upload_files = [], create_dirs = [], delete_files = [], delete_dirs = []\<rparr>"

definition has_kind :: "entry_kind \<Rightarrow> manifest_entry option \<Rightarrow> bool" where
  "has_kind k x \<longleftrightarrow> (case x of Some e \<Rightarrow> kind e = k | None \<Rightarrow> False)"

text \<open>What lies below a path: \<open>starts_with\<close> the path and a slash.\<close>

definition children_of :: "string \<Rightarrow> (string \<times> manifest_entry) list \<Rightarrow> manifest_entry list" where
  "children_of p m = filter (\<lambda>child. is_prefix (p @ ''/'') (path child)) (bt_values m)"

definition paths_of :: "entry_kind \<Rightarrow> manifest_entry list \<Rightarrow> string list" where
  "paths_of k es = map path (filter (\<lambda>e. kind e = k) es)"

text \<open>One iteration of the loop over the entries that must exist afterwards.\<close>

definition plan_step ::
  "(string \<times> manifest_entry) list \<Rightarrow> 'z plan_diff_scheme \<Rightarrow> manifest_entry \<Rightarrow> app_error + 'z plan_diff_scheme" where
  "plan_step base plan entry =
     (let old = map_of base (path entry) in
      case kind entry of
        DirEntry \<Rightarrow>
          let plan = (if \<not> has_kind DirEntry old
                      then plan\<lparr>create_dirs := create_dirs plan @ [path entry]\<rparr> else plan) in
          Inr (if has_kind FileEntry old
               then plan\<lparr>delete_files := delete_files plan @ [path entry]\<rparr> else plan)
      | FileEntry \<Rightarrow>
          andThen
            (if (case old of None \<Rightarrow> True | Some old \<Rightarrow> \<not> same_file entry old)
             then andThen (file_transfer entry) (\<lambda>t.
               Inr (plan\<lparr>upload_files := bt_insert (path entry)
                      \<lparr>up_entry = entry, up_transfer = t\<rparr> (upload_files plan)\<rparr>))
             else Inr plan)
            (\<lambda>plan. Inr
              (if has_kind DirEntry old
               then plan\<lparr>delete_files := delete_files plan @ paths_of FileEntry (children_of (path entry) base),
                         delete_dirs := delete_dirs plan @ paths_of DirEntry (children_of (path entry) base)
                                          @ [path entry]\<rparr>
               else plan)))"

definition add_extras ::
  "(string \<times> manifest_entry) list \<Rightarrow> (string \<times> manifest_entry) list \<Rightarrow> 'z plan_diff_scheme \<Rightarrow> 'z plan_diff_scheme" where
  "add_extras base wanted plan =
     (let extra = filter (\<lambda>old. map_of wanted (path old) = None) (bt_values base) in
      plan\<lparr>delete_files := delete_files plan @ paths_of FileEntry extra,
           delete_dirs := delete_dirs plan @ paths_of DirEntry extra\<rparr>)"

definition sort_plan :: "'z plan_diff_scheme \<Rightarrow> 'z plan_diff_scheme" where
  "sort_plan plan = plan\<lparr>create_dirs := sort_paths (create_dirs plan),
     delete_files := sort_paths (delete_files plan),
     delete_dirs := sort_paths_deepest_first (delete_dirs plan)\<rparr>"

text \<open>The comparison both plans perform: \<open>base\<close> is what exists, \<open>wanted\<close> what must exist.\<close>

definition plan_diff_of ::
  "(string \<times> manifest_entry) list \<Rightarrow> (string \<times> manifest_entry) list \<Rightarrow> bool \<Rightarrow> 'z plan_diff_scheme \<Rightarrow>
   app_error + 'z plan_diff_scheme" where
  "plan_diff_of base wanted delete_extra plan0 =
     andThen (foldR (plan_step base) plan0 (bt_values wanted)) (\<lambda>plan.
     Inr (sort_plan (if delete_extra then add_extras base wanted plan else plan)))"

section \<open>The tree a push must lead to\<close>

text \<open>
  The client's entries, and those entries of the server the client does not mention: they stay unless
  \<open>delete_extra\<close> is set or a file takes the place of one of their parents.
\<close>

type_synonym tree = "string \<Rightarrow> manifest_entry option"

definition target_tree :: "bool \<Rightarrow> tree \<Rightarrow> tree \<Rightarrow> tree" where
  "target_tree delete_extra base wanted p =
     (case wanted p of
        Some e \<Rightarrow> Some e
      | None \<Rightarrow> if delete_extra \<or> (\<exists>q\<in>set (parent_paths p). has_kind FileEntry (wanted q)) then None
                 else base p)"

section \<open>What a plan lists\<close>

lemma has_kind_simps [simp]: "has_kind k (Some e) \<longleftrightarrow> kind e = k" "\<not> has_kind k None"
  by (simp_all add: has_kind_def)

lemma has_kind_iff: "has_kind k x \<longleftrightarrow> (\<exists>e. x = Some e \<and> kind e = k)"
  by (cases x) auto

lemma has_kind_cases: "x = None \<or> has_kind FileEntry x \<or> has_kind DirEntry x"
  by (cases x) (auto intro: entry_kind.exhaust)

lemma has_kind_excl: "has_kind FileEntry x \<Longrightarrow> \<not> has_kind DirEntry x"
  by (auto simp: has_kind_iff)

definition keyed :: "(string \<times> manifest_entry) list \<Rightarrow> bool" where
  "keyed m \<longleftrightarrow> bt_ok m \<and> (\<forall>(k, e)\<in>set m. path e = k)"

lemma keyed_lookup:
  assumes "keyed m" shows "map_of m p = Some e \<longleftrightarrow> e \<in> set (bt_values m) \<and> path e = p"
proof -
  have "map_of m p = Some e \<longleftrightarrow> (p, e) \<in> set m"
    using assms by (simp add: keyed_def map_of_eq_Some_iff_bt)
  also have "\<dots> \<longleftrightarrow> e \<in> set (bt_values m) \<and> path e = p"
    using assms by (auto simp: keyed_def intro!: image_eqI [of _ snd])
  finally show ?thesis .
qed

lemma prefix_parent: "is_prefix (p @ ''/'') q \<longleftrightarrow> p \<in> set (parent_paths q)"
proof
  assume "is_prefix (p @ ''/'') q"
  then obtain r where r: "q = p @ CHR ''/'' # r" by (auto simp: is_prefix_iff)
  have "parts q = parts p @ parts r" unfolding r by (rule split_on_append)
  then show "p \<in> set (parent_paths q)"
    unfolding parent_paths_iff by (intro exI [of _ "length (parts p)"]) auto
next
  assume "p \<in> set (parent_paths q)"
  then show "is_prefix (p @ ''/'') q" by (auto simp: is_prefix_iff dest!: parent_decomp)
qed

lemma set_paths_of: "set (paths_of k es) = {path e |e. e \<in> set es \<and> kind e = k}"
  by (auto simp: paths_of_def)

lemma set_children:
  "keyed m \<Longrightarrow> set (paths_of k (children_of p m)) = {q. has_kind k (map_of m q) \<and> p \<in> set (parent_paths q)}"
  unfolding set_paths_of children_of_def by (auto simp: has_kind_iff keyed_lookup prefix_parent)

definition replaced_by :: "(string \<times> manifest_entry) list \<Rightarrow> manifest_entry set \<Rightarrow> entry_kind \<Rightarrow> string set" where
  "replaced_by base es k = {p. has_kind k (map_of base p) \<and>
     (\<exists>e\<in>es. kind e = FileEntry \<and> has_kind DirEntry (map_of base (path e)) \<and>
       (p = path e \<and> k = DirEntry \<or> path e \<in> set (parent_paths p)))}"

definition needs_upload :: "(string \<times> manifest_entry) list \<Rightarrow> manifest_entry \<Rightarrow> bool" where
  "needs_upload base e \<longleftrightarrow> kind e = FileEntry \<and>
     (case map_of base (path e) of None \<Rightarrow> True | Some old \<Rightarrow> \<not> same_file e old)"

text \<open>The lists the loop accumulates, as sets.\<close>

definition loop_lists ::
  "(string \<times> manifest_entry) list \<Rightarrow> 'z plan_diff_scheme \<Rightarrow> manifest_entry set \<Rightarrow> 'z plan_diff_scheme \<Rightarrow> bool" where
  "loop_lists base plan es plan' \<longleftrightarrow>
     set (create_dirs plan') = set (create_dirs plan) \<union>
       {path e |e. e \<in> es \<and> kind e = DirEntry \<and> \<not> has_kind DirEntry (map_of base (path e))} \<and>
     set (delete_files plan') = set (delete_files plan) \<union>
       {path e |e. e \<in> es \<and> kind e = DirEntry \<and> has_kind FileEntry (map_of base (path e))} \<union>
       replaced_by base es FileEntry \<and>
     set (delete_dirs plan') = set (delete_dirs plan) \<union> replaced_by base es DirEntry"

lemma plan_step_lists:
  assumes "plan_step base plan e = Inr plan'" "keyed base"
  shows "loop_lists base plan {e} plan'"
proof (cases "kind e")
  case DirEntry
  then have "replaced_by base {e} k = {}" for k by (auto simp: replaced_by_def)
  then show ?thesis using assms DirEntry
    by (auto simp: plan_step_def Let_def loop_lists_def split: if_splits)
next
  case FileEntry
  let ?c = "\<lambda>k. set (paths_of k (children_of (path e) base))"
  note ch = set_children [OF assms(2)]
  have r: "replaced_by base {e} FileEntry = (if has_kind DirEntry (map_of base (path e)) then ?c FileEntry else {})"
    "replaced_by base {e} DirEntry =
       (if has_kind DirEntry (map_of base (path e)) then insert (path e) (?c DirEntry) else {})"
    using FileEntry by (auto simp: replaced_by_def ch)
  then show ?thesis using assms(1) FileEntry
    by (auto simp: plan_step_def Let_def loop_lists_def res_simps split: if_splits)
qed

lemma loop_lists_trans:
  assumes "loop_lists base p {e} q" "loop_lists base q es r" shows "loop_lists base p (insert e es) r"
proof -
  have "replaced_by base (insert e es) k = replaced_by base {e} k \<union> replaced_by base es k" for k
    by (auto simp: replaced_by_def)
  then show ?thesis using assms unfolding loop_lists_def by auto
qed

lemma plan_loop_lists:
  "foldR (plan_step base) plan es = Inr plan' \<Longrightarrow> keyed base \<Longrightarrow> loop_lists base plan (set es) plan'"
proof (induction es arbitrary: plan)
  case Nil
  then show ?case by (auto simp: loop_lists_def replaced_by_def)
next
  case (Cons e es)
  then obtain p1 where "plan_step base plan e = Inr p1" "foldR (plan_step base) p1 es = Inr plan'"
    by (auto simp: res_simps)
  then show ?case using Cons plan_step_lists loop_lists_trans by (metis list.simps(15))
qed

text \<open>The uploads are the files the base lacks or has with other contents.\<close>

definition uploads_ok :: "(string \<times> manifest_entry) list \<Rightarrow> manifest_entry list \<Rightarrow> (string \<times> planned_upload) list \<Rightarrow> bool" where
  "uploads_ok base es ups \<longleftrightarrow> bt_ok ups \<and>
     (\<forall>p u. map_of ups p = Some u \<longrightarrow>
        up_entry u \<in> set es \<and> path (up_entry u) = p \<and> needs_upload base (up_entry u) \<and>
        file_transfer (up_entry u) = Inr (up_transfer u)) \<and>
     (\<forall>e\<in>set es. needs_upload base e \<longrightarrow> map_of ups (path e) \<noteq> None)"

lemma plan_step_uploads:
  assumes "plan_step base plan e = Inr plan'" "uploads_ok base es (upload_files plan)"
  shows "uploads_ok base (es @ [e]) (upload_files plan')"
proof (cases "needs_upload base e")
  case True
  then obtain t where t: "file_transfer e = Inr t"
    "upload_files plan' = bt_insert (path e) \<lparr>up_entry = e, up_transfer = t\<rparr> (upload_files plan)"
    using assms(1)
    by (auto simp: plan_step_def Let_def needs_upload_def res_simps split: option.splits if_splits)
  show ?thesis
    using assms(2) True t by (auto simp: uploads_ok_def bt_ok_insert)
next
  case False
  then have "upload_files plan' = upload_files plan"
    using assms(1)
    by (cases "kind e") (auto simp: plan_step_def Let_def needs_upload_def split: option.splits if_splits)
  then show ?thesis using assms(2) False by (auto simp: uploads_ok_def)
qed

lemma plan_loop_uploads:
  "foldR (plan_step base) plan es = Inr plan' \<Longrightarrow> uploads_ok base es0 (upload_files plan) \<Longrightarrow>
   uploads_ok base (es0 @ es) (upload_files plan')"
proof (induction es arbitrary: plan es0)
  case (Cons e es)
  then obtain p1 where 1: "plan_step base plan e = Inr p1" and r: "foldR (plan_step base) p1 es = Inr plan'"
    by (auto simp: res_simps)
  show ?case using Cons.IH [OF r plan_step_uploads [OF 1 Cons.prems(2)]] by simp
qed simp

end
