(* ===== verification/Plan_Correct.thy ===== *)
theory Plan_Correct
  imports Sync_Plan
begin

text \<open>
  What a plan lists, in terms of the two manifests it was made from, and the tree these lists describe: the
  one the client asked for.
\<close>

section \<open>The plan of two manifests\<close>

text \<open>What the plan lists, in terms of the two manifests alone.\<close>

definition closed_map :: "(string \<times> manifest_entry) list \<Rightarrow> bool" where
  "closed_map m \<longleftrightarrow> keyed m \<and> (\<forall>e\<in>set (bt_values m). complete_entry e) \<and>
     (\<forall>p q. map_of m p \<noteq> None \<longrightarrow> q \<in> set (parent_paths p) \<longrightarrow> has_kind DirEntry (map_of m q))"

lemma manifest_map_closed:
  assumes "manifest_ok es" shows "closed_map (manifest_map es)" "set (bt_values (manifest_map es)) = set es"
proof -
  have d: "distinct (map fst (map (\<lambda>e. (path e, e)) es))"
    using assms by (simp add: manifest_ok_def strict_sorted_iff comp_def)
  have s: "set (manifest_map es) = (\<lambda>e. (path e, e)) ` set es"
    using bt_of_list_distinct [OF d] by (simp add: manifest_map_def)
  then show v: "set (bt_values (manifest_map es)) = set es"
    unfolding set_map s by (simp add: image_image)
  have k: "keyed (manifest_map es)" using s by (auto simp: keyed_def manifest_map_def)
  have "has_kind DirEntry (map_of (manifest_map es) q)"
    if pe: "map_of (manifest_map es) p = Some e" and q: "q \<in> set (parent_paths p)" for p q e
  proof -
    have "e \<in> set es" "path e = p" using pe v unfolding keyed_lookup [OF k] by auto
    then obtain d where "d \<in> set es" "path d = q" "kind d = DirEntry"
      using assms q unfolding manifest_ok_def parents_closed_def by blast
    then have "map_of (manifest_map es) q = Some d" using v unfolding keyed_lookup [OF k] by auto
    then show ?thesis using \<open>kind d = DirEntry\<close> by simp
  qed
  then show "closed_map (manifest_map es)"
    using k assms v by (auto simp: closed_map_def manifest_ok_def)
qed

definition clear_diff :: "'z plan_diff_scheme \<Rightarrow> bool" where
  "clear_diff p \<longleftrightarrow> upload_files p = [] \<and> create_dirs p = [] \<and> delete_files p = [] \<and> delete_dirs p = []"

definition must_go :: "bool \<Rightarrow> (string \<times> manifest_entry) list \<Rightarrow> string \<Rightarrow> bool" where
  "must_go del wanted p \<longleftrightarrow> (del \<and> map_of wanted p = None) \<or>
     (\<exists>q\<in>set (parent_paths p). has_kind FileEntry (map_of wanted q))"

lemma plan_lists:
  assumes d: "plan_diff_of base wanted del plan0 = Inr plan" and c: "clear_diff plan0"
    and B: "closed_map base" and W: "closed_map wanted"
  shows "set (create_dirs plan) = {p. has_kind DirEntry (map_of wanted p) \<and> \<not> has_kind DirEntry (map_of base p)}"
    "set (delete_files plan) = {p. has_kind FileEntry (map_of base p) \<and>
       (has_kind DirEntry (map_of wanted p) \<or> must_go del wanted p)}"
    "set (delete_dirs plan) = {p. has_kind DirEntry (map_of base p) \<and>
       (has_kind FileEntry (map_of wanted p) \<or> must_go del wanted p)}"
    "uploads_ok base (bt_values wanted) (upload_files plan)"
    "sorted_wrt (<) (create_dirs plan)" "distinct (delete_files plan)"
    "sorted_wrt (\<lambda>x y. deep_key x < deep_key y) (delete_dirs plan)"
proof -
  obtain p1 where l: "foldR (plan_step base) plan0 (bt_values wanted) = Inr p1"
    and plan: "plan = sort_plan (if del then add_extras base wanted p1 else p1)"
    using d by (auto simp: plan_diff_of_def res_simps)
  have kb: "keyed base" and kw: "keyed wanted" using B W by (simp_all add: closed_map_def)
  have L: "set (create_dirs p1) = {path e |e. e \<in> set (bt_values wanted) \<and> kind e = DirEntry \<and>
        \<not> has_kind DirEntry (map_of base (path e))}"
    "set (delete_files p1) = {path e |e. e \<in> set (bt_values wanted) \<and> kind e = DirEntry \<and>
        has_kind FileEntry (map_of base (path e))} \<union> replaced_by base (set (bt_values wanted)) FileEntry"
    "set (delete_dirs p1) = replaced_by base (set (bt_values wanted)) DirEntry"
    using plan_loop_lists [OF l kb] c by (simp_all add: loop_lists_def clear_diff_def)
  have up: "upload_files plan = upload_files p1" by (simp add: plan sort_plan_def add_extras_def Let_def)
  have "uploads_ok base [] (upload_files plan0)" using c by (simp add: uploads_ok_def clear_diff_def)
  from plan_loop_uploads [OF l this] show "uploads_ok base (bt_values wanted) (upload_files plan)"
    by (simp add: up)
  have W': "(\<exists>e\<in>set (bt_values wanted). kind e = k \<and> P (path e)) \<longleftrightarrow>
      (\<exists>p. has_kind k (map_of wanted p) \<and> P p)" for k P
    by (auto simp: has_kind_iff keyed_lookup [OF kw])
  have C: "{path e |e. e \<in> set (bt_values wanted) \<and> kind e = k \<and> P (path e)} =
      {p. has_kind k (map_of wanted p) \<and> P p}" for k P
    by (auto simp: has_kind_iff keyed_lookup [OF kw])
  have cl: "has_kind DirEntry (map_of base q)" if "q \<in> set (parent_paths p)" "has_kind k (map_of base p)" for p q k
    using B that by (auto simp: closed_map_def has_kind_iff)
  have R: "replaced_by base (set (bt_values wanted)) k = {p. has_kind k (map_of base p) \<and>
      (k = DirEntry \<and> has_kind FileEntry (map_of wanted p) \<or>
       (\<exists>q\<in>set (parent_paths p). has_kind FileEntry (map_of wanted q)))}" for k
    unfolding replaced_by_def using cl by (auto simp: has_kind_iff keyed_lookup [OF kw])
  have X: "set (paths_of k (filter (\<lambda>old. map_of wanted (path old) = None) (bt_values base))) =
      {p. has_kind k (map_of base p) \<and> map_of wanted p = None}" for k
    unfolding set_paths_of by (auto simp: has_kind_iff keyed_lookup [OF kb])
  show "set (create_dirs plan) = {p. has_kind DirEntry (map_of wanted p) \<and> \<not> has_kind DirEntry (map_of base p)}"
    using L(1) C [of DirEntry "\<lambda>p. \<not> has_kind DirEntry (map_of base p)"]
    by (simp add: plan sort_plan_def add_extras_def Let_def)
  have "set (delete_files p1) = {p. has_kind DirEntry (map_of wanted p) \<and> has_kind FileEntry (map_of base p)} \<union>
      {p. has_kind FileEntry (map_of base p) \<and> (\<exists>q\<in>set (parent_paths p). has_kind FileEntry (map_of wanted q))}"
    unfolding L(2) C [of DirEntry "\<lambda>p. has_kind FileEntry (map_of base p)"] R by simp
  moreover have "set (delete_files plan) = set (delete_files p1) \<union>
      (if del then {p. has_kind FileEntry (map_of base p) \<and> map_of wanted p = None} else {})"
    using X [of FileEntry] by (simp add: plan sort_plan_def add_extras_def Let_def)
  ultimately show "set (delete_files plan) = {p. has_kind FileEntry (map_of base p) \<and>
       (has_kind DirEntry (map_of wanted p) \<or> must_go del wanted p)}"
    by (simp only:) (auto simp only: must_go_def Un_iff mem_Collect_eq set_eq_iff split: if_splits)
  have "set (delete_dirs plan) = set (delete_dirs p1) \<union>
      (if del then {p. has_kind DirEntry (map_of base p) \<and> map_of wanted p = None} else {})"
    using X [of DirEntry] by (simp add: plan sort_plan_def add_extras_def Let_def)
  then show "set (delete_dirs plan) = {p. has_kind DirEntry (map_of base p) \<and>
       (has_kind FileEntry (map_of wanted p) \<or> must_go del wanted p)}"
    unfolding L(3) R
    by (simp only:) (auto simp only: must_go_def Un_iff mem_Collect_eq set_eq_iff split: if_splits)
  show "sorted_wrt (<) (create_dirs plan)" by (simp add: plan sort_plan_def)
  have "sorted_wrt (<) (delete_files plan)" by (simp add: plan sort_plan_def)
  then show "distinct (delete_files plan)" by (simp add: strict_sorted_iff)
  show "sorted_wrt (\<lambda>x y. deep_key x < deep_key y) (delete_dirs plan)"
    using sort_deep_strict by (simp add: plan sort_plan_def)
qed

section \<open>The plan leads to the target\<close>

lemma same_file_eq:
  assumes "same_file e e'" "path e = path e'" shows "e = (e' :: manifest_entry)"
  using assms by (simp add: same_file_def)

lemma plan_result:
  assumes d: "plan_diff_of base wanted del plan0 = Inr plan" and c: "clear_diff plan0"
    and B: "closed_map base" and W: "closed_map wanted"
  shows "target_tree del (map_of base) (map_of wanted) p =
    (case map_of (upload_files plan) p of
       Some u \<Rightarrow> Some (up_entry u)
     | None \<Rightarrow>
         if p \<in> set (create_dirs plan) then Some (dir_entry p)
         else if p \<in> set (delete_files plan) \<union> set (delete_dirs plan) then None
         else map_of base p)"
proof -
  note P = plan_lists [OF assms]
  have kb: "keyed base" and kw: "keyed wanted" using B W by (simp_all add: closed_map_def)
  let ?b = "map_of base" and ?w = "map_of wanted"
  have keep: "\<not> must_go del wanted p" if w: "?w p \<noteq> None"
    using W w has_kind_excl by (fastforce simp: must_go_def closed_map_def)
  have gone: "p \<in> set (delete_files plan) \<union> set (delete_dirs plan) \<longleftrightarrow>
      ?b p \<noteq> None \<and> must_go del wanted p \<or> has_kind FileEntry (?w p) \<and> has_kind DirEntry (?b p) \<or>
      has_kind DirEntry (?w p) \<and> has_kind FileEntry (?b p)"
    using P(2,3) has_kind_cases [of "?b p"] by (auto simp: has_kind_iff)
  have U2: "?w p = Some (up_entry u)" if "map_of (upload_files plan) p = Some u" for u
    using P(4) that unfolding uploads_ok_def keyed_lookup [OF kw] by blast
  show ?thesis
  proof (cases "?w p")
    case None
    then have "map_of (upload_files plan) p = None" using U2 by (metis not_Some_eq)
    then show ?thesis using None P(1) unfolding gone by (auto simp: target_tree_def must_go_def)
  next
    case (Some e)
    have e: "e \<in> set (bt_values wanted)" "path e = p" using Some unfolding keyed_lookup [OF kw] by simp_all
    show ?thesis
    proof (cases "map_of (upload_files plan) p")
      case (Some u)
      with U2 [OF this] show ?thesis by (simp add: target_tree_def)
    next
      case None
      then have nu: "\<not> needs_upload base e" using P(4) e unfolding uploads_ok_def by blast
      have same: "?b p = Some e" if nc: "p \<notin> set (create_dirs plan)"
      proof (cases "kind e")
        case DirEntry
        then obtain o' where o': "?b p = Some o'" "kind o' = DirEntry"
          using nc P(1) Some by (auto simp: has_kind_iff)
        then have "o' \<in> set (bt_values base)" "path o' = p" unfolding keyed_lookup [OF kb] by simp_all
        then have "o' = dir_entry p" using B o'(2) by (auto simp: closed_map_def complete_entry_def)
        moreover have "e = dir_entry p" using W e DirEntry by (auto simp: closed_map_def complete_entry_def)
        ultimately show ?thesis using o' by simp
      next
        case FileEntry
        then obtain o' where o': "?b p = Some o'" "same_file e o'"
          using nu e(2) by (auto simp: needs_upload_def split: option.splits)
        have "path o' = p" using o'(1) unfolding keyed_lookup [OF kb] by simp
        then show ?thesis using same_file_eq [OF o'(2)] e(2) o'(1) by simp
      qed
      have "e = dir_entry p" if "p \<in> set (create_dirs plan)"
        using that P(1) Some W e by (auto simp: closed_map_def complete_entry_def)
      moreover have "p \<notin> set (delete_files plan) \<union> set (delete_dirs plan)" if "p \<notin> set (create_dirs plan)"
        unfolding gone using same [OF that] keep Some by (auto simp: has_kind_iff)
      ultimately show ?thesis using None Some same by (simp add: target_tree_def)
    qed
  qed
qed

text \<open>A plan of complete manifests always exists.\<close>

lemma file_transfer_complete: "complete_entry e \<Longrightarrow> kind e = FileEntry \<Longrightarrow> \<exists>t. file_transfer e = Inr t"
  by (auto simp: complete_entry_def file_transfer_def ok_or_def)

lemma plan_step_total:
  assumes "complete_entry e" shows "\<exists>p. plan_step base plan e = Inr p"
  using file_transfer_complete [OF assms]
  by (cases "kind e") (auto simp: plan_step_def Let_def split: option.split)

lemma plan_diff_total:
  assumes "\<forall>e\<in>set (bt_values wanted). complete_entry e"
  shows "\<exists>p. plan_diff_of base wanted del plan0 = Inr p"
proof -
  have "\<exists>p. foldR (plan_step base) plan0 es = Inr p" if "\<forall>e\<in>set es. complete_entry e" for es
    using that
  proof (induction es arbitrary: plan0)
    case (Cons e es)
    obtain p1 where "plan_step base plan0 e = Inr p1" using plan_step_total Cons.prems by force
    then show ?case using Cons by simp
  qed simp
  then show ?thesis using assms by (fastforce simp: plan_diff_of_def)
qed

end
