(* ===== verification/Pull_Plan.thy ===== *)
theory Pull_Plan
  imports Plan_Correct
begin

text \<open>
  \<open>create_pull_plan\<close> of \<open>src/src/sync.rs\<close>: the loop of \<open>create_plan\<close> written a second time, with
  the server's manifest as what must exist and a vector of downloads in place of the map of uploads.
  The two loops are proved equal, so the correctness of the push plan carries over.
\<close>

record pull_response =
  download_files :: "file_transfer list"
  pull_create_dirs :: "string list"
  pull_delete_files :: "string list"
  pull_delete_dirs :: "string list"

definition pull_step ::
  "(string \<times> manifest_entry) list \<Rightarrow> pull_response \<Rightarrow> manifest_entry \<Rightarrow> app_error + pull_response" where
  "pull_step client response entry =
     (let old = map_of client (path entry) in
      case kind entry of
        DirEntry \<Rightarrow>
          let response = (if \<not> has_kind DirEntry old
                then response\<lparr>pull_create_dirs := pull_create_dirs response @ [path entry]\<rparr> else response) in
          Inr (if has_kind FileEntry old
               then response\<lparr>pull_delete_files := pull_delete_files response @ [path entry]\<rparr> else response)
      | FileEntry \<Rightarrow>
          andThen
            (if (case old of None \<Rightarrow> True | Some old \<Rightarrow> \<not> same_file entry old)
             then andThen (file_transfer entry) (\<lambda>t.
               Inr (response\<lparr>download_files := download_files response @ [t]\<rparr>))
             else Inr response)
            (\<lambda>response. Inr
              (if has_kind DirEntry old
               then response\<lparr>pull_delete_files := pull_delete_files response
                               @ paths_of FileEntry (children_of (path entry) client),
                             pull_delete_dirs := pull_delete_dirs response
                               @ paths_of DirEntry (children_of (path entry) client) @ [path entry]\<rparr>
               else response)))"

definition pull_plan_of ::
  "(string \<times> manifest_entry) list \<Rightarrow> (string \<times> manifest_entry) list \<Rightarrow> bool \<Rightarrow> app_error + pull_response" where
  "pull_plan_of client server delete_extra =
     andThen (foldR (pull_step client)
               \<lparr>download_files = [], pull_create_dirs = [], pull_delete_files = [], pull_delete_dirs = []\<rparr>
               (bt_values server)) (\<lambda>r.
     let extra = filter (\<lambda>old. map_of server (path old) = None) (bt_values client);
         r = (if delete_extra
              then r\<lparr>pull_delete_files := pull_delete_files r @ paths_of FileEntry extra,
                     pull_delete_dirs := pull_delete_dirs r @ paths_of DirEntry extra\<rparr>
              else r) in
     Inr (r\<lparr>download_files := sort_key ft_path (download_files r),
            pull_create_dirs := sort_paths (pull_create_dirs r),
            pull_delete_files := sort_paths (pull_delete_files r),
            pull_delete_dirs := sort_paths_deepest_first (pull_delete_dirs r)\<rparr>))"

section \<open>The two loops agree\<close>

definition as_pull :: "plan_diff \<Rightarrow> pull_response" where
  "as_pull p = \<lparr>download_files = map up_transfer (bt_values (upload_files p)),
     pull_create_dirs = create_dirs p, pull_delete_files = delete_files p, pull_delete_dirs = delete_dirs p\<rparr>"

lemma bt_insert_last: "\<forall>x\<in>set (bt_keys m). x < k \<Longrightarrow> bt_insert k v m = m @ [(k, v)]"
  by (induction m) auto

lemma pull_step_agrees:
  assumes "plan_step base plan e = Inr plan'" "\<forall>x\<in>set (bt_keys (upload_files plan)). x < path e"
  shows "pull_step base (as_pull plan) e = Inr (as_pull plan')"
    "set (bt_keys (upload_files plan')) \<subseteq> insert (path e) (set (bt_keys (upload_files plan)))"
proof -
  have "pull_step base (as_pull plan) e = Inr (as_pull plan') \<and>
    set (bt_keys (upload_files plan')) \<subseteq> insert (path e) (set (bt_keys (upload_files plan)))"
  proof (cases "kind e")
    case DirEntry
    then have p: "plan' = (let plan = (if \<not> has_kind DirEntry (map_of base (path e))
          then plan\<lparr>create_dirs := create_dirs plan @ [path e]\<rparr> else plan) in
        if has_kind FileEntry (map_of base (path e))
        then plan\<lparr>delete_files := delete_files plan @ [path e]\<rparr> else plan)"
      using assms(1) by (simp add: plan_step_def Let_def)
    show ?thesis unfolding p using DirEntry by (simp add: pull_step_def Let_def as_pull_def subset_insertI)
  next
    case FileEntry
    show ?thesis
    proof (cases "case map_of base (path e) of None \<Rightarrow> True | Some old \<Rightarrow> \<not> same_file e old")
      case True
      then obtain t where t: "file_transfer e = Inr t"
        using assms(1) FileEntry by (auto simp: plan_step_def Let_def res_simps)
      show ?thesis using assms(1) FileEntry True
        by (simp add: plan_step_def pull_step_def Let_def as_pull_def t bt_insert_last [OF assms(2)]
            split: if_splits) auto
    next
      case False
      show ?thesis using assms(1) FileEntry False
        by (simp add: plan_step_def pull_step_def Let_def as_pull_def subset_insertI split: if_splits) auto
    qed
  qed
  then show "pull_step base (as_pull plan) e = Inr (as_pull plan')"
    "set (bt_keys (upload_files plan')) \<subseteq> insert (path e) (set (bt_keys (upload_files plan)))" by auto
qed

lemma pull_step_error:
  assumes "plan_step base plan e = Inl x" shows "pull_step base (as_pull plan) e = Inl x"
  using assms
  by (cases "kind e") (auto simp: plan_step_def pull_step_def Let_def as_pull_def res_simps split: if_splits)

lemma pull_loop_agrees:
  assumes "sorted_wrt (<) (map path es)" "\<forall>x\<in>set (bt_keys (upload_files plan)). \<forall>e\<in>set es. x < path e"
  shows "foldR (pull_step base) (as_pull plan) es =
    (case foldR (plan_step base) plan es of Inl x \<Rightarrow> Inl x | Inr p \<Rightarrow> Inr (as_pull p))"
  using assms
proof (induction es arbitrary: plan)
  case (Cons e es)
  show ?case
  proof (cases "plan_step base plan e")
    case (Inl x)
    then show ?thesis by (simp add: pull_step_error)
  next
    case (Inr p1)
    have "\<forall>x\<in>set (bt_keys (upload_files plan)). x < path e" using Cons.prems(2) by simp
    note a = pull_step_agrees [OF Inr this]
    have "\<forall>x\<in>set (bt_keys (upload_files p1)). \<forall>e\<in>set es. x < path e"
      using a(2) Cons.prems by fastforce
    then show ?thesis using Cons.IH [of p1] Cons.prems(1) Inr a(1) by simp
  qed
qed simp

lemma file_transfer_path: "file_transfer e = Inr t \<Longrightarrow> ft_path t = path e"
  by (auto simp: file_transfer_def res_simps split: if_splits)

lemma uploads_sorted:
  assumes "uploads_ok base es ups"
  shows "sorted (map ft_path (map up_transfer (bt_values ups)))"
proof -
  have ok: "bt_ok ups" using assms by (simp add: uploads_ok_def)
  have "ft_path (up_transfer u) = p" if "(p, u) \<in> set ups" for p u
  proof -
    have "map_of ups p = Some u" using that by (simp add: map_of_eq_Some_iff_bt [OF ok])
    then show ?thesis using assms file_transfer_path by (auto simp: uploads_ok_def)
  qed
  then have "map ft_path (map up_transfer (bt_values ups)) = bt_keys ups"
    unfolding list.map_comp by (intro map_cong) auto
  then show ?thesis using ok by (simp only: bt_ok_def strict_sorted_iff)
qed

lemma sorted_sort_key: "sorted (map f xs) \<Longrightarrow> sort_key f xs = xs"
  by (rule sort_key_id_if_sorted)

lemma bt_values_keyed: "keyed m \<Longrightarrow> map path (bt_values m) = bt_keys m"
  unfolding list.map_comp by (intro map_cong) (auto simp: keyed_def)

lemma pull_plan_agrees:
  assumes "keyed base" "keyed wanted"
  shows "pull_plan_of base wanted del =
    (case plan_diff_of base wanted del empty_diff of Inl x \<Rightarrow> Inl x | Inr p \<Rightarrow> Inr (as_pull p))"
proof -
  let ?vs = "bt_values wanted"
  have s: "sorted_wrt (<) (map path ?vs)"
    unfolding bt_values_keyed [OF assms(2)] using assms(2) by (simp add: keyed_def bt_ok_def)
  have e: "as_pull empty_diff = \<lparr>download_files = [], pull_create_dirs = [], pull_delete_files = [],
      pull_delete_dirs = []\<rparr>" by (simp add: as_pull_def empty_diff_def)
  have l: "foldR (pull_step base) (as_pull empty_diff) ?vs =
    (case foldR (plan_step base) empty_diff ?vs of Inl x \<Rightarrow> Inl x | Inr p \<Rightarrow> Inr (as_pull p))"
    by (rule pull_loop_agrees [OF s]) (simp add: empty_diff_def)
  show ?thesis
  proof (cases "foldR (plan_step base) empty_diff ?vs")
    case (Inl x)
    then show ?thesis using l by (simp add: pull_plan_of_def plan_diff_of_def flip: e)
  next
    case (Inr p)
    have "uploads_ok base ([] @ ?vs) (upload_files p)"
      by (rule plan_loop_uploads [OF Inr]) (simp add: uploads_ok_def empty_diff_def)
    then have "sort_key ft_path (map up_transfer (bt_values (upload_files p))) =
        map up_transfer (bt_values (upload_files p))"
      by (intro sorted_sort_key) (rule uploads_sorted, simp)
    moreover have "foldR (pull_step base) (as_pull empty_diff) ?vs = Inr (as_pull p)"
      using l Inr by simp
    ultimately show ?thesis using Inr
      by (simp add: pull_plan_of_def plan_diff_of_def flip: e)
        (simp add: Let_def as_pull_def sort_plan_def add_extras_def)
  qed
qed

end
