(* ===== verification/Sync_Commit.thy ===== *)
theory Sync_Commit
  imports Commit_Undo File_Transfer Pull_Plan
begin

text \<open>
  Committing a plan: \<open>apply_commit\<close>, \<open>apply_reset\<close> and \<open>settle_transaction\<close> of
  \<open>src/src/sync.rs\<close>, with the checks they start with. The configuration values they read are
  the fields of \<open>sync_config\<close>. \<open>display\<close> renders a path for an error message.
\<close>

record sync_config =
  workspace_root :: path
  max_entries :: nat
  max_file_bytes :: nat

record commit_response =
  uploaded_files :: "string list"
  created_dirs :: "string list"
  deleted_files :: "string list"
  deleted_dirs :: "string list"

section \<open>Checks before a commit\<close>

definition check_project_root :: "path \<Rightarrow> path \<Rightarrow> 'z fs_scheme \<Rightarrow> unit res \<times> 'z fs_scheme" where
  "check_project_root workspace dir s =
     (case symlink_metadata dir s of
        (Inr _, s1) \<Rightarrow> ensure_safe_project_root workspace dir s1
      | (Inl e, s1) \<Rightarrow> if io_kind e = NotFoundK then (Inr (), s1) else (Inl (sync_internal_io e), s1))"

definition ensure_same_filesystem :: "path \<Rightarrow> path \<Rightarrow> path \<Rightarrow> 'z fs_scheme \<Rightarrow> unit res \<times> 'z fs_scheme" where
  "ensure_same_filesystem workspace staging project =
     bindS (mapErr sync_internal_io (metadata workspace)) (\<lambda>_.
     bindS (mapErr sync_internal_io (metadata staging)) (\<lambda>_ s.
     let dev = device s workspace;
         check = (\<lambda>project_device. ensure (dev = device s staging \<and> dev = project_device)
                    (BadRequest ''project and staging must share the workspace filesystem'')) in
     case symlink_metadata project s of
       (Inr _, s1) \<Rightarrow> (check (device s project), s1)
     | (Inl e, s1) \<Rightarrow>
         if io_kind e = NotFoundK then (check dev, s1) else (Inl (sync_internal_io e), s1)))"

definition check_staged ::
  "(string \<Rightarrow> string) \<Rightarrow> sync_config \<Rightarrow> path \<Rightarrow> planned_upload \<Rightarrow> 'z fs_scheme \<Rightarrow> unit res \<times> 'z fs_scheme" where
  "check_staged sha cfg staging upload =
     (let p = path (up_entry upload) in
      bindS (ensure_path_has_no_links staging (''files/'' @ p)) (\<lambda>_.
      bindS (liftR (resolve_relative_path (staging @ [''files'']) p)) (\<lambda>staged.
      bindS (open_file_for_transfer sha (max_file_bytes cfg) staged p) (\<lambda>t.
      liftR (ensure (ft_size t = ft_size (up_transfer upload) \<and> ft_sha t = ft_sha (up_transfer upload))
               (Conflict (''staged file does not match plan: '' @ p)))))))"

definition check_target ::
  "(string \<Rightarrow> string) \<Rightarrow> (path \<Rightarrow> string) \<Rightarrow> sync_config \<Rightarrow> 'y commit_plan_scheme \<Rightarrow> string \<Rightarrow>
   'z fs_scheme \<Rightarrow> unit res \<times> 'z fs_scheme" where
  "check_target sha display cfg plan p =
     bindS (ensure_path_has_no_links (workspace_root cfg) (last ([] # project_dir plan) @ ''/'' @ p)) (\<lambda>_.
     bindS (liftR (resolve_relative_path (project_dir plan) p)) (\<lambda>target.
     ensure_baseline_matches sha display target (map_of (baseline plan) p)))"

section \<open>The transaction\<close>

text \<open>Deletions: the paths for which the operation reports that there was something.\<close>

fun delete_all :: "(string \<Rightarrow> 's \<Rightarrow> bool res \<times> 's) \<Rightarrow> string list \<Rightarrow> string list \<Rightarrow> 's \<Rightarrow> string list res \<times> 's" where
  "delete_all f [] acc = okS acc"
| "delete_all f (p # ps) acc = bindS (f p) (\<lambda>gone. delete_all f ps (if gone then acc @ [p] else acc))"

definition install_upload ::
  "(nat \<Rightarrow> string) \<Rightarrow> path \<Rightarrow> path \<Rightarrow> planned_upload \<Rightarrow> (unit, 'z) tx" where
  "install_upload uuid project staging upload =
     (let p = path (up_entry upload) in
      bindS (liftR (resolve_relative_path project p)) (\<lambda>target.
      bindS (liftR (resolve_relative_path (staging @ [''files'']) p)) (\<lambda>staged.
      bindS (install_file uuid staged target p) (\<lambda>_.
      set_file_attributes target (mtime_unix_ms (up_entry upload)) (executable (up_entry upload))))))"

definition commit_operations ::
  "(nat \<Rightarrow> string) \<Rightarrow> 'y commit_plan_scheme \<Rightarrow> (commit_response, 'z) tx" where
  "commit_operations uuid plan =
     bindS (tx_create_dir (project_dir plan) ''project root'') (\<lambda>_.
     bindS (delete_all (\<lambda>p. bindS (liftR (resolve_relative_path (project_dir plan) p))
              (\<lambda>t. delete_file uuid t p)) (delete_files plan) []) (\<lambda>files.
     bindS (delete_all (\<lambda>p. bindS (liftR (resolve_relative_path (project_dir plan) p))
              (\<lambda>t. delete_empty_dir uuid t p)) (delete_dirs plan) []) (\<lambda>dirs.
     bindS (forS (\<lambda>p. bindS (liftR (resolve_relative_path (project_dir plan) p))
              (\<lambda>t. tx_create_dir t p)) (create_dirs plan)) (\<lambda>_.
     bindS (forS (install_upload uuid (project_dir plan) (staging_dir plan))
              (bt_values (upload_files plan))) (\<lambda>_.
     okS \<lparr>uploaded_files = bt_keys (upload_files plan), created_dirs = create_dirs plan,
          deleted_files = files, deleted_dirs = dirs\<rparr>)))))"

definition settle_transaction :: "('a, 'z) tx \<Rightarrow> ('a, 'z) tx" where
  "settle_transaction operations s =
     (case operations s of
        (Inr v, s1) \<Rightarrow> (Inr v, s1)
      | (Inl e, s1) \<Rightarrow>
          (case rollback s1 of
             (Inr _, s2) \<Rightarrow> (Inl e, s2)
           | (Inl rb, s2) \<Rightarrow>
               (Inl (ProjectReuploadRequired (''sync failed ('' @ to_string e @ ''); rollback failed (''
                  @ to_string rb @ '')'')), s2)))"

definition rollback_dir :: "'y commit_plan_scheme \<Rightarrow> path" where
  "rollback_dir plan = staging_dir plan @ [''rollback'']"

definition same_tree :: "'y commit_plan_scheme \<Rightarrow> manifest_entry list \<Rightarrow> bool" where
  "same_tree plan actual \<longleftrightarrow>
     length actual = card (set (create_dirs plan)) + length (upload_files plan) \<and>
     (\<forall>e\<in>set actual. case kind e of
        DirEntry \<Rightarrow> path e \<in> set (create_dirs plan)
      | FileEntry \<Rightarrow> (case map_of (upload_files plan) (path e) of
                        None \<Rightarrow> False | Some u \<Rightarrow> same_file e (up_entry u)))"

definition no_filters :: sync_filters where
  "no_filters = \<lparr>include_set = (\<lambda>_. False), include_active = False, exclude_set = (\<lambda>_. False)\<rparr>"

definition apply_reset ::
  "(string \<Rightarrow> string) \<Rightarrow> (nat \<Rightarrow> string) \<Rightarrow> sync_config \<Rightarrow> 'y commit_plan_scheme \<Rightarrow> (commit_response, 'z) tx" where
  "apply_reset sha uuid cfg plan =
     (let files = staging_dir plan @ [''files''] in
      bindS (forS (\<lambda>p. bindS (ensure_path_has_no_links files p) (\<lambda>_.
               bindS (liftR (resolve_relative_path files p)) (\<lambda>t.
               mapErr sync_internal_io (create_dir_all t)))) (create_dirs plan)) (\<lambda>_.
      bindS (forS (\<lambda>u. bindS (liftR (resolve_relative_path files (path (up_entry u)))) (\<lambda>t.
               set_file_attributes t (mtime_unix_ms (up_entry u)) (executable (up_entry u))))
             (bt_values (upload_files plan))) (\<lambda>_.
      bindS (scan_manifest_blocking sha no_filters (max_entries cfg) (max_file_bytes cfg) files) (\<lambda>actual.
      bindS (liftR (ensure (same_tree plan actual)
               (Conflict ''replacement tree differs from the complete manifest''))) (\<lambda>_.
      bindS (txn_new (rollback_dir plan)) (\<lambda>_.
      settle_transaction
        (bindS (replace_project uuid files (project_dir plan)) (\<lambda>_.
         okS \<lparr>uploaded_files = bt_keys (upload_files plan), created_dirs = create_dirs plan,
              deleted_files = [], deleted_dirs = []\<rparr>))))))))"

definition apply_commit ::
  "(string \<Rightarrow> string) \<Rightarrow> (path \<Rightarrow> string) \<Rightarrow> (nat \<Rightarrow> string) \<Rightarrow> sync_config \<Rightarrow> 'y commit_plan_scheme \<Rightarrow>
   (commit_response, 'z) tx" where
  "apply_commit sha display uuid cfg plan =
     bindS (check_project_root (workspace_root cfg) (project_dir plan)) (\<lambda>_.
     bindS (ensure_same_filesystem (workspace_root cfg) (staging_dir plan) (project_dir plan)) (\<lambda>_.
     bindS (forS (check_staged sha cfg (staging_dir plan)) (bt_values (upload_files plan))) (\<lambda>_.
     if reset plan then apply_reset sha uuid cfg plan
     else
       bindS (forS (check_target sha display cfg plan)
                (create_dirs plan @ bt_keys (upload_files plan) @ delete_files plan @ delete_dirs plan)) (\<lambda>_.
       bindS (txn_new (rollback_dir plan)) (\<lambda>_.
       settle_transaction (commit_operations uuid plan))))))"

end
