(* ===== verification/Attr_Undo.thy ===== *)
theory Attr_Undo
  imports Sync_Commit
begin

text \<open>
  A commit sets times and permission bits on the files it has installed, outside the log. Undoing the
  log carries such a file back to the staging directory with its new attributes: everything outside
  the staging directory is still restored exactly. The lemmas follow the path of a changed file
  through the moves of the undo.
\<close>

section \<open>Changing the contents of a file node\<close>

lemma lookup_set_file:
  "lookup st p = Some (File d) \<Longrightarrow>
   lookup (set_node p (File e) st) q = (if q = p then Some (File e) else lookup st q)"
  by (simp add: lookup_set_node)

lemma set_file_ok:
  assumes "store_ok st" "lookup st p = Some (File d)" shows "store_ok (set_node p (File e) st)"
proof (rule store_okI)
  show "distinct (map fst (set_node p (File e) st))" using store_okD(1) [OF assms(1)] by simp
  have np: "p \<noteq> []" using store_okD(2) [OF assms(1)] assms(2) by auto
  then show "lookup (set_node p (File e) st) [] = Some Dir"
    using store_okD(2) [OF assms(1)] assms(2) by (simp add: lookup_set_file)
  fix q n assume q: "lookup (set_node p (File e) st) q = Some n" "q \<noteq> []"
  then obtain m where "lookup st q = Some m"
    using assms(2) by (auto simp: lookup_set_file split: if_splits)
  from store_okD(3) [OF assms(1) this q(2)] have "lookup st (butlast q) = Some Dir" .
  then show "lookup (set_node p (File e) st) (butlast q) = Some Dir"
    using assms(2) by (auto simp: lookup_set_file)
qed

lemma rebase_inj_vacant:
  assumes "vacant dst st" "\<not> is_prefix src dst" "\<not> is_prefix dst src" "q \<in> fst ` set st" "p \<in> fst ` set st"
    and "rebase src dst q = rebase src dst p"
  shows "q = p"
proof -
  have v: "\<not> is_prefix dst q" "\<not> is_prefix dst p" using assms(1,4,5) by (auto simp: vacant_def)
  show ?thesis using assms(6) v by (auto simp: rebase_def is_prefix_iff split: if_splits)
qed

lemma move_set_file:
  assumes "vacant dst st" "\<not> is_prefix src dst" "\<not> is_prefix dst src" "lookup st p = Some n"
  shows "move src dst (set_node p m st) = set_node (rebase src dst p) m (move src dst st)"
proof -
  have k: "fst ` set (set_node p m st) = fst ` set st" by (metis keys_set_node set_map)
  then have v: "vacant dst (set_node p m st)" using assms(1) by (simp add: vacant_def)
  have p: "p \<in> fst ` set st" using assms(4) by (metis lookup_None_notin option.distinct(1))
  have e: "q \<in> fst ` set st \<Longrightarrow> (rebase src dst q = rebase src dst p) = (q = p)" for q
    using rebase_inj_vacant [OF assms(1-3) _ p] by blast
  have "map (\<lambda>(q, n). (rebase src dst q, n)) (set_node p m st) =
      set_node (rebase src dst p) m (map (\<lambda>(q, n). (rebase src dst q, n)) st)"
    unfolding set_node_def list.map_comp
    by (rule map_cong [OF refl]) (use e in \<open>fastforce split: if_splits\<close>)
  then show ?thesis using v assms(1) by (simp add: move_vacant)
qed

lemma lookup_move_rebase:
  assumes "vacant dst st" "lookup st p = Some n"
  shows "lookup (move src dst st) (rebase src dst p) = Some n"
proof (cases "is_prefix src p")
  case True
  then obtain r where "p = src @ r" by (auto simp: is_prefix_iff)
  then show ?thesis using assms by (simp add: lookup_move_in)
next
  case False
  have "p \<in> fst ` set st" using assms(2) by (metis lookup_None_notin option.distinct(1))
  then have "\<not> is_prefix dst p" using assms(1) unfolding vacant_def by blast
  then show ?thesis using assms False by (simp add: lookup_move_out)
qed

lemma mv_set_file:
  assumes "mv dev src dst st = Inr ((), st')" "store_ok st" "lookup st dst = None"
    and "lookup st p = Some (File d)"
  shows "mv dev src dst (set_node p (File e) st) = Inr ((), set_node (rebase src dst p) (File e) st')"
    "lookup (set_node p (File e) st) dst = None" "lookup st' (rebase src dst p) = Some (File d)"
proof -
  note E = mv_vacantE [OF assms(1-3)] and v = vacantI [OF assms(2,3)] and L = lookup_set_file [OF assms(4)]
  obtain n where n: "lookup st src = Some n" using E(1) by blast
  have ne: "dst \<noteq> p" using assms(3,4) by auto
  then show nd: "lookup (set_node p (File e) st) dst = None" using assms(3) by (simp add: L)
  have "lookup st (butlast dst) = Some Dir" by (rule E(2))
  then have b: "lookup (set_node p (File e) st) (butlast dst) = Some Dir" using assms(4) by (auto simp: L)
  obtain m where m: "lookup (set_node p (File e) st) src = Some m" using n by (cases "src = p") (auto simp: L)
  have "mv dev src dst (set_node p (File e) st) = Inr ((), move src dst (set_node p (File e) st))"
    by (rule mv_vacantI [OF set_file_ok [OF assms(2,4)] nd m b E(3-6)])
  then show "mv dev src dst (set_node p (File e) st) = Inr ((), set_node (rebase src dst p) (File e) st')"
    using move_set_file [OF v E(4,8) assms(4)] E(7) by simp
  show "lookup st' (rebase src dst p) = Some (File d)"
    using lookup_move_rebase [OF v assms(4)] E(7) by simp
qed

lemma rmdir_set_file:
  assumes "rmdir t st = Inr ((), st')" "store_ok st" "lookup st p = Some (File d)"
  shows "rmdir t (set_node p (File e) st) = Inr ((), set_node p (File e) st')"
    "lookup st' p = Some (File d)"
proof -
  note E = rmdir_InrE [OF assms(1,2)] and L = lookup_set_file [OF assms(3)]
  have ok: "store_ok (set_node p (File e) st)" by (rule set_file_ok [OF assms(2,3)])
  have ne: "t \<noteq> p" using E assms(3) by auto
  have l: "lookup (set_node p (File e) st) t = Some Dir" using E ne by (simp add: L)
  have "\<not> occupied_below t (set_node p (File e) st)"
    using E by (simp add: occupied_below_def)
  moreover have "delete_key t (set_node p (File e) st) = set_node p (File e) (delete_key t st)"
    using ne by (induction st) (auto simp: delete_key_def set_node_def split: if_splits)
  ultimately show "rmdir t (set_node p (File e) st) = Inr ((), set_node p (File e) st')"
    using ok l E by (simp add: rmdir_def)
  show "lookup st' p = Some (File d)" using E ne assms(3) by (simp add: lookup_delete_key)
qed

section \<open>Undoing with a changed file\<close>

fun track :: "applied_change \<Rightarrow> path \<Rightarrow> path" where
  "track (Created _) p = p"
| "track (Replaced t b) p = rebase b t p"
| "track (Installed t sg bk) p =
     (let q = rebase t sg p in case bk of None \<Rightarrow> q | Some b \<Rightarrow> rebase b t q)"

lemma mv_free_set_file:
  assumes "mv_free a b (dv, st) = Some v" "store_ok st" "lookup st p = Some (File d)"
  shows "\<exists>st'. v = (dv, st') \<and> store_ok st' \<and> lookup st' (rebase a b p) = Some (File d) \<and>
    mv_free a b (dv, set_node p (File e) st) = Some (dv, set_node (rebase a b p) (File e) st')"
proof -
  obtain st' where n: "lookup st b = None" and m: "mv dv a b st = Inr ((), st')" and v: "v = (dv, st')"
    using assms(1) by (auto simp: mv_free_def split: if_splits sum.splits)
  note M = mv_set_file(1) [OF m assms(2) n assms(3), of e]
    mv_set_file(2) [OF m assms(2) n assms(3), of e] mv_set_file(3) [OF m assms(2) n assms(3)]
  show ?thesis using v mv_vacant_ok [OF m assms(2) n] M by (simp add: mv_free_def)
qed

lemma undo_vol_set_file:
  assumes "undo_vol c (dv, st) = Some v" "store_ok st" "lookup st p = Some (File d)"
  shows "\<exists>st'. v = (dv, st') \<and> store_ok st' \<and> lookup st' (track c p) = Some (File d) \<and>
    undo_vol c (dv, set_node p (File e) st) = Some (dv, set_node (track c p) (File e) st')"
proof (cases c)
  case (Created t)
  then obtain st' where r: "rmdir t st = Inr ((), st')" "v = (dv, st')"
    using assms(1) by (auto split: sum.splits)
  then show ?thesis using rmdir_set_file(1) [OF r(1) assms(2,3), of e]
      rmdir_set_file(2) [OF r(1) assms(2,3)] rmdir_ok [OF r(1) assms(2)] Created
    by simp
next
  case (Replaced t b)
  then show ?thesis using mv_free_set_file [OF _ assms(2,3), of b t dv v e] assms(1) by simp
next
  case (Installed t sg bk)
  then obtain w where w: "mv_free t sg (dv, st) = Some w"
    and v: "(case bk of None \<Rightarrow> Some w | Some b \<Rightarrow> mv_free b t w) = Some v"
    using assms(1) by (auto split: option.splits)
  obtain st1 where 1: "w = (dv, st1)" "store_ok st1" "lookup st1 (rebase t sg p) = Some (File d)"
    "mv_free t sg (dv, set_node p (File e) st) = Some (dv, set_node (rebase t sg p) (File e) st1)"
    using mv_free_set_file [OF w assms(2,3), of e] by blast
  show ?thesis
  proof (cases bk)
    case None
    then show ?thesis using 1 v Installed by auto
  next
    case (Some b)
    then have "mv_free b t (dv, st1) = Some v" using v 1(1) by simp
    from mv_free_set_file [OF this 1(2,3), of e] show ?thesis
      using 1(4) Some Installed by (simp add: Let_def)
  qed
qed

lemma undo_all_set_file:
  "undo_all undo_vol cs (dv, st) = Some (dv, st') \<Longrightarrow> store_ok st \<Longrightarrow> lookup st p = Some (File d) \<Longrightarrow>
   lookup st' (fold track cs p) = Some (File d) \<and>
   undo_all undo_vol cs (dv, set_node p (File e) st) = Some (dv, set_node (fold track cs p) (File e) st')"
proof (induction cs arbitrary: st p)
  case (Cons c cs)
  obtain v where v: "undo_vol c (dv, st) = Some v" "undo_all undo_vol cs v = Some (dv, st')"
    using Cons.prems(1) by (auto split: option.splits)
  obtain st1 where 1: "v = (dv, st1)" "store_ok st1" "lookup st1 (track c p) = Some (File d)"
    "undo_vol c (dv, set_node p (File e) st) = Some (dv, set_node (track c p) (File e) st1)"
    using undo_vol_set_file [OF v(1) Cons.prems(2,3), of e] by blast
  from Cons.IH [OF _ 1(2,3)] v(2) 1 show ?case by simp
qed simp

text \<open>In a log whose moves start apart from it, a path stays where it is.\<close>

fun log_entry_ok :: "path \<Rightarrow> path \<Rightarrow> applied_change \<Rightarrow> bool" where
  "log_entry_ok root files (Created t) \<longleftrightarrow> True"
| "log_entry_ok root files (Replaced t b) \<longleftrightarrow> is_prefix root b"
| "log_entry_ok root files (Installed t sg bk) \<longleftrightarrow>
     apart t files \<and> (case bk of None \<Rightarrow> True | Some b \<Rightarrow> is_prefix root b)"

definition log_ok :: "path \<Rightarrow> path \<Rightarrow> 'z txn_scheme \<Rightarrow> bool" where
  "log_ok root files s \<longleftrightarrow> (\<forall>c\<in>set (changes s). log_entry_ok root files c)"

lemma rebase_apart: "apart a files \<Longrightarrow> is_prefix files p \<Longrightarrow> rebase a b p = p"
  by (auto simp: apart_def rebase_def is_prefix_iff append_eq_append_conv2)

lemma apart_prefix: "apart root files \<Longrightarrow> is_prefix root b \<Longrightarrow> apart b files"
  by (auto simp: apart_def is_prefix_iff append_eq_append_conv2)

lemma track_staged:
  "apart root files \<Longrightarrow> is_prefix files p \<Longrightarrow> log_entry_ok root files c \<Longrightarrow> track c p = p"
  using apart_prefix [of root files]
  by (cases c) (auto simp: Let_def rebase_apart [of _ files] split: option.splits)

lemma fold_track_staged:
  "apart root files \<Longrightarrow> is_prefix files p \<Longrightarrow> \<forall>c\<in>set cs. log_entry_ok root files c \<Longrightarrow> fold track cs p = p"
  by (induction cs) (simp_all add: track_staged)

end
