(* ===== verification/Commit_Atomic.thy ===== *)
theory Commit_Atomic
  imports Attr_Undo
begin

text \<open>
  A commit is all or nothing: if it fails and does not ask for a complete upload, nothing outside its
  staging directory has changed, whichever call failed.
\<close>

section \<open>Invariants of a sequence\<close>

definition stable :: "('s \<Rightarrow> bool) \<Rightarrow> ('s \<Rightarrow> 'r \<times> 's) \<Rightarrow> bool" where
  "stable I m \<longleftrightarrow> (\<forall>s. I s \<longrightarrow> I (snd (m s)))"

lemma stableD: "stable I m \<Longrightarrow> I s \<Longrightarrow> m s = (r, s') \<Longrightarrow> I s'"
  by (auto simp: stable_def dest!: spec [of _ s])

lemma stable_bindS: "stable I m \<Longrightarrow> (\<And>x. stable I (f x)) \<Longrightarrow> stable I (bindS m f)"
  by (auto simp: stable_def bindS_def split: prod.splits sum.splits dest: arg_cong [of _ _ snd])

lemma stable_pure [simp]: "stable I (okS x)" "stable I (failS e)" "stable I (liftR r)"
  by (auto simp: stable_def okS_def failS_def liftR_def)

text \<open>A step whose argument comes out of a check only needs to be stable for accepted arguments.\<close>

lemma stable_liftR_bind: "(\<And>x. r = Inr x \<Longrightarrow> stable I (f x)) \<Longrightarrow> stable I (bindS (liftR r) f)"
  by (cases r) (auto simp: stable_def bindS_def liftR_def)

lemma stable_forS: "(\<And>x. x \<in> set xs \<Longrightarrow> stable I (f x)) \<Longrightarrow> stable I (forS f xs)"
  by (induction xs) (auto intro: stable_bindS)

lemma stable_delete_all: "(\<And>x. x \<in> set xs \<Longrightarrow> stable I (f x)) \<Longrightarrow> stable I (delete_all f xs acc)"
  by (induction xs arbitrary: acc) (auto intro: stable_bindS)

section \<open>What an operation touches\<close>

definition touches :: "path set \<Rightarrow> 'z fs_scheme \<Rightarrow> 'z fs_scheme \<Rightarrow> bool" where
  "touches T s s' \<longleftrightarrow> (\<forall>q. (\<forall>t\<in>T. \<not> is_prefix t q) \<longrightarrow> lookup (store s') q = lookup (store s) q)"

lemma touches_refl [simp]: "touches T s s"
  by (simp add: touches_def)

lemma touches_trans: "touches T s s' \<Longrightarrow> touches T s' s'' \<Longrightarrow> touches T s s''"
  by (simp add: touches_def)

lemma touches_mono: "touches T s s' \<Longrightarrow> T \<subseteq> T' \<Longrightarrow> touches T' s s'"
  unfolding touches_def by blast

lemma touches_store: "store s' = store s \<Longrightarrow> touches T s s'"
  by (simp add: touches_def)

lemma touches_update [simp]:
  "touches T (push_change c s) s' \<longleftrightarrow> touches T s s'" "touches T s (push_change c s') \<longleftrightarrow> touches T s s'"
  "touches T s (pop_change s') \<longleftrightarrow> touches T s s'" "touches T (pop_change s) s' \<longleftrightarrow> touches T s s'"
  "touches T s (s'\<lparr>issued := n\<rparr>) \<longleftrightarrow> touches T s s'" "touches T (s\<lparr>issued := n\<rparr>) s' \<longleftrightarrow> touches T s s'"
  "touches T s (s'\<lparr>faults := fl\<rparr>) \<longleftrightarrow> touches T s s'"
  by (simp_all add: touches_def push_change_def pop_change_def)

lemma lookup_delete_out: "q \<noteq> p \<Longrightarrow> lookup (delete_key p st) q = lookup st q"
  by (simp add: lookup_delete_key)

lemma lookup_move_general:
  "\<not> is_prefix a q \<Longrightarrow> \<not> is_prefix b q \<Longrightarrow>
   map_of (map (\<lambda>(p, n). (rebase a b p, n)) st) q = map_of st q"
proof (induction st)
  case (Cons x st)
  obtain p n where x: "x = (p, n)" by (cases x)
  have "rebase a b p = q \<longleftrightarrow> p = q"
    using Cons.prems by (auto simp: rebase_def is_prefix_iff)
  with Cons x show ?case by (cases "p = q") auto
qed simp

lemma mv_touches:
  assumes "mv dev a b st = Inr ((), st')" "\<not> is_prefix a q" "\<not> is_prefix b q"
  shows "lookup st' q = lookup st q"
proof -
  have "st' = st \<or> st' = move a b st"
    using assms(1) by (auto simp: mv_def split: sum.splits if_splits option.splits node.splits)
  moreover have "q \<noteq> b" using assms(3) by auto
  ultimately show ?thesis using lookup_move_general [OF assms(2,3), of "delete_key b st"]
    by (auto simp: move_def lookup_delete_out)
qed

lemma rename_touches: "rename a b s = (r, s') \<Longrightarrow> touches {a, b} s s'"
  using rename_state [of a b s r s'] mv_touches by (fastforce simp: touches_def)

lemma create_dir_touches: "create_dir p s = (r, s') \<Longrightarrow> touches {p} s s'"
proof -
  assume c: "create_dir p s = (r, s')"
  show ?thesis
  proof (cases r)
    case (Inr u)
    then obtain st where "mkdir p (store s) = Inr ((), st)" "store s' = st"
      using c unfolding create_dir_def by (auto dest!: syscall_InrD)
    then have "store s' = (p, Dir) # store s" by (auto simp: mkdir_def split: sum.splits if_splits)
    then show ?thesis by (auto simp: touches_def)
  qed (use c in \<open>auto simp: create_dir_def touches_store dest!: syscall_InlD\<close>)
qed

lemma queries_touch:
  "symlink_metadata p s = (r, s') \<Longrightarrow> touches T s s'" "read_dir p s = (r2, s') \<Longrightarrow> touches T s s'"
  using symlink_metadata_state [of p s r s'] read_dir_state [of p s r2 s'] by (auto simp: touches_store)

lemma tx_create_dir_touches: "tx_create_dir t name s = (r, s') \<Longrightarrow> touches {t} s s'"
  unfolding tx_create_dir_def
  by (auto split: prod.splits sum.splits node.splits if_splits
      dest!: create_dir_touches queries_touch [where T = "{t}"] intro: touches_trans)

lemma backup_touches:
  assumes "backup uuid t s = (r, s')" shows "touches {t, backup_root s} s s'"
proof -
  let ?s = "s\<lparr>issued := Suc (issued s)\<rparr>"
  obtain q s1 where q: "rename t (backup_root s @ [uuid (issued s)]) ?s = (q, s1)" by fastforce
  have "touches {t, backup_root s @ [uuid (issued s)]} s s1" using rename_touches [OF q] by simp
  moreover have "s' = s1" using assms q by (cases q) (auto simp: backup_def Let_def)
  ultimately show ?thesis by (auto simp: touches_def is_prefix_iff)
qed

lemma install_staged_touches: "install_staged what sg t bk s = (r, s') \<Longrightarrow> touches {sg, t} s s'"
  unfolding install_staged_def Let_def
  by (auto split: prod.splits sum.splits option.splits dest!: rename_touches)

lemma frame_root: "tx_frame s s' \<Longrightarrow> backup_root s' = backup_root s"
  by (simp add: tx_frame_def)

lemma backup_install_touches:
  assumes "backup uuid t s = (q, s1)" "install_staged what sg t bk s1 = (r, s')"
  shows "touches {sg, t, backup_root s} s s'"
  using touches_mono [OF backup_touches [OF assms(1)], of "{sg, t, backup_root s}"]
    touches_mono [OF install_staged_touches [OF assms(2)], of "{sg, t, backup_root s}"]
  by (auto intro: touches_trans)


lemma install_file_touches:
  assumes "install_file uuid sg t name s = (r, s')" shows "touches {sg, t, backup_root s} s s'"
proof -
  obtain q s1 where q: "symlink_metadata t s = (q, s1)" by fastforce
  have s1: "touches T s s1" "backup_root s1 = backup_root s" for T
    using queries_touch(1) [OF q] frame_root [OF frame_queries(1) [OF q]] by auto
  note B = backup_install_touches [of uuid t s1, unfolded s1(2)]
  have S: "touches {sg, t, backup_root s} s1 s2" if "install_staged w sg t b s1 = (r2, s2)" for w b r2 s2
    using touches_mono [OF install_staged_touches [OF that]] by blast
  have K: "touches {sg, t, backup_root s} s1 s2" if "backup uuid t s1 = (r2, s2)" for r2 s2
    using touches_mono [OF backup_touches [OF that]] s1(2) by auto
  have "touches {sg, t, backup_root s} s1 s'"
    using assms q by (auto simp: install_file_def split: prod.splits sum.splits node.splits if_splits
        dest: B S K)
  with s1(1) show ?thesis by (rule touches_trans)
qed

lemma delete_file_touches:
  assumes "delete_file uuid t name s = (r, s')" shows "touches {t, backup_root s} s s'"
proof -
  obtain q s1 where q: "symlink_metadata t s = (q, s1)" by fastforce
  have s1: "touches T s s1" "backup_root s1 = backup_root s" for T
    using queries_touch(1) [OF q] frame_root [OF frame_queries(1) [OF q]] by auto
  have "touches {t, backup_root s} s1 s'"
    using assms q backup_touches [of uuid t s1] s1(2)
    by (auto simp: delete_file_def split: prod.splits sum.splits node.splits if_splits)
  with s1(1) show ?thesis by (rule touches_trans)
qed

lemma delete_empty_dir_touches:
  assumes "delete_empty_dir uuid t name s = (r, s')" shows "touches {t, backup_root s} s s'"
proof -
  obtain q s1 where q: "symlink_metadata t s = (q, s1)" by fastforce
  obtain ns s2 where ns: "read_dir t s1 = (ns, s2)" by fastforce
  have s1: "touches T s s1" "touches T s s2" "backup_root s2 = backup_root s" for T
    using queries_touch(1) [OF q] queries_touch(2) [OF ns] touches_trans
      frame_root [OF frame_queries(1) [OF q]] frame_root [OF frame_queries(2) [OF ns]] by (blast, blast, auto)
  have b: "touches {t, backup_root s} s s3" if "backup uuid t s2 = (r3, s3)" for r3 s3
    using backup_touches [OF that] s1(2,3) touches_trans by fastforce
  show ?thesis
    using assms q ns s1(1,2)
    by (auto simp: delete_empty_dir_def split: prod.splits sum.splits node.splits if_splits dest: b)
qed

section \<open>What an operation records\<close>

definition log_kept :: "path \<Rightarrow> 'z txn_scheme \<Rightarrow> 'z txn_scheme \<Rightarrow> bool" where
  "log_kept files s s' \<longleftrightarrow> backup_root s' = backup_root s \<and>
     (log_ok (backup_root s) files s \<longrightarrow> log_ok (backup_root s) files s')"

lemma log_kept_refl [simp]: "log_kept files s s"
  by (simp add: log_kept_def)

lemma log_kept_trans: "log_kept files s s' \<Longrightarrow> log_kept files s' s'' \<Longrightarrow> log_kept files s s''"
  by (auto simp: log_kept_def)

lemma log_kept_same: "same_log s s' \<Longrightarrow> log_kept files s s'"
  by (auto simp: log_kept_def same_log_def log_ok_def)

lemma log_kept_push:
  "log_kept files s s' \<Longrightarrow> log_entry_ok (backup_root s) files c \<Longrightarrow> log_kept files s (push_change c s')"
  by (auto simp: log_kept_def log_ok_def push_change_def)

lemma same_log_read_dir: "read_dir p s = (r, s') \<Longrightarrow> same_log s s'"
  unfolding read_dir_def query_def by (erule same_log_syscall)

lemmas log_kept_calls = same_log_calls [THEN log_kept_same] same_log_read_dir [THEN log_kept_same]

lemma tx_create_dir_kept: "tx_create_dir t name s = (r, s') \<Longrightarrow> log_kept files s s'"
proof -
  assume t: "tx_create_dir t name s = (r, s')"
  obtain q s1 where q: "symlink_metadata t s = (q, s1)" by fastforce
  obtain q2 s2 where q2: "create_dir t s1 = (q2, s2)" by fastforce
  have k: "log_kept files s s1" "log_kept files s s2"
    using log_kept_calls(5) [OF q] log_kept_calls(1) [OF q2] log_kept_trans by blast+
  show ?thesis using t q q2 k
    by (auto simp: tx_create_dir_def split: sum.splits node.splits if_splits intro: log_kept_push)
qed

lemma backup_kept:
  assumes "backup uuid t s = (r, s')"
  shows "log_kept files s s'" "r = Inr b \<Longrightarrow> is_prefix (backup_root s) b"
proof -
  let ?s = "s\<lparr>issued := Suc (issued s)\<rparr>"
  obtain q s1 where q: "rename t (backup_root s @ [uuid (issued s)]) ?s = (q, s1)" by fastforce
  have "same_log ?s s1" using q by (rule same_log_calls(2))
  then have "log_kept files s s1" by (auto simp: same_log_def log_kept_def log_ok_def)
  moreover have "s' = s1" using assms q by (cases q) (auto simp: backup_def Let_def)
  ultimately show "log_kept files s s'" by simp
  show "r = Inr b \<Longrightarrow> is_prefix (backup_root s) b" using assms q by (cases q) (auto simp: backup_def Let_def)
qed

lemma install_staged_kept:
  assumes "install_staged what sg t bk s = (r, s')" "apart t files"
    "\<And>b. bk = Some b \<Longrightarrow> is_prefix (backup_root s) b"
  shows "log_kept files s s'" "r = Inr u \<Longrightarrow> \<exists>cs. changes s' = Installed t sg bk # cs"
proof -
  let ?s = "case bk of Some b \<Rightarrow> push_change (Replaced t b) s | None \<Rightarrow> s"
  obtain q s1 where q: "rename sg t ?s = (q, s1)" by fastforce
  have k: "log_kept files s ?s" using assms(3) by (cases bk) (auto intro!: log_kept_push)
  have same: "same_log ?s s1" using q by (rule same_log_calls(2))
  have "log_kept files s s1" using k log_kept_same [OF same] log_kept_trans by blast
  moreover have "log_kept files s (push_change (Installed t sg bk) (case bk of Some _ \<Rightarrow> pop_change s1 | None \<Rightarrow> s1))"
  proof (rule log_kept_push)
    show "log_kept files s (case bk of Some _ \<Rightarrow> pop_change s1 | None \<Rightarrow> s1)"
      using \<open>log_kept files s s1\<close> same
      by (cases bk) (auto simp: log_kept_def log_ok_def pop_change_def push_change_def same_log_def)
    show "log_entry_ok (backup_root s) files (Installed t sg bk)" using assms(2,3) by (cases bk) auto
  qed
  ultimately show "log_kept files s s'"
    using assms(1) q by (cases q) (auto simp: install_staged_def Let_def split: option.splits)
  show "r = Inr u \<Longrightarrow> \<exists>cs. changes s' = Installed t sg bk # cs"
    using assms(1) q by (cases q) (auto simp: install_staged_def Let_def push_change_def split: option.splits)
qed


lemma delete_file_kept:
  assumes "delete_file uuid t name s = (r, s')" shows "log_kept files s s'"
proof -
  obtain q s1 where q: "symlink_metadata t s = (q, s1)" by fastforce
  have k: "log_kept files s s1" using log_kept_calls(5) [OF q] .
  obtain r2 s2 where b: "backup uuid t s1 = (r2, s2)" by fastforce
  have k2: "log_kept files s s2" using k backup_kept(1) [OF b] log_kept_trans by blast
  have "log_kept files s (push_change (Replaced t x) s2)" if "r2 = Inr x" for x
    using k2 backup_kept(2) [OF b that] k by (intro log_kept_push) (simp_all add: log_kept_def)
  then show ?thesis using assms q b k k2
    by (cases r2) (auto simp: delete_file_def split: sum.splits node.splits if_splits)
qed

lemma delete_empty_dir_kept:
  assumes "delete_empty_dir uuid t name s = (r, s')" shows "log_kept files s s'"
proof -
  obtain q s0 where q: "symlink_metadata t s = (q, s0)" by fastforce
  obtain ns s1 where ns: "read_dir t s0 = (ns, s1)" by fastforce
  have k0: "log_kept files s s0" using log_kept_calls(5) [OF q] .
  have k: "log_kept files s s1" using k0 log_kept_calls(6) [OF ns] log_kept_trans by blast
  obtain r2 s2 where b: "backup uuid t s1 = (r2, s2)" by fastforce
  have k2: "log_kept files s s2" using k backup_kept(1) [OF b] log_kept_trans by blast
  have "log_kept files s (push_change (Replaced t x) s2)" if "r2 = Inr x" for x
    using k2 backup_kept(2) [OF b that] k by (intro log_kept_push) (simp_all add: log_kept_def)
  then show ?thesis using assms q ns b k0 k k2
    by (cases r2) (auto simp: delete_empty_dir_def split: sum.splits node.splits if_splits)
qed

lemma install_file_kept:
  assumes "install_file uuid sg t name s = (r, s')" "apart t files"
  shows "log_kept files s s'" "r = Inr u \<Longrightarrow> \<exists>bk cs. changes s' = Installed t sg bk # cs"
proof -
  obtain q s1 where q: "symlink_metadata t s = (q, s1)" by fastforce
  have k: "log_kept files s s1" using log_kept_calls(5) [OF q] .
  obtain r2 s2 where b: "backup uuid t s1 = (r2, s2)" by fastforce
  have k2: "log_kept files s s2" "backup_root s2 = backup_root s1"
    using k backup_kept(1) [OF b, of files] log_kept_trans by (blast, simp add: log_kept_def)
  have N: "log_kept files s s4 \<and> (r4 = Inr u \<longrightarrow> (\<exists>bk cs. changes s4 = Installed t sg bk # cs))"
    if i: "install_staged w sg t None s1 = (r4, s4)" for w r4 s4
  proof -
    have "log_kept files s1 s4" "r4 = Inr u \<Longrightarrow> \<exists>cs. changes s4 = Installed t sg None # cs"
      using install_staged_kept [OF i assms(2)] by auto
    with k show ?thesis by (blast intro: log_kept_trans)
  qed
  have S: "log_kept files s s4 \<and> (r4 = Inr u \<longrightarrow> (\<exists>bk cs. changes s4 = Installed t sg bk # cs))"
    if x: "r2 = Inr x" and i: "install_staged w sg t (Some x) s2 = (r4, s4)" for w x r4 s4
  proof -
    have "is_prefix (backup_root s2) x" using backup_kept(2) [OF b x] k2(2) by simp
    then have "log_kept files s2 s4" "r4 = Inr u \<Longrightarrow> \<exists>cs. changes s4 = Installed t sg (Some x) # cs"
      using install_staged_kept [OF i assms(2)] by auto
    with k2(1) show ?thesis by (blast intro: log_kept_trans)
  qed
  have "log_kept files s s' \<and> (r = Inr u \<longrightarrow> (\<exists>bk cs. changes s' = Installed t sg bk # cs))"
  proof (cases q)
    case (Inl e)
    show ?thesis
    proof (cases "io_kind e = NotFoundK")
      case True
      then have "install_staged (''failed to commit staged file '' @ name) sg t None s1 = (r, s')"
        using assms(1) q Inl by (simp add: install_file_def)
      then show ?thesis by (rule N)
    qed (use assms(1) q k Inl in \<open>auto simp: install_file_def\<close>)
  next
    case (Inr nd)
    show ?thesis
    proof (cases nd)
      case (File d)
      show ?thesis
      proof (cases r2)
        case (Inr x)
        then have "install_staged (''failed to commit staged file '' @ name) sg t (Some x) s2 = (r, s')"
          using assms(1) q \<open>q = Inr nd\<close> File b by (simp add: install_file_def)
        then show ?thesis by (rule S [OF Inr])
      qed (use assms(1) q \<open>q = Inr nd\<close> File b k2 in \<open>auto simp: install_file_def\<close>)
    qed (use assms(1) q k Inr in \<open>auto simp: install_file_def\<close>)
  qed
  then show "log_kept files s s'" "r = Inr u \<Longrightarrow> \<exists>bk cs. changes s' = Installed t sg bk # cs" by blast+
qed

section \<open>An installed file\<close>

lemma lookup_move_dst:
  "a \<noteq> b \<Longrightarrow> lookup (move a b st) b = lookup st a"
proof -
  assume ab: "a \<noteq> b"
  have "map_of (map (\<lambda>(p, n). (rebase a b p, n)) st) b = map_of st a" if "b \<notin> fst ` set st" for st :: store
    using that
  proof (induction st)
    case (Cons x st)
    obtain p n where x: "x = (p, n)" by (cases x)
    have "rebase a b p = b \<longleftrightarrow> p = a"
      using Cons.prems by (auto simp: x rebase_def is_prefix_iff)
    with Cons x show ?case by (cases "p = a") auto
  qed simp
  moreover have "b \<notin> fst ` set (delete_key b st)" by (auto simp: delete_key_def)
  ultimately show ?thesis using ab by (simp add: move_def lookup_delete_out)
qed

lemma rename_moves:
  assumes "rename a b s = (Inr u, s')" "lookup (store s) a = Some n"
  shows "lookup (store s') b = Some n"
proof -
  obtain st where m: "mv (device s) a b (store s) = Inr ((), st)" "store s' = st"
    using rename_InrD [OF assms(1)] by auto
  then have "a = b \<and> st = store s \<or> a \<noteq> b \<and> st = move a b (store s)"
    by (auto simp: mv_def split: sum.splits if_splits option.splits node.splits)
  then show ?thesis using m(2) assms(2) lookup_move_dst by auto
qed

lemma install_staged_node:
  assumes "install_staged what sg t bk s = (Inr u, s')" "lookup (store s) sg = Some n"
  shows "lookup (store s') t = Some n"
proof -
  let ?s = "case bk of Some b \<Rightarrow> push_change (Replaced t b) s | None \<Rightarrow> s"
  obtain q s1 where q: "rename sg t ?s = (q, s1)" by fastforce
  then have i: "q = Inr ()" "store s' = store s1"
    using assms(1) by (cases q; auto simp: install_staged_def Let_def push_change_def pop_change_def split: option.splits)+
  have "lookup (store ?s) sg = Some n" using assms(2) by (simp add: push_change_def split: option.split)
  from rename_moves [OF _ this] q i show ?thesis by simp
qed

lemma install_file_node:
  assumes "install_file uuid sg t name s = (Inr u, s')" "lookup (store s) sg = Some n"
    "apart t sg" "apart (backup_root s) sg"
  shows "lookup (store s') t = Some n"
proof -
  obtain q s1 where q: "symlink_metadata t s = (q, s1)" by fastforce
  have s1: "store s1 = store s" "backup_root s1 = backup_root s"
    using symlink_metadata_state [OF q] by simp_all
  have B: "lookup (store s2) sg = Some n" if "backup uuid t s1 = (r2, s2)" for r2 s2
    using backup_touches [OF that] assms(2-4) s1 by (simp add: touches_def apart_def)
  show ?thesis using assms(1,2) q s1
    by (auto simp: install_file_def split: prod.splits sum.splits node.splits if_splits
        dest!: B install_staged_node)
qed


section \<open>The invariant of a commit\<close>

definition same_outside :: "path \<Rightarrow> store \<Rightarrow> store \<Rightarrow> bool" where
  "same_outside files st st' \<longleftrightarrow>
     map fst st' = map fst st \<and> (\<forall>q. \<not> is_prefix files q \<longrightarrow> lookup st' q = lookup st q)"

lemma same_outside_refl [simp]: "same_outside files st st"
  by (simp add: same_outside_def)

definition commit_inv :: "(nat \<Rightarrow> string) \<Rightarrow> path \<Rightarrow> path \<Rightarrow> vol \<Rightarrow> 'z txn_scheme \<Rightarrow> bool" where
  "commit_inv uuid root files v s \<longleftrightarrow>
     (\<exists>w. tx_inv uuid root (fst v, w) s \<and> same_outside files (snd v) w) \<and> log_ok root files s"

lemma commit_inv_step:
  assumes "commit_inv uuid root files v s" "log_kept files s s'"
    and "\<And>w. tx_inv uuid root w s \<Longrightarrow> tx_inv uuid root w s'"
  shows "commit_inv uuid root files v s'"
proof -
  have "backup_root s = root" using assms(1) by (auto simp: commit_inv_def tx_inv_def)
  then show ?thesis using assms by (auto simp: commit_inv_def log_kept_def)
qed

text \<open>Setting attributes on the file just installed.\<close>

definition installed_at :: "path \<Rightarrow> path \<Rightarrow> 'z txn_scheme \<Rightarrow> bool" where
  "installed_at t sg s \<longleftrightarrow>
     (\<exists>bk cs. changes s = Installed t sg bk # cs) \<and> (\<exists>d. lookup (store s) t = Some (File d))"

lemma commit_inv_set_file:
  assumes I: "commit_inv uuid root files v s" and a: "apart root files" and sg: "is_prefix files sg"
    and at: "installed_at t sg s" "lookup (store s) t = Some (File d)"
  shows "commit_inv uuid root files v (s\<lparr>store := set_node t (File e) (store s)\<rparr>)"
proof -
  obtain w where T: "tx_inv uuid root (fst v, w) s" and o: "same_outside files (snd v) w"
    and L: "log_ok root files s" using I by (auto simp: commit_inv_def)
  note D = tx_invD [OF T]
  obtain bk cs where cs: "changes s = Installed t sg bk # cs" using at by (auto simp: installed_at_def)
  have entries: "\<forall>c\<in>set (changes s). log_entry_ok root files c" using L by (simp add: log_ok_def)
  have "track (Installed t sg bk) t = sg"
  proof -
    have "rebase t sg t = sg" by (metis append_Nil2 is_prefix_simps(2) rebase_simps(1))
    moreover have "rebase b t sg = sg" if "bk = Some b" for b
    proof -
      have "is_prefix root b" using entries that by (auto simp: cs)
      from rebase_apart [OF apart_prefix [OF a this] sg] show ?thesis .
    qed
    ultimately show ?thesis by (cases bk) simp_all
  qed
  then have tr: "fold track (changes s) t = sg"
    using fold_track_staged [OF a sg, of cs] entries by (simp add: cs)
  have dv: "device s = fst v" and u: "undo_all undo_vol (changes s) (device s, store s) = Some (device s, w)"
  proof -
    have 1: "undo_all undo_vol (changes s) (device s, store s) = Some (fst v, w)"
      using D(6) by (simp add: undoable_def vol_def)
    have "fst v' = fst x" if "undo_all undo_vol ch x = Some v'" for ch x v'
      using that
    proof (induction ch arbitrary: x)
      case (Cons c ch)
      then obtain y where y: "undo_vol c x = Some y" "undo_all undo_vol ch y = Some v'"
        by (auto split: option.splits)
      have "fst y = fst x" using y(1)
        by (cases c) (auto simp: mv_free_def split: sum.splits if_splits option.splits)
      with Cons.IH [OF y(2)] show ?case by simp
    qed simp
    from this [OF 1] show "device s = fst v" by simp
    with 1 show "undo_all undo_vol (changes s) (device s, store s) = Some (device s, w)" by simp
  qed
  let ?s = "s\<lparr>store := set_node t (File e) (store s)\<rparr>"
  have U: "lookup w sg = Some (File d)"
    "undo_all undo_vol (changes s) (device s, set_node t (File e) (store s)) = Some (device s, set_node sg (File e) w)"
    using undo_all_set_file [OF u D(3) at(2), of e] by (simp_all add: tr)
  have "undoable (fst v, set_node sg (File e) w) ?s"
    using U(2) dv by (simp add: undoable_def vol_def)
  moreover have "fresh_backups uuid ?s"
    using D(5) at(2) by (auto simp: fresh_backups_def lookup_set_file)
  moreover have "honest ?s" using D(4) by (simp add: honest_def)
  ultimately have "tx_inv uuid root (fst v, set_node sg (File e) w) ?s"
    using D(1-3) set_file_ok [OF D(3) at(2)] by (simp add: tx_inv_def)
  moreover have "same_outside files (snd v) (set_node sg (File e) w)"
    using o sg U(1) by (auto simp: same_outside_def lookup_set_file)
  moreover have "log_ok root files ?s" using L by (simp add: log_ok_def)
  ultimately show ?thesis by (auto simp: commit_inv_def)
qed

lemma commit_inv_faults:
  "commit_inv uuid root files v s \<Longrightarrow> commit_inv uuid root files v (s\<lparr>faults := tl (faults s)\<rparr>)"
  using tx_inv_faults [of uuid root _ s] by (auto simp: commit_inv_def log_ok_def)

lemma installed_at_faults: "installed_at t sg s \<Longrightarrow> installed_at t sg (s\<lparr>faults := fl\<rparr>)"
  by (simp add: installed_at_def)

definition attr_inv :: "(nat \<Rightarrow> string) \<Rightarrow> path \<Rightarrow> path \<Rightarrow> vol \<Rightarrow> path \<Rightarrow> path \<Rightarrow> 'z txn_scheme \<Rightarrow> bool" where
  "attr_inv uuid root files v t sg s \<longleftrightarrow> commit_inv uuid root files v s \<and> installed_at t sg s"

lemma attr_inv_faults:
  "attr_inv uuid root files v t sg s \<Longrightarrow> attr_inv uuid root files v t sg (s\<lparr>faults := tl (faults s)\<rparr>)"
  unfolding attr_inv_def by (blast intro: commit_inv_faults installed_at_faults)

lemma stable_modify_file:
  assumes "apart root files" "is_prefix files sg"
  shows "stable (attr_inv uuid root files v t sg) (modify_file f t)"
  unfolding stable_def
proof (intro allI impI)
  fix s assume I: "attr_inv uuid root files v t sg s"
  then obtain d w where d: "lookup (store s) t = Some (File d)" and ok: "store_ok (store s)"
    by (auto simp: attr_inv_def installed_at_def commit_inv_def tx_inv_def)
  obtain r s' where m: "modify_file f t s = (r, s')" by fastforce
  let ?f = "s\<lparr>faults := tl (faults s)\<rparr>"
  have F: "attr_inv uuid root files v t sg ?f"
    using I by (rule attr_inv_faults)
  show "attr_inv uuid root files v t sg (snd (modify_file f t s))"
  proof (cases r)
    case (Inl e)
    then have "s' = ?f" using m unfolding modify_file_def by (auto dest!: syscall_InlD)
    then show ?thesis using F m by simp
  next
    case (Inr u)
    then obtain st where st: "modify_node f t (store s) = Inr ((), st)" "s' = s\<lparr>store := st, faults := tl (faults s)\<rparr>"
      using m unfolding modify_file_def by (auto dest!: syscall_InrD)
    then have "s' = ?f\<lparr>store := set_node t (File (f d)) (store ?f)\<rparr>"
      using d ok by (simp add: modify_node_def)
    moreover have "commit_inv uuid root files v (?f\<lparr>store := set_node t (File (f d)) (store ?f)\<rparr>)"
      by (rule commit_inv_set_file [OF _ assms, of uuid v _ t d]) (use F d in \<open>auto simp: attr_inv_def\<close>)
    moreover have "installed_at t sg (?f\<lparr>store := set_node t (File (f d)) (store ?f)\<rparr>)"
      using I d by (auto simp: attr_inv_def installed_at_def lookup_set_file)
    ultimately show ?thesis using m by (simp add: attr_inv_def)
  qed
qed

lemma stable_mapErr: "stable I m \<Longrightarrow> stable I (mapErr g m)"
  unfolding stable_def mapErr_def by (auto split: prod.splits sum.splits dest: arg_cong [of _ _ snd])

lemma query_state: "snd (query f s) = s\<lparr>faults := tl (faults s)\<rparr>"
  by (cases "query f s"; cases "fst (query f s)") (auto dest: query_InrD query_InlD)

lemma stable_query_attr: "stable (attr_inv uuid root files v t sg) (query f)"
  unfolding stable_def query_state by (blast intro: attr_inv_faults)

lemma stable_set_attributes:
  assumes "apart root files" "is_prefix files sg"
  shows "stable (attr_inv uuid root files v t sg) (set_file_attributes t ms ex)"
  unfolding set_file_attributes_def
  by (intro stable_bindS)
    (auto simp: set_file_mtime_def metadata_def split: option.split
      intro!: stable_mapErr stable_modify_file [OF assms] stable_query_attr)


section \<open>All operations of a commit\<close>

lemma apart_extend: "apart p q \<Longrightarrow> apart (p @ x) (q @ y)"
  by (auto simp: apart_def is_prefix_iff append_eq_append_conv2)

definition staged_file :: "path \<Rightarrow> planned_upload \<Rightarrow> path" where
  "staged_file files u = files @ parts (path (up_entry u))"

definition staged_all :: "path \<Rightarrow> planned_upload list \<Rightarrow> 'z txn_scheme \<Rightarrow> bool" where
  "staged_all files us s \<longleftrightarrow> (\<forall>u\<in>set us. \<exists>d. lookup (store s) (staged_file files u) = Some (File d))"

definition ops_inv ::
  "(nat \<Rightarrow> string) \<Rightarrow> path \<Rightarrow> path \<Rightarrow> vol \<Rightarrow> planned_upload list \<Rightarrow> 'z txn_scheme \<Rightarrow> bool" where
  "ops_inv uuid root files v us s \<longleftrightarrow> commit_inv uuid root files v s \<and> staged_all files us s"

lemma staged_touch:
  assumes "touches T s s'" "staged_all files us s" "\<forall>t\<in>T. apart t files"
  shows "staged_all files us s'"
proof -
  have "lookup (store s') (staged_file files u) = lookup (store s) (staged_file files u)" for u
    using assms(1,3) unfolding touches_def staged_file_def
    by (metis apart_def apart_extend append_Nil2)
  then show ?thesis using assms(2) by (simp add: staged_all_def)
qed

lemma commit_root: "commit_inv uuid root files v s \<Longrightarrow> backup_root s = root"
  by (auto simp: commit_inv_def tx_inv_def)

lemma ops_root: "ops_inv uuid root files v us s \<Longrightarrow> backup_root s = root"
  unfolding ops_inv_def by (blast intro: commit_root)

lemma ops_inv_step:
  assumes I: "ops_inv uuid root files v us s" and k: "log_kept files s s'"
    and "\<And>w. tx_inv uuid root w s \<Longrightarrow> tx_inv uuid root w s'"
    and t: "touches {t, root} s s'" and a: "apart t files" "apart root files"
  shows "ops_inv uuid root files v us s'"
  using commit_inv_step [OF _ k assms(3)] staged_touch [OF t] I a by (auto simp: ops_inv_def)

lemma stable_create_dir:
  assumes "apart t root" "apart t files" "apart root files"
  shows "stable (ops_inv uuid root files v us) (tx_create_dir t name)"
  unfolding stable_def
proof (intro allI impI)
  fix s assume I: "ops_inv uuid root files v us s"
  obtain r s' where o: "tx_create_dir t name s = (r, s')" by fastforce
  have "touches {t, root} s s'" using tx_create_dir_touches [OF o] by (rule touches_mono) simp
  then have "ops_inv uuid root files v us s'"
    using ops_inv_step [OF I tx_create_dir_kept [OF o] _ _ assms(2,3)] tx_create_dir_inv [OF _ assms(1) o] by blast
  then show "ops_inv uuid root files v us (snd (tx_create_dir t name s))" by (simp add: o)
qed

lemma stable_delete_file:
  assumes "apart t root" "apart t files" "apart root files"
  shows "stable (ops_inv uuid root files v us) (delete_file uuid t name)"
  unfolding stable_def
proof (intro allI impI)
  fix s assume I: "ops_inv uuid root files v us s"
  obtain r s' where o: "delete_file uuid t name s = (r, s')" by fastforce
  have "backup_root s = root" using I by (rule ops_root)
  then have "touches {t, root} s s'" using delete_file_touches [OF o] by simp
  then have "ops_inv uuid root files v us s'"
    using ops_inv_step [OF I delete_file_kept [OF o] _ _ assms(2,3)] delete_file_inv [OF _ assms(1) o] by blast
  then show "ops_inv uuid root files v us (snd (delete_file uuid t name s))" by (simp add: o)
qed

lemma stable_delete_empty_dir:
  assumes "apart t root" "apart t files" "apart root files"
  shows "stable (ops_inv uuid root files v us) (delete_empty_dir uuid t name)"
  unfolding stable_def
proof (intro allI impI)
  fix s assume I: "ops_inv uuid root files v us s"
  obtain r s' where o: "delete_empty_dir uuid t name s = (r, s')" by fastforce
  have "backup_root s = root" using I by (rule ops_root)
  then have "touches {t, root} s s'" using delete_empty_dir_touches [OF o] by simp
  then have "ops_inv uuid root files v us s'"
    using ops_inv_step [OF I delete_empty_dir_kept [OF o] _ _ assms(2,3)] delete_empty_dir_inv [OF _ assms(1) o]
    by blast
  then show "ops_inv uuid root files v us (snd (delete_empty_dir uuid t name s))" by (simp add: o)
qed

text \<open>Installing one upload needs its staged file and leaves the staged files of the others.\<close>

lemma staged_other:
  assumes "touches {sg, t, root} s s'" "staged_all files (u # us) s" "sg = staged_file files u"
    "apart t files" "apart root files" "store_ok (store s)"
    "path (up_entry x) \<noteq> path (up_entry u)" "x \<in> set us"
  shows "lookup (store s') (staged_file files x) = lookup (store s) (staged_file files x)"
proof -
  let ?q = "staged_file files x"
  obtain d where d: "lookup (store s) ?q = Some (File d)" using assms(2,8) by (auto simp: staged_all_def)
  obtain d0 where d0: "lookup (store s) sg = Some (File d0)" using assms(2,3) by (auto simp: staged_all_def)
  have "?q \<noteq> sg"
  proof
    assume "?q = sg"
    then have "parts (path (up_entry x)) = parts (path (up_entry u))"
      using assms(3) by (simp add: staged_file_def)
    then have "path (up_entry x) = path (up_entry u)" by (metis join_split)
    with assms(7) show False by blast
  qed
  moreover have "\<not> below sg ?q" using lookup_below_Dir [OF assms(6) d, of sg] d0 by auto
  ultimately have "\<not> is_prefix sg ?q" by (auto simp: below_def)
  moreover have "\<not> is_prefix t ?q" "\<not> is_prefix root ?q"
    using assms(4,5) unfolding staged_file_def by (metis apart_def apart_extend append_Nil2)+
  ultimately show ?thesis using assms(1) by (simp add: touches_def)
qed

lemma staged_rest:
  assumes "touches {sg, t, root} s s'" "staged_all files (u # us) s" "sg = staged_file files u"
    "apart t files" "apart root files" "store_ok (store s)"
    "\<forall>x\<in>set us. path (up_entry x) \<noteq> path (up_entry u)"
  shows "staged_all files us s'"
  using staged_other [OF assms(1-6)] assms(2,7) by (simp add: staged_all_def)


definition file_touched :: "path \<Rightarrow> 'z fs_scheme \<Rightarrow> 'z fs_scheme \<Rightarrow> bool" where
  "file_touched t s0 s \<longleftrightarrow>
     store_ok (store s) \<and> (\<exists>d. lookup (store s) t = Some (File d)) \<and> touches {t} s0 s"

lemma stable_touch_modify: "stable (file_touched t s0) (modify_file f t)"
  unfolding stable_def
proof (intro allI impI)
  fix s assume I: "file_touched t s0 s"
  then obtain d where d: "lookup (store s) t = Some (File d)" "store_ok (store s)"
    by (auto simp: file_touched_def)
  obtain r s' where m: "modify_file f t s = (r, s')" by fastforce
  have "store s' = store s \<or> store s' = set_node t (File (f d)) (store s)"
    using m d unfolding modify_file_def
    by (cases r) (auto dest!: syscall_InlD syscall_InrD simp: modify_node_def)
  then show "file_touched t s0 (snd (modify_file f t s))"
    using I d set_file_ok [OF d(2,1)] m
    by (auto simp: file_touched_def touches_def lookup_set_file)
qed

lemma set_attributes_touch:
  assumes "set_file_attributes t ms ex s = (r, s')" "store_ok (store s)" "lookup (store s) t = Some (File d)"
  shows "touches {t} s s'"
proof -
  have q: "stable (file_touched t s) (query f)" for f :: "store \<Rightarrow> io_error + node"
    unfolding stable_def query_state by (simp add: file_touched_def touches_def)
  have "stable (file_touched t s) (set_file_attributes t ms ex)"
    unfolding set_file_attributes_def
    by (intro stable_bindS)
      (auto simp: set_file_mtime_def metadata_def split: option.split
        intro!: stable_mapErr stable_touch_modify q)
  moreover have "file_touched t s s" using assms(2,3) by (simp add: file_touched_def)
  ultimately have "file_touched t s s'" using assms(1) by (rule stableD)
  then show ?thesis by (simp add: file_touched_def)
qed

lemma install_upload_inv:
  assumes I: "ops_inv uuid root files v (u # us) s" and o: "install_upload uuid project staging u s = (r, s')"
    and a: "apart project root" "apart project files" "apart root files" and f: "files = staging @ [''files'']"
    and d: "\<forall>x\<in>set us. path (up_entry x) \<noteq> path (up_entry u)"
  shows "ops_inv uuid root files v us s'"
proof -
  let ?p = "path (up_entry u)" and ?t = "project @ parts (path (up_entry u))" and ?sg = "staged_file files u"
  have weak: "ops_inv uuid root files v us s" using I by (simp add: ops_inv_def staged_all_def)
  show ?thesis
  proof (cases "resolve_relative_path project ?p")
    case (Inl e)
    then show ?thesis using o weak by (simp add: install_upload_def Let_def bindS_def liftR_def)
  next
    case (Inr t)
    then have t: "t = ?t" by (rule resolve_InrD)
    have sg: "resolve_relative_path (staging @ [''files'']) ?p = Inr ?sg"
      using resolve_any [OF Inr, of "staging @ [''files'']"] by (simp add: staged_file_def f)
    obtain q s1 where q: "install_file uuid ?sg ?t ?p s = (q, s1)" by fastforce
    have at: "apart ?t root" "apart ?t files"
      using apart_extend [OF a(1), of "parts ?p" "[]"] apart_extend [OF a(2), of "parts ?p" "[]"] by simp_all
    have C: "commit_inv uuid root files v s" using I by (simp add: ops_inv_def)
    have ok: "store_ok (store s)" using C by (auto simp: commit_inv_def tx_inv_def)
    have tc: "touches {?sg, ?t, root} s s1" using install_file_touches [OF q] ops_root [OF I] by simp
    have st: "staged_all files us s1"
      using staged_rest [OF tc _ refl at(2) a(3) ok d] I by (simp add: ops_inv_def)
    have C1: "commit_inv uuid root files v s1"
      by (rule commit_inv_step [OF C install_file_kept(1) [OF q at(2)]]) (rule install_file_inv [OF _ at(1) q])
    show ?thesis
    proof (cases q)
      case (Inl e)
      then have "s' = s1" using o Inr sg q t by (simp add: install_upload_def Let_def bindS_def liftR_def)
      then show ?thesis using C1 st by (simp add: ops_inv_def)
    next
      case (Inr x)
      obtain d0 where d0: "lookup (store s) ?sg = Some (File d0)"
        using I by (auto simp: ops_inv_def staged_all_def)
      have pf: "is_prefix files ?sg" by (simp add: staged_file_def)
      have asg: "apart ?t ?sg" "apart (backup_root s) ?sg"
        using apart_extend [OF a(2), of "parts ?p" "parts ?p"] apart_extend [OF a(3), of "[]" "parts ?p"]
          ops_root [OF I] by (simp_all add: staged_file_def)
      have q': "install_file uuid ?sg ?t ?p s = (Inr (), s1)" using q Inr by simp
      have "installed_at ?t ?sg s1"
        using install_file_node [OF q' d0 asg] install_file_kept(2) [OF q' at(2)]
        by (auto simp: installed_at_def)
      then have A: "attr_inv uuid root files v ?t ?sg s1" using C1 by (simp add: attr_inv_def)
      have o2: "set_file_attributes ?t (mtime_unix_ms (up_entry u)) (executable (up_entry u)) s1 = (r, s')"
        using o \<open>resolve_relative_path project ?p = Inr t\<close> sg q' t
        by (simp add: install_upload_def Let_def bindS_def liftR_def)
      have "attr_inv uuid root files v ?t ?sg s'"
        using stableD [OF stable_set_attributes [OF a(3) pf] A o2] .
      moreover have "staged_all files us s'"
      proof -
        obtain d1 where d1: "lookup (store s1) ?t = Some (File d1)" using A by (auto simp: attr_inv_def installed_at_def)
        have "store_ok (store s1)" using C1 by (auto simp: commit_inv_def tx_inv_def)
        from set_attributes_touch [OF o2 this d1] show ?thesis
          using staged_touch [OF _ st] at(2) by blast
      qed
      ultimately show ?thesis by (simp add: ops_inv_def attr_inv_def)
    qed
  qed
qed


lemma install_uploads_inv:
  assumes "ops_inv uuid root files v us s" "forS (install_upload uuid project staging) us s = (r, s')"
    and "apart project root" "apart project files" "apart root files" "files = staging @ [''files'']"
    and "distinct (map (path \<circ> up_entry) us)"
  shows "commit_inv uuid root files v s'"
  using assms(1,2,7)
proof (induction us arbitrary: s)
  case (Cons u us)
  obtain q s1 where q: "install_upload uuid project staging u s = (q, s1)" by fastforce
  have "ops_inv uuid root files v us s1"
    by (rule install_upload_inv [OF Cons.prems(1) q assms(3-6)]) (use Cons.prems(3) in \<open>fastforce simp: image_iff\<close>)
  then show ?case using Cons.IH [of s1] Cons.prems(2,3) q
    by (cases q) (auto simp: bindS_def ops_inv_def)
qed (simp add: okS_def ops_inv_def)

lemma commit_operations_inv:
  fixes plan :: "'y commit_plan_scheme"
  defines "files \<equiv> staging_dir plan @ [''files'']" and "root \<equiv> rollback_dir plan"
  assumes I: "ops_inv uuid root files v (bt_values (upload_files plan)) s"
    and o: "commit_operations uuid plan s = (r, s')"
    and a: "apart (project_dir plan) (staging_dir plan)"
    and d: "distinct (map (path \<circ> up_entry) (bt_values (upload_files plan)))"
  shows "commit_inv uuid root files v s'"
proof -
  let ?us = "bt_values (upload_files plan)"
  have ap: "apart (project_dir plan @ x) root" "apart (project_dir plan @ x) files" for x
    using apart_extend [OF a] by (simp_all add: root_def files_def rollback_dir_def)
  have rf: "apart root files" by (simp add: root_def files_def rollback_dir_def apart_def is_prefix_iff)
  note P = ap [of "[]", simplified]
  let ?I = "ops_inv uuid root files v ?us"
  have t: "apart t root \<and> apart t files" if "resolve_relative_path (project_dir plan) p = Inr t" for p t
    using resolve_InrD(1) [OF that] ap by simp
  obtain r1 s1 where 1: "tx_create_dir (project_dir plan) ''project root'' s = (r1, s1)" by fastforce
  have I1: "?I s1" by (rule stableD [OF stable_create_dir [OF P rf] I 1])
  obtain r2 s2 where 2: "delete_all (\<lambda>p. bindS (liftR (resolve_relative_path (project_dir plan) p))
              (\<lambda>t. delete_file uuid t p)) (delete_files plan) [] s1 = (r2, s2)" by fastforce
  have "stable ?I (delete_all (\<lambda>p. bindS (liftR (resolve_relative_path (project_dir plan) p))
              (\<lambda>t. delete_file uuid t p)) (delete_files plan) [])"
    by (intro stable_delete_all stable_liftR_bind stable_delete_file; use t rf in blast)
  then have I2: "?I s2" using I1 2 by (rule stableD)
  obtain r3 s3 where 3: "delete_all (\<lambda>p. bindS (liftR (resolve_relative_path (project_dir plan) p))
              (\<lambda>t. delete_empty_dir uuid t p)) (delete_dirs plan) [] s2 = (r3, s3)" by fastforce
  have "stable ?I (delete_all (\<lambda>p. bindS (liftR (resolve_relative_path (project_dir plan) p))
              (\<lambda>t. delete_empty_dir uuid t p)) (delete_dirs plan) [])"
    by (intro stable_delete_all stable_liftR_bind stable_delete_empty_dir; use t rf in blast)
  then have I3: "?I s3" using I2 3 by (rule stableD)
  obtain r4 s4 where 4: "forS (\<lambda>p. bindS (liftR (resolve_relative_path (project_dir plan) p))
              (\<lambda>t. tx_create_dir t p)) (create_dirs plan) s3 = (r4, s4)" by fastforce
  have "stable ?I (forS (\<lambda>p. bindS (liftR (resolve_relative_path (project_dir plan) p))
              (\<lambda>t. tx_create_dir t p)) (create_dirs plan))"
    by (intro stable_forS stable_liftR_bind stable_create_dir; use t rf in blast)
  then have I4: "?I s4" using I3 4 by (rule stableD)
  obtain r5 s5 where 5: "forS (install_upload uuid (project_dir plan) (staging_dir plan)) ?us s4 = (r5, s5)"
    by fastforce
  have C5: "commit_inv uuid root files v s5"
    by (rule install_uploads_inv [OF I4 5 P rf files_def [THEN meta_eq_to_obj_eq] d])
  show ?thesis
    using o I1 I2 I3 I4 C5
    by (cases r1; cases r2; cases r3; cases r4; cases r5)
      (auto simp: commit_operations_def bindS_def okS_def 1 2 3 4 5 ops_inv_def)
qed

text \<open>Settling a failed transaction: the store is restored outside the staged files.\<close>

lemma settle_failed:
  assumes "settle_transaction m s = (Inl e, s')" "\<nexists>msg. e = ProjectReuploadRequired msg"
    and "\<And>r s1. m s = (r, s1) \<Longrightarrow> \<exists>w. tx_inv uuid root (fst v, w) s1 \<and> same_outside files (snd v) w"
  shows "same_outside files (snd v) (store s')"
proof -
  obtain r s1 where m: "m s = (r, s1)" by fastforce
  then obtain e1 u where r: "r = Inl e1" and rb: "rollback s1 = (Inr u, s')"
    using assms(1,2) by (auto simp: settle_transaction_def split: sum.splits prod.splits)
  obtain w where w: "tx_inv uuid root (fst v, w) s1" "same_outside files (snd v) w"
    using assms(3) [OF m] by blast
  have "vol s' = (fst v, w)"
    using rollback_restores [OF _ _ rb] w(1) by (auto simp: tx_inv_def)
  then show ?thesis using w(2) by (simp add: vol_def)
qed

section \<open>Everything before the transaction\<close>

text \<open>\<open>create_dir_all\<close> only adds directories on the way to its argument.\<close>

lemma mkdirs_from_grows:
  "mkdirs_from cur cs st = Inr ((), st') \<Longrightarrow> store_ok st \<Longrightarrow>
   store_ok st' \<and> (\<forall>q n. lookup st q = Some n \<longrightarrow> lookup st' q = Some n) \<and>
   (\<forall>q. lookup st q = None \<longrightarrow> lookup st' q \<noteq> None \<longrightarrow> is_prefix q (cur @ cs))"
proof (induction cur cs st rule: mkdirs_from.induct)
  case (2 cur c cs st)
  show ?case
  proof (cases "lookup st (cur @ [c])")
    case None
    then obtain st1 where m: "mkdir (cur @ [c]) st = Inr ((), st1)" and r: "mkdirs_from (cur @ [c]) cs st1 = Inr ((), st')"
      using 2(3) by (auto split: sum.splits)
    note E = mkdir_InrE [OF m 2(4)] and ok1 = mkdir_ok [OF m 2(4)]
    have IH: "store_ok st' \<and> (\<forall>q n. lookup st1 q = Some n \<longrightarrow> lookup st' q = Some n) \<and>
      (\<forall>q. lookup st1 q = None \<longrightarrow> lookup st' q \<noteq> None \<longrightarrow> is_prefix q ((cur @ [c]) @ cs))"
      using 2(1) [OF None m _ r ok1] by simp
    have l: "lookup st1 q = (if q = cur @ [c] then Some Dir else lookup st q)" for q
      by (auto simp: E(4))
    show ?thesis
    proof (intro conjI allI impI)
      show "store_ok st'" using IH by blast
      show "lookup st' q = Some n" if "lookup st q = Some n" for q n
      proof -
        have "q \<noteq> cur @ [c]" using that None by auto
        then show ?thesis using IH that l [of q] by auto
      qed
      show "is_prefix q (cur @ c # cs)" if "lookup st q = None" "lookup st' q \<noteq> None" for q
      proof (cases "q = cur @ [c]")
        case True
        then show ?thesis by (simp add: is_prefix_iff)
      next
        case False
        then have "lookup st1 q = None" using that(1) by (simp only: l if_False)
        with IH that(2) have "is_prefix q ((cur @ [c]) @ cs)" by blast
        then show ?thesis by simp
      qed
    qed
  next
    case (Some n)
    with 2(2,3,4) show ?thesis by (cases n) (auto simp: Some)
  qed
qed simp

lemma create_dir_all_grows:
  assumes "create_dir_all p s = (r, s')" "store_ok (store s)"
  shows "store_ok (store s')" "lookup (store s) q = Some n \<Longrightarrow> lookup (store s') q = Some n"
    "lookup (store s) q = None \<Longrightarrow> lookup (store s') q \<noteq> None \<Longrightarrow> is_prefix q p"
    "device s' = device s" "honest s \<Longrightarrow> honest s'"
proof -
  have "store s' = store s \<or> (\<exists>st. mkdirs_from [] p (store s) = Inr ((), st) \<and> store s' = st)"
    using assms(1) unfolding create_dir_all_def
    by (cases r) (auto dest!: syscall_InlD syscall_InrD)
  then have G: "store_ok (store s') \<and> (\<forall>q n. lookup (store s) q = Some n \<longrightarrow> lookup (store s') q = Some n) \<and>
   (\<forall>q. lookup (store s) q = None \<longrightarrow> lookup (store s') q \<noteq> None \<longrightarrow> is_prefix q p)"
    using mkdirs_from_grows [of "[]" p "store s"] assms(2) by auto
  then show "store_ok (store s')" "lookup (store s) q = Some n \<Longrightarrow> lookup (store s') q = Some n"
    "lookup (store s) q = None \<Longrightarrow> lookup (store s') q \<noteq> None \<Longrightarrow> is_prefix q p" by blast+
  show "device s' = device s"
    using assms(1) syscall_device unfolding create_dir_all_def by (metis snd_conv)
  show "honest s \<Longrightarrow> honest s'"
    using assms(1) unfolding create_dir_all_def by (blast intro: honest_call)
qed

text \<open>The invariant of the steps before the transaction, relative to the state they start in.\<close>

definition prep_inv :: "path \<Rightarrow> 'z txn_scheme \<Rightarrow> 'z txn_scheme \<Rightarrow> bool" where
  "prep_inv staging s0 s \<longleftrightarrow> store_ok (store s) \<and> honest s \<and>
     lookup (store s) staging = Some Dir \<and>
     (\<forall>q\<in>fst ` set (store s). \<not> below (staging @ [''rollback'']) q) \<and> touches {staging} s0 s"

lemma prep_inv_only:
  assumes "prep_inv staging s0 s" "only_faults s s'" shows "prep_inv staging s0 s'"
  using assms only_faultsD [OF assms(2)] by (auto simp: prep_inv_def touches_def)

lemma stable_prep_only: "keeps only_faults m \<Longrightarrow> stable (prep_inv staging s0) m"
  unfolding stable_def keeps_def by (blast intro: prep_inv_only)

lemma stable_prep_mkdirs:
  assumes "is_prefix (staging @ [''files'']) t"
  shows "stable (prep_inv staging s0) (create_dir_all t)"
  unfolding stable_def
proof (intro allI impI)
  fix s assume I: "prep_inv staging s0 s"
  obtain r s' where c: "create_dir_all t s = (r, s')" by fastforce
  have ok: "store_ok (store s)" using I by (simp add: prep_inv_def)
  note G = create_dir_all_grows [OF c ok]
  obtain x where x: "t = staging @ ''files'' # x" using assms by (auto simp: is_prefix_iff)
  have new: "is_prefix staging q \<and> \<not> is_prefix (staging @ [''rollback'']) q"
    if "lookup (store s) q = None" "lookup (store s') q \<noteq> None" for q
  proof -
    have q: "is_prefix q (staging @ ''files'' # x)" using G(3) [OF that] x by simp
    have "\<not> is_prefix q staging"
    proof
      assume "is_prefix q staging"
      moreover have "q \<noteq> staging" using I that(1) by (auto simp: prep_inv_def)
      ultimately have "below q staging" by (simp add: below_def)
      with lookup_below_Dir [OF ok] I that(1) show False by (fastforce simp: prep_inv_def)
    qed
    with q show ?thesis by (auto simp: is_prefix_iff append_eq_append_conv2 Cons_eq_append_conv)
  qed
  have "touches {staging} s s'"
    unfolding touches_def
  proof (intro allI impI)
    fix q assume "\<forall>t\<in>{staging}. \<not> is_prefix t q"
    then show "lookup (store s') q = lookup (store s) q"
      using new [of q] G(2) [of q] by (cases "lookup (store s) q"; cases "lookup (store s') q") auto
  qed
  moreover have "\<not> below (staging @ [''rollback'']) q" if "q \<in> fst ` set (store s')" for q
  proof (cases "lookup (store s) q")
    case None
    then show ?thesis using new [of q] that by (auto simp: lookup_None_notin below_def)
  next
    case (Some n)
    then have "q \<in> fst ` set (store s)" by (metis lookup_None_notin option.distinct(1))
    then show ?thesis using I unfolding prep_inv_def by blast
  qed
  ultimately show "prep_inv staging s0 (snd (create_dir_all t s))"
    using I G(1,5) G(2) [of staging Dir] c touches_trans by (auto simp: prep_inv_def)
qed


text \<open>The staged files are regular files throughout the preparation.\<close>

definition prep_staged :: "path \<Rightarrow> planned_upload list \<Rightarrow> 'z txn_scheme \<Rightarrow> 'z txn_scheme \<Rightarrow> bool" where
  "prep_staged staging us s0 s \<longleftrightarrow> prep_inv staging s0 s \<and> staged_all (staging @ [''files'']) us s"

lemma prep_staged_faults:
  "prep_staged staging us s0 s \<Longrightarrow> only_faults s s' \<Longrightarrow> prep_staged staging us s0 s'"
  using prep_inv_only [of staging s0 s s'] only_faultsD(1) [of s s']
  by (auto simp: prep_staged_def staged_all_def)

lemma prep_staged_only: "keeps only_faults m \<Longrightarrow> stable (prep_staged staging us s0) m"
  unfolding stable_def keeps_def by (blast intro: prep_staged_faults)

lemma prep_staged_mkdirs:
  assumes "is_prefix (staging @ [''files'']) t"
  shows "stable (prep_staged staging us s0) (create_dir_all t)"
  unfolding stable_def
proof (intro allI impI)
  fix s assume I: "prep_staged staging us s0 s"
  obtain r s' where c: "create_dir_all t s = (r, s')" by fastforce
  have "prep_inv staging s0 s'"
    using stableD [OF stable_prep_mkdirs [OF assms] _ c] I by (simp add: prep_staged_def)
  moreover have "staged_all (staging @ [''files'']) us s'"
    using I create_dir_all_grows(2) [OF c] unfolding prep_staged_def prep_inv_def staged_all_def by blast
  ultimately show "prep_staged staging us s0 (snd (create_dir_all t s))" by (simp add: prep_staged_def c)
qed

lemma prep_staged_modify:
  assumes u: "u \<in> set us" and t: "t = staged_file (staging @ [''files'']) u"
  shows "stable (prep_staged staging us s0) (modify_file f t)"
  unfolding stable_def
proof (intro allI impI)
  fix s assume I: "prep_staged staging us s0 s"
  then obtain d where d: "lookup (store s) t = Some (File d)" and ok: "store_ok (store s)"
    using u t by (auto simp: prep_staged_def prep_inv_def staged_all_def)
  obtain r s' where m: "modify_file f t s = (r, s')" by fastforce
  have st: "store s' = store s \<or> store s' = set_node t (File (f d)) (store s)"
    using m d ok unfolding modify_file_def
    by (cases r) (auto dest!: syscall_InlD syscall_InrD simp: modify_node_def)
  have k: "fst ` set (store s') = fst ` set (store s)" using st by (metis keys_set_node set_map)
  have pre: "is_prefix staging t" by (simp add: t staged_file_def)
  have ns: "t \<noteq> staging" by (simp add: t staged_file_def)
  have h: "honest s'" using I m unfolding modify_file_def prep_staged_def prep_inv_def by (blast intro: honest_call)
  have "touches {staging} s s'" using st pre d by (auto simp: touches_def lookup_set_file)
  then have "prep_inv staging s0 s'"
    using I k h st set_file_ok [OF ok d] d ns touches_trans
    by (auto simp: prep_staged_def prep_inv_def lookup_set_file)
  moreover have "staged_all (staging @ [''files'']) us s'"
    using I st d by (auto simp: prep_staged_def staged_all_def lookup_set_file)
  ultimately show "prep_staged staging us s0 (snd (modify_file f t s))" by (simp add: prep_staged_def m)
qed

lemma prep_staged_attributes:
  assumes "u \<in> set us" "t = staged_file (staging @ [''files'']) u"
  shows "stable (prep_staged staging us s0) (set_file_attributes t ms ex)"
  unfolding set_file_attributes_def
  by (intro stable_bindS)
    (auto simp: set_file_mtime_def split: option.split
      intro!: stable_mapErr prep_staged_modify [OF assms] prep_staged_only [of "metadata t"])

lemma check_staged_file:
  assumes "check_staged sha cfg staging u s = (Inr x, s')"
  shows "only_faults s s'" "\<exists>d. lookup (store s) (staged_file (staging @ [''files'']) u) = Some (File d)"
proof -
  obtain s1 t s2 s3 where n: "ensure_path_has_no_links staging (''files/'' @ path (up_entry u)) s = (Inr (), s1)"
    and r: "resolve_relative_path (staging @ [''files'']) (path (up_entry u)) = Inr t"
    and o: "open_file_for_transfer sha (max_file_bytes cfg) t (path (up_entry u)) s1 = (Inr s2, s3)"
    using assms unfolding check_staged_def Let_def by (elim bindS_InrE) (auto simp: liftR_def)
  have "store s1 = store s" using keepsD [OF keeps_only_no_links n] only_faultsD(1) by blast
  then show "\<exists>d. lookup (store s) (staged_file (staging @ [''files'']) u) = Some (File d)"
    using open_transferD(1) [OF o] resolve_InrD(1) [OF r] by (auto simp: staged_file_def)
  have "keeps only_faults (check_staged sha cfg staging u)"
    by (auto simp: check_staged_def Let_def intro!: keeps_only)
  from keepsD [OF this assms] show "only_faults s s'" .
qed

lemma check_staged_all:
  assumes "forS (check_staged sha cfg staging) us s = (Inr x, s')"
  shows "only_faults s s' \<and> staged_all (staging @ [''files'']) us s"
  using assms
proof (induction us arbitrary: s)
  case (Cons u us)
  then obtain s1 where 1: "check_staged sha cfg staging u s = (Inr (), s1)"
    and r: "forS (check_staged sha cfg staging) us s1 = (Inr x, s')"
    by (auto elim!: bindS_InrE)
  note C = check_staged_file [OF 1]
  have "store s1 = store s" using C(1) only_faultsD(1) by blast
  then show ?case using Cons.IH [OF r] C only_faults_trans by (auto simp: staged_all_def)
qed (simp add: staged_all_def)


lemma txn_new_start:
  assumes I: "prep_staged staging us s0 s" and u: "inj uuid"
    and t: "txn_new (staging @ [''rollback'']) s = (r, s')"
  shows "touches {staging} s0 s'"
    "r = Inr x \<Longrightarrow> tx_start uuid s' \<and> backup_root s' = staging @ [''rollback''] \<and>
       staged_all (staging @ [''files'']) us s'"
proof -
  let ?root = "staging @ [''rollback'']"
  obtain q s1 where c: "create_dir_all ?root s = (q, s1)" by fastforce
  have ok: "store_ok (store s)" and h: "honest s" and dir: "lookup (store s) staging = Some Dir"
    and nb: "\<forall>p\<in>fst ` set (store s). \<not> below ?root p" and t0: "touches {staging} s0 s"
    using I by (auto simp: prep_staged_def prep_inv_def)
  note G = create_dir_all_grows [OF c ok]
  have st: "store s' = store s1" using t c by (cases q) (auto simp: txn_new_def)
  have "touches {staging} s s1"
    unfolding touches_def
  proof (intro allI impI)
    fix p assume np: "\<forall>t\<in>{staging}. \<not> is_prefix t p"
    show "lookup (store s1) p = lookup (store s) p"
    proof (cases "lookup (store s) p")
      case None
      have "lookup (store s1) p = None"
      proof (rule ccontr)
        assume "lookup (store s1) p \<noteq> None"
        from G(3) [OF None this] have "p = ?root \<or> is_prefix p staging"
          using is_prefix_iff_butlast [of p ?root] by simp
        then have "is_prefix p staging" using np by auto
        moreover have "p \<noteq> staging" using None dir by auto
        ultimately have "below p staging" by (simp add: below_def)
        with lookup_below_Dir [OF ok dir] None show False by simp
      qed
      with None show ?thesis by simp
    qed (use G(2) in simp)
  qed
  then show "touches {staging} s0 s'" using t0 st touches_trans unfolding touches_def by simp
  assume r: "r = Inr x"
  then have s': "s' = s1\<lparr>backup_root := ?root, changes := []\<rparr>"
    using t c by (cases q) (auto simp: txn_new_def)
  have "\<not> below ?root p" if "p \<in> fst ` set (store s1)" for p
  proof (cases "lookup (store s) p")
    case None
    then have "is_prefix p ?root" using G(3) that by (metis lookup_None_notin)
    then show ?thesis using is_prefix_antisym by (auto simp: below_def)
  next
    case (Some n)
    then have "p \<in> fst ` set (store s)" by (metis lookup_None_notin option.distinct(1))
    then show ?thesis using nb by blast
  qed
  moreover have "honest s1" by (rule G(5) [OF h])
  then have "honest s'" by (simp add: s' honest_def)
  ultimately have "tx_start uuid s'" using u G(1) by (simp add: tx_start_def s')
  moreover have "staged_all (staging @ [''files'']) us s'"
    using I G(2) unfolding prep_staged_def staged_all_def s' by fastforce
  ultimately show "tx_start uuid s' \<and> backup_root s' = ?root \<and> staged_all (staging @ [''files'']) us s'"
    by (simp add: s')
qed

section \<open>A commit is all or nothing\<close>

lemma touches_after_settle:
  assumes "touches {staging} s0 s1" "same_outside (staging @ x) (store s1) (store s')"
  shows "touches {staging} s0 s'"
proof -
  have "\<not> is_prefix (staging @ x) q" if "\<not> is_prefix staging q" for q
    using that by (auto simp: is_prefix_iff)
  then show ?thesis using assms by (auto simp: touches_def same_outside_def)
qed

lemma start_commit_inv:
  assumes "tx_start uuid s" shows "commit_inv uuid (backup_root s) files (vol s) s"
proof -
  have "tx_inv uuid (backup_root s) (fst (vol s), snd (vol s)) s" using tx_start_inv [OF assms] by simp
  moreover have "log_ok (backup_root s) files s" using assms by (simp add: tx_start_def log_ok_def)
  ultimately show ?thesis unfolding commit_inv_def by (blast intro: same_outside_refl)
qed

lemma incremental_atomic:
  fixes plan :: "'y commit_plan_scheme"
  assumes I: "prep_staged (staging_dir plan) (bt_values (upload_files plan)) s0 s" and u: "inj uuid"
    and a: "apart (project_dir plan) (staging_dir plan)"
    and d: "distinct (map (path \<circ> up_entry) (bt_values (upload_files plan)))"
    and r: "bindS (txn_new (rollback_dir plan)) (\<lambda>_. settle_transaction (commit_operations uuid plan)) s = (Inl e, s')"
    and e: "\<nexists>msg. e = ProjectReuploadRequired msg"
  shows "touches {staging_dir plan} s0 s'"
proof -
  let ?files = "staging_dir plan @ [''files'']"
  obtain q s1 where t: "txn_new (staging_dir plan @ [''rollback'']) s = (q, s1)" by fastforce
  note T = txn_new_start [OF I u t]
  show ?thesis
  proof (cases q)
    case (Inl x)
    then show ?thesis using r t T(1) by (simp add: bindS_def rollback_dir_def)
  next
    case (Inr x)
    then have st: "tx_start uuid s1" and b: "backup_root s1 = rollback_dir plan"
      and sg: "staged_all ?files (bt_values (upload_files plan)) s1"
      using T(2) by (auto simp: rollback_dir_def)
    have se: "settle_transaction (commit_operations uuid plan) s1 = (Inl e, s')"
      using r t Inr by (simp add: bindS_def rollback_dir_def)
    have O: "ops_inv uuid (rollback_dir plan) ?files (vol s1) (bt_values (upload_files plan)) s1"
      using start_commit_inv [OF st, of ?files] sg b by (simp add: ops_inv_def)
    have "same_outside ?files (snd (vol s1)) (store s')"
    proof (rule settle_failed [OF se e])
      show "\<exists>w. tx_inv uuid (rollback_dir plan) (fst (vol s1), w) s2 \<and> same_outside ?files (snd (vol s1)) w"
        if "commit_operations uuid plan s1 = (r2, s2)" for r2 s2
        using commit_operations_inv [OF O that a d] by (auto simp: commit_inv_def)
    qed
    then show ?thesis using touches_after_settle [OF T(1)] by (simp add: vol_def)
  qed
qed


lemma bindS_InlE:
  assumes "bindS m f s = (Inl e, s'')"
  obtains "m s = (Inl e, s'')" | x s' where "m s = (Inr x, s')" "f x s' = (Inl e, s'')"
  using assms by (auto simp: bindS_def split: prod.splits sum.splits)

lemma mapErr_state: "mapErr g m s = (r, s') \<Longrightarrow> \<exists>q. m s = (q, s')"
  by (auto simp: mapErr_def split: prod.splits sum.splits)

lemma keeps_only_scan_fold: "keeps only_faults (foldS (scan_entry sha f n m root) es ps)"
  by (induction ps arbitrary: es) (auto intro!: keeps_only)

lemma keeps_only_scan_tail: "keeps only_faults (bindS (foldS (scan_entry sha f n m root) [] ps)
      (\<lambda>es. bindS (liftR (synthesize_parent_dirs n es)) (\<lambda>es. okS (sort_key path es))))"
  by (auto intro!: keeps_only keeps_only_scan_fold)

lemma keeps_only_scan [simp]: "keeps only_faults (scan_manifest_blocking sha f n m root)"
  using keeps_only_scan_tail unfolding keeps_def scan_manifest_blocking_def by blast

lemma reset_atomic:
  fixes plan :: "'y commit_plan_scheme" and s s0 s' :: "'z txn_scheme"
  assumes I: "prep_staged (staging_dir plan) (bt_values (upload_files plan)) s0 s" and u: "inj uuid"
    and a: "apart (project_dir plan) (staging_dir plan)"
    and r: "apply_reset sha uuid cfg plan s = (Inl e, s')"
    and e: "\<nexists>msg. e = ProjectReuploadRequired msg"
  shows "touches {staging_dir plan} s0 s'"
proof -
  let ?files = "staging_dir plan @ [''files'']" and ?us = "bt_values (upload_files plan)"
  let ?I = "prep_staged (staging_dir plan) ?us s0"
  define m1 :: "'z txn_scheme \<Rightarrow> unit res \<times> 'z txn_scheme" where "m1 = forS (\<lambda>p. bindS (ensure_path_has_no_links ?files p) (\<lambda>_.
               bindS (liftR (resolve_relative_path ?files p)) (\<lambda>t.
               mapErr sync_internal_io (create_dir_all t)))) (create_dirs plan)"
  define m2 :: "'z txn_scheme \<Rightarrow> unit res \<times> 'z txn_scheme" where "m2 = forS (\<lambda>u. bindS (liftR (resolve_relative_path ?files (path (up_entry u)))) (\<lambda>t.
               set_file_attributes t (mtime_unix_ms (up_entry u)) (executable (up_entry u)))) ?us"
  define m3 :: "manifest_entry list \<Rightarrow> 'z txn_scheme \<Rightarrow> unit res \<times> 'z txn_scheme" where "m3 = (\<lambda>actual. liftR (ensure (same_tree plan actual)
               (Conflict ''replacement tree differs from the complete manifest'')))"
  define m4 :: "'z txn_scheme \<Rightarrow> commit_response res \<times> 'z txn_scheme" where "m4 = settle_transaction
        (bindS (replace_project uuid ?files (project_dir plan)) (\<lambda>_.
         okS \<lparr>uploaded_files = bt_keys (upload_files plan), created_dirs = create_dirs plan,
              deleted_files = [], deleted_dirs = []\<rparr>))"
  have s1: "stable ?I m1"
    unfolding m1_def
    by (rule stable_forS, rule stable_bindS, rule prep_staged_only, simp, rule stable_liftR_bind,
      rule stable_mapErr, rule prep_staged_mkdirs, drule resolve_InrD(1), simp only: is_prefix_simps(3))
  have s2: "stable ?I m2"
    unfolding m2_def
  proof (intro stable_forS stable_liftR_bind)
    fix u t assume "u \<in> set ?us" and t: "resolve_relative_path ?files (path (up_entry u)) = Inr t"
    then show "stable ?I (set_file_attributes t (mtime_unix_ms (up_entry u)) (executable (up_entry u)))"
      using prep_staged_attributes [of u ?us t "staging_dir plan"] resolve_InrD(1) [OF t]
      by (simp add: staged_file_def)
  qed
  have s3: "stable ?I (scan_manifest_blocking sha no_filters n k ?files)" for n k :: nat
    by (rule prep_staged_only) simp
  have done_: "touches {staging_dir plan} s0 x" if "?I x" for x
    using that by (simp add: prep_staged_def prep_inv_def)
  have R: "bindS m1 (\<lambda>_. bindS m2 (\<lambda>_.
      bindS (scan_manifest_blocking sha no_filters (max_entries cfg) (max_file_bytes cfg) ?files) (\<lambda>actual.
      bindS (m3 actual) (\<lambda>_. bindS (txn_new (rollback_dir plan)) (\<lambda>_. m4))))) s = (Inl e, s')"
    using r unfolding apply_reset_def Let_def m1_def m2_def m3_def m4_def .
  from R show ?thesis
  proof (rule bindS_InlE)
    assume "m1 s = (Inl e, s')"
    then show ?thesis using stableD [OF s1 I] done_ by blast
  next
    fix x a1 assume 1: "m1 s = (Inr x, a1)" and R1: "bindS m2 (\<lambda>_.
      bindS (scan_manifest_blocking sha no_filters (max_entries cfg) (max_file_bytes cfg) ?files) (\<lambda>actual.
      bindS (m3 actual) (\<lambda>_. bindS (txn_new (rollback_dir plan)) (\<lambda>_. m4)))) a1 = (Inl e, s')"
    have I1: "?I a1" by (rule stableD [OF s1 I 1])
    from R1 show ?thesis
    proof (rule bindS_InlE)
      assume "m2 a1 = (Inl e, s')"
      then show ?thesis using stableD [OF s2 I1] done_ by blast
    next
      fix x a2 assume 2: "m2 a1 = (Inr x, a2)" and R2: "bindS
        (scan_manifest_blocking sha no_filters (max_entries cfg) (max_file_bytes cfg) ?files) (\<lambda>actual.
        bindS (m3 actual) (\<lambda>_. bindS (txn_new (rollback_dir plan)) (\<lambda>_. m4))) a2 = (Inl e, s')"
      have I2: "?I a2" by (rule stableD [OF s2 I1 2])
      from R2 show ?thesis
      proof (rule bindS_InlE)
        assume "scan_manifest_blocking sha no_filters (max_entries cfg) (max_file_bytes cfg) ?files a2 = (Inl e, s')"
        then show ?thesis using stableD [OF s3 I2] done_ by blast
      next
        fix x a3 assume 3: "scan_manifest_blocking sha no_filters (max_entries cfg) (max_file_bytes cfg) ?files a2 = (Inr x, a3)"
          and R3: "bindS (m3 x) (\<lambda>_. bindS (txn_new (rollback_dir plan)) (\<lambda>_. m4)) a3 = (Inl e, s')"
        have I3: "?I a3" by (rule stableD [OF s3 I2 3])
        from R3 show ?thesis
        proof (rule bindS_InlE)
          assume "m3 x a3 = (Inl e, s')"
          then show ?thesis using done_ [OF I3] by (simp add: m3_def liftR_def)
        next
          fix y a4 assume "m3 x a3 = (Inr y, a4)"
            and R4: "bindS (txn_new (rollback_dir plan)) (\<lambda>_. m4) a4 = (Inl e, s')"
          then have I4: "?I a4" using I3 by (simp add: m3_def liftR_def)
          from R4 show ?thesis
          proof (rule bindS_InlE)
            assume "txn_new (rollback_dir plan) a4 = (Inl e, s')"
            then show ?thesis using txn_new_start(1) [OF I4 u] unfolding rollback_dir_def by blast
          next
            fix z a5 assume 5: "txn_new (rollback_dir plan) a4 = (Inr z, a5)" and R5: "m4 a5 = (Inl e, s')"
            note T = txn_new_start [OF I4 u 5 [unfolded rollback_dir_def]]
            have st: "tx_start uuid a5" and b: "backup_root a5 = rollback_dir plan"
              using T(2) by (auto simp: rollback_dir_def)
            have ap: "apart (project_dir plan) (rollback_dir plan)"
              using apart_extend [OF a, of "[]"] by (simp add: rollback_dir_def)
            have "same_outside ?files (snd (vol a5)) (store s')"
            proof (rule settle_failed [OF R5 [unfolded m4_def] e])
              fix r2 s2
              assume o: "bindS (replace_project uuid ?files (project_dir plan)) (\<lambda>_.
                 okS \<lparr>uploaded_files = bt_keys (upload_files plan), created_dirs = create_dirs plan,
                      deleted_files = [], deleted_dirs = []\<rparr>) a5 = (r2, s2)"
              obtain q where q: "replace_project uuid ?files (project_dir plan) a5 = (q, s2)"
                using o by (auto simp: bindS_def okS_def split: prod.splits sum.splits)
              have "tx_inv uuid (rollback_dir plan) (vol a5) s2"
                using replace_project_inv [OF tx_start_inv [OF st, unfolded b] ap q] .
              then show "\<exists>w. tx_inv uuid (rollback_dir plan) (fst (vol a5), w) s2 \<and>
                  same_outside ?files (snd (vol a5)) w"
                by (metis prod.collapse same_outside_refl)
            qed
            then show ?thesis using touches_after_settle [OF T(1)] by (simp add: vol_def)
          qed
        qed
      qed
    qed
  qed
qed

lemma keeps_only_check_root [simp]: "keeps only_faults (check_project_root w d)"
  unfolding keeps_def
proof
  fix s :: "'z fs_scheme"
  obtain q s1 where q: "symlink_metadata d s = (q, s1)" by fastforce
  have 1: "only_faults s s1" using keepsD [OF keeps_only_calls(1) q] .
  obtain r s2 where r: "ensure_safe_project_root w d s1 = (r, s2)" by fastforce
  have "only_faults s1 s2" using keepsD [OF keeps_only_safe_root r] .
  with 1 q r show "only_faults s (snd (check_project_root w d s))"
    by (cases q) (auto simp: check_project_root_def intro: only_faults_trans)
qed

lemma keeps_only_same_filesystem [simp]: "keeps only_faults (ensure_same_filesystem w st p)"
proof -
  have k: "keeps only_faults (\<lambda>s. let dev = device s w;
         check = (\<lambda>d. ensure (dev = device s st \<and> dev = d)
                    (BadRequest ''project and staging must share the workspace filesystem'')) in
     case symlink_metadata p s of
       (Inr _, s1) \<Rightarrow> (check (device s p), s1)
     | (Inl e, s1) \<Rightarrow> if io_kind e = NotFoundK then (check dev, s1) else (Inl (sync_internal_io e), s1))"
    unfolding keeps_def
  proof
    fix s :: "'z fs_scheme"
    obtain q s1 where q: "symlink_metadata p s = (q, s1)" by fastforce
    have "only_faults s s1" using keepsD [OF keeps_only_calls(1) q] .
    with q show "only_faults s (snd (let dev = device s w;
         check = (\<lambda>d. ensure (dev = device s st \<and> dev = d)
                    (BadRequest ''project and staging must share the workspace filesystem'')) in
     case symlink_metadata p s of
       (Inr _, s1) \<Rightarrow> (check (device s p), s1)
     | (Inl e, s1) \<Rightarrow> if io_kind e = NotFoundK then (check dev, s1) else (Inl (sync_internal_io e), s1)))"
      by (cases q) (simp_all add: Let_def)
  qed
  show ?thesis unfolding ensure_same_filesystem_def by (intro keeps_only k) simp_all
qed

lemma keeps_only_baseline [simp]: "keeps only_faults (ensure_baseline_matches sha display t b)"
proof -
  have k: "keeps only_faults (bindS (mapErr (internal x) (metadata t)) (\<lambda>earlier.
      bindS (hash_file sha t) (\<lambda>h. bindS (mapErr y (metadata t)) (\<lambda>after.
      liftR (ensure (baseline_file_matches e earlier h after) z)))))" for x y z e
    by (auto intro!: keeps_only)
  show ?thesis
    unfolding keeps_def
  proof
    fix s :: "'z fs_scheme"
    obtain q s1 where q: "metadata t s = (q, s1)" by fastforce
    have 1: "only_faults s s1" using keepsD [OF keeps_only_calls(3) q] .
    have 2: "only_faults s (snd (bindS (mapErr (internal x) (metadata t)) (\<lambda>earlier.
      bindS (hash_file sha t) (\<lambda>h. bindS (mapErr y (metadata t)) (\<lambda>after.
      liftR (ensure (baseline_file_matches e earlier h after) z)))) s1))" for x y z e
      using k [of x y e z] 1 only_faults_trans unfolding keeps_def by blast
    show "only_faults s (snd (ensure_baseline_matches sha display t b s))"
      using 1 2 q unfolding ensure_baseline_matches_def path_exists_def path_is_def
      by (cases q) (auto split: option.split entry_kind.split)
  qed
qed

lemma keeps_only_check_target [simp]: "keeps only_faults (check_target sha display cfg plan p)"
  by (auto simp: check_target_def intro!: keeps_only)

text \<open>Every failure of \<open>apply_commit\<close> happens before its transaction or inside it.\<close>

lemma apply_commit_touches:
  fixes plan :: "'y commit_plan_scheme" and s s' :: "'z txn_scheme"
  assumes I: "prep_inv (staging_dir plan) s s" and u: "inj uuid"
    and a: "apart (project_dir plan) (staging_dir plan)"
    and d: "distinct (map (path \<circ> up_entry) (bt_values (upload_files plan)))"
    and r: "apply_commit sha display uuid cfg plan s = (Inl e, s')"
    and e: "\<nexists>msg. e = ProjectReuploadRequired msg"
  shows "touches {staging_dir plan} s s'"
proof -
  let ?us = "bt_values (upload_files plan)"
  have only: "touches {staging_dir plan} s x" if "only_faults s x" for x :: "'z txn_scheme"
    using only_faultsD(1) [OF that] by (simp add: touches_def)
  from r show ?thesis
    unfolding apply_commit_def
  proof (rule bindS_InlE)
    assume "check_project_root (workspace_root cfg) (project_dir plan) s = (Inl e, s')"
    then show ?thesis using only keepsD [OF keeps_only_check_root] by blast
  next
    fix x a1 assume 1: "check_project_root (workspace_root cfg) (project_dir plan) s = (Inr x, a1)"
      and R1: "bindS (ensure_same_filesystem (workspace_root cfg) (staging_dir plan) (project_dir plan)) (\<lambda>_.
     bindS (forS (check_staged sha cfg (staging_dir plan)) ?us) (\<lambda>_.
     if reset plan then apply_reset sha uuid cfg plan
     else
       bindS (forS (check_target sha display cfg plan)
                (create_dirs plan @ bt_keys (upload_files plan) @ delete_files plan @ delete_dirs plan)) (\<lambda>_.
       bindS (txn_new (rollback_dir plan)) (\<lambda>_.
       settle_transaction (commit_operations uuid plan))))) a1 = (Inl e, s')"
    have o1: "only_faults s a1" using keepsD [OF keeps_only_check_root 1] .
    from R1 show ?thesis
    proof (rule bindS_InlE)
      assume "ensure_same_filesystem (workspace_root cfg) (staging_dir plan) (project_dir plan) a1 = (Inl e, s')"
      then show ?thesis using only only_faults_trans [OF o1] keepsD [OF keeps_only_same_filesystem] by blast
    next
      fix x a2 assume 2: "ensure_same_filesystem (workspace_root cfg) (staging_dir plan) (project_dir plan) a1 = (Inr x, a2)"
        and R2: "bindS (forS (check_staged sha cfg (staging_dir plan)) ?us) (\<lambda>_.
     if reset plan then apply_reset sha uuid cfg plan
     else
       bindS (forS (check_target sha display cfg plan)
                (create_dirs plan @ bt_keys (upload_files plan) @ delete_files plan @ delete_dirs plan)) (\<lambda>_.
       bindS (txn_new (rollback_dir plan)) (\<lambda>_.
       settle_transaction (commit_operations uuid plan)))) a2 = (Inl e, s')"
      have o2: "only_faults s a2"
        using only_faults_trans [OF o1 keepsD [OF keeps_only_same_filesystem 2]] .
      have kc: "keeps only_faults (forS (check_staged sha cfg (staging_dir plan)) ?us)"
        by (intro keeps_only(6)) (auto simp: check_staged_def Let_def intro!: keeps_only)
      from R2 show ?thesis
      proof (rule bindS_InlE)
        assume "forS (check_staged sha cfg (staging_dir plan)) ?us a2 = (Inl e, s')"
        then show ?thesis using only only_faults_trans [OF o2] keepsD [OF kc] by blast
      next
        fix x a3 assume 3: "forS (check_staged sha cfg (staging_dir plan)) ?us a2 = (Inr x, a3)"
          and R3: "(if reset plan then apply_reset sha uuid cfg plan
     else
       bindS (forS (check_target sha display cfg plan)
                (create_dirs plan @ bt_keys (upload_files plan) @ delete_files plan @ delete_dirs plan)) (\<lambda>_.
       bindS (txn_new (rollback_dir plan)) (\<lambda>_.
       settle_transaction (commit_operations uuid plan)))) a3 = (Inl e, s')"
        note C = check_staged_all [OF 3]
        have o3: "only_faults s a3" using only_faults_trans o2 C by blast
        have sg: "prep_staged (staging_dir plan) ?us s a3"
          using prep_inv_only [OF I o3] C only_faultsD(1) [OF o2] only_faultsD(1) [OF o3]
          by (auto simp: prep_staged_def staged_all_def)
        show ?thesis
        proof (cases "reset plan")
          case True
          then show ?thesis using R3 reset_atomic [OF sg u a _ e] by simp
        next
          case False
          have ks: "keeps only_faults (forS (check_target sha display cfg plan) xs)" for xs
            by (intro keeps_only(6)) simp
          from R3 False have "bindS (forS (check_target sha display cfg plan)
                (create_dirs plan @ bt_keys (upload_files plan) @ delete_files plan @ delete_dirs plan)) (\<lambda>_.
       bindS (txn_new (rollback_dir plan)) (\<lambda>_.
       settle_transaction (commit_operations uuid plan))) a3 = (Inl e, s')" by simp
          then show ?thesis
          proof (rule bindS_InlE)
            assume "forS (check_target sha display cfg plan)
                (create_dirs plan @ bt_keys (upload_files plan) @ delete_files plan @ delete_dirs plan) a3 = (Inl e, s')"
            then show ?thesis using only only_faults_trans [OF o3] keepsD [OF ks] by blast
          next
            fix x a4 assume 4: "forS (check_target sha display cfg plan)
                (create_dirs plan @ bt_keys (upload_files plan) @ delete_files plan @ delete_dirs plan) a3 = (Inr x, a4)"
              and R4: "bindS (txn_new (rollback_dir plan)) (\<lambda>_.
       settle_transaction (commit_operations uuid plan)) a4 = (Inl e, s')"
            have "prep_staged (staging_dir plan) ?us s a4"
              by (rule prep_staged_faults [OF sg keepsD [OF ks 4]])
            from incremental_atomic [OF this u a d R4 e] show ?thesis .
          qed
        qed
      qed
    qed
  qed
qed


section \<open>Properties\<close>

text \<open>A plan that replaces the file of the demonstration project and creates a directory.\<close>

definition demo_sha :: "string \<Rightarrow> string" where
  "demo_sha x = replicate 32 CHR 0x0A"

definition demo_entry :: "string \<Rightarrow> manifest_entry" where
  "demo_entry b = file_entry demo_sha ''a'' (demo_file b)"

definition demo_plan :: commit_plan where
  "demo_plan = \<lparr>
     upload_files = [(''a'', \<lparr>up_entry = demo_entry ''new'', up_transfer = transfer_of demo_sha ''a'' (demo_file ''new'')\<rparr>)],
     create_dirs = [''d''], delete_files = [], delete_dirs = [],
     project_dir = [''w'', ''p''], staging_dir = [''w'', ''s''], reset = False,
     baseline = [(''a'', demo_entry ''old'')]\<rparr>"

definition demo_config :: sync_config where
  "demo_config = \<lparr>workspace_root = [''w''], max_entries = 10, max_file_bytes = 100\<rparr>"


text \<open>
  C1. A commit is all or nothing. Take any plan whose staging directory exists, is apart from the project
  and holds no earlier rollback data, and any pattern of outside failures. If \<open>apply_commit\<close> (with or
  without \<open>reset\<close>) returns an error other than the demand for a complete upload, then nothing outside
  the staging directory differs from before, the project included.
\<close>

theorem commit_all_or_nothing:
  fixes plan :: "'y commit_plan_scheme" and s s' :: "'z txn_scheme"
  assumes "inj uuid" "store_ok (store s)" "honest s"
    and "lookup (store s) (staging_dir plan) = Some Dir" "\<not> occupied_below (rollback_dir plan) (store s)"
    and "apart (project_dir plan) (staging_dir plan)"
    and "distinct (map (path \<circ> up_entry) (bt_values (upload_files plan)))"
    and "apply_commit sha display uuid cfg plan s = (Inl e, s')"
    and "\<forall>msg. e \<noteq> ProjectReuploadRequired msg"
    and "\<not> is_prefix (staging_dir plan) q"
  shows "lookup (store s') q = lookup (store s) q"
proof -
  have "prep_inv (staging_dir plan) s s"
    using assms(2-5) by (auto simp: prep_inv_def occupied_below_def rollback_dir_def)
  from apply_commit_touches [OF this assms(1,6,7,8)] assms(9) have "touches {staging_dir plan} s s'" by blast
  with assms(10) show ?thesis by (simp add: touches_def)
qed

theorem commit_all_or_nothing_witness:
  "\<exists>e s'. apply_commit demo_sha concat demo_uuid demo_config demo_plan
       (demo_txn (replicate 43 None @ [Some (err OtherK)])) = (Inl e, s') \<and>
     lookup (store s') [''w'', ''p'', ''a''] = Some (File (demo_file ''old'')) \<and>
     lookup (store s') [''w'', ''p'', ''d''] = None"
proof -
  let ?s = "demo_txn (replicate 43 None @ [Some (err OtherK)])"
  let ?e = "Internal ''failed to set executable bits: Input/output error (os error 5)''"
  have "fst (apply_commit demo_sha concat demo_uuid demo_config demo_plan ?s) = Inl ?e" by code_simp
  then obtain s' where r: "apply_commit demo_sha concat demo_uuid demo_config demo_plan ?s = (Inl ?e, s')"
    by (metis prod.collapse)
  have 1: "inj demo_uuid" by (auto simp: inj_def demo_uuid_def replicate_eq_replicate)
  have 2: "store_ok (store ?s)" "honest ?s" "lookup (store ?s) (staging_dir demo_plan) = Some Dir"
    "\<not> occupied_below (rollback_dir demo_plan) (store ?s)" by code_simp+
  have 3: "apart (project_dir demo_plan) (staging_dir demo_plan)" by (simp add: apart_def demo_plan_def)
  have 4: "distinct (map (path \<circ> up_entry) (bt_values (upload_files demo_plan)))" by (simp add: demo_plan_def)
  have out: "\<not> is_prefix (staging_dir demo_plan) [''w'', ''p'', x]" for x by (simp add: demo_plan_def)
  note K = commit_all_or_nothing [OF 1 2 3 4 r _ out, simplified]
  have "lookup (store ?s) [''w'', ''p'', ''a''] = Some (File (demo_file ''old''))"
    "lookup (store ?s) [''w'', ''p'', ''d''] = None" by (simp_all add: demo_txn_def demo_store_def)
  with K [of "''a''"] K [of "''d''"] r show ?thesis by auto
qed

end
