(* ===== verification/Push_Commit.thy ===== *)
theory Push_Commit
  imports Commit_Atomic
begin

text \<open>
  What a commit that succeeds leaves in the project: each operation changes the node at its target and
  nothing else outside the backup and staging directories, so the lists of the plan describe the result.
\<close>

section \<open>Attributes\<close>

lemma modify_fileD:
  assumes "modify_file f p s = (Inr u, s')" "lookup (store s) p = Some (File d)"
  shows "store s' = set_node p (File (f d)) (store s)"
proof -
  have "modify_node f p (store s) = Inr ((), store s')"
    using assms(1) unfolding modify_file_def by (auto dest!: syscall_InrD)
  then show ?thesis using assms(2)
    by (auto simp: modify_node_def dest!: lstat_Some split: sum.splits node.splits)
qed

lemma set_attributes_effect:
  assumes "set_file_attributes p (Some ms) exec s = (Inr u, s')"
    and "lookup (store s) p = Some (File d)" and "\<bar>ms\<bar> \<le> i64_max"
  shows "\<exists>d'. (\<forall>q. lookup (store s') q = (if q = p then Some (File d') else lookup (store s) q)) \<and> fbytes d' = fbytes d \<and>
    (\<forall>sha rel. file_entry sha rel d' = (file_entry sha rel d)\<lparr>mtime_unix_ms := Some ms, executable := exec\<rparr>)"
proof -
  obtain s1 s2 n where m: "modify_file (\<lambda>d. d\<lparr>mtime_ns := file_time_of_ms ms\<rparr>) p s = (Inr (), s1)"
    and n: "metadata p s1 = (Inr n, s2)"
    and e: "modify_file (\<lambda>d. case n of File m \<Rightarrow> d\<lparr>fmode := mode_with_exec exec (fmode m)\<rparr> | _ \<Rightarrow> d) p s2 = (Inr u, s')"
    using assms(1) unfolding set_file_attributes_def set_file_mtime_def
    by (auto elim!: bindS_InrE dest!: mapErr_InrD)
  let ?d = "d\<lparr>mtime_ns := file_time_of_ms ms\<rparr>"
  have 1: "lookup (store s1) q = (if q = p then Some (File ?d) else lookup (store s) q)" for q
    using modify_fileD [OF m assms(2)] assms(2) by (simp add: lookup_set_node)
  have 2: "store s2 = store s1" "n = File ?d"
    using n 1 [of p] unfolding metadata_def
    by (auto dest!: query_InrD simp: stat_def dest!: lstat_Some split: sum.splits node.splits)
  have 3: "lookup (store s') q = (if q = p then Some (File (?d\<lparr>fmode := mode_with_exec exec (fmode ?d)\<rparr>)) else lookup (store s) q)" for q
    using modify_fileD [OF e, of ?d] 1 2 by (simp add: lookup_set_node)
  show ?thesis
    by (rule exI [of _ "?d\<lparr>fmode := mode_with_exec exec (fmode ?d)\<rparr>"])
      (use 3 system_time_roundtrip [OF assms(3)] mode_with_exec_exec in
        \<open>simp add: file_entry_def executable_from_metadata_def\<close>)
qed

section \<open>What an operation does to its target\<close>

text \<open>The node at the target is the given one, and nothing else changes outside the given directories.\<close>

definition sets :: "path set \<Rightarrow> path \<Rightarrow> node option \<Rightarrow> 'z fs_scheme \<Rightarrow> 'z fs_scheme \<Rightarrow> bool" where
  "sets X t n s s' \<longleftrightarrow> (\<forall>q. (\<forall>x\<in>X. \<not> is_prefix x q) \<longrightarrow> lookup (store s') q = (if q = t then n else lookup (store s) q))"

text \<open>A target that was, and is, not a directory with contents has nothing below it.\<close>

lemma touches_sets:
  assumes t: "touches (insert t X) s s'" and ok: "store_ok (store s)" "store_ok (store s')"
    and empty: "\<And>q. below t q \<Longrightarrow> lookup (store s) q = None" and n: "lookup (store s') t = n" "n \<noteq> Some Dir"
  shows "sets X t n s s'"
  unfolding sets_def
proof (intro allI impI)
  fix q assume q: "\<forall>x\<in>X. \<not> is_prefix x q"
  show "lookup (store s') q = (if q = t then n else lookup (store s) q)"
  proof (cases "is_prefix t q")
    case False
    with t q show ?thesis by (auto simp: touches_def)
  next
    case True
    show ?thesis
    proof (cases "q = t")
      case False
      with True have b: "below t q" by (simp add: below_def)
      then have "lookup (store s') q = None"
        using lookup_below_Dir [OF ok(2) _ b] n by (cases "lookup (store s') q") auto
      with empty [OF b] False show ?thesis by simp
    qed (simp add: n)
  qed
qed

lemma nondir_empty: "store_ok st \<Longrightarrow> lookup st t \<noteq> Some Dir \<Longrightarrow> below t q \<Longrightarrow> lookup st q = None"
  using lookup_below_Dir [of st q _ t] by (cases "lookup st q") auto

lemma no_children_empty:
  assumes ok: "store_ok st" and c: "children p st = []" and b: "below p q"
  shows "lookup st q = None"
proof (rule ccontr)
  assume "lookup st q \<noteq> None"
  then obtain n where n: "lookup st q = Some n" by auto
  obtain x r where q: "q = (p @ [x]) @ r" using b by (cases "drop (length p) q") (auto simp: below_append)
  have "lookup st (p @ [x]) \<noteq> None" using lookup_above [OF ok n [unfolded q]] n q by (cases "r = []") auto
  then have "p @ [x] \<in> set (map fst st)" by (simp add: map_of_eq_None_iff)
  with c show False by (fastforce simp: children_def filter_empty_conv)
qed

lemma create_dir_sets:
  assumes o: "tx_create_dir t name s = (Inr u, s')"
  shows "sets {} t (Some Dir) s s'"
proof -
  obtain q s1 where q: "symlink_metadata t s = (q, s1)" by fastforce
  have s1: "store s1 = store s" using symlink_metadata_state [OF q] by simp
  have D: "lookup (store s) t = Some Dir" if "q = Inr Dir"
    using q that unfolding symlink_metadata_def by (auto dest!: query_InrD lstat_Some)
  have C: "store s2 = (t, Dir) # store s" if "create_dir t s1 = (Inr x, s2)" for x s2
    using that s1 unfolding create_dir_def by (auto dest!: syscall_InrD simp: mkdir_def split: sum.splits if_splits)
  show ?thesis using o q D s1
    by (auto simp: tx_create_dir_def sets_def push_change_def split: sum.splits node.splits if_splits prod.splits dest!: C)
qed

lemma delete_file_sets:
  assumes I: "tx_inv uuid root v s" and a: "apart t root" and o: "delete_file uuid t name s = (Inr b, s')"
  shows "sets {root} t None s s'"
proof -
  note D = tx_invD [OF I]
  obtain q s1 where q: "symlink_metadata t s = (q, s1)" by fastforce
  have s1: "s1 = s\<lparr>faults := tl (faults s)\<rparr>" by (rule symlink_metadata_state [OF q])
  have I1: "tx_inv uuid root v s1" using tx_inv_faults [OF I] s1 by simp
  show ?thesis
  proof (cases q)
    case (Inl e)
    with o q have k: "io_kind e = NotFoundK" "store s' = store s" by (auto simp: delete_file_def s1 split: if_splits)
    have "lookup (store s) t = None"
      using symlink_metadata_cases(3) [OF q D(4) Inl k(1)] lstat_NotFound_absent [OF _ k(1)] D(3) by simp
    with k(2) show ?thesis by (simp add: sets_def)
  next
    case (Inr n)
    with o q obtain d where n: "n = File d" by (auto simp: delete_file_def split: node.splits)
    obtain b' s2 where b: "backup uuid t s1 = (b', s2)" by fastforce
    with o q Inr n obtain bp where b': "b' = Inr bp" and s': "s' = push_change (Replaced t bp) s2"
      by (cases b') (auto simp: delete_file_def)
    have "lookup (store s) t = Some (File d)"
      using q Inr n unfolding symlink_metadata_def by (auto dest!: query_InrD lstat_Some)
    then have e: "lookup (store s) x = None" if "below t x" for x using nondir_empty [OF D(3) _ that] by simp
    note R = tx_inv_replaced [OF I1 a b [unfolded b']]
    have "touches {t, root} s s'" using delete_file_touches [OF o] D(2) by simp
    then show ?thesis
      by (rule touches_sets [OF _ D(3) _ e]) (use tx_invD(3) [OF R(1)] R(2) s' in \<open>simp_all add: push_change_def\<close>)
  qed
qed

lemma delete_empty_dir_sets:
  assumes I: "tx_inv uuid root v s" and a: "apart t root" and o: "delete_empty_dir uuid t name s = (Inr b, s')"
  shows "sets {root} t None s s'"
proof -
  note D = tx_invD [OF I]
  obtain q s1 where q: "symlink_metadata t s = (q, s1)" by fastforce
  have s1: "s1 = s\<lparr>faults := tl (faults s)\<rparr>" by (rule symlink_metadata_state [OF q])
  have I1: "tx_inv uuid root v s1" using tx_inv_faults [OF I] s1 by simp
  show ?thesis
  proof (cases q)
    case (Inl e)
    with o q have k: "io_kind e = NotFoundK" "store s' = store s" by (auto simp: delete_empty_dir_def s1 split: if_splits)
    have "lookup (store s) t = None"
      using symlink_metadata_cases(3) [OF q D(4) Inl k(1)] lstat_NotFound_absent [OF _ k(1)] D(3) by simp
    with k(2) show ?thesis by (simp add: sets_def)
  next
    case (Inr n)
    with o q have n: "n = Dir" by (auto simp: delete_empty_dir_def split: node.splits)
    obtain ns s2 where r: "read_dir t s1 = (ns, s2)" by fastforce
    with o q Inr n have ns: "ns = Inr []" by (cases ns) (auto simp: delete_empty_dir_def split: if_splits)
    have s2: "s2 = s1\<lparr>faults := tl (faults s1)\<rparr>" by (rule read_dir_state [OF r])
    have I2: "tx_inv uuid root v s2" using tx_inv_faults [OF I1] s2 by simp
    obtain b' s3 where b: "backup uuid t s2 = (b', s3)" by fastforce
    with o q Inr n r ns obtain bp where b': "b' = Inr bp" and s': "s' = push_change (Replaced t bp) s3"
      by (cases b') (auto simp: delete_empty_dir_def)
    have "children t (store s) = []"
      using r ns unfolding read_dir_def by (auto dest!: query_InrD simp: s1 split: sum.splits node.splits)
    note e = no_children_empty [OF D(3) this]
    note R = tx_inv_replaced [OF I2 a b [unfolded b']]
    have "touches {t, root} s s'" using delete_empty_dir_touches [OF o] D(2) by simp
    then show ?thesis
      by (rule touches_sets [OF _ D(3) _ e]) (use tx_invD(3) [OF R(1)] R(2) s' in \<open>simp_all add: push_change_def\<close>)
  qed
qed

section \<open>Installing the uploads\<close>

lemma install_file_sets:
  assumes I: "commit_inv uuid root files v s" and a: "apart t root" "apart t files" "apart root files"
    and o: "install_file uuid sg t name s = (Inr u, s')" and n: "lookup (store s) sg = Some (File d)" and p: "is_prefix files sg"
  shows "sets {root, files} t (Some (File d)) s s'"
proof -
  obtain w where T: "tx_inv uuid root (fst v, w) s" using I by (auto simp: commit_inv_def)
  note D = tx_invD [OF T]
  obtain q s1 where q: "symlink_metadata t s = (q, s1)" by fastforce
  have s1: "s1 = s\<lparr>faults := tl (faults s)\<rparr>" by (rule symlink_metadata_state [OF q])
  have nd: "lookup (store s) t \<noteq> Some Dir"
  proof (cases q)
    case (Inl e)
    with o q have k: "io_kind e = NotFoundK" by (auto simp: install_file_def split: if_splits)
    then show ?thesis
      using symlink_metadata_cases(3) [OF q D(4) Inl k] lstat_NotFound_absent [OF _ k] D(3) by simp
  next
    case (Inr m)
    with o q obtain x where "m = File x" by (auto simp: install_file_def split: node.splits)
    then show ?thesis using q Inr unfolding symlink_metadata_def by (auto dest!: query_InrD lstat_Some)
  qed
  have asg: "apart t sg" "apart (backup_root s) sg"
    using a p D(2) unfolding is_prefix_iff by (auto dest: apart_extend [of _ _ "[]"])
  have "touches {sg, t, root} s s'" using install_file_touches [OF o] D(2) by simp
  then have "touches (insert t {root, files}) s s'"
    using p is_prefix_trans unfolding touches_def by blast
  moreover have "lookup (store s') t = Some (File d)" by (rule install_file_node [OF o n asg])
  moreover have "store_ok (store s')" by (rule tx_invD(3) [OF install_file_inv [OF T a(1) o]])
  ultimately show ?thesis using touches_sets [OF _ D(3)] nondir_empty [OF D(3) nd] by simp
qed

text \<open>What an upload leaves at its target: the staged bytes with the attributes of the entry.\<close>

definition fresh_file :: "planned_upload \<Rightarrow> file_data \<Rightarrow> file_data \<Rightarrow> bool" where
  "fresh_file u d d' \<longleftrightarrow> fbytes d' = fbytes d \<and> (\<forall>sha rel. file_entry sha rel d' =
     (file_entry sha rel d)\<lparr>mtime_unix_ms := mtime_unix_ms (up_entry u), executable := executable (up_entry u)\<rparr>)"

definition timed :: "planned_upload \<Rightarrow> bool" where
  "timed u \<longleftrightarrow> (\<exists>ms. mtime_unix_ms (up_entry u) = Some ms \<and> \<bar>ms\<bar> \<le> i64_max)"

lemma install_upload_sets:
  assumes I: "ops_inv uuid root files v (u # us) s" and o: "install_upload uuid project staging u s = (Inr x, s')"
    and a: "apart project root" "apart project files" "apart root files" and f: "files = staging @ [''files'']"
    and d: "lookup (store s) (staged_file files u) = Some (File d)" "timed u"
    and dist: "\<forall>x\<in>set us. path (up_entry x) \<noteq> path (up_entry u)"
  shows "\<exists>d'. sets {root, files} (project @ parts (path (up_entry u))) (Some (File d')) s s' \<and> fresh_file u d d'"
    and "\<forall>y\<in>set us. lookup (store s') (staged_file files y) = lookup (store s) (staged_file files y)"
proof -
  let ?p = "path (up_entry u)" and ?t = "project @ parts (path (up_entry u))" and ?sg = "staged_file files u"
  obtain t where r: "resolve_relative_path project ?p = Inr t"
    using o by (cases "resolve_relative_path project ?p") (auto simp: install_upload_def Let_def bindS_def liftR_def)
  then have t: "t = ?t" by (rule resolve_InrD)
  have sg: "resolve_relative_path (staging @ [''files'']) ?p = Inr ?sg"
    using resolve_any [OF r, of "staging @ [''files'']"] by (simp add: staged_file_def f)
  obtain s1 where q: "install_file uuid ?sg ?t ?p s = (Inr (), s1)"
    and o2: "set_file_attributes ?t (mtime_unix_ms (up_entry u)) (executable (up_entry u)) s1 = (Inr x, s')"
    using o r sg t by (auto simp: install_upload_def Let_def liftR_def elim!: bindS_InrE)
  have at: "apart ?t root" "apart ?t files"
    using apart_extend [OF a(1), of "parts ?p" "[]"] apart_extend [OF a(2), of "parts ?p" "[]"] by simp_all
  have C: "commit_inv uuid root files v s" and S: "staged_all files (u # us) s" using I by (simp_all add: ops_inv_def)
  have ok: "store_ok (store s)" using C by (auto simp: commit_inv_def tx_inv_def)
  have s1: "sets {root, files} ?t (Some (File d)) s s1"
    by (rule install_file_sets [OF C at a(3) q d(1)]) (simp add: staged_file_def)
  have out: "\<forall>x\<in>{root, files}. \<not> is_prefix x ?t" using at by (auto simp: apart_def)
  have l1: "lookup (store s1) ?t = Some (File d)" using s1 out by (simp add: sets_def)
  obtain ms where ms: "mtime_unix_ms (up_entry u) = Some ms" "\<bar>ms\<bar> \<le> i64_max" using d(2) by (auto simp: timed_def)
  obtain d' where d': "\<forall>q. lookup (store s') q = (if q = ?t then Some (File d') else lookup (store s1) q)" "fresh_file u d d'"
    using set_attributes_effect [OF o2 [unfolded ms(1)] l1 ms(2)] ms(1) by (auto simp: fresh_file_def)
  then have "sets {root, files} ?t (Some (File d')) s s'" using s1 by (simp add: sets_def)
  with d'(2) show "\<exists>d'. sets {root, files} ?t (Some (File d')) s s' \<and> fresh_file u d d'" by blast
  have tc: "touches {?sg, ?t, root} s s1" using install_file_touches [OF q] ops_root [OF I] by simp
  show "\<forall>y\<in>set us. lookup (store s') (staged_file files y) = lookup (store s) (staged_file files y)"
  proof
    fix y assume y: "y \<in> set us"
    have "is_prefix files (staged_file files y)" by (simp add: staged_file_def is_prefix_iff)
    then have "staged_file files y \<noteq> ?t" using at(2) by (auto simp: apart_def)
    then have "lookup (store s') (staged_file files y) = lookup (store s1) (staged_file files y)" using d'(1) by simp
    also have "\<dots> = lookup (store s) (staged_file files y)"
      using staged_other [OF tc S refl at(2) a(3) ok _ y] dist y by blast
    finally show "lookup (store s') (staged_file files y) = lookup (store s) (staged_file files y)" .
  qed
qed

lemma install_uploads_sets:
  assumes "ops_inv uuid root files v us s" "forS (install_upload uuid project staging) us s = (Inr x, s')"
    and a: "apart project root" "apart project files" "apart root files" "files = staging @ [''files'']"
    and "distinct (map (path \<circ> up_entry) us)" "\<forall>u\<in>set us. lookup (store s) (staged_file files u) = Some (File (c u)) \<and> timed u"
    and q: "is_prefix project q"
  shows "if \<exists>u\<in>set us. q = project @ parts (path (up_entry u))
     then \<exists>u\<in>set us. \<exists>d'. q = project @ parts (path (up_entry u)) \<and> lookup (store s') q = Some (File d') \<and> fresh_file u (c u) d'
     else lookup (store s') q = lookup (store s) q"
  using assms(1,2,7,8)
proof (induction us arbitrary: s)
  case (Cons u us)
  obtain s1 where 1: "install_upload uuid project staging u s = (Inr (), s1)"
    and r: "forS (install_upload uuid project staging) us s1 = (Inr x, s')"
    using Cons.prems(2) by (auto elim!: bindS_InrE)
  have dist: "\<forall>x\<in>set us. path (up_entry x) \<noteq> path (up_entry u)" using Cons.prems(3) by (fastforce simp: image_iff)
  have out: "\<forall>x\<in>{root, files}. \<not> is_prefix x q"
    using a(1,2) q by (auto simp: is_prefix_iff apart_def append_eq_append_conv2)
  have lu: "lookup (store s) (staged_file files u) = Some (File (c u))" "timed u" using Cons.prems(4) by auto
  note E = install_upload_sets [OF Cons.prems(1) 1 a lu dist]
  obtain d' where d': "sets {root, files} (project @ parts (path (up_entry u))) (Some (File d')) s s1" "fresh_file u (c u) d'"
    using E(1) by blast
  have I1: "ops_inv uuid root files v us s1" by (rule install_upload_inv [OF Cons.prems(1) 1 a dist])
  have "\<forall>u\<in>set us. lookup (store s1) (staged_file files u) = Some (File (c u)) \<and> timed u"
    using E(2) Cons.prems(4) by simp
  note IH = Cons.IH [OF I1 r _ this] 
  have q1: "lookup (store s1) q = (if q = project @ parts (path (up_entry u)) then Some (File d') else lookup (store s) q)"
    using d'(1) out by (simp add: sets_def)
  show ?case
  proof (cases "\<exists>u\<in>set us. q = project @ parts (path (up_entry u))")
    case True
    then show ?thesis using IH Cons.prems(3) by auto
  next
    case False
    then show ?thesis using IH Cons.prems(3) q1 d'(2) by auto
  qed
qed (simp add: okS_def)

section \<open>The operations of a commit\<close>

definition target :: "path \<Rightarrow> string \<Rightarrow> path" where
  "target project p = project @ parts p"

lemma ops_tx:
  assumes "ops_inv uuid root files v us s" obtains w where "tx_inv uuid root (fst v, w) s"
  using assms by (auto simp: ops_inv_def commit_inv_def)

lemma on_targetD:
  assumes "bindS (liftR (resolve_relative_path project p)) f s = (Inr b, s')"
  shows "f (target project p) s = (Inr b, s')"
proof -
  obtain t where t: "resolve_relative_path project p = Inr t" "f t s = (Inr b, s')"
    using assms by (cases "resolve_relative_path project p") (auto simp: bindS_def liftR_def)
  with resolve_InrD(1) [OF t(1)] show ?thesis by (simp add: target_def)
qed

lemma delete_all_sets:
  assumes "delete_all f ps acc s = (Inr xs, s')" "I s"
    and "\<And>p. p \<in> set ps \<Longrightarrow> stable I (f p)"
    and "\<And>p s b s'. I s \<Longrightarrow> f p s = (Inr b, s') \<Longrightarrow> sets {root} (target project p) None s s'"
    and "\<not> is_prefix root q"
  shows "lookup (store s') q = (if q \<in> target project ` set ps then None else lookup (store s) q)"
  using assms(1,2,3)
proof (induction ps arbitrary: acc s)
  case (Cons p ps)
  obtain b s1 where 1: "f p s = (Inr b, s1)"
    and r: "delete_all f ps (if b then acc @ [p] else acc) s1 = (Inr xs, s')"
    using Cons.prems(1) by (auto elim!: bindS_InrE)
  have I1: "I s1" using stableD [where I = I and m = "f p", OF _ Cons.prems(2) 1] Cons.prems(3) by simp
  have "lookup (store s1) q = (if q = target project p then None else lookup (store s) q)"
    using assms(4) [OF Cons.prems(2) 1] assms(5) by (simp add: sets_def)
  with Cons.IH [OF r I1] Cons.prems(3) show ?case by auto
qed (simp add: okS_def)

lemma create_all_sets:
  assumes "forS (\<lambda>p. bindS (liftR (resolve_relative_path project p)) (\<lambda>t. tx_create_dir t p)) ps s = (Inr u, s')"
  shows "lookup (store s') q = (if q \<in> target project ` set ps then Some Dir else lookup (store s) q)"
  using assms
proof (induction ps arbitrary: s)
  case (Cons p ps)
  obtain s1 where 1: "bindS (liftR (resolve_relative_path project p)) (\<lambda>t. tx_create_dir t p) s = (Inr (), s1)"
    and r: "forS (\<lambda>p. bindS (liftR (resolve_relative_path project p)) (\<lambda>t. tx_create_dir t p)) ps s1 = (Inr u, s')"
    using Cons.prems unfolding forS.simps by (rule bindS_InrE) auto
  have "lookup (store s1) q = (if q = target project p then Some Dir else lookup (store s) q)"
    using create_dir_sets [OF on_targetD [OF 1]] by (simp add: sets_def)
  with Cons.IH [OF r] show ?case by auto
qed (simp add: okS_def)

lemma commit_operations_sets:
  fixes plan :: "'y commit_plan_scheme"
  defines "files \<equiv> staging_dir plan @ [''files'']" and "root \<equiv> rollback_dir plan" and "tgt \<equiv> target (project_dir plan)"
  assumes I: "ops_inv uuid root files v (bt_values (upload_files plan)) s"
    and o: "commit_operations uuid plan s = (Inr resp, s')"
    and a: "apart (project_dir plan) (staging_dir plan)"
    and d: "distinct (map (path \<circ> up_entry) (bt_values (upload_files plan)))"
    and c: "\<forall>u\<in>set (bt_values (upload_files plan)). lookup (store s) (staged_file files u) = Some (File (c u)) \<and> timed u"
    and q: "below (project_dir plan) q"
  shows "if \<exists>u\<in>set (bt_values (upload_files plan)). q = tgt (path (up_entry u))
     then \<exists>u\<in>set (bt_values (upload_files plan)). \<exists>d'. q = tgt (path (up_entry u)) \<and>
        lookup (store s') q = Some (File d') \<and> fresh_file u (c u) d'
     else lookup (store s') q =
       (if q \<in> tgt ` set (create_dirs plan) then Some Dir
        else if q \<in> tgt ` (set (delete_files plan) \<union> set (delete_dirs plan)) then None
        else lookup (store s) q)"
proof -
  let ?us = "bt_values (upload_files plan)" and ?P = "project_dir plan"
  have ap: "apart (?P @ x) root" "apart (?P @ x) files" for x
    using apart_extend [OF a] by (simp_all add: root_def files_def rollback_dir_def)
  have rf: "apart root files" by (simp add: root_def files_def rollback_dir_def apart_def is_prefix_iff)
  note P = ap [of "[]", simplified]
  have ta: "apart (target ?P p) root" "apart (target ?P p) files" for p using ap by (simp_all add: target_def)
  have t: "apart t root \<and> apart t files" if "resolve_relative_path ?P p = Inr t" for p t
    using resolve_InrD(1) [OF that] ap by simp
  let ?I = "ops_inv uuid root files v ?us"
  obtain s1 s2 s3 s4 xs ys where
    1: "tx_create_dir ?P ''project root'' s = (Inr (), s1)"
    and 2: "delete_all (\<lambda>p. bindS (liftR (resolve_relative_path ?P p)) (\<lambda>t. delete_file uuid t p)) (delete_files plan) [] s1 = (Inr xs, s2)"
    and 3: "delete_all (\<lambda>p. bindS (liftR (resolve_relative_path ?P p)) (\<lambda>t. delete_empty_dir uuid t p)) (delete_dirs plan) [] s2 = (Inr ys, s3)"
    and 4: "forS (\<lambda>p. bindS (liftR (resolve_relative_path ?P p)) (\<lambda>t. tx_create_dir t p)) (create_dirs plan) s3 = (Inr (), s4)"
    and 5: "forS (install_upload uuid ?P (staging_dir plan)) ?us s4 = (Inr (), s')"
    using o unfolding commit_operations_def by (auto simp: okS_def elim!: bindS_InrE)
  have st2: "stable ?I (bindS (liftR (resolve_relative_path ?P p)) (\<lambda>t. delete_file uuid t p))" for p
    by (intro stable_liftR_bind stable_delete_file; use t rf in blast)
  have st3: "stable ?I (bindS (liftR (resolve_relative_path ?P p)) (\<lambda>t. delete_empty_dir uuid t p))" for p
    by (intro stable_liftR_bind stable_delete_empty_dir; use t rf in blast)
  have I1: "?I s1" by (rule stableD [OF stable_create_dir [OF P rf] I 1])
  have I2: "?I s2" by (rule stableD [OF stable_delete_all [OF st2] I1 2])
  have I3: "?I s3" by (rule stableD [OF stable_delete_all [OF st3] I2 3])
  have "stable ?I (forS (\<lambda>p. bindS (liftR (resolve_relative_path ?P p)) (\<lambda>t. tx_create_dir t p)) (create_dirs plan))"
    by (intro stable_forS stable_liftR_bind stable_create_dir; use t rf in blast)
  then have I4: "?I s4" using I3 4 by (rule stableD)
  have nr: "\<not> is_prefix root x" if "is_prefix ?P x" for x
    using P(1) that by (auto simp: is_prefix_iff apart_def append_eq_append_conv2)
  have nf: "\<not> is_prefix ?P (staged_file files u)" for u
    using apart_extend [OF P(2), of "[]" "parts (path (up_entry u))"] by (simp add: apart_def staged_file_def)
  have D2: "sets {root} (target ?P p) None s0 s0'"
    if "?I s0" "bindS (liftR (resolve_relative_path ?P p)) (\<lambda>t. delete_file uuid t p) s0 = (Inr b, s0')" for p s0 b s0'
    using that(1) by (rule ops_tx) (rule delete_file_sets [OF _ ta(1) on_targetD [OF that(2)]])
  have D3: "sets {root} (target ?P p) None s0 s0'"
    if "?I s0" "bindS (liftR (resolve_relative_path ?P p)) (\<lambda>t. delete_empty_dir uuid t p) s0 = (Inr b, s0')" for p s0 b s0'
    using that(1) by (rule ops_tx) (rule delete_empty_dir_sets [OF _ ta(1) on_targetD [OF that(2)]])
  have before: "lookup (store s4) x =
       (if x \<in> tgt ` set (create_dirs plan) then Some Dir
        else if x \<in> tgt ` (set (delete_files plan) \<union> set (delete_dirs plan)) then None
        else if x = ?P then Some Dir else lookup (store s) x)" if "\<not> is_prefix root x" for x
    using create_all_sets [OF 4] delete_all_sets [where I = ?I, OF 2 I1 st2 D2 that] delete_all_sets [where I = ?I, OF 3 I2 st3 D3 that]
      create_dir_sets [OF 1] by (auto simp: sets_def tgt_def)
  have "lookup (store s4) (staged_file files u) = lookup (store s) (staged_file files u)" for u
  proof -
    have "staged_file files u \<notin> tgt ` S" for S using nf [of u] by (auto simp: tgt_def target_def is_prefix_iff)
    moreover have "staged_file files u \<noteq> ?P" using nf [of u] by auto
    moreover have "\<not> is_prefix root (staged_file files u)"
      using rf by (auto simp: is_prefix_iff apart_def append_eq_append_conv2 staged_file_def)
    ultimately show ?thesis using before by simp
  qed
  then have c4: "\<forall>u\<in>set ?us. lookup (store s4) (staged_file files u) = Some (File (c u)) \<and> timed u" using c by simp
  have pq: "is_prefix ?P q" "q \<noteq> ?P" using q by (auto simp: below_def)
  note U = install_uploads_sets [OF I4 5 P rf files_def [THEN meta_eq_to_obj_eq] d c4 pq(1), folded target_def, folded tgt_def]
  have b: "lookup (store s4) q =
       (if q \<in> tgt ` set (create_dirs plan) then Some Dir
        else if q \<in> tgt ` (set (delete_files plan) \<union> set (delete_dirs plan)) then None
        else lookup (store s) q)" using before [OF nr [OF pq(1)]] pq(2) by simp
  show ?thesis using U unfolding b .
qed

section \<open>A commit that succeeds\<close>

text \<open>A staged file that passed the check has the announced size and digest.\<close>

definition staged_ok :: "(string \<Rightarrow> string) \<Rightarrow> planned_upload \<Rightarrow> file_data \<Rightarrow> bool" where
  "staged_ok sha u d \<longleftrightarrow> length (fbytes d) = ft_size (up_transfer u) \<and> hash_bytes sha (fbytes d) = ft_sha (up_transfer u)"

lemma check_staged_content:
  assumes "check_staged sha cfg staging u s = (Inr x, s')"
  shows "\<exists>d. lookup (store s) (staged_file (staging @ [''files'']) u) = Some (File d) \<and> staged_ok sha u d"
proof -
  obtain s1 t st s2 where n: "ensure_path_has_no_links staging (''files/'' @ path (up_entry u)) s = (Inr (), s1)"
    and r: "resolve_relative_path (staging @ [''files'']) (path (up_entry u)) = Inr st"
    and o: "open_file_for_transfer sha (max_file_bytes cfg) st (path (up_entry u)) s1 = (Inr t, s2)"
    and e: "ft_size t = ft_size (up_transfer u)" "ft_sha t = ft_sha (up_transfer u)"
    using assms unfolding check_staged_def Let_def
    by (elim bindS_InrE) (auto simp: liftR_def ensure_def split: if_splits)
  have "store s1 = store s" using keepsD [OF keeps_only_no_links n] only_faultsD(1) by blast
  with open_transferD(1) [OF o] resolve_InrD(1) [OF r] e show ?thesis
    by (auto simp: staged_file_def staged_ok_def transfer_of_def)
qed

lemma check_staged_contents:
  assumes "forS (check_staged sha cfg staging) us s = (Inr x, s')"
  shows "\<forall>u\<in>set us. \<exists>d. lookup (store s) (staged_file (staging @ [''files'']) u) = Some (File d) \<and> staged_ok sha u d"
  using assms
proof (induction us arbitrary: s)
  case (Cons u us)
  then obtain s1 where 1: "check_staged sha cfg staging u s = (Inr (), s1)"
    and r: "forS (check_staged sha cfg staging) us s1 = (Inr x, s')"
    by (auto elim!: bindS_InrE)
  have "store s1 = store s" using check_staged_file(1) [OF 1] only_faultsD(1) by blast
  then show ?case using Cons.IH [OF r] check_staged_content [OF 1] by simp
qed simp

lemma apply_commit_runs:
  fixes plan :: "'y commit_plan_scheme" and s s' :: "'z txn_scheme"
  assumes I: "prep_inv (staging_dir plan) s s" and u: "inj uuid"
    and a: "apart (project_dir plan) (staging_dir plan)"
    and r: "apply_commit sha display uuid cfg plan s = (Inr resp, s')" and nr: "\<not> reset plan"
  obtains s1 v where "ops_inv uuid (rollback_dir plan) (staging_dir plan @ [''files'']) v (bt_values (upload_files plan)) s1"
    "\<forall>u\<in>set (bt_values (upload_files plan)). \<exists>d. lookup (store s1) (staged_file (staging_dir plan @ [''files'']) u) = Some (File d) \<and>
       staged_ok sha u d"
    "\<forall>q. is_prefix (project_dir plan) q \<longrightarrow> lookup (store s1) q = lookup (store s) q"
    "commit_operations uuid plan s1 = (Inr resp, s')"
proof -
  let ?us = "bt_values (upload_files plan)" and ?files = "staging_dir plan @ [''files'']"
  obtain a1 a2 a3 a4 a5 where 1: "check_project_root (workspace_root cfg) (project_dir plan) s = (Inr (), a1)"
    and 2: "ensure_same_filesystem (workspace_root cfg) (staging_dir plan) (project_dir plan) a1 = (Inr (), a2)"
    and 3: "forS (check_staged sha cfg (staging_dir plan)) ?us a2 = (Inr (), a3)"
    and 4: "forS (check_target sha display cfg plan)
                (create_dirs plan @ bt_keys (upload_files plan) @ delete_files plan @ delete_dirs plan) a3 = (Inr (), a4)"
    and 5: "txn_new (rollback_dir plan) a4 = (Inr (), a5)"
    and 6: "settle_transaction (commit_operations uuid plan) a5 = (Inr resp, s')"
    using r nr unfolding apply_commit_def by (auto elim!: bindS_InrE)
  have o2: "only_faults s a2"
    using keepsD [OF keeps_only_check_root 1] keepsD [OF keeps_only_same_filesystem 2] only_faults_trans by blast
  note C = check_staged_all [OF 3] and W = check_staged_contents [OF 3]
  have o3: "only_faults s a3" using only_faults_trans o2 C by blast
  have ks: "keeps only_faults (forS (check_target sha display cfg plan) xs)" for xs
    by (intro keeps_only(6)) simp
  have o4: "only_faults s a4" using only_faults_trans [OF o3 keepsD [OF ks 4]] .
  have sg: "prep_staged (staging_dir plan) ?us s a4"
    using prep_inv_only [OF I o4] C only_faultsD(1) [OF o2] only_faultsD(1) [OF o4]
    by (auto simp: prep_staged_def staged_all_def)
  note T = txn_new_start [OF sg u 5 [unfolded rollback_dir_def]]
  have st: "tx_start uuid a5" and b: "backup_root a5 = rollback_dir plan" and sa: "staged_all ?files ?us a5"
    using T(2) by (auto simp: rollback_dir_def)
  have O: "ops_inv uuid (rollback_dir plan) ?files (vol a5) ?us a5"
    using start_commit_inv [OF st, of ?files] sa b by (simp add: ops_inv_def)
  have ok4: "store_ok (store a4)" using sg by (simp add: prep_staged_def prep_inv_def)
  have grow: "lookup (store a5) q = Some n" if "lookup (store a4) q = Some n" for q n
  proof -
    obtain z a where "create_dir_all (rollback_dir plan) a4 = (z, a)" "store a5 = store a"
      using 5 by (auto simp: txn_new_def split: prod.splits sum.splits)
    with create_dir_all_grows(2) [OF _ ok4 that] show ?thesis by simp
  qed
  have "\<forall>u\<in>set ?us. \<exists>d. lookup (store a5) (staged_file ?files u) = Some (File d) \<and> staged_ok sha u d"
    using W grow only_faultsD(1) [OF o2] only_faultsD(1) [OF o4] by fastforce
  moreover have "lookup (store a5) q = lookup (store s) q" if "is_prefix (project_dir plan) q" for q
  proof -
    have "\<not> is_prefix (staging_dir plan) q"
      using that apart_extend [OF a, of _ "[]"] by (auto simp: is_prefix_iff [of "project_dir plan"] apart_def)
    then show ?thesis using T(1) by (simp add: touches_def)
  qed
  moreover have "commit_operations uuid plan a5 = (Inr resp, s')"
    using 6 by (auto simp: settle_transaction_def split: prod.splits sum.splits)
  ultimately show thesis using that O by blast
qed

lemma target_inj: "target P p = target P q \<Longrightarrow> p = q"
  unfolding target_def by (metis join_split same_append_eq)

lemma target_below: "below P (target P p)"
  by (simp add: below_append target_def)

lemma target_rel: "rel_name P (target P p) = p"
  by (simp add: rel_name_def target_def join_split)

lemma fresh_describes:
  assumes f: "fresh_file u d d'" and s: "staged_ok sha u d" and t: "file_transfer (up_entry u) = Inr (up_transfer u)"
  shows "up_entry u = file_entry sha (path (up_entry u)) d'"
proof -
  have e: "file_entry sha (path (up_entry u)) d' = (file_entry sha (path (up_entry u)) d)
      \<lparr>mtime_unix_ms := mtime_unix_ms (up_entry u), executable := executable (up_entry u)\<rparr>"
    using f by (simp add: fresh_file_def)
  show ?thesis unfolding e using s t
    by (cases "up_entry u"; cases "up_transfer u") (auto simp: file_entry_def staged_ok_def file_transfer_def res_simps ok_or_def split: if_splits option.splits)
qed

lemma push_commit_effect:
  fixes plan :: "'y commit_plan_scheme" and s s' :: "'z txn_scheme"
  assumes I: "prep_inv (staging_dir plan) s s" and u: "inj uuid"
    and a: "apart (project_dir plan) (staging_dir plan)" and nr: "\<not> reset plan"
    and r: "apply_commit sha display uuid cfg plan s = (Inr resp, s')"
    and d: "plan_diff_of base wanted del plan0 = Inr plan" "clear_diff plan0" "closed_map base" "closed_map wanted"
    and t: "\<forall>e\<in>set (bt_values wanted). \<forall>ms. mtime_unix_ms e = Some ms \<longrightarrow> \<bar>ms\<bar> \<le> i64_max"
  shows "map_of (upload_files plan) p = Some up \<Longrightarrow> describes sha (store s') (project_dir plan) (up_entry up)"
    and "map_of (upload_files plan) p = None \<Longrightarrow> lookup (store s') (target (project_dir plan) p) =
       (if p \<in> set (create_dirs plan) then Some Dir
        else if p \<in> set (delete_files plan) \<union> set (delete_dirs plan) then None
        else lookup (store s) (target (project_dir plan) p))"
    and "below (project_dir plan) q \<Longrightarrow> map_of base (rel_name (project_dir plan) q) = None \<Longrightarrow>
       map_of wanted (rel_name (project_dir plan) q) = None \<Longrightarrow> lookup (store s') q = lookup (store s) q"
proof -
  let ?us = "bt_values (upload_files plan)" and ?P = "project_dir plan" and ?files = "staging_dir plan @ [''files'']"
  note L = plan_lists [OF d]
  have kw: "keyed wanted" using d(4) by (simp add: closed_map_def)
  have bt: "bt_ok (upload_files plan)" using L(4) by (simp add: uploads_ok_def)
  have U: "up_entry u \<in> set (bt_values wanted) \<and> path (up_entry u) = p \<and> needs_upload base (up_entry u) \<and>
      file_transfer (up_entry u) = Inr (up_transfer u)" if "map_of (upload_files plan) p = Some u" for p u
    using L(4) that by (simp add: uploads_ok_def)
  have M: "map_of (upload_files plan) (path (up_entry u)) = Some u" if u: "u \<in> set ?us" for u
  proof -
    obtain p where "map_of (upload_files plan) p = Some u"
      using u by (auto simp: map_of_eq_Some_iff_bt [OF bt])
    then show ?thesis using U [of p u] by simp
  qed
  have dist: "distinct (map (path \<circ> up_entry) ?us)"
  proof -
    have "path (up_entry u) = p" if "(p, u) \<in> set (upload_files plan)" for p u
      using U [of p u] that map_of_eq_Some_iff_bt [OF bt] by simp
    then have e: "map (path \<circ> up_entry) ?us = bt_keys (upload_files plan)" by auto
    show ?thesis unfolding e by (rule bt_ok_distinct [OF bt])
  qed
  have timed: "timed u" if "u \<in> set ?us" for u
    using U [OF M [OF that]] t by (auto simp: timed_def file_transfer_def res_simps ok_or_def split: if_splits option.splits)
  obtain s1 v where O: "ops_inv uuid (rollback_dir plan) ?files v ?us s1"
    and W: "\<forall>u\<in>set ?us. \<exists>d. lookup (store s1) (staged_file ?files u) = Some (File d) \<and> staged_ok sha u d"
    and same: "\<forall>q. is_prefix ?P q \<longrightarrow> lookup (store s1) q = lookup (store s) q"
    and o: "commit_operations uuid plan s1 = (Inr resp, s')"
    using apply_commit_runs [OF I u a r nr] .
  obtain c where c: "\<forall>u\<in>set ?us. lookup (store s1) (staged_file ?files u) = Some (File (c u)) \<and> staged_ok sha u (c u)"
    using bchoice [OF W] by blast
  have c': "\<forall>u\<in>set ?us. lookup (store s1) (staged_file ?files u) = Some (File (c u)) \<and> timed u" using c timed by blast
  note E = commit_operations_sets [OF O o a dist c']
  have none: "\<not> (\<exists>u\<in>set ?us. target ?P p = target ?P (path (up_entry u)))" if "map_of (upload_files plan) p = None" for p
    using that M target_inj [of ?P p] by fastforce
  show "describes sha (store s') ?P (up_entry up)" if p: "map_of (upload_files plan) p = Some up"
  proof -
    have in_us: "up \<in> set ?us" using p map_of_eq_Some_iff_bt [OF bt] by force
    have "\<exists>u\<in>set ?us. target ?P p = target ?P (path (up_entry u))" using in_us U [OF p] by blast
    then have "\<exists>u\<in>set ?us. \<exists>d'. target ?P p = target ?P (path (up_entry u)) \<and>
        lookup (store s') (target ?P p) = Some (File d') \<and> fresh_file u (c u) d'"
      using E [OF target_below [of ?P p]] by (simp only: if_True)
    then obtain u d' where x: "u \<in> set ?us" "target ?P p = target ?P (path (up_entry u))"
        "lookup (store s') (target ?P p) = Some (File d')" "fresh_file u (c u) d'" by blast
    have "p = path (up_entry u)" by (rule target_inj [OF x(2)])
    then have "u = up" using M [OF x(1)] p by simp
    have "up_entry up = file_entry sha (path (up_entry up)) d'"
      by (rule fresh_describes [of _ "c up"]) (use x(4) c in_us U [OF p] \<open>u = up\<close> in auto)
    then show ?thesis using x(3) U [OF p] by (simp add: describes_def target_def)
  qed
  show "lookup (store s') (target ?P p) =
       (if p \<in> set (create_dirs plan) then Some Dir
        else if p \<in> set (delete_files plan) \<union> set (delete_dirs plan) then None
        else lookup (store s) (target ?P p))" if p: "map_of (upload_files plan) p = None"
  proof -
    have i: "target ?P p \<in> target ?P ` S \<longleftrightarrow> p \<in> S" for S using target_inj by blast
    have "is_prefix ?P (target ?P p)" by (simp add: target_def is_prefix_iff)
    then show ?thesis using E [OF target_below] none [OF p] same by (simp add: i)
  qed
  show "lookup (store s') q = lookup (store s) q"
    if q: "below ?P q" and n: "map_of base (rel_name ?P q) = None" "map_of wanted (rel_name ?P q) = None"
  proof -
    have 1: "q \<noteq> target ?P (path (up_entry u))" if "u \<in> set ?us" for u
    proof -
      have "map_of wanted (path (up_entry u)) = Some (up_entry u)"
        unfolding keyed_lookup [OF kw] using U [OF M [OF that]] by blast
      with n(2) show ?thesis by (auto simp: target_rel)
    qed
    have 2: "q \<noteq> target ?P p" if "p \<in> set (create_dirs plan)" for p
      using that L(1) n(2) by (auto simp: target_rel)
    have 3: "q \<noteq> target ?P p" if "p \<in> set (delete_files plan) \<union> set (delete_dirs plan)" for p
      using that L(2,3) n(1) by (auto simp: target_rel)
    have "is_prefix ?P q" using q by (simp add: below_def)
    then show ?thesis using E [OF q] 1 2 3 same by (auto split: if_splits)
  qed
qed

end
