(* ===== verification/Sync_Properties.thy ===== *)
theory Sync_Properties
  imports Push_Commit
begin

text \<open>
  The properties of the synchronisation engine that rest on the lemmas of the theories before:
  plans, manifests, path checks, staged uploads, file attributes and error messages, each with a
  concrete instance.
\<close>

section \<open>Demonstration values\<close>

definition demo_filters :: sync_filters where
  "demo_filters = \<lparr>include_set = (\<lambda>_. False), include_active = False, exclude_set = (\<lambda>_. False)\<rparr>"

definition demo_fs :: "io_error option list \<Rightarrow> unit fs_scheme" where
  "demo_fs fl = \<lparr>store = demo_store, device = (\<lambda>_. 0), faults = fl, \<dots> = ()\<rparr>"

definition demo_client :: "manifest_entry list" where
  "demo_client = [dir_entry ''a'', (demo_entry ''new'')\<lparr>path := ''a/b''\<rparr>]"

lemma demo_fs_ok: "store_ok (store (demo_fs [])) \<and> names_ok (store (demo_fs [])) \<and> honest (demo_fs [])"
  by code_simp

lemma demo_digest: "digest_ok demo_sha"
  by (simp add: digest_ok_def demo_sha_def)

section \<open>Plans\<close>

lemma bt_insert_subset: "set (bt_insert k v m) \<subseteq> insert (k, v) (set m)"
  by (induction k v m rule: bt_insert.induct) auto

lemma bt_of_list_subset: "set (bt_of_list kvs) \<subseteq> set kvs"
proof -
  have "set (fold (\<lambda>(k, v). bt_insert k v) kvs m) \<subseteq> set m \<union> set kvs" for m
  proof (induction kvs arbitrary: m)
    case (Cons kv kvs)
    show ?case using Cons [of "bt_insert (fst kv) (snd kv) m"] bt_insert_subset [of "fst kv" "snd kv" m]
      by (cases kv) auto
  qed simp
  from this [of "[]"] show ?thesis by (simp add: bt_of_list_def)
qed

lemma keyed_manifest_map: "keyed (manifest_map es)"
  using bt_of_list_subset by (fastforce simp: keyed_def manifest_map_def)

text \<open>
  C2. A push reaches its target. Scan a project with any filters, validate any client manifest with the same
  filters, and make the plan of the two. If \<open>apply_commit\<close> then commits this plan to the project as it was
  scanned and reports success, whatever outside failures happened: every entry of the client is on disk
  with exactly its kind, size, time, digest and executable bit; an entry of the server the client does not
  mention is gone if \<open>delete_extra\<close> is set or a file replaces one of its parents, and is on disk as scanned
  otherwise; and nodes of the project neither manifest mentions (those the filters leave out) are untouched.
\<close>

theorem push_reaches_target:
  fixes plan :: "'y commit_plan_scheme" and s s' :: "'z txn_scheme"
  assumes "scan_manifest_blocking sha f n m (project_dir plan) s0 = (Inr server, s0')"
    and "store_ok (store s0)" "names_ok (store s0)" "digest_ok sha"
    and "validate_client_manifest f n' m' raw = Inr client"
    and "\<forall>e\<in>set client. \<forall>ms. mtime_unix_ms e = Some ms \<longrightarrow> \<bar>ms\<bar> \<le> i64_max"
    and "plan_diff_of (manifest_map server) (manifest_map client) del plan0 = Inr plan" "clear_diff plan0" "\<not> reset plan"
    and "\<forall>q. is_prefix (project_dir plan) q \<longrightarrow> lookup (store s) q = lookup (store s0) q"
    and "inj uuid" "store_ok (store s)" "honest s"
    and "lookup (store s) (staging_dir plan) = Some Dir" "\<not> occupied_below (rollback_dir plan) (store s)"
    and "apart (project_dir plan) (staging_dir plan)"
    and "apply_commit sha display uuid cfg plan s = (Inr resp, s')"
  shows "(\<forall>p e. target_tree del (map_of (manifest_map server)) (map_of (manifest_map client)) p = Some e \<longrightarrow>
       describes sha (store s') (project_dir plan) e) \<and>
    (\<forall>p. map_of (manifest_map server) p \<noteq> None \<and>
         target_tree del (map_of (manifest_map server)) (map_of (manifest_map client)) p = None \<longrightarrow>
       lookup (store s') (project_dir plan @ parts p) = None) \<and>
    (\<forall>q. below (project_dir plan) q \<and> map_of (manifest_map server) (rel_name (project_dir plan) q) = None \<and>
         map_of (manifest_map client) (rel_name (project_dir plan) q) = None \<longrightarrow>
       lookup (store s') q = lookup (store s) q)"
proof (intro conjI allI impI)
  let ?P = "project_dir plan" and ?b = "map_of (manifest_map server)" and ?w = "map_of (manifest_map client)"
  have S: "manifest_ok server" by (rule scan_manifest_facts(1) [OF assms(1-4)])
  have C: "manifest_ok client" by (rule client_manifest_ok(1) [OF assms(5)])
  note sc = manifest_map_closed [OF S] and cc = manifest_map_closed [OF C]
  have I: "prep_inv (staging_dir plan) s s"
    using assms(12-15) by (auto simp: prep_inv_def occupied_below_def rollback_dir_def)
  have t: "\<forall>e\<in>set (bt_values (manifest_map client)). \<forall>ms. mtime_unix_ms e = Some ms \<longrightarrow> \<bar>ms\<bar> \<le> i64_max"
    using assms(6) unfolding cc(2) .
  note E = push_commit_effect [OF I assms(11,16,9,17,7,8) sc(1) cc(1) t]
  note R = plan_result [OF assms(7,8) sc(1) cc(1)]
  show "lookup (store s') q = lookup (store s) q"
    if "below ?P q \<and> ?b (rel_name ?P q) = None \<and> ?w (rel_name ?P q) = None" for q
    using E(3) that by blast
  fix p
  show "describes sha (store s') ?P e" if e: "target_tree del ?b ?w p = Some e" for e
  proof (cases "map_of (upload_files plan) p")
    case (Some u)
    with E(1) [OF this] e R [of p] show ?thesis by simp
  next
    case None
    note N = E(2) [OF this]
    show ?thesis
    proof (cases "p \<in> set (create_dirs plan)")
      case True
      with e R [of p] None have "e = dir_entry p" by simp
      with True N show ?thesis by (simp add: describes_def target_def)
    next
      case False
      then have b: "?b p = Some e" and l: "lookup (store s') (target ?P p) = lookup (store s) (target ?P p)"
        using N e R [of p] None by (auto split: if_splits)
      have "e \<in> set server" "path e = p"
        using b sc unfolding closed_map_def by (auto simp: keyed_lookup)
      moreover have "describes sha (store s0) ?P e" by (rule scan_manifest_facts(4) [OF assms(1-4) \<open>e \<in> set server\<close>])
      ultimately show ?thesis using l assms(10) by (simp add: describes_def target_def is_prefix_iff)
    qed
  qed
  show "lookup (store s') (?P @ parts p) = None" if "?b p \<noteq> None \<and> target_tree del ?b ?w p = None"
    using that R [of p] E(2) [of p] by (auto simp: target_def split: option.splits if_splits)
qed

text \<open>
  A server with one old file, a client that wants it newer and a directory besides. The entries are
  written out, with the digest of every file of the demonstration.
\<close>

definition demo_hex :: string where
  "demo_hex = concat (replicate 32 ''0a'')"

definition demo_row :: "int \<Rightarrow> bool \<Rightarrow> manifest_entry" where
  "demo_row ms x = \<lparr>path = ''a'', kind = FileEntry, size_bytes = Some 3, mtime_unix_ms = Some ms,
     sha256 = Some demo_hex, executable = x\<rparr>"

definition demo_target :: "manifest_entry list" where
  "demo_target = [demo_row 5 True, dir_entry ''d'']"

definition demo_plan_start :: commit_plan where
  "demo_plan_start = \<lparr>upload_files = [], create_dirs = [], delete_files = [], delete_dirs = [],
     project_dir = [''w'', ''p''], staging_dir = [''w'', ''s''], reset = False,
     baseline = [(''a'', demo_row 1 False)]\<rparr>"

definition demo_push :: commit_plan where
  "demo_push = demo_plan_start\<lparr>create_dirs := [''d''],
     upload_files := [(''a'', \<lparr>up_entry = demo_row 5 True,
       up_transfer = \<lparr>ft_path = ''a'', ft_size = 3, ft_mtime = 5, ft_sha = demo_hex, ft_exec = True\<rparr>\<rparr>)]\<rparr>"

lemma demo_push_dirs: "project_dir demo_push = [''w'', ''p'']" "staging_dir demo_push = [''w'', ''s'']"
  "rollback_dir demo_push = [''w'', ''s'', ''rollback'']"
  by (simp_all add: demo_push_def demo_plan_start_def rollback_dir_def)

theorem push_reaches_target_witness:
  "\<exists>resp s'. apply_commit demo_sha concat demo_uuid demo_config demo_push (demo_txn []) = (Inr resp, s') \<and>
     describes demo_sha (store s') [''w'', ''p''] (demo_row 5 True) \<and> describes demo_sha (store s') [''w'', ''p''] (dir_entry ''d'')"
proof -
  have "is_ok (fst (apply_commit demo_sha concat demo_uuid demo_config demo_push (demo_txn [])))" by code_simp
  then obtain resp s' where r: "apply_commit demo_sha concat demo_uuid demo_config demo_push (demo_txn []) = (Inr resp, s')"
    by (metis is_ok_def prod.collapse sum.case_eq_if sum.collapse(2) old.sum.exhaust)
  have "fst (scan_manifest_blocking demo_sha demo_filters 9 9 [''w'', ''p''] (demo_fs [])) = Inr [demo_row 1 False]"
    by code_simp
  then obtain s0' where s: "scan_manifest_blocking demo_sha demo_filters 9 9 [''w'', ''p''] (demo_fs []) = (Inr [demo_row 1 False], s0')"
    by (metis prod.collapse)
  then have s: "scan_manifest_blocking demo_sha demo_filters 9 9 (project_dir demo_push) (demo_fs []) = (Inr [demo_row 1 False], s0')"
    by (simp add: demo_push_dirs)
  have c: "validate_client_manifest demo_filters 9 9 demo_target = Inr demo_target" by code_simp
  have p: "plan_diff_of (manifest_map [demo_row 1 False]) (manifest_map demo_target) True demo_plan_start = Inr demo_push"
    by code_simp
  have 1: "inj demo_uuid" by (auto simp: inj_def demo_uuid_def replicate_eq_replicate)
  have 2: "store_ok (store (demo_txn []))" "honest (demo_txn [])" by code_simp+
  have 21: "lookup (store (demo_txn [])) (staging_dir demo_push) = Some Dir"
    unfolding demo_push_dirs by code_simp
  have 22: "\<not> occupied_below (rollback_dir demo_push) (store (demo_txn []))"
    unfolding demo_push_dirs by code_simp
  have 3: "apart (project_dir demo_push) (staging_dir demo_push)" by (simp add: apart_def demo_push_dirs)
  have 4: "clear_diff demo_plan_start" "\<not> reset demo_push" by (simp_all add: clear_diff_def demo_push_def demo_plan_start_def)
  have 5: "\<forall>e\<in>set demo_target. \<forall>ms. mtime_unix_ms e = Some ms \<longrightarrow> \<bar>ms\<bar> \<le> i64_max"
    by (simp add: demo_target_def demo_row_def dir_entry_def i64_max_def)
  have 6: "\<forall>q. is_prefix (project_dir demo_push) q \<longrightarrow> lookup (store (demo_txn [])) q = lookup (store (demo_fs [])) q"
    by (simp add: demo_txn_def demo_fs_def)
  have 7: "target_tree True (map_of (manifest_map [demo_row 1 False])) (map_of (manifest_map demo_target)) ''a'' = Some (demo_row 5 True)"
    "target_tree True (map_of (manifest_map [demo_row 1 False])) (map_of (manifest_map demo_target)) ''d'' = Some (dir_entry ''d'')"
    by code_simp+
  note K = push_reaches_target [OF s conjunct1 [OF demo_fs_ok] conjunct1 [OF conjunct2 [OF demo_fs_ok]] demo_digest c 5 p 4 6 1 2 21 22 3 r]
  from conjunct1 [OF K] 7 have "describes demo_sha (store s') [''w'', ''p''] (demo_row 5 True)"
    "describes demo_sha (store s') [''w'', ''p''] (dir_entry ''d'')" unfolding demo_push_dirs by blast+
  with r show ?thesis by blast
qed

text \<open>
  C16. The two planners agree. A pull plan is the push plan with the roles exchanged: for any two
  manifests, including their errors, \<open>create_pull_plan\<close> returns the lists \<open>create_plan\<close> would return
  for a server in the client's state and a client in the server's, its downloads being the transfers
  of the planned uploads in the same order.
\<close>

theorem pull_is_push_reversed:
  "pull_plan_of (manifest_map client) (manifest_map server) del =
    (case plan_diff_of (manifest_map client) (manifest_map server) del empty_diff of
       Inl x \<Rightarrow> Inl x | Inr p \<Rightarrow> Inr (as_pull p))"
  by (rule pull_plan_agrees [OF keyed_manifest_map keyed_manifest_map])

section \<open>Manifests\<close>

text \<open>
  C14. A scan reports the project as it is. When the scan of a directory returns a manifest, the manifest
  is sorted by path without duplicates, closed under parent directories and made of complete entries; it
  respects the configured bound; every entry describes the node of the store at its path (kind, size,
  time, digest, executable bit); every selected node is reported; and the scan changed nothing.
\<close>

theorem scan_is_faithful:
  assumes "scan_manifest_blocking sha f n m root s = (Inr es, s')"
    and "store_ok (store s)" "names_ok (store s)" "digest_ok sha"
  shows "manifest_ok es \<and> length es \<le> n \<and> store s' = store s \<and>
    (\<forall>e\<in>set es. describes sha (store s) root e) \<and>
    (\<forall>p\<in>set (map fst (store s)). below root p \<and> matches_entry f (rel_name root p) \<longrightarrow>
       rel_name root p \<in> path ` set es)"
proof (intro conjI ballI impI)
  note F = scan_manifest_facts [OF assms]
  show "manifest_ok es" "length es \<le> n" by (rule F)+
  show "store s' = store s" using only_faultsD(1) [OF F(3)] .
  show "describes sha (store s) root e" if "e \<in> set es" for e by (rule F(4) [OF that])
  show "rel_name root p \<in> path ` set es"
    if "p \<in> set (map fst (store s))" "below root p \<and> matches_entry f (rel_name root p)" for p
    using F(6) that by blast
qed

theorem scan_is_faithful_witness:
  "\<exists>es s'. scan_manifest_blocking demo_sha demo_filters 9 9 [''w'', ''p''] (demo_fs []) = (Inr es, s') \<and>
     manifest_ok es \<and> ''a'' \<in> path ` set es"
proof -
  have "is_ok (fst (scan_manifest_blocking demo_sha demo_filters 9 9 [''w'', ''p''] (demo_fs [])))" by code_simp
  then obtain es s' where
    s: "scan_manifest_blocking demo_sha demo_filters 9 9 [''w'', ''p''] (demo_fs []) = (Inr es, s')"
    by (metis is_ok_def prod.collapse sum.case_eq_if sum.collapse(2) old.sum.exhaust)
  have a: "[''w'', ''p'', ''a''] \<in> set (map fst (store (demo_fs [])))" "below [''w'', ''p''] [''w'', ''p'', ''a'']"
    "matches_entry demo_filters (rel_name [''w'', ''p''] [''w'', ''p'', ''a''])"
    "rel_name [''w'', ''p''] [''w'', ''p'', ''a''] = ''a''" by code_simp+
  from scan_is_faithful [OF s _ _ demo_digest] demo_fs_ok a s show ?thesis by metis
qed

text \<open>
  C15. A validated client manifest is well-formed: sorted without duplicates, closed under parents (no
  file is an ancestor of another entry), every path portable and below the project, every file with a
  size within the limit, a time and a canonical lower-case digest, every directory bare, and the
  number of entries bounded after the missing parents have been added.
\<close>

theorem client_manifest_wellformed:
  assumes "validate_client_manifest f n m raw = Inr es"
  shows "manifest_ok es \<and> length es \<le> n \<and>
    (\<forall>e\<in>set es. (\<forall>k. size_bytes e = Some k \<longrightarrow> k \<le> m) \<and> (matches_entry f (path e) \<or> e = dir_entry (path e)) \<and>
       (\<exists>q. resolve_relative_path root (path e) = Inr q \<and> below root q))"
proof (intro conjI ballI allI impI)
  note F = client_manifest_ok [OF assms]
  show M: "manifest_ok es" "length es \<le> n" by (rule F)+
  fix e assume e: "e \<in> set es"
  show "k \<le> m" if "size_bytes e = Some k" for k using F(3) e that by blast
  show "matches_entry f (path e) \<or> e = dir_entry (path e)" by (rule F(4) [OF e])
  have "normalize_sync_path (path e) = Inr (path e)" using M(1) e by (simp add: manifest_ok_def normalize_wire)
  then have "resolve_relative_path root (path e) = Inr (root @ parts (path e))"
    by (simp add: resolve_relative_path_def)
  then show "\<exists>q. resolve_relative_path root (path e) = Inr q \<and> below root q" using resolve_below by blast
qed

theorem client_manifest_wellformed_witness:
  "validate_client_manifest demo_filters 9 9 demo_client = Inr demo_client \<and> manifest_ok demo_client"
proof -
  have c: "validate_client_manifest demo_filters 9 9 demo_client = Inr demo_client" by code_simp
  from client_manifest_wellformed [OF c] c show ?thesis by blast
qed

section \<open>Paths\<close>

text \<open>
  C18. Resolving a wire path cannot leave its root and loses nothing: a resolved path is strictly below the
  root, goes through portable names only (no empty name, dot, dot-dot or internal directory), and no
  other wire path resolves to the same place.
\<close>

theorem resolve_stays_below:
  assumes "resolve_relative_path root p = Inr q"
  shows "below root q \<and> q = root @ parts p \<and> (\<forall>c\<in>set (parts p). validate_portable_segment c \<and> c \<noteq> ''..'' \<and> c \<noteq> internal_dir) \<and>
    (\<forall>p'. resolve_relative_path root p' = Inr q \<longrightarrow> p' = p)"
  using resolve_below [OF assms] resolve_InrD [OF assms] resolve_inj [OF assms] portable_not_dots
  by (auto simp: normal_parts_def)

theorem resolve_stays_below_witness:
  "resolve_relative_path [''w''] ''a/b'' = Inr [''w'', ''a'', ''b''] \<and> below [''w''] [''w'', ''a'', ''b'']"
proof -
  have r: "resolve_relative_path [''w''] ''a/b'' = Inr [''w'', ''a'', ''b'']" by code_simp
  from resolve_stays_below [OF r] r show ?thesis by blast
qed

text \<open>
  The name \<open>normalize_sync_path_allow_internal\<close> is misleading: it accepts exactly the paths
  \<open>normalize_sync_path\<close> accepts, since a portable segment is never the internal directory; the extra
  check of \<open>normalize_sync_path\<close> never fires.
\<close>

theorem allow_internal_is_strict:
  "normalize_sync_path_allow_internal raw = Inr p \<longleftrightarrow> normalize_sync_path raw = Inr p"
  by (simp add: allow_internal_wire normalize_wire)

text \<open>
  C20. A created project directory is a real one: when \<open>ensure_project_dir\<close> returns a path, it is the
  workspace root extended by one portable name, every directory of the root is a real directory, and
  the path itself is a directory, not a link.
\<close>

theorem project_dir_is_real:
  assumes "ensure_project_dir w project s = (Inr p, s')" "''.'' \<notin> set w"
  shows "p = w @ [project] \<and> validate_portable_segment project \<and> lookup (store s') p = Some Dir \<and>
    (\<forall>k\<le>length w. lookup (store s') (take k w) = Some Dir)"
  using project_dirD [OF assms] by (auto simp: real_dirs_def)

theorem project_dir_is_real_witness:
  "\<exists>p s'. ensure_project_dir [''w''] ''q'' (demo_fs []) = (Inr p, s') \<and> lookup (store s') p = Some Dir"
proof -
  have "is_ok (fst (ensure_project_dir [''w''] ''q'' (demo_fs [])))" by code_simp
  then obtain p s' where r: "ensure_project_dir [''w''] ''q'' (demo_fs []) = (Inr p, s')"
    by (metis is_ok_def prod.collapse sum.case_eq_if sum.collapse(2) old.sum.exhaust)
  from project_dir_is_real [OF r] r show ?thesis by auto
qed

text \<open>
  C21. The link check means what it says: after \<open>ensure_path_has_no_links\<close> accepts a path, no
  prefix of it below the root is a symbolic link, the root is a chain of real directories, and the
  check changed nothing.
\<close>

theorem no_links_check_sound:
  assumes "ensure_path_has_no_links root n s = (Inr u, s')" "store_ok (store s)" "honest s" "''.'' \<notin> set root"
  shows "(\<forall>k t. lookup (store s) (root @ take k (parts n)) \<noteq> Some (Link t)) \<and>
    (\<forall>k\<le>length root. lookup (store s) (take k root) = Some Dir) \<and> store s' = store s"
  using path_has_no_linksD [OF assms] only_faultsD(1) by (fastforce simp: real_dirs_def)

theorem no_links_check_sound_witness:
  "\<exists>u s'. ensure_path_has_no_links [''w''] ''p/a'' (demo_fs []) = (Inr u, s') \<and> store s' = demo_store"
proof -
  have "is_ok (fst (ensure_path_has_no_links [''w''] ''p/a'' (demo_fs [])))" by code_simp
  then obtain u s' where r: "ensure_path_has_no_links [''w''] ''p/a'' (demo_fs []) = (Inr u, s')"
    by (metis is_ok_def prod.collapse sum.case_eq_if sum.collapse(2) old.sum.exhaust)
  from no_links_check_sound [OF r] demo_fs_ok r show ?thesis by (auto simp: demo_fs_def)
qed

section \<open>Files\<close>

text \<open>
  C17. An accepted body is the expected file. When \<open>write_body_to_file\<close> succeeds, the temporary file
  holds bytes of exactly the expected size, within the limit, whose digest is the expected one,
  however the body was cut into frames.
\<close>

theorem staged_body_is_expected:
  assumes "write_body_to_file sha fresh body tmp k digest maxb idle limit s = (Inr u, s')"
  shows "\<exists>d. lookup (store s') tmp = Some (File d) \<and> length (fbytes d) = k \<and> k \<le> maxb \<and>
    hex_digest (sha (fbytes d)) = digest"
proof -
  obtain s1 s2 s3 hashed where
    w: "write_file tmp (fresh\<lparr>fbytes := []\<rparr>) s = (Inr (), s1)"
    and f: "write_frames tmp k maxb idle limit 0 (frames body) (end_delay body) [] s1 = (Inr hashed, s2)"
    and q: "query (\<lambda>_. Inr ()) s2 = (Inr (), s3)" and y: "sync_path tmp s3 = (Inr (), s')"
    and ok: "k \<le> maxb" "length hashed = k" "hex_digest (sha hashed) = digest"
    using assms unfolding write_body_to_file_def
    by (auto simp: Let_def failS_def okS_def elim!: bindS_InrE dest!: mapErr_InrD split: if_splits)
  have "lookup (store s1) tmp = Some (File (fresh\<lparr>fbytes := []\<rparr>))"
    using w unfolding write_file_def by (auto dest!: syscall_InrD simp: put_file_def lookup_set_node
      split: sum.splits option.splits node.splits)
  from write_framesD [OF f this] obtain d where d: "lookup (store s2) tmp = Some (File d)" "fbytes d = hashed"
    by auto
  moreover have "store s' = store s2"
    using y q by (auto simp: sync_path_def dest!: query_InrD)
  ultimately show ?thesis using ok by auto
qed

text \<open>The bound of \<open>u64\<close> is compared in binary when a witness is evaluated.\<close>

lemma u64_limit_binary [code_unfold]: "u64_limit \<le> n \<longleftrightarrow> 18446744073709551616 \<le> int n"
  by (simp add: u64_limit_def)

definition demo_body :: body where
  "demo_body = \<lparr>frames = [(1, DataFrame ''ne''), (0, TrailerFrame), (2, DataFrame ''w'')], end_delay = 0\<rparr>"

theorem staged_body_is_expected_witness:
  "\<exists>u s' d. write_body_to_file demo_sha (demo_file ''x'') demo_body [''w'', ''s'', ''t''] 3
       (hex_digest (demo_sha ''new'')) 10 5 9 (demo_fs []) = (Inr u, s') \<and>
     lookup (store s') [''w'', ''s'', ''t''] = Some (File d) \<and> length (fbytes d) = 3"
proof -
  let ?r = "write_body_to_file demo_sha (demo_file ''x'') demo_body [''w'', ''s'', ''t''] 3
       (hex_digest (demo_sha ''new'')) 10 5 9 (demo_fs [])"
  have "is_ok (fst ?r)" by code_simp
  then obtain u s' where r: "?r = (Inr u, s')"
    by (metis is_ok_def prod.collapse sum.case_eq_if sum.collapse(2) old.sum.exhaust)
  from staged_body_is_expected [OF r] r show ?thesis by blast
qed

text \<open>
  C19. Attributes survive the round trip. After \<open>set_file_attributes\<close> with a time and an executable
  flag, the entry a scan reports for the file carries exactly that time and flag, with the same bytes
  and digest: for every time whose milliseconds fit in 64 bits, before or after 1970.
\<close>

theorem attributes_roundtrip:
  assumes "set_file_attributes p (Some ms) exec s = (Inr u, s')"
    and "lookup (store s) p = Some (File d)" and "\<bar>ms\<bar> \<le> i64_max"
  shows "\<exists>d'. lookup (store s') p = Some (File d') \<and> fbytes d' = fbytes d \<and>
    file_entry sha rel d' = (file_entry sha rel d)\<lparr>mtime_unix_ms := Some ms, executable := exec\<rparr>"
  using set_attributes_effect [OF assms] by fastforce

theorem attributes_roundtrip_witness:
  "\<exists>u s' d'. set_file_attributes [''w'', ''p'', ''a''] (Some (-5)) True (demo_fs []) = (Inr u, s') \<and>
     lookup (store s') [''w'', ''p'', ''a''] = Some (File d') \<and>
     mtime_unix_ms (file_entry demo_sha ''a'' d') = Some (-5) \<and> executable (file_entry demo_sha ''a'' d')"
proof -
  let ?r = "set_file_attributes [''w'', ''p'', ''a''] (Some (-5)) True (demo_fs [])"
  have "is_ok (fst ?r)" by code_simp
  then obtain u s' where r: "?r = (Inr u, s')"
    by (metis is_ok_def prod.collapse sum.case_eq_if sum.collapse(2) old.sum.exhaust)
  have l: "lookup (store (demo_fs [])) [''w'', ''p'', ''a''] = Some (File (demo_file ''old''))" by code_simp
  have b: "\<bar>-5 :: int\<bar> \<le> i64_max" by (simp add: i64_max_def)
  from attributes_roundtrip [OF r l b, of demo_sha "''a''"] r show ?thesis by fastforce
qed

section \<open>Errors\<close>

lemma client_message_cases:
  "client_message e = ''internal server error'' \<or> client_message e = truncate_message (to_string e)"
  by (cases e) (simp_all only: client_message_def app_error.case simp_thms)

text \<open>
  What a client is told is bounded and never internal: the message of every error envelope has at
  most 1024 characters, an internal error's message is a constant, the diagnostic text is kept for
  server errors only, and every error has a 4xx or 5xx status.
\<close>

theorem error_envelope_bounded:
  "length (chars (body_message (envelope e request_id))) \<le> max_client_message_chars \<and>
   (\<forall>text. body_message (envelope (Internal text) request_id) = ''internal server error'') \<and>
   ((diag_text (into_response e) \<noteq> None) = is_server_error (resp_status (into_response e))) \<and>
   400 \<le> resp_status (into_response e) \<and> resp_status (into_response e) < 600"
proof (intro conjI allI)
  have "length (chars ''internal server error'') \<le> max_client_message_chars" by code_simp
  then show "length (chars (body_message (envelope e request_id))) \<le> max_client_message_chars"
    using truncate_message_bound [of "to_string e"] client_message_cases [of e]
    unfolding envelope_def error_body.simps by metis
  show "body_message (envelope (Internal x) request_id) = ''internal server error''" for x
    by (simp add: envelope_def client_message_def)
  show "(diag_text (into_response e) \<noteq> None) = is_server_error (resp_status (into_response e))"
    by (simp add: into_response_def)
  show "400 \<le> resp_status (into_response e)" "resp_status (into_response e) < 600"
    by (cases e; simp add: into_response_def)+
qed

end
