(* ===== verification/Staging.thy ===== *)
theory Staging
  imports Sync_Commit
begin

text \<open>
  The private staging area of the sync manager: the directory \<open>.vivado-server/staging\<close> of the
  workspace and the per-session directories below it (\<open>private_staging_root\<close>, \<open>create_staging_dir\<close>,
  \<open>remove_staging_dir\<close>, \<open>remove_private_entry\<close> of \<open>src/src/sync.rs\<close>). \<open>is_uuid\<close> stands for
  \<open>Uuid::parse_str(name).is_ok()\<close>.
\<close>

definition staging_path :: "path \<Rightarrow> path" where
  "staging_path w = w @ [internal_dir, ''staging'']"

definition not_real_staging :: app_error where
  "not_real_staging = BadRequest ''private staging root is not a real directory''"

text \<open>One round of the loop: a level that exists must be a real directory, a missing one is created.\<close>

definition private_level :: "path \<Rightarrow> 'z fs_scheme \<Rightarrow> unit res \<times> 'z fs_scheme" where
  "private_level current s =
     (let recheck = bindS (mapErr sync_internal_io (symlink_metadata current))
                      (\<lambda>n. liftR (ensure (n = Dir) not_real_staging)) in
      case symlink_metadata current s of
        (Inr Dir, s1) \<Rightarrow> (Inr (), s1)
      | (Inr _, s1) \<Rightarrow> (Inl not_real_staging, s1)
      | (Inl e, s1) \<Rightarrow>
          if io_kind e = NotFoundK then
            (case create_dir current s1 of
               (Inl e, s2) \<Rightarrow>
                 if io_kind e = AlreadyExistsK then recheck s2 else (Inl (sync_internal_io e), s2)
             | (Inr _, s2) \<Rightarrow> recheck s2)
          else (Inl (sync_internal_io e), s1))"

definition private_staging_root :: "path \<Rightarrow> 'z fs_scheme \<Rightarrow> path res \<times> 'z fs_scheme" where
  "private_staging_root w =
     bindS (mapErr sync_internal_io (symlink_metadata w)) (\<lambda>n.
     if n \<noteq> Dir then failS (BadRequest ''workspace is not a real directory'')
     else foldS (\<lambda>current name. bindS (private_level (current @ [name])) (\<lambda>_. okS (current @ [name])))
            w [''.vivado-server'', ''staging''])"

definition remove_private_entry :: "(string \<Rightarrow> bool) \<Rightarrow> path \<Rightarrow> path \<Rightarrow> 'z fs_scheme \<Rightarrow> unit res \<times> 'z fs_scheme" where
  "remove_private_entry is_uuid root p s =
     (if parent p \<noteq> Some root then (Inl (BadRequest ''cleanup path escapes private staging''), s)
      else if \<not> is_uuid (last p) then (Inl (BadRequest ''unexpected entry in private staging''), s)
      else
        (case symlink_metadata p s of
           (Inr Dir, s1) \<Rightarrow> mapErr sync_internal_io (remove_dir_all p) s1
         | (Inr _, s1) \<Rightarrow> (Inl (BadRequest ''private staging entry is not a real directory''), s1)
         | (Inl e, s1) \<Rightarrow> if io_kind e = NotFoundK then (Inr (), s1) else (Inl (sync_internal_io e), s1)))"

definition remove_staging_dir :: "(string \<Rightarrow> bool) \<Rightarrow> path \<Rightarrow> path \<Rightarrow> 'z fs_scheme \<Rightarrow> unit res \<times> 'z fs_scheme" where
  "remove_staging_dir is_uuid w p =
     bindS (private_staging_root w) (\<lambda>root. remove_private_entry is_uuid root p)"

definition create_staging_dir :: "(string \<Rightarrow> bool) \<Rightarrow> path \<Rightarrow> string \<Rightarrow> 'z fs_scheme \<Rightarrow> path res \<times> 'z fs_scheme" where
  "create_staging_dir is_uuid w sync_id =
     bindS (private_staging_root w) (\<lambda>root.
     let dir = root @ [sync_id] in
     bindS (mapErr sync_internal_io (create_dir dir)) (\<lambda>_ s.
     case bindS (mapErr sync_internal_io (create_dir (dir @ [''files'']))) (\<lambda>_.
            mapErr sync_internal_io (create_dir (dir @ [''tmp'']))) s of
       (Inr _, s1) \<Rightarrow> (Inr dir, s1)
     | (Inl e, s1) \<Rightarrow> (Inl e, snd (remove_private_entry is_uuid root dir s1))))"

text \<open>The loop of \<open>cleanup_orphans\<close> over the entries of the staging directory.\<close>

definition clear_staging :: "(string \<Rightarrow> bool) \<Rightarrow> path \<Rightarrow> 'z fs_scheme \<Rightarrow> unit res \<times> 'z fs_scheme" where
  "clear_staging is_uuid w =
     bindS (private_staging_root w) (\<lambda>root.
     bindS (mapErr sync_internal_io (read_dir root)) (\<lambda>names.
     forS (\<lambda>name. remove_private_entry is_uuid root (root @ [name])) names))"

end
