(* ===== verification/Sync_Manager.thy ===== *)
theory Sync_Manager
  imports Staging
begin

text \<open>
  The sync manager: \<open>SyncManager\<close> and its push sessions in \<open>src/src/sync.rs\<close>. The state is the
  filesystem with the running transaction, the map of sessions, the admission gate, the single slot for
  an open plan, the degradation counters and the clock. What the handlers do between two suspensions
  that other handlers can observe is one function: a commit, for instance, is \<open>commit_claim\<close>,
  \<open>commit_settle\<close> and \<open>cleanup_session\<close>, and \<open>commit_session\<close> runs them in turn.

  A handler that would wait for a commit in progress returns \<open>None\<close>: the source loops until the
  session is notified and looks again.

  Values of code that is not in the repository are the fields of \<open>sync_env\<close>: SHA-256, the rendering of
  a path, the sequence of fresh identifiers, the identifier parser, the glob compiler, the metadata
  of a new file.
\<close>

section \<open>State\<close>

record sync_env =
  env_sha :: "string \<Rightarrow> string"
  env_display :: "path \<Rightarrow> string"
  env_uuid :: "nat \<Rightarrow> string"
  env_is_uuid :: "string \<Rightarrow> bool"
  env_globs :: globset
  env_fresh :: file_data

record manager_config = sync_config +
  session_ttl :: nat
  ttl_error :: "string option"
  result_retention :: nat
  upload_idle_timeout :: nat
  upload_deadline :: nat

datatype sync_status = SsOpen | SsCommitting | SsCommitted | SsAborted | SsExpired | SsFailed

fun status_name :: "sync_status \<Rightarrow> string" where
  "status_name SsOpen = ''Open''"
| "status_name SsCommitting = ''Committing''"
| "status_name SsCommitted = ''Committed''"
| "status_name SsAborted = ''Aborted''"
| "status_name SsExpired = ''Expired''"
| "status_name SsFailed = ''Failed''"

record push_session =
  ss_state :: sync_status
  ss_project :: string
  ss_plan :: commit_plan
  expires_deadline :: nat
  finished_at :: "nat option"
  uploaded :: "string set"
  ss_result :: "commit_response option"
  ss_error :: "app_error option"
  cleanup_pending :: bool
  cleanup_failures :: nat
  last_warning :: "nat option"
  holds_permit :: bool
  upload_cancelled :: bool

record manager = txn +
  sessions :: "(string \<times> push_session) list"
  closed :: bool
  reaper_degraded :: bool
  task_degraded :: bool
  cleanup_degraded :: nat
  permits :: nat
  clock :: nat

type_synonym ('a, 'z) mgr = "'z manager_scheme \<Rightarrow> 'a res \<times> 'z manager_scheme"

definition max_retained_sync_results :: nat where
  "max_retained_sync_results = 128"

definition cleanup_warning_interval :: nat where
  "cleanup_warning_interval = 300"

definition terminal :: "sync_status \<Rightarrow> bool" where
  "terminal st \<longleftrightarrow> st \<noteq> SsOpen \<and> st \<noteq> SsCommitting"

definition upd_session :: "string \<Rightarrow> (push_session \<Rightarrow> push_session) \<Rightarrow> 'z manager_scheme \<Rightarrow> 'z manager_scheme" where
  "upd_session i f s = s\<lparr>sessions := map (\<lambda>(j, d). if j = i then (j, f d) else (j, d)) (sessions s)\<rparr>"

definition ensure_open :: "push_session \<Rightarrow> unit res" where
  "ensure_open d = ensure (ss_state d = SsOpen) (Conflict (''sync session is '' @ status_name (ss_state d)))"

definition session_result :: "push_session \<Rightarrow> commit_response res" where
  "session_result d =
     (case ss_result d of
        Some r \<Rightarrow> Inr r
      | None \<Rightarrow>
          (case ss_error d of
             Some e \<Rightarrow> Inl e
           | None \<Rightarrow> Inl (Conflict (''sync session is '' @ status_name (ss_state d)))))"

text \<open>\<open>release_plan\<close>: the permit goes back to the slot when the session holds it.\<close>

definition released :: "push_session \<Rightarrow> push_session" where
  "released d = d\<lparr>ss_plan := (ss_plan d)\<lparr>upload_files := [], create_dirs := [], delete_files := [],
      delete_dirs := [], baseline := []\<rparr>, uploaded := {}, holds_permit := False\<rparr>"

definition release_plan :: "string \<Rightarrow> 'z manager_scheme \<Rightarrow> 'z manager_scheme" where
  "release_plan i s =
     (case map_of (sessions s) i of
        None \<Rightarrow> s
      | Some d \<Rightarrow> upd_session i released (s\<lparr>permits := permits s + (if holds_permit d then 1 else 0)\<rparr>))"

definition find_session :: "string \<Rightarrow> string \<Rightarrow> 'z manager_scheme \<Rightarrow> push_session res" where
  "find_session i project s =
     (case map_of (sessions s) i of
        None \<Rightarrow> Inl (NotFound ''sync session not found'')
      | Some d \<Rightarrow> if ss_project d \<noteq> project then Inl (NotFound ''sync session not found'') else Inr d)"

text \<open>The admission gate of \<open>tracked\<close>.\<close>

definition tracked :: "('a, 'z) mgr \<Rightarrow> ('a, 'z) mgr" where
  "tracked work s = (if closed s then (Inl (Conflict ''sync manager is shutting down''), s) else work s)"

section \<open>Retention and cleanup\<close>

text \<open>What a snapshot contributes to the list of finished sessions.\<close>

fun finished_entry :: "string \<times> push_session \<Rightarrow> (nat \<times> string) option" where
  "finished_entry (i, d) =
     (if \<not> cleanup_pending d \<and> terminal (ss_state d) then map_option (\<lambda>t. (t, i)) (finished_at d) else None)"

definition finished_sessions :: "(string \<times> push_session) list \<Rightarrow> (nat \<times> string) list" where
  "finished_sessions ss = List.map_filter finished_entry ss"

definition pruned_ids :: "nat \<Rightarrow> nat \<Rightarrow> nat \<Rightarrow> (nat \<times> string) list \<Rightarrow> string list" where
  "pruned_ids limit retention instant finished =
     (let excess = length finished - limit in
      map (snd \<circ> snd) (filter (\<lambda>(index, t, i). index < excess \<or> instant - t \<ge> retention)
        (zip [0..<length finished] finished)))"

text \<open>
  \<open>prune_results\<close> suspends before it looks at each session of its snapshot and before it takes the write
  lock. \<open>prune_collected\<close> is its last stretch, given what it has collected; the states in between are those
  of \<open>prune_visits\<close> in \<open>Manager_Retention\<close>. \<open>prune_results\<close> is the run that nothing interrupts.
\<close>

definition prune_collected :: "'y manager_config_scheme \<Rightarrow> (nat \<times> string) list \<Rightarrow> 'z manager_scheme \<Rightarrow> 'z manager_scheme" where
  "prune_collected cfg collected s =
     (let gone = pruned_ids max_retained_sync_results (result_retention cfg) (clock s) (sort collected) in
      s\<lparr>sessions := filter (\<lambda>(i, _). i \<notin> set gone) (sessions s)\<rparr>)"

definition prune_results :: "'y manager_config_scheme \<Rightarrow> 'z manager_scheme \<Rightarrow> 'z manager_scheme" where
  "prune_results cfg s = prune_collected cfg (finished_sessions (sessions s)) s"

definition cleanup_done :: "push_session \<Rightarrow> push_session" where
  "cleanup_done d = (let d = d\<lparr>cleanup_pending := False\<rparr> in
     if cleanup_failures d > 0 then d\<lparr>cleanup_failures := 0, last_warning := None\<rparr> else d)"

definition u64_max :: nat where
  "u64_max = 2 ^ 64 - 1"

definition cleanup_failed :: "nat \<Rightarrow> push_session \<Rightarrow> push_session" where
  "cleanup_failed instant d =
     d\<lparr>cleanup_failures := min u64_max (Suc (cleanup_failures d)),
       last_warning := (case last_warning d of
           None \<Rightarrow> Some instant
         | Some t \<Rightarrow> if instant - t \<ge> cleanup_warning_interval then Some instant else Some t)\<rparr>"

text \<open>
  A cleanup suspends once more when it has recorded its outcome: the prune that follows is a stretch of its
  own.
\<close>

definition settle_cleanup :: "sync_env \<Rightarrow> 'y manager_config_scheme \<Rightarrow> string \<Rightarrow> (unit, 'z) mgr" where
  "settle_cleanup env cfg i s =
     (case map_of (sessions s) i of
        None \<Rightarrow> (Inr (), s)
      | Some d \<Rightarrow>
          if \<not> cleanup_pending d then (Inr (), s)
          else
            (case remove_staging_dir (env_is_uuid env) (workspace_root cfg) (staging_dir (ss_plan d)) s of
               (Inr _, s1) \<Rightarrow>
                 (Inr (), upd_session i cleanup_done
                    (s1\<lparr>cleanup_degraded := cleanup_degraded s1 - (if cleanup_failures d > 0 then 1 else 0)\<rparr>))
             | (Inl e, s1) \<Rightarrow>
                 (Inl e, upd_session i (cleanup_failed (clock s1))
                    (s1\<lparr>cleanup_degraded := cleanup_degraded s1 + (if cleanup_failures d = 0 then 1 else 0)\<rparr>))))"

definition cleanup_session :: "sync_env \<Rightarrow> 'y manager_config_scheme \<Rightarrow> string \<Rightarrow> (unit, 'z) mgr" where
  "cleanup_session env cfg i s =
     (case map_of (sessions s) i of
        None \<Rightarrow> (Inr (), s)
      | Some d \<Rightarrow>
          if \<not> cleanup_pending d then (Inr (), s)
          else (case settle_cleanup env cfg i s of (r, s1) \<Rightarrow> (r, prune_results cfg s1)))"

section \<open>Creating a plan\<close>

record push_request =
  req_entries :: "manifest_entry list"
  req_delete_extra :: bool
  req_include :: "string list"
  req_exclude :: "string list"

record push_response =
  resp_id :: string
  resp_uploads :: "file_transfer list"
  resp_create_dirs :: "string list"
  resp_delete_files :: "string list"
  resp_delete_dirs :: "string list"
  expires_at :: nat

definition scan_manifest :: "sync_env \<Rightarrow> 'y manager_config_scheme \<Rightarrow> path \<Rightarrow> sync_filters \<Rightarrow>
    'z fs_scheme \<Rightarrow> manifest_entry list res \<times> 'z fs_scheme" where
  "scan_manifest env cfg dir filters =
     bindS (check_project_root (workspace_root cfg) dir) (\<lambda>_ s.
     case metadata dir s of
       (Inr _, s1) \<Rightarrow> scan_manifest_blocking (env_sha env) filters (max_entries cfg) (max_file_bytes cfg) dir s1
     | (Inl e, s1) \<Rightarrow> if io_kind e = NotFoundK then (Inr [], s1) else (Inl (sync_internal_io e), s1))"

definition manifest :: "sync_env \<Rightarrow> 'y manager_config_scheme \<Rightarrow> string \<Rightarrow> string list \<Rightarrow> string list \<Rightarrow>
    'z fs_scheme \<Rightarrow> manifest_entry list res \<times> 'z fs_scheme" where
  "manifest env cfg project include exclude =
     bindS (liftR (resolve_project_dir (workspace_root cfg) project)) (\<lambda>dir.
     bindS (liftR (filters_new (env_globs env) include exclude)) (\<lambda>filters.
     scan_manifest env cfg dir filters))"

definition plan_start :: "path \<Rightarrow> bool \<Rightarrow> (string \<times> manifest_entry) list \<Rightarrow> commit_plan" where
  "plan_start dir is_reset server =
     \<lparr>upload_files = [], create_dirs = [], delete_files = [], delete_dirs = [],
      project_dir = dir, staging_dir = [], reset = is_reset, baseline = server\<rparr>"

text \<open>The comparison of the two manifests: the part of \<open>create_plan\<close> before the staging directory.\<close>

definition draft_plan :: "sync_env \<Rightarrow> 'y manager_config_scheme \<Rightarrow> string \<Rightarrow> push_request \<Rightarrow> bool \<Rightarrow>
    'z fs_scheme \<Rightarrow> commit_plan res \<times> 'z fs_scheme" where
  "draft_plan env cfg project req is_reset =
     (if is_reset \<and> (req_include req \<noteq> [] \<or> req_exclude req \<noteq> [])
      then failS (BadRequest ''full replacement does not accept filters'')
      else
        bindS (liftR (filters_new (env_globs env) (req_include req) (req_exclude req))) (\<lambda>filters.
        bindS (liftR (validate_client_manifest filters (max_entries cfg) (max_file_bytes cfg) (req_entries req)))
          (\<lambda>entries.
        bindS (liftR (resolve_project_dir (workspace_root cfg) project)) (\<lambda>dir.
        bindS (if is_reset then okS [] else scan_manifest env cfg dir filters) (\<lambda>server.
        liftR (plan_diff_of (manifest_map server) (manifest_map entries) (req_delete_extra req \<and> \<not> is_reset)
                 (plan_start dir is_reset (manifest_map server))))))))"

definition open_session :: "string \<Rightarrow> commit_plan \<Rightarrow> nat \<Rightarrow> push_session" where
  "open_session project plan deadline =
     \<lparr>ss_state = SsOpen, ss_project = project, ss_plan = plan, expires_deadline = deadline, finished_at = None,
      uploaded = {}, ss_result = None, ss_error = None, cleanup_pending = False, cleanup_failures = 0,
      last_warning = None, holds_permit = True, upload_cancelled = False\<rparr>"

text \<open>The staging directory of a plan; a plan across filesystems is rejected and its directory removed.\<close>

definition stage_plan :: "sync_env \<Rightarrow> 'y manager_config_scheme \<Rightarrow> string \<Rightarrow> commit_plan \<Rightarrow>
    'z fs_scheme \<Rightarrow> commit_plan res \<times> 'z fs_scheme" where
  "stage_plan env cfg i plan =
     bindS (liftR (case ttl_error cfg of None \<Rightarrow> Inr () | Some m \<Rightarrow> Inl (Internal (''invalid sync ttl: '' @ m)))) (\<lambda>_.
     bindS (create_staging_dir (env_is_uuid env) (workspace_root cfg) i) (\<lambda>staging s.
     case ensure_same_filesystem (workspace_root cfg) staging (project_dir plan) s of
       (Inr _, s1) \<Rightarrow> (Inr (plan\<lparr>staging_dir := staging\<rparr>), s1)
     | (Inl e, s1) \<Rightarrow> (Inl e, snd (remove_staging_dir (env_is_uuid env) (workspace_root cfg) staging s1))))"

definition plan_response :: "string \<Rightarrow> 'y commit_plan_scheme \<Rightarrow> nat \<Rightarrow> push_response" where
  "plan_response i plan t =
     \<lparr>resp_id = i, resp_uploads = map up_transfer (bt_values (upload_files plan)),
      resp_create_dirs = create_dirs plan, resp_delete_files = delete_files plan,
      resp_delete_dirs = delete_dirs plan, expires_at = t\<rparr>"

text \<open>\<open>create_plan\<close> prunes first; \<open>open_plan\<close> is the rest.\<close>

definition open_plan :: "sync_env \<Rightarrow> 'y manager_config_scheme \<Rightarrow> string \<Rightarrow> push_request \<Rightarrow> bool \<Rightarrow> (push_response, 'z) mgr" where
  "open_plan env cfg project req is_reset s =
     (if permits s = 0 then (Inl (Conflict ''an open sync plan already exists''), s)
      else
        (case draft_plan env cfg project req is_reset s of
           (Inl e, s1) \<Rightarrow> (Inl e, s1)
         | (Inr plan, s1) \<Rightarrow>
             let i = env_uuid env (issued s1); t = clock s1 + session_ttl cfg in
             (case stage_plan env cfg i plan (s1\<lparr>issued := Suc (issued s1)\<rparr>) of
                (Inl e, s2) \<Rightarrow> (Inl e, s2)
              | (Inr plan, s2) \<Rightarrow>
                  (Inr (plan_response i plan t),
                   s2\<lparr>permits := permits s2 - 1, sessions := (i, open_session project plan t) # sessions s2\<rparr>))))"

definition create_plan :: "sync_env \<Rightarrow> 'y manager_config_scheme \<Rightarrow> string \<Rightarrow> push_request \<Rightarrow> bool \<Rightarrow> (push_response, 'z) mgr" where
  "create_plan env cfg project req is_reset s = open_plan env cfg project req is_reset (prune_results cfg s)"

definition push_plan :: "sync_env \<Rightarrow> 'y manager_config_scheme \<Rightarrow> string \<Rightarrow> push_request \<Rightarrow> (push_response, 'z) mgr" where
  "push_plan env cfg project req = tracked (create_plan env cfg project req False)"

definition push_reset_plan :: "sync_env \<Rightarrow> 'y manager_config_scheme \<Rightarrow> string \<Rightarrow> push_request \<Rightarrow> (push_response, 'z) mgr" where
  "push_reset_plan env cfg project req = tracked (create_plan env cfg project req True)"

definition create_pull_plan :: "sync_env \<Rightarrow> 'y manager_config_scheme \<Rightarrow> string \<Rightarrow> push_request \<Rightarrow>
    'z fs_scheme \<Rightarrow> pull_response res \<times> 'z fs_scheme" where
  "create_pull_plan env cfg project req =
     bindS (liftR (filters_new (env_globs env) (req_include req) (req_exclude req))) (\<lambda>filters.
     bindS (liftR (validate_client_manifest filters (max_entries cfg) (max_file_bytes cfg) (req_entries req)))
       (\<lambda>entries.
     bindS (liftR (resolve_project_dir (workspace_root cfg) project)) (\<lambda>dir.
     bindS (scan_manifest env cfg dir filters) (\<lambda>server.
     liftR (pull_plan_of (manifest_map entries) (manifest_map server) (req_delete_extra req))))))"

end
