(* ===== verification/Sync_Handlers.thy ===== *)
theory Sync_Handlers
  imports Sync_Manager
begin

text \<open>
  The handlers of the sync manager over its state: uploads, commit, abort, status, downloads, the
  reaper, start-up and shutdown (\<open>src/src/sync.rs\<close>).
\<close>

section \<open>Uploads\<close>

record upload_response =
  upl_path :: string
  upl_size :: nat
  upl_sha :: string

definition check_content_length :: "nat option \<Rightarrow> nat \<Rightarrow> unit res" where
  "check_content_length content_length expected =
     (case content_length of
        None \<Rightarrow> Inr ()
      | Some n \<Rightarrow> if n > expected then Inl PayloadTooLarge
                  else ensure (n = expected) (BadRequest ''Content-Length does not match plan''))"

definition upload_was_cancelled :: app_error where
  "upload_was_cancelled = Conflict ''sync upload was cancelled''"

text \<open>
  The \<open>select!\<close> between cancellation and the body. A session already cancelled never polls the body.
  \<open>interrupt\<close> is the number of frames received when cancellation arrives later, if it does.
\<close>

definition receive_body :: "sync_env \<Rightarrow> 'y manager_config_scheme \<Rightarrow> path \<Rightarrow> file_transfer \<Rightarrow> body \<Rightarrow> bool \<Rightarrow> nat option \<Rightarrow>
    'z fs_scheme \<Rightarrow> unit res \<times> 'z fs_scheme" where
  "receive_body env cfg tmp t body already interrupt =
     (if already then failS upload_was_cancelled
      else case interrupt of
        None \<Rightarrow> write_body_to_file (env_sha env) (env_fresh env) body tmp (ft_size t) (ft_sha t)
                  (max_file_bytes cfg) (upload_idle_timeout cfg) (upload_deadline cfg)
      | Some k \<Rightarrow>
          if ft_size t > max_file_bytes cfg then failS (BadRequest ''file exceeds sync_max_file_bytes'')
          else
            bindS (mapErr (internal ''failed to create staged file'') (write_file tmp ((env_fresh env)\<lparr>fbytes := []\<rparr>)))
              (\<lambda>_. bindS (write_frames tmp (ft_size t) (max_file_bytes cfg) (upload_idle_timeout cfg)
                            (upload_deadline cfg) 0 (take k (frames body)) 0 [])
              (\<lambda>_. failS upload_was_cancelled)))"

text \<open>The temporary file and its guard: any failure before the file is in place unlinks it.\<close>

definition stage_upload :: "sync_env \<Rightarrow> 'y manager_config_scheme \<Rightarrow> path \<Rightarrow> string \<Rightarrow> path \<Rightarrow> path \<Rightarrow> file_transfer \<Rightarrow>
    body \<Rightarrow> bool \<Rightarrow> nat option \<Rightarrow> 'z fs_scheme \<Rightarrow> unit res \<times> 'z fs_scheme" where
  "stage_upload env cfg staging p target tmp t body already interrupt s =
     (case bindS (receive_body env cfg tmp t body already interrupt) (\<lambda>_.
           bindS (ensure_path_has_no_links staging (''files/'' @ p)) (\<lambda>_.
           atomic_replace tmp target)) s of
        (Inr _, s1) \<Rightarrow> (Inr (), s1)
      | (Inl e, s1) \<Rightarrow> (Inl e, drop_guard (Some tmp) s1))"

text \<open>What an upload is checked against: the planned transfer, the staging directory, the cancel flag.\<close>

definition upload_expected :: "string \<Rightarrow> string \<Rightarrow> string \<Rightarrow> (file_transfer \<times> path \<times> bool, 'z) mgr" where
  "upload_expected i project p s =
     (andThen (find_session i project s) (\<lambda>d.
      andThen (ensure_open d) (\<lambda>_.
      andThen (ensure (clock s < expires_deadline d) (NotFound ''sync session expired'')) (\<lambda>_.
      andThen (ok_or (map_of (upload_files (ss_plan d)) p)
                 (BadRequest ''file was not requested by the push plan'')) (\<lambda>u.
      Inr (up_transfer u, staging_dir (ss_plan d), upload_cancelled d))))), s)"

definition mark_uploaded :: "string \<Rightarrow> string \<Rightarrow> string \<Rightarrow> (unit, 'z) mgr" where
  "mark_uploaded i project p s =
     (case andThen (find_session i project s) ensure_open of
        Inl e \<Rightarrow> (Inl e, s)
      | Inr _ \<Rightarrow> (Inr (), upd_session i (\<lambda>d. d\<lparr>uploaded := insert p (uploaded d)\<rparr>) s))"

definition receive_upload :: "sync_env \<Rightarrow> 'y manager_config_scheme \<Rightarrow> string \<Rightarrow> string \<Rightarrow> string \<Rightarrow> nat option \<Rightarrow> body \<Rightarrow>
    nat option \<Rightarrow> (upload_response, 'z) mgr" where
  "receive_upload env cfg project i raw_path content_length body interrupt =
     bindS (liftR (normalize_sync_path raw_path)) (\<lambda>p.
     bindS (upload_expected i project p) (\<lambda>(t, staging, already).
     bindS (liftR (check_content_length content_length (ft_size t))) (\<lambda>_.
     bindS (ensure_path_has_no_links staging (''files/'' @ p)) (\<lambda>_.
     bindS (liftR (resolve_relative_path (staging @ [''files'']) p)) (\<lambda>target.
     bindS (liftR (ok_or (parent target) (BadRequest ''invalid upload path''))) (\<lambda>up.
     bindS (mapErr sync_internal_io (create_dir_all up)) (\<lambda>_ s.
     let tmp = staging @ [''tmp'', env_uuid env (issued s) @ ''.part''] in
     bindS (stage_upload env cfg staging p target tmp t body already interrupt) (\<lambda>_.
     bindS (mark_uploaded i project p) (\<lambda>_.
     okS \<lparr>upl_path = p, upl_size = ft_size t, upl_sha = ft_sha t\<rparr>)) (s\<lparr>issued := Suc (issued s)\<rparr>))))))))"

definition upload_file :: "sync_env \<Rightarrow> 'y manager_config_scheme \<Rightarrow> string \<Rightarrow> string \<Rightarrow> string \<Rightarrow> nat option \<Rightarrow> body \<Rightarrow>
    nat option \<Rightarrow> (upload_response, 'z) mgr" where
  "upload_file env cfg project i raw_path content_length body interrupt =
     tracked (receive_upload env cfg project i raw_path content_length body interrupt)"

section \<open>Aborting\<close>

text \<open>The state is frozen before the cleanup suspends.\<close>

definition frozen :: "sync_status \<Rightarrow> nat \<Rightarrow> push_session \<Rightarrow> push_session" where
  "frozen st t d = d\<lparr>ss_state := st, finished_at := Some t, cleanup_pending := True\<rparr>"

definition cancel_uploads :: "push_session \<Rightarrow> push_session" where
  "cancel_uploads d = d\<lparr>upload_cancelled := True\<rparr>"

definition abort_freeze :: "string \<Rightarrow> sync_status \<Rightarrow> 'z manager_scheme \<Rightarrow> 'z manager_scheme" where
  "abort_freeze i st s0 =
     (let s = upd_session i cancel_uploads s0 in
      case map_of (sessions s) i of
        None \<Rightarrow> s
      | Some d \<Rightarrow> if ss_state d = SsOpen then release_plan i (upd_session i (frozen st (clock s)) s) else s)"

text \<open>One round of the loop of \<open>abort_session_inner\<close> outside a commit.\<close>

definition abort_now :: "sync_env \<Rightarrow> 'y manager_config_scheme \<Rightarrow> string \<Rightarrow> sync_status \<Rightarrow> (unit, 'z) mgr" where
  "abort_now env cfg i st s = cleanup_session env cfg i (abort_freeze i st s)"

definition committing :: "string \<Rightarrow> 'z manager_scheme \<Rightarrow> bool" where
  "committing i s \<longleftrightarrow> (case map_of (sessions s) i of Some d \<Rightarrow> ss_state d = SsCommitting | None \<Rightarrow> False)"

definition abort_session :: "sync_env \<Rightarrow> 'y manager_config_scheme \<Rightarrow> string \<Rightarrow> sync_status \<Rightarrow> 'z manager_scheme \<Rightarrow>
    unit res option \<times> 'z manager_scheme" where
  "abort_session env cfg i st s =
     (if committing i s then (None, upd_session i cancel_uploads s)
      else (case abort_now env cfg i st s of (r, s1) \<Rightarrow> (Some r, s1)))"

definition state_of :: "string \<Rightarrow> 'z manager_scheme \<Rightarrow> sync_status option" where
  "state_of i s = map_option ss_state (map_of (sessions s) i)"

definition abort :: "sync_env \<Rightarrow> 'y manager_config_scheme \<Rightarrow> string \<Rightarrow> string \<Rightarrow> 'z manager_scheme \<Rightarrow>
    string res option \<times> 'z manager_scheme" where
  "abort env cfg project i s =
     (if closed s then (Some (Inl (Conflict ''sync manager is shutting down'')), s)
      else
        (case find_session i project s of
           Inl e \<Rightarrow> (Some (Inl e), s)
         | Inr _ \<Rightarrow>
             (case abort_session env cfg i SsAborted s of
                (None, s1) \<Rightarrow> (None, s1)
              | (Some (Inl e), s1) \<Rightarrow> (Some (Inl e), s1)
              | (Some (Inr _), s1) \<Rightarrow>
                  (Some (if state_of i (abort_freeze i SsAborted s) \<noteq> Some SsAborted
                         then Inl (Conflict ''only an open sync plan can be aborted'')
                         else Inr i), s1))))"

fun abort_each :: "sync_env \<Rightarrow> 'y manager_config_scheme \<Rightarrow> string \<Rightarrow> string list \<Rightarrow> 'z manager_scheme \<Rightarrow>
    unit res option \<times> 'z manager_scheme" where
  "abort_each env cfg project [] s = (Some (Inr ()), s)"
| "abort_each env cfg project (i # is) s =
     (case map_of (sessions s) i of
        None \<Rightarrow> abort_each env cfg project is s
      | Some d \<Rightarrow>
          if ss_project d = project then
            (case abort_session env cfg i SsAborted s of
               (Some (Inr _), s1) \<Rightarrow> abort_each env cfg project is s1
             | r \<Rightarrow> r)
          else abort_each env cfg project is s)"

definition abort_open :: "sync_env \<Rightarrow> 'y manager_config_scheme \<Rightarrow> string \<Rightarrow> 'z manager_scheme \<Rightarrow>
    unit res option \<times> 'z manager_scheme" where
  "abort_open env cfg project s =
     (if closed s then (Some (Inl (Conflict ''sync manager is shutting down'')), s)
      else abort_each env cfg project (map fst (sessions s)) s)"

section \<open>Committing\<close>

datatype claim = Pending | Settled "commit_response res" | Claimed commit_plan

definition commit_claim :: "sync_env \<Rightarrow> 'y manager_config_scheme \<Rightarrow> string \<Rightarrow> string \<Rightarrow> (claim, 'z) mgr" where
  "commit_claim env cfg project i s =
     (case find_session i project s of
        Inl e \<Rightarrow> (Inl e, s)
      | Inr d \<Rightarrow>
          (case ss_state d of
             SsCommitting \<Rightarrow> (Inr Pending, s)
           | SsOpen \<Rightarrow>
               if clock s \<ge> expires_deadline d then
                 (case abort_now env cfg i SsExpired s of
                    (Inl e, s1) \<Rightarrow> (Inl e, s1)
                  | (Inr _, s1) \<Rightarrow> (Inl (NotFound ''sync session expired''), s1))
               else if \<exists>p\<in>set (bt_keys (upload_files (ss_plan d))). p \<notin> uploaded d
               then (Inl (Conflict ''planned uploads are missing''), s)
               else (Inr (Claimed (ss_plan d)), upd_session i (\<lambda>d. d\<lparr>ss_state := SsCommitting\<rparr>) s)
           | _ \<Rightarrow> (Inr (Settled (session_result d)), s)))"

definition outcome :: "commit_response res \<Rightarrow> nat \<Rightarrow> push_session \<Rightarrow> push_session" where
  "outcome r t d =
     (case r of
        Inr resp \<Rightarrow> d\<lparr>ss_state := SsCommitted, ss_result := Some resp, finished_at := Some t, cleanup_pending := True\<rparr>
      | Inl e \<Rightarrow> d\<lparr>ss_state := SsFailed, ss_error := Some e, finished_at := Some t, cleanup_pending := True\<rparr>)"

definition commit_settle :: "sync_env \<Rightarrow> 'y manager_config_scheme \<Rightarrow> string \<Rightarrow> commit_plan \<Rightarrow> (commit_response, 'z) mgr" where
  "commit_settle env cfg i plan s =
     (case apply_commit (env_sha env) (env_display env) (env_uuid env) (sync_config.truncate cfg) plan s of
        (r, s1) \<Rightarrow> (r, release_plan i (upd_session i (outcome r (clock s1)) s1)))"

definition commit_wait :: "string \<Rightarrow> 'z manager_scheme \<Rightarrow> commit_response res option" where
  "commit_wait i s =
     (case map_of (sessions s) i of
        None \<Rightarrow> None
      | Some d \<Rightarrow> if ss_state d = SsCommitting then None else Some (session_result d))"

definition commit_session :: "sync_env \<Rightarrow> 'y manager_config_scheme \<Rightarrow> string \<Rightarrow> string \<Rightarrow> 'z manager_scheme \<Rightarrow>
    commit_response res option \<times> 'z manager_scheme" where
  "commit_session env cfg project i s =
     (case commit_claim env cfg project i s of
        (Inl e, s1) \<Rightarrow> (Some (Inl e), s1)
      | (Inr (Settled r), s1) \<Rightarrow> (Some r, s1)
      | (Inr Pending, s1) \<Rightarrow> (commit_wait i s1, s1)
      | (Inr (Claimed plan), s1) \<Rightarrow>
          (case commit_settle env cfg i plan s1 of
             (r, s2) \<Rightarrow> (Some r, snd (cleanup_session env cfg i s2))))"

definition commit :: "sync_env \<Rightarrow> 'y manager_config_scheme \<Rightarrow> string \<Rightarrow> string \<Rightarrow> 'z manager_scheme \<Rightarrow>
    commit_response res option \<times> 'z manager_scheme" where
  "commit env cfg project i s =
     (if closed s then (Some (Inl (Conflict ''sync manager is shutting down'')), s)
      else commit_session env cfg project i s)"

section \<open>Status and degradation\<close>

record status_response =
  st_id :: string
  st_project :: string
  st_status :: sync_status
  st_cleanup_pending :: bool
  st_result :: "commit_response option"
  st_error_code :: "string option"
  st_error_message :: "string option"

definition sync_session_status :: "string \<Rightarrow> string \<Rightarrow> 'z manager_scheme \<Rightarrow> status_response res" where
  "sync_session_status project i s =
     andThen (find_session i project s) (\<lambda>d.
     Inr \<lparr>st_id = i, st_project = project, st_status = ss_state d, st_cleanup_pending = cleanup_pending d,
          st_result = ss_result d, st_error_code = map_option code (ss_error d),
          st_error_message = map_option client_message (ss_error d)\<rparr>)"

definition is_degraded :: "'z manager_scheme \<Rightarrow> bool" where
  "is_degraded s \<longleftrightarrow> reaper_degraded s \<or> task_degraded s \<or> cleanup_degraded s > 0"

section \<open>Reaper, start-up and shutdown\<close>

text \<open>One session of the reaper's snapshot.\<close>

definition reap_one :: "sync_env \<Rightarrow> 'y manager_config_scheme \<Rightarrow> string \<Rightarrow> (unit, 'z) mgr" where
  "reap_one env cfg i s =
     (case map_of (sessions s) i of
        None \<Rightarrow> (Inr (), s)
      | Some d \<Rightarrow>
          if ss_state d = SsOpen \<and> clock s \<ge> expires_deadline d then abort_now env cfg i SsExpired s
          else if terminal (ss_state d) then cleanup_session env cfg i s
          else (Inr (), s))"

fun reap_each :: "sync_env \<Rightarrow> 'y manager_config_scheme \<Rightarrow> string list \<Rightarrow> app_error option \<Rightarrow> 'z manager_scheme \<Rightarrow>
    app_error option \<times> 'z manager_scheme" where
  "reap_each env cfg [] first_error s = (first_error, s)"
| "reap_each env cfg (i # is) first_error s =
     (case reap_one env cfg i s of
        (r, s1) \<Rightarrow>
          reap_each env cfg is
            (case first_error of
               Some e \<Rightarrow> Some e
             | None \<Rightarrow> (case r of Inl e \<Rightarrow> Some e | Inr _ \<Rightarrow> None)) s1)"

definition reap :: "sync_env \<Rightarrow> 'y manager_config_scheme \<Rightarrow> (unit, 'z) mgr" where
  "reap env cfg s =
     (case reap_each env cfg (map fst (sessions s)) None s of
        (first_error, s1) \<Rightarrow>
          ((case first_error of None \<Rightarrow> Inr () | Some e \<Rightarrow> Inl e), prune_results cfg s1))"

text \<open>One tick of the reaper task, and whether it goes on.\<close>

definition reaper_tick :: "sync_env \<Rightarrow> 'y manager_config_scheme \<Rightarrow> 'z manager_scheme \<Rightarrow> bool \<times> 'z manager_scheme" where
  "reaper_tick env cfg s =
     (case tracked (reap env cfg) s of
        (Inr _, s1) \<Rightarrow> (True, s1\<lparr>reaper_degraded := False\<rparr>)
      | (Inl _, s1) \<Rightarrow> if closed s1 then (False, s1) else (True, s1\<lparr>reaper_degraded := True\<rparr>))"

definition cleanup_orphans :: "sync_env \<Rightarrow> 'y manager_config_scheme \<Rightarrow> (unit, 'z) mgr" where
  "cleanup_orphans env cfg = tracked (\<lambda>s.
     if permits s = 0 then (Inl (Conflict ''an active plan owns staging''), s)
     else clear_staging (env_is_uuid env) (workspace_root cfg) s)"

text \<open>
  Shutdown closes the gate, cancels the uploads, waits for the accepted tasks and then aborts every
  session. \<open>shutdown_close\<close> is what happens before the wait, \<open>shutdown_abort\<close> what happens after it.
\<close>

definition shutdown_close :: "'z manager_scheme \<Rightarrow> 'z manager_scheme" where
  "shutdown_close s = s\<lparr>closed := True, sessions := map (\<lambda>(i, d). (i, cancel_uploads d)) (sessions s)\<rparr>"

definition shutdown_abort :: "sync_env \<Rightarrow> 'y manager_config_scheme \<Rightarrow> 'z manager_scheme \<Rightarrow> 'z manager_scheme" where
  "shutdown_abort env cfg s =
     fold (\<lambda>i s. snd (abort_session env cfg i SsAborted s)) (map fst (sessions s)) s"

section \<open>Downloads\<close>

record download =
  dl_status :: nat
  dl_headers :: "(string \<times> string) list"
  dl_body :: string

text \<open>\<open>str::trim\<close> on a header value, which is ASCII.\<close>

definition is_space :: "char \<Rightarrow> bool" where
  "is_space c \<longleftrightarrow> c = CHR '' '' \<or> (9 \<le> (of_char c :: nat) \<and> (of_char c :: nat) \<le> 13)"

definition trim :: "string \<Rightarrow> string" where
  "trim s = rev (dropWhile is_space (rev (dropWhile is_space s)))"

definition etag_of :: "string \<Rightarrow> string" where
  "etag_of sha = [CHR 0x22] @ ''sha256:'' @ sha @ [CHR 0x22]"

definition if_match_ok :: "string option \<Rightarrow> string \<Rightarrow> bool" where
  "if_match_ok if_match etag \<longleftrightarrow>
     (case if_match of
        None \<Rightarrow> True
      | Some expected \<Rightarrow> \<exists>c\<in>set (split_on CHR '','' expected). trim c = etag \<or> trim c = ''*'')"

definition show_int :: "int \<Rightarrow> string" where
  "show_int k = (if k < 0 then CHR ''-'' # show_nat (nat (- k)) else show_nat (nat k))"

definition show_bool :: "bool \<Rightarrow> string" where
  "show_bool b = (if b then ''true'' else ''false'')"

text \<open>\<open>HeaderValue::from_str\<close>: visible ASCII, space and tab, and bytes from 128.\<close>

definition header_value :: "string \<Rightarrow> string res" where
  "header_value v =
     (if list_all (\<lambda>c. (of_char c :: nat) = 9 \<or> (32 \<le> (of_char c :: nat) \<and> (of_char c :: nat) \<noteq> 127)) v
      then Inr v else Inl (Internal ''invalid transfer header: failed to parse header value''))"

definition download_headers :: "file_transfer \<Rightarrow> (string \<times> string) list res" where
  "download_headers t =
     foldR (\<lambda>hs (name, v). andThen (header_value v) (\<lambda>v. Inr (hs @ [(name, v)])))
       [(''content-type'', ''application/octet-stream'')]
       [(''content-length'', show_nat (ft_size t)), (''etag'', etag_of (ft_sha t)),
        (''x-sync-size-bytes'', show_nat (ft_size t)), (''x-sync-mtime-unix-ms'', show_int (ft_mtime t)),
        (''x-sync-sha256'', ft_sha t), (''x-sync-executable'', show_bool (ft_exec t))]"

definition prepare_download :: "sync_env \<Rightarrow> 'y manager_config_scheme \<Rightarrow> string \<Rightarrow> string \<Rightarrow> string option \<Rightarrow>
    'z fs_scheme \<Rightarrow> (download \<times> nat) res \<times> 'z fs_scheme" where
  "prepare_download env cfg project raw_path if_match =
     bindS (liftR (normalize_sync_path raw_path)) (\<lambda>p.
     bindS (liftR (resolve_project_dir (workspace_root cfg) project)) (\<lambda>dir.
     bindS (check_project_root (workspace_root cfg) dir) (\<lambda>_.
     bindS (ensure_path_has_no_links dir p) (\<lambda>_.
     bindS (liftR (resolve_relative_path dir p)) (\<lambda>file.
     bindS (open_file_for_transfer (env_sha env) (max_file_bytes cfg) file p) (\<lambda>t s.
     if \<not> if_match_ok if_match (etag_of (ft_sha t))
     then (Inl (PreconditionFailed ''file changed after the pull plan''), s)
     else
       bindS (liftR (download_headers t)) (\<lambda>hs.
       okS (\<lparr>dl_status = 200, dl_headers = hs,
             dl_body = (case lookup (store s) file of Some (File d) \<Rightarrow> fbytes d | _ \<Rightarrow> [])\<rparr>, ft_size t)) s))))))"

definition download_file :: "sync_env \<Rightarrow> 'y manager_config_scheme \<Rightarrow> string \<Rightarrow> string \<Rightarrow> string option \<Rightarrow>
    'z fs_scheme \<Rightarrow> download res \<times> 'z fs_scheme" where
  "download_file env cfg project raw_path if_match =
     bindS (prepare_download env cfg project raw_path if_match) (\<lambda>(r, _). okS r)"

definition head_file :: "sync_env \<Rightarrow> 'y manager_config_scheme \<Rightarrow> string \<Rightarrow> string \<Rightarrow> string option \<Rightarrow>
    'z fs_scheme \<Rightarrow> download res \<times> 'z fs_scheme" where
  "head_file env cfg project raw_path if_match =
     bindS (prepare_download env cfg project raw_path if_match) (\<lambda>(r, _). okS (r\<lparr>dl_body := []\<rparr>))"

end
