(* ===== verification/Manager_Frame.thy ===== *)
theory Manager_Frame
  imports Sync_Handlers Commit_Atomic
begin

text \<open>
  Frame lemmas: filesystem operations leave the rest of the state alone, transaction operations touch
  the transaction's own fields besides, so neither changes the sync manager's sessions and counters.
\<close>

section \<open>Branching\<close>

text \<open>\<open>keeps\<close> passes through the \<open>case\<close> expressions in which handlers are written.\<close>

lemma keeps_snd: "keeps R m \<Longrightarrow> R s (snd (m s))"
  by (simp add: keeps_def)

lemma keeps_case:
  assumes "transp R" "keeps R m" "\<And>e. keeps R (g e)" "\<And>x. keeps R (f x)"
  shows "keeps R (\<lambda>s. case m s of (Inl e, s1) \<Rightarrow> g e s1 | (Inr x, s1) \<Rightarrow> f x s1)"
  unfolding keeps_def
proof
  fix s
  obtain r s1 where r: "m s = (r, s1)" by fastforce
  have 1: "R s s1" using assms(2) r by (rule keepsD)
  have "R s1 (snd (g e s1))" "R s1 (snd (f x s1))" for e x using assms(3,4) by (simp_all add: keeps_def)
  then show "R s (snd (case m s of (Inl e, s1) \<Rightarrow> g e s1 | (Inr x, s1) \<Rightarrow> f x s1))"
    using transpD [OF assms(1) 1] r by (cases r) auto
qed

lemma keeps_if: "(b \<Longrightarrow> keeps R f) \<Longrightarrow> (\<not> b \<Longrightarrow> keeps R g) \<Longrightarrow> keeps R (\<lambda>s. if b then f s else g s)"
  by (simp add: keeps_def)

lemma keeps_ret: "reflp R \<Longrightarrow> keeps R (\<lambda>s. (r, s))"
  by (simp add: keeps_def reflp_def)

lemma keeps_ret_snd: "keeps R m \<Longrightarrow> keeps R (\<lambda>s. (r, snd (m s)))"
  by (simp add: keeps_def)

lemma keeps_let: "keeps R (f a) \<Longrightarrow> keeps R (\<lambda>s. let x = a in f x s)"
  by simp

section \<open>Filesystem operations\<close>

definition fs_keep :: "'z fs_scheme \<Rightarrow> 'z fs_scheme \<Rightarrow> bool" where
  "fs_keep s s' \<longleftrightarrow> fs.more s' = fs.more s \<and> device s' = device s \<and> set (faults s') \<subseteq> set (faults s)"

lemma fs_keep_refl [simp]: "fs_keep s s"
  by (simp add: fs_keep_def)

lemma fs_keep_trans: "fs_keep s t \<Longrightarrow> fs_keep t u \<Longrightarrow> fs_keep s u"
  by (auto simp: fs_keep_def)

lemma fs_keep_rel: "transp fs_keep" "reflp fs_keep"
  by (auto simp: transp_def reflp_def intro: fs_keep_trans)

lemma fs_keep_only_faults: "only_faults s s' \<Longrightarrow> fs_keep s s'"
  by (auto simp: only_faults_def fs_keep_def)

lemma keeps_fs_syscall [simp]: "keeps fs_keep (syscall f)"
  unfolding keeps_def
proof
  show "fs_keep s (snd (syscall f s))" for s
    by (auto simp: syscall_def fs_keep_def split: list.splits option.splits sum.splits)
qed

lemma keeps_fs_only: "keeps only_faults m \<Longrightarrow> keeps fs_keep m"
  by (simp add: keeps_def fs_keep_only_faults)

lemmas keeps_fs = keeps_bindS [OF fs_keep_rel(1)] keeps_mapErr keeps_pure [OF fs_keep_rel(2)]
  keeps_forS [OF fs_keep_rel] keeps_case [OF fs_keep_rel(1)] keeps_if keeps_ret [OF fs_keep_rel(2)] keeps_ret_snd

lemma keeps_fs_calls [simp]:
  "keeps fs_keep (create_dir p)" "keeps fs_keep (create_dir_all p)" "keeps fs_keep (remove_dir p)"
  "keeps fs_keep (remove_file p)" "keeps fs_keep (remove_dir_all p)" "keeps fs_keep (rename p q)"
  "keeps fs_keep (write_file p d)" "keeps fs_keep (append_file p b)" "keeps fs_keep (modify_file g p)"
  "keeps fs_keep (symlink_metadata p)" "keeps fs_keep (metadata p)" "keeps fs_keep (read_dir p)"
  by (simp_all add: create_dir_def create_dir_all_def remove_dir_def remove_file_def remove_dir_all_def
      rename_def write_file_def append_file_def modify_file_def keeps_fs_only)

lemma keeps_fs_attributes [simp]: "keeps fs_keep (set_file_attributes p m e)"
  by (auto simp: set_file_attributes_def set_file_mtime_def intro!: keeps_fs split: option.splits)

lemma keeps_fs_checks [simp]:
  "keeps fs_keep (ensure_path_has_no_links w p)" "keeps fs_keep (open_file_for_transfer sha n q r)"
  "keeps fs_keep (scan_manifest_blocking sha f n m root)" "keeps fs_keep (check_project_root w d)"
  "keeps fs_keep (ensure_same_filesystem w st q)" "keeps fs_keep (check_target sha display cfg plan r)"
  by (simp_all add: keeps_fs_only)

lemma keeps_fs_check_staged [simp]: "keeps fs_keep (check_staged sha cfg st u)"
  by (simp add: check_staged_def Let_def keeps_fs)

section \<open>Transactions\<close>

definition tx_keep :: "'z txn_scheme \<Rightarrow> 'z txn_scheme \<Rightarrow> bool" where
  "tx_keep s s' \<longleftrightarrow> txn.more s' = txn.more s \<and> issued s \<le> issued s' \<and> device s' = device s \<and>
     set (faults s') \<subseteq> set (faults s)"

lemma tx_keep_refl [simp]: "tx_keep s s"
  by (simp add: tx_keep_def)

lemma tx_keep_trans: "tx_keep s t \<Longrightarrow> tx_keep t u \<Longrightarrow> tx_keep s u"
  by (auto simp: tx_keep_def)

lemma tx_keep_rel: "transp tx_keep" "reflp tx_keep"
  by (auto simp: transp_def reflp_def intro: tx_keep_trans)

lemma fs_keep_tx: "fs_keep s s' \<Longrightarrow> tx_keep s s'" for s :: "'z txn_scheme"
  by (cases s; cases s') (simp add: fs_keep_def tx_keep_def)

lemma keeps_tx_fs: "keeps fs_keep m \<Longrightarrow> keeps tx_keep m" for m :: "'z txn_scheme \<Rightarrow> 'r \<times> 'z txn_scheme"
  by (simp add: keeps_def fs_keep_tx)

lemmas keeps_tx = keeps_bindS [OF tx_keep_rel(1)] keeps_mapErr keeps_pure [OF tx_keep_rel(2)]
  keeps_forS [OF tx_keep_rel]

lemma tx_keep_log [simp]:
  "tx_keep s (push_change c t) \<longleftrightarrow> tx_keep s t" "tx_keep s (pop_change t) \<longleftrightarrow> tx_keep s t"
  "tx_keep (push_change c s) t \<longleftrightarrow> tx_keep s t" "tx_keep (pop_change s) t \<longleftrightarrow> tx_keep s t"
  by (simp_all add: tx_keep_def push_change_def pop_change_def)

lemma tx_keep_call:
  "create_dir p s = (r, s') \<Longrightarrow> tx_keep s s'" "create_dir_all p s = (r, s') \<Longrightarrow> tx_keep s s'"
  "remove_dir p s = (r, s') \<Longrightarrow> tx_keep s s'" "remove_file p s = (r, s') \<Longrightarrow> tx_keep s s'"
  "rename p q s = (r, s') \<Longrightarrow> tx_keep s s'" "symlink_metadata p s = (n, s') \<Longrightarrow> tx_keep s s'"
  "read_dir p s = (l, s') \<Longrightarrow> tx_keep s s'"
  for s :: "'z txn_scheme"
  by (rule keepsD [OF keeps_tx_fs, rotated], assumption, simp)+

lemma tx_keep_new: "txn_new p s = (r, s') \<Longrightarrow> tx_keep s s'"
  by (auto simp: txn_new_def tx_keep_def split: prod.splits sum.splits dest!: tx_keep_call)

lemma tx_keep_create_dir: "tx_create_dir t n s = (r, s') \<Longrightarrow> tx_keep s s'"
  by (auto simp: tx_create_dir_def split: prod.splits sum.splits node.splits if_splits
      dest!: tx_keep_call intro: tx_keep_trans)

lemma tx_keep_backup: "backup u t s = (r, s') \<Longrightarrow> tx_keep s s'"
proof -
  assume b: "backup u t s = (r, s')"
  then obtain r1 where "rename t (backup_root s @ [u (issued s)]) (s\<lparr>issued := Suc (issued s)\<rparr>) = (r1, s')"
    by (auto simp: backup_def Let_def split: prod.splits sum.splits)
  from tx_keep_call(5) [OF this] show ?thesis by (simp add: tx_keep_def)
qed

lemma tx_keep_install_staged: "install_staged m st t bk s = (r, s') \<Longrightarrow> tx_keep s s'"
  by (auto simp: install_staged_def Let_def split: option.splits prod.splits sum.splits
      dest!: tx_keep_call)

lemma tx_keep_install: "install_file u st t n s = (r, s') \<Longrightarrow> tx_keep s s'"
  by (auto simp: install_file_def split: prod.splits sum.splits node.splits if_splits
      dest!: tx_keep_call tx_keep_backup tx_keep_install_staged intro: tx_keep_trans)

lemma tx_keep_replace: "replace_project u st t s = (r, s') \<Longrightarrow> tx_keep s s'"
  by (auto simp: replace_project_def split: prod.splits sum.splits node.splits if_splits
      dest!: tx_keep_call tx_keep_backup tx_keep_install_staged intro: tx_keep_trans)

lemma tx_keep_delete_file: "delete_file u t n s = (r, s') \<Longrightarrow> tx_keep s s'"
  by (auto simp: delete_file_def split: prod.splits sum.splits node.splits if_splits
      dest!: tx_keep_call tx_keep_backup intro: tx_keep_trans)

lemma tx_keep_delete_dir: "delete_empty_dir u t n s = (r, s') \<Longrightarrow> tx_keep s s'"
  by (auto simp: delete_empty_dir_def split: prod.splits sum.splits node.splits if_splits list.splits
      dest!: tx_keep_call tx_keep_backup intro: tx_keep_trans)

lemma tx_keep_remove: "remove_created_path t s = (r, s') \<Longrightarrow> tx_keep s s'"
  "remove_replacement_target t s = (r, s') \<Longrightarrow> tx_keep s s'"
  by (auto simp: remove_created_path_def remove_replacement_target_def mapErr_def
      split: prod.splits sum.splits node.splits if_splits dest!: tx_keep_call intro: tx_keep_trans)

lemma tx_keep_undo: "undo_change c s = (r, s') \<Longrightarrow> tx_keep s s'"
  by (cases c) (auto simp: mapErr_def bindS_def split: prod.splits sum.splits option.splits
      dest!: tx_keep_call tx_keep_remove intro: tx_keep_trans)

lemma tx_keep_rollback_loop: "tx_keep s (snd (rollback_loop cs es s))"
proof (induction cs es s rule: rollback_loop.induct)
  case (2 c cs es s)
  obtain r s1 where r: "undo_change c s = (r, s1)" by fastforce
  have k: "tx_keep s s1" using tx_keep_undo [OF r] .
  show ?case
  proof (cases r)
    case (Inl e)
    then show ?thesis using 2(1) [OF r [symmetric] Inl] Inl k r by (auto intro: tx_keep_trans)
  next
    case (Inr u)
    then show ?thesis using 2(2) [OF r [symmetric] Inr] Inr k r by (auto intro: tx_keep_trans)
  qed
qed simp

lemma tx_keep_rollback: "rollback s = (r, s') \<Longrightarrow> tx_keep s s'"
proof -
  assume r: "rollback s = (r, s')"
  have "s' = snd (rollback_loop (changes s) [] (s\<lparr>changes := []\<rparr>))"
    using r by (auto simp: rollback_def split: prod.splits list.splits)
  moreover have "tx_keep s t \<longleftrightarrow> tx_keep (s\<lparr>changes := []\<rparr>) t" for t by (simp add: tx_keep_def)
  ultimately show ?thesis using tx_keep_rollback_loop by simp
qed

lemma keeps_tx_ops [simp]:
  "keeps tx_keep (txn_new p)" "keeps tx_keep (tx_create_dir t n)" "keeps tx_keep (install_file u st t n)"
  "keeps tx_keep (replace_project u st t)" "keeps tx_keep (delete_file u t n)"
  "keeps tx_keep (delete_empty_dir u t n)" "keeps tx_keep rollback"
  unfolding keeps_def
  by (metis prod.collapse tx_keep_new tx_keep_create_dir tx_keep_install tx_keep_replace tx_keep_delete_file
      tx_keep_delete_dir tx_keep_rollback)+

lemma keeps_tx_calls [simp]:
  fixes s :: "'z txn_scheme"
  shows "keeps tx_keep (set_file_attributes q m e :: (unit, 'z) tx)"
    "keeps tx_keep (create_dir_all q :: 'z txn_scheme \<Rightarrow> _)"
    "keeps tx_keep (ensure_path_has_no_links w r :: (unit, 'z) tx)"
    "keeps tx_keep (scan_manifest_blocking sha f n k q :: (manifest_entry list, 'z) tx)"
    "keeps tx_keep (check_project_root w q :: (unit, 'z) tx)"
    "keeps tx_keep (ensure_same_filesystem w st q :: (unit, 'z) tx)"
    "keeps tx_keep (check_target sha disp cfg plan r :: (unit, 'z) tx)"
    "keeps tx_keep (check_staged sha cfg st up :: (unit, 'z) tx)"
  by (simp_all add: keeps_tx_fs)

lemma keeps_tx_delete_all: "(\<And>p. keeps tx_keep (f p)) \<Longrightarrow> keeps tx_keep (delete_all f ps acc)"
  by (induction f ps acc rule: delete_all.induct) (simp_all add: keeps_tx)

lemma keeps_tx_settle: "keeps tx_keep m \<Longrightarrow> keeps tx_keep (settle_transaction m)"
  unfolding keeps_def
proof
  fix s assume m: "\<forall>s. tx_keep s (snd (m s))"
  obtain r s1 where r: "m s = (r, s1)" by fastforce
  then have "tx_keep s s1" using m by (metis snd_conv)
  then show "tx_keep s (snd (settle_transaction m s))" using r tx_keep_rollback [of s1]
    by (auto simp: settle_transaction_def split: sum.splits prod.splits intro: tx_keep_trans)
qed

lemma keeps_tx_commit_operations [simp]: "keeps tx_keep (commit_operations u plan)"
  by (simp add: commit_operations_def install_upload_def Let_def keeps_tx keeps_tx_delete_all)

lemma keeps_tx_apply_reset [simp]: "keeps tx_keep (apply_reset sha u cfg plan)"
  by (simp add: apply_reset_def Let_def keeps_tx keeps_tx_settle)

lemma keeps_tx_apply_commit [simp]: "keeps tx_keep (apply_commit sha disp u cfg plan)"
  by (simp add: apply_commit_def keeps_tx keeps_tx_settle)

section \<open>Staging\<close>

lemma keeps_fs_private_level [simp]: "keeps fs_keep (private_level p)"
proof -
  let ?re = "bindS (mapErr sync_internal_io (symlink_metadata p)) (\<lambda>n. liftR (ensure (n = Dir) not_real_staging))"
  have k: "keeps fs_keep ?re" by (simp add: keeps_fs)
  have n: "keeps fs_keep (\<lambda>s. case n of Dir \<Rightarrow> (Inr (), s) | _ \<Rightarrow> (Inl not_real_staging, s))" for n
    by (cases n) (simp_all add: keeps_fs)
  show ?thesis unfolding private_level_def Let_def
    by (rule keeps_fs) (simp_all add: keeps_fs k n)
qed

lemma keeps_fs_foldS: "(\<And>a x. keeps fs_keep (f a x)) \<Longrightarrow> keeps fs_keep (foldS f a xs)"
  by (induction f a xs rule: foldS.induct) (simp_all add: keeps_fs)

lemma keeps_fs_staging_root [simp]: "keeps fs_keep (private_staging_root w)"
  unfolding private_staging_root_def
  by (intro keeps_fs) (simp_all add: keeps_fs keeps_fs_foldS del: foldS.simps)

lemma keeps_fs_remove_private [simp]: "keeps fs_keep (remove_private_entry v root p)"
proof -
  have "keeps fs_keep (\<lambda>s. case n of Dir \<Rightarrow> mapErr sync_internal_io (remove_dir_all p) s
      | _ \<Rightarrow> (Inl (BadRequest ''private staging entry is not a real directory''), s))" for n
    by (cases n) (simp_all add: keeps_fs)
  then show ?thesis unfolding remove_private_entry_def by (intro keeps_fs) simp_all
qed

lemma keeps_fs_staging [simp]:
  "keeps fs_keep (remove_staging_dir v w p)" "keeps fs_keep (clear_staging v w)"
  by (simp_all add: remove_staging_dir_def clear_staging_def keeps_fs)

lemma keeps_fs_create_staging [simp]: "keeps fs_keep (create_staging_dir v w i)"
  unfolding create_staging_dir_def Let_def by (intro keeps_fs) simp_all

lemma keeps_fs_scan_manifest [simp]: "keeps fs_keep (scan_manifest env cfg d f)"
  unfolding scan_manifest_def by (intro keeps_fs) simp_all

lemma keeps_fs_draft [simp]: "keeps fs_keep (draft_plan env cfg pr req b)"
  by (simp add: draft_plan_def keeps_fs)

lemma keeps_fs_stage [simp]: "keeps fs_keep (stage_plan env cfg i plan)"
  unfolding stage_plan_def by (intro keeps_fs) simp_all

end
