(* ===== verification/Manager_Inv.thy ===== *)
theory Manager_Inv
  imports Manager_Frame
begin

text \<open>
  The sync manager as a state machine. \<open>sync_step\<close> has one rule per segment of a handler; \<open>manager_ok\<close>
  is the invariant every step keeps: the slot and the open sessions agree, a session's result, error,
  permit and cleanup flags agree with its state, terminal sessions hold no plan, and the degradation
  counter counts the sessions whose cleanup failed.
\<close>

section \<open>The invariant\<close>

definition plan_released :: "push_session \<Rightarrow> bool" where
  "plan_released d \<longleftrightarrow> upload_files (ss_plan d) = [] \<and> create_dirs (ss_plan d) = [] \<and>
     delete_files (ss_plan d) = [] \<and> delete_dirs (ss_plan d) = [] \<and> baseline (ss_plan d) = [] \<and> uploaded d = {}"

lemma plan_released_simps [simp]: "plan_released (released d)"
  by (simp add: plan_released_def released_def)

definition session_ok :: "path \<Rightarrow> string \<Rightarrow> push_session \<Rightarrow> bool" where
  "session_ok w i d \<longleftrightarrow>
     (holds_permit d \<longleftrightarrow> \<not> terminal (ss_state d)) \<and>
     (ss_result d \<noteq> None \<longleftrightarrow> ss_state d = SsCommitted) \<and> (ss_error d \<noteq> None \<longleftrightarrow> ss_state d = SsFailed) \<and>
     (finished_at d \<noteq> None \<longleftrightarrow> terminal (ss_state d)) \<and>
     (cleanup_pending d \<longrightarrow> terminal (ss_state d)) \<and> (cleanup_failures d > 0 \<longrightarrow> cleanup_pending d) \<and>
     (terminal (ss_state d) \<longrightarrow> plan_released d) \<and>
     uploaded d \<subseteq> set (bt_keys (upload_files (ss_plan d))) \<and>
     (ss_state d = SsCommitting \<longrightarrow> uploaded d = set (bt_keys (upload_files (ss_plan d)))) \<and>
     staging_dir (ss_plan d) = staging_path w @ [i]"

definition count_sessions :: "(push_session \<Rightarrow> bool) \<Rightarrow> 'z manager_scheme \<Rightarrow> nat" where
  "count_sessions P s = length (filter (\<lambda>x. P (snd x)) (sessions s))"

definition entry_ok :: "sync_env \<Rightarrow> path \<Rightarrow> nat \<Rightarrow> string \<times> push_session \<Rightarrow> bool" where
  "entry_ok env w n x \<longleftrightarrow> session_ok w (fst x) (snd x) \<and> fst x \<in> env_uuid env ` {..<n}"

definition manager_ok :: "sync_env \<Rightarrow> 'y manager_config_scheme \<Rightarrow> 'z manager_scheme \<Rightarrow> bool" where
  "manager_ok env cfg s \<longleftrightarrow>
     distinct (map fst (sessions s)) \<and>
     list_all (entry_ok env (workspace_root cfg) (issued s)) (sessions s) \<and>
     permits s + count_sessions holds_permit s = 1 \<and>
     cleanup_degraded s = count_sessions (\<lambda>d. cleanup_failures d > 0) s"

section \<open>Updating one session\<close>

lemma fst_upd: "map fst (map (\<lambda>(j, d). if j = i then (j, f d) else (j, d)) ss) = map fst ss"
  by (induction ss) auto

lemma upd_entry:
  "(\<lambda>(j, d). if j = i then (j, f d) else (j, d)) = (\<lambda>x. if fst x = i then (fst x, f (snd x)) else x)"
  by (auto simp: fun_eq_iff)

lemma sessions_upd [simp]:
  "sessions (upd_session i f s) = map (\<lambda>(j, d). if j = i then (j, f d) else (j, d)) (sessions s)"
  by (simp add: upd_session_def)

lemma upd_session_other [simp]:
  "issued (upd_session i f s) = issued s" "permits (upd_session i f s) = permits s"
  "cleanup_degraded (upd_session i f s) = cleanup_degraded s" "clock (upd_session i f s) = clock s"
  "closed (upd_session i f s) = closed s" "store (upd_session i f s) = store s"
  "task_degraded (upd_session i f s) = task_degraded s" "reaper_degraded (upd_session i f s) = reaper_degraded s"
  "faults (upd_session i f s) = faults s"
  by (simp_all add: upd_session_def)

lemma map_of_upd:
  "map_of (map (\<lambda>(j, d). if j = i then (j, f d) else (j, d)) ss) k =
     (if k = i then map_option f (map_of ss i) else map_of ss k)"
  by (induction ss) auto

lemma count_upd:
  assumes "distinct (map fst ss)" "map_of ss i = Some d"
  shows "length (filter (\<lambda>x. P (snd x)) (map (\<lambda>(j, d). if j = i then (j, f d) else (j, d)) ss)) +
      (if P d then 1 else 0) = length (filter (\<lambda>x. P (snd x)) ss) + (if P (f d) then 1 else 0)"
  using assms
proof (induction ss)
  case (Cons x ss)
  obtain j e where x: "x = (j, e)" by fastforce
  show ?case
  proof (cases "j = i")
    case True
    then have "i \<notin> set (map fst ss)" "e = d" using Cons.prems x by auto
    then have "map (\<lambda>(j, d). if j = i then (j, f d) else (j, d)) ss = ss"
      by (induction ss) auto
    then show ?thesis using x True \<open>e = d\<close> by simp
  next
    case False
    then show ?thesis using Cons x by auto
  qed
qed simp

lemma count_upd_session:
  assumes "distinct (map fst (sessions s))" "map_of (sessions s) i = Some d"
  shows "count_sessions P (upd_session i f s) + (if P d then 1 else 0) =
    count_sessions P s + (if P (f d) then 1 else 0)"
  using count_upd [OF assms] by (simp add: count_sessions_def)

lemma upd_absent: "map_of (sessions s) i = None \<Longrightarrow> upd_session i f s = s"
proof -
  assume "map_of (sessions s) i = None"
  then have "map (\<lambda>(j, d). if j = i then (j, f d) else (j, d)) (sessions s) = sessions s"
    by (force simp: map_of_eq_None_iff intro!: map_idI)
  then show ?thesis by (simp add: upd_session_def)
qed

lemma entry_ok_mono: "entry_ok env w m x \<Longrightarrow> m \<le> n \<Longrightarrow> entry_ok env w n x"
  by (auto simp: entry_ok_def)

lemma entries_mono: "list_all (entry_ok env w m) ss \<Longrightarrow> m \<le> n \<Longrightarrow> list_all (entry_ok env w n) ss"
  by (auto simp: list_all_iff intro: entry_ok_mono)

lemma manager_okD:
  assumes "manager_ok env cfg s" "map_of (sessions s) i = Some d"
  shows "session_ok (workspace_root cfg) i d" "distinct (map fst (sessions s))"
    "i \<in> env_uuid env ` {..<issued s}"
  using assms map_of_SomeD [OF assms(2)] by (auto simp: manager_ok_def list_all_iff entry_ok_def)

text \<open>A session is replaced by one that satisfies its invariant, and the counters follow.\<close>

lemma manager_ok_upd:
  fixes s s' :: "'z manager_scheme"
  assumes ok: "manager_ok env cfg s" and d: "map_of (sessions s) i = Some d"
    and f: "session_ok (workspace_root cfg) i (f d)"
    and s': "sessions s' = sessions (upd_session i f s)" "issued s \<le> issued s'"
    and p: "permits s' + (if holds_permit (f d) then 1 else 0) = permits s + (if holds_permit d then 1 else 0)"
    and c: "cleanup_degraded s' + (if cleanup_failures d > 0 then 1 else 0) =
        cleanup_degraded s + (if cleanup_failures (f d) > 0 then 1 else 0)"
  shows "manager_ok env cfg s'"
proof -
  note dist = manager_okD(2) [OF ok d]
  have dist': "distinct (map fst (sessions s'))" using dist by (simp only: s'(1) sessions_upd fst_upd)
  have "entry_ok env (workspace_root cfg) (issued s') (if fst x = i then (fst x, f (snd x)) else x)"
    if x: "x \<in> set (sessions s)" for x
  proof (cases "fst x = i")
    case True
    then have "snd x = d" using x d dist by (metis map_of_is_SomeI option.inject prod.collapse)
    then show ?thesis using True f manager_okD(3) [OF ok d] s'(2) by (auto simp: entry_ok_def)
  next
    case False
    have "entry_ok env (workspace_root cfg) (issued s) x" using ok x by (simp add: manager_ok_def list_all_iff)
    then show ?thesis using False s'(2) by (auto intro: entry_ok_mono)
  qed
  then have all: "list_all (entry_ok env (workspace_root cfg) (issued s')) (sessions s')"
    unfolding s'(1) sessions_upd upd_entry list_all_iff set_map by blast
  have cs: "count_sessions P s' = count_sessions P (upd_session i f s)" for P
    using s'(1) by (simp add: count_sessions_def)
  have "permits s + count_sessions holds_permit s = 1"
    "cleanup_degraded s = count_sessions (\<lambda>d. cleanup_failures d > 0) s"
    using ok by (simp_all add: manager_ok_def)
  then show ?thesis
    using count_upd_session [OF dist d, of holds_permit f]
      count_upd_session [OF dist d, of "\<lambda>d. cleanup_failures d > 0" f] p c all dist'
    by (auto simp: manager_ok_def cs split: if_splits)
qed

lemma manager_ok_same:
  assumes "manager_ok env cfg s" "sessions s' = sessions s" "issued s \<le> issued s'"
    "permits s' = permits s" "cleanup_degraded s' = cleanup_degraded s"
  shows "manager_ok env cfg s'"
  using assms entries_mono [OF _ assms(3)] by (simp add: manager_ok_def count_sessions_def)

lemma tx_keep_manager:
  fixes s s' :: "'z manager_scheme"
  assumes "tx_keep s s'"
  shows "sessions s' = sessions s" "closed s' = closed s" "permits s' = permits s"
    "cleanup_degraded s' = cleanup_degraded s" "clock s' = clock s" "issued s \<le> issued s'"
    "task_degraded s' = task_degraded s" "reaper_degraded s' = reaper_degraded s"
  using assms by (cases s; cases s'; simp add: tx_keep_def)+

lemma manager_ok_tx: "manager_ok env cfg s \<Longrightarrow> tx_keep s s' \<Longrightarrow> manager_ok env cfg s'"
  by (rule manager_ok_same) (simp_all add: tx_keep_manager)

lemma manager_ok_fs: "manager_ok env cfg s \<Longrightarrow> fs_keep s s' \<Longrightarrow> manager_ok env cfg s'"
  by (erule manager_ok_tx) (rule fs_keep_tx)

section \<open>Steps keep it: retention, cleanup, abort\<close>

lemma pruned_finished: "set (pruned_ids limit ret t fs) \<subseteq> snd ` set fs"
  by (auto simp: pruned_ids_def dest!: set_zip_rightD)

text \<open>What may be pruned: a terminal session without pending cleanup.\<close>

definition prunable :: "push_session \<Rightarrow> bool" where
  "prunable d \<longleftrightarrow> \<not> cleanup_pending d \<and> terminal (ss_state d) \<and> finished_at d \<noteq> None"

lemma finished_entry_mem:
  "finished_entry y = Some x \<Longrightarrow>
   fst y = snd x \<and> prunable (snd y) \<and> finished_at (snd y) = Some (fst x)"
  by (cases y) (auto simp: prunable_def split: if_splits)

text \<open>
  What a prune has collected stays true of the sessions that are still retained: each of them shows the
  entry that was collected.
\<close>

definition still_finished :: "(nat \<times> string) list \<Rightarrow> 'z manager_scheme \<Rightarrow> bool" where
  "still_finished collected s \<longleftrightarrow> (\<forall>(t, i) \<in> set collected.
     i \<in> fst ` set (sessions s) \<longrightarrow> (\<exists>d. (i, d) \<in> set (sessions s) \<and> finished_entry (i, d) = Some (t, i)))"

lemma still_finished_now: "still_finished (finished_sessions (sessions s)) s"
proof -
  have "\<exists>d. (i, d) \<in> set (sessions s) \<and> finished_entry (i, d) = Some (t, i)"
    if m: "(t, i) \<in> set (finished_sessions (sessions s))" for t i
  proof -
    obtain y where y: "y \<in> set (sessions s)" "finished_entry y = Some (t, i)"
      using m by (force simp: finished_sessions_def List.map_filter_def)
    then have "fst y = i" using finished_entry_mem [OF y(2)] by simp
    with y show ?thesis by (metis prod.collapse)
  qed
  then show ?thesis unfolding still_finished_def by blast
qed

definition pruned_now :: "'y manager_config_scheme \<Rightarrow> (nat \<times> string) list \<Rightarrow> 'z manager_scheme \<Rightarrow> string set" where
  "pruned_now cfg collected s =
     set (pruned_ids max_retained_sync_results (result_retention cfg) (clock s) (sort collected))"

lemma prune_collected_facts:
  "sessions (prune_collected cfg c s) = filter (\<lambda>x. fst x \<notin> pruned_now cfg c s) (sessions s)"
  "permits (prune_collected cfg c s) = permits s" "cleanup_degraded (prune_collected cfg c s) = cleanup_degraded s"
  "issued (prune_collected cfg c s) = issued s" "store (prune_collected cfg c s) = store s"
  "clock (prune_collected cfg c s) = clock s" "closed (prune_collected cfg c s) = closed s"
  "task_degraded (prune_collected cfg c s) = task_degraded s"
  "reaper_degraded (prune_collected cfg c s) = reaper_degraded s" "faults (prune_collected cfg c s) = faults s"
  by (simp_all add: prune_collected_def pruned_now_def Let_def case_prod_unfold)

lemmas prune_results_facts =
  prune_collected_facts [where c = "finished_sessions (sessions s)" and s = s for s, folded prune_results_def]

lemma pruned_prunable:
  assumes "distinct (map fst (sessions s))" "still_finished c s" "x \<in> set (sessions s)" "fst x \<in> pruned_now cfg c s"
  shows "prunable (snd x)"
proof -
  obtain t where "(t, fst x) \<in> set c"
    using assms(4) pruned_finished [of _ _ _ "sort c"] unfolding pruned_now_def by force
  then obtain d where d: "(fst x, d) \<in> set (sessions s)" "finished_entry (fst x, d) = Some (t, fst x)"
    using assms(2,3) unfolding still_finished_def by fast
  then have "snd x = d" using assms(1,3) by (metis eq_key_imp_eq_value prod.collapse)
  then show ?thesis using finished_entry_mem [OF d(2)] by simp
qed

lemma manager_ok_prune_collected:
  assumes ok: "manager_ok env cfg s" and c: "still_finished c s"
  shows "manager_ok env cfg (prune_collected cfg c s)"
proof -
  have g: "\<not> holds_permit (snd x) \<and> \<not> cleanup_failures (snd x) > 0"
    if x: "x \<in> set (sessions s)" "fst x \<in> pruned_now cfg c s" for x
  proof -
    have "session_ok (workspace_root cfg) (fst x) (snd x)" "prunable (snd x)"
      using ok x pruned_prunable [OF _ c x] by (simp_all add: manager_ok_def list_all_iff entry_ok_def)
    then show ?thesis by (auto simp: session_ok_def prunable_def)
  qed
  have c: "count_sessions P (prune_collected cfg c s) = count_sessions P s"
    if "\<And>x. x \<in> set (sessions s) \<Longrightarrow> fst x \<in> pruned_now cfg c s \<Longrightarrow> \<not> P (snd x)" for P
    unfolding count_sessions_def prune_collected_facts filter_filter
    by (rule arg_cong [of _ _ length], rule filter_cong) (use that in auto)
  show ?thesis using ok c [of holds_permit] c [of "\<lambda>d. cleanup_failures d > 0"] g
    unfolding manager_ok_def by (simp add: prune_collected_facts list_all_iff distinct_map_filter)
qed

lemma manager_ok_prune: "manager_ok env cfg s \<Longrightarrow> manager_ok env cfg (prune_results cfg s)"
  unfolding prune_results_def by (rule manager_ok_prune_collected [OF _ still_finished_now])

lemma session_ok_cleanup:
  "session_ok w i d \<Longrightarrow> cleanup_pending d \<Longrightarrow> session_ok w i (cleanup_done d)"
  "session_ok w i d \<Longrightarrow> cleanup_pending d \<Longrightarrow> session_ok w i (cleanup_failed t d)"
  by (simp_all add: session_ok_def cleanup_done_def cleanup_failed_def plan_released_def Let_def)

lemma manager_ok_settle_cleanup:
  assumes ok: "manager_ok env cfg s"
  shows "manager_ok env cfg (snd (settle_cleanup env cfg i s))"
proof (cases "map_of (sessions s) i")
  case (Some d)
  show ?thesis
  proof (cases "cleanup_pending d")
    case True
    obtain r s1 where r: "remove_staging_dir (env_is_uuid env) (workspace_root cfg) (staging_dir (ss_plan d)) s = (r, s1)"
      by fastforce
    have "tx_keep s s1" using fs_keep_tx [OF keepsD [OF keeps_fs_staging(1) r]] .
    note k = tx_keep_manager [OF this]
    note D = manager_okD [OF ok Some] and sc = session_ok_cleanup [OF manager_okD(1) [OF ok Some] True]
    have pd: "cleanup_degraded s > 0" if "cleanup_failures d > 0"
    proof -
      have "(i, d) \<in> set (filter (\<lambda>x. cleanup_failures (snd x) > 0) (sessions s))"
        using map_of_SomeD [OF Some] that by simp
      then have "filter (\<lambda>x. cleanup_failures (snd x) > 0) (sessions s) \<noteq> []" by force
      then show ?thesis using ok by (simp add: manager_ok_def count_sessions_def)
    qed
    show ?thesis
    proof (cases r)
      case (Inr u)
      have "manager_ok env cfg (upd_session i cleanup_done
              (s1\<lparr>cleanup_degraded := cleanup_degraded s1 - (if cleanup_failures d > 0 then 1 else 0)\<rparr>))"
        by (rule manager_ok_upd [where f = cleanup_done, OF ok Some sc(1)])
          (use k pd in \<open>auto simp: cleanup_done_def Let_def\<close>)
      then show ?thesis using Some True r Inr by (simp add: settle_cleanup_def)
    next
      case (Inl e)
      have "manager_ok env cfg (upd_session i (cleanup_failed (clock s1))
              (s1\<lparr>cleanup_degraded := cleanup_degraded s1 + (if cleanup_failures d = 0 then 1 else 0)\<rparr>))"
        by (rule manager_ok_upd [where f = "cleanup_failed (clock s1)", OF ok Some sc(2)])
          (use k in \<open>auto simp: cleanup_failed_def u64_max_def\<close>)
      then show ?thesis using Some True r Inl by (simp add: settle_cleanup_def)
    qed
  qed (use ok Some in \<open>simp add: settle_cleanup_def\<close>)
qed (use ok in \<open>simp add: settle_cleanup_def\<close>)

lemma manager_ok_cleanup:
  assumes ok: "manager_ok env cfg s"
  shows "manager_ok env cfg (snd (cleanup_session env cfg i s))"
  using ok manager_ok_prune [OF manager_ok_settle_cleanup [OF ok, of i]]
  by (auto simp: cleanup_session_def split: option.split prod.splits)

end
