(* ===== verification/Manager_Steps.thy ===== *)
theory Manager_Steps
  imports Manager_Inv
begin

text \<open>
  Every segment of every handler keeps the invariant of the sync manager; the step relation, the
  handlers as sequences of its steps, and what holds in every reachable state.
\<close>

section \<open>Segments keep the invariant\<close>

lemma manager_ok_upd_same:
  assumes "manager_ok env cfg s" "\<And>d. session_ok w i d \<Longrightarrow> session_ok w i (f d)" "w = workspace_root cfg"
    "\<And>d. holds_permit (f d) = holds_permit d" "\<And>d. cleanup_failures (f d) = cleanup_failures d"
  shows "manager_ok env cfg (upd_session i f s)"
proof (cases "map_of (sessions s) i")
  case (Some d)
  show ?thesis
    by (rule manager_ok_upd [where f = f, OF assms(1) Some])
      (use assms manager_okD(1) [OF assms(1) Some] in simp_all)
qed (use assms(1) in \<open>simp add: upd_absent\<close>)

lemma manager_ok_cancel: "manager_ok env cfg s \<Longrightarrow> manager_ok env cfg (upd_session i cancel_uploads s)"
  by (rule manager_ok_upd_same) (simp_all add: session_ok_def cancel_uploads_def plan_released_def)

lemma upd_twice: "upd_session i f (upd_session i g s) = upd_session i (f \<circ> g) s"
  by (simp add: upd_session_def comp_def case_prod_unfold if_distrib)

text \<open>A live session becomes terminal: its plan is released and its permit returned.\<close>

lemma manager_ok_finish:
  assumes ok: "manager_ok env cfg s" and d: "map_of (sessions s) i = Some d" "\<not> terminal (ss_state d)"
    and f: "session_ok (workspace_root cfg) i (released (f d))" "holds_permit (f d)" "cleanup_failures (f d) = cleanup_failures d"
  shows "manager_ok env cfg (release_plan i (upd_session i f s))"
proof -
  have S: "release_plan i (upd_session i f s) =
      upd_session i released ((upd_session i f s)\<lparr>permits := permits s + 1\<rparr>)"
    using d(1) f(2) by (simp add: release_plan_def map_of_upd)
  have hp: "holds_permit d" using manager_okD(1) [OF ok d(1)] d(2) by (simp add: session_ok_def)
  show ?thesis
    by (rule manager_ok_upd [where f = "\<lambda>d. released (f d)", OF ok d(1)])
      (use f hp in \<open>simp_all add: S released_def comp_def case_prod_unfold if_distrib [of fst]\<close>)
qed

lemma manager_ok_abort_freeze:
  assumes ok: "manager_ok env cfg s" and st: "terminal st" "st \<noteq> SsCommitted" "st \<noteq> SsFailed"
  shows "manager_ok env cfg (abort_freeze i st s)"
proof -
  let ?s = "upd_session i cancel_uploads s"
  have ok1: "manager_ok env cfg ?s" by (rule manager_ok_cancel [OF ok])
  show ?thesis
  proof (cases "map_of (sessions ?s) i")
    case (Some d)
    show ?thesis
    proof (cases "ss_state d = SsOpen")
      case True
      note so = manager_okD(1) [OF ok1 Some]
      have "manager_ok env cfg (release_plan i (upd_session i (frozen st (clock ?s)) ?s))"
        by (rule manager_ok_finish [OF ok1 Some])
          (use True so st in \<open>simp_all add: session_ok_def frozen_def released_def terminal_def plan_released_def\<close>)
      then show ?thesis using Some True by (simp add: abort_freeze_def Let_def del: sessions_upd)
    qed (use Some ok1 in \<open>simp add: abort_freeze_def Let_def del: sessions_upd\<close>)
  qed (use ok1 in \<open>simp add: abort_freeze_def Let_def del: sessions_upd\<close>)
qed

lemma manager_ok_abort_now:
  "manager_ok env cfg s \<Longrightarrow> terminal st \<Longrightarrow> st \<noteq> SsCommitted \<Longrightarrow> st \<noteq> SsFailed \<Longrightarrow>
   manager_ok env cfg (snd (abort_now env cfg i st s))"
  by (simp add: abort_now_def manager_ok_cleanup manager_ok_abort_freeze)

lemma bindS_liftR_Inr: "bindS (liftR (Inr v)) f = f v"
  by (simp add: bindS_def liftR_def fun_eq_iff)

lemma bindS_eval: "m s = (Inr v, s') \<Longrightarrow> bindS m f s = f v s'"
  by (simp add: bindS_def)

lemma find_sessionD: "find_session i project s = Inr d \<Longrightarrow> map_of (sessions s) i = Some d \<and> ss_project d = project"
  by (auto simp: find_session_def split: option.splits if_splits)

lemma manager_ok_claim:
  assumes ok: "manager_ok env cfg s"
  shows "manager_ok env cfg (snd (commit_claim env cfg project i s))"
proof (cases "find_session i project s")
  case (Inr d)
  then have d: "map_of (sessions s) i = Some d" by (simp add: find_sessionD)
  have ab: "manager_ok env cfg (snd (abort_now env cfg i SsExpired s))"
    by (rule manager_ok_abort_now [OF ok]) (simp_all add: terminal_def)
  have cl: "manager_ok env cfg (upd_session i (\<lambda>d. d\<lparr>ss_state := SsCommitting\<rparr>) s)"
    if "ss_state d = SsOpen" "\<forall>p\<in>set (bt_keys (upload_files (ss_plan d))). p \<in> uploaded d"
    by (rule manager_ok_upd [where f = "\<lambda>d. d\<lparr>ss_state := SsCommitting\<rparr>", OF ok d])
      (use that manager_okD(1) [OF ok d] in \<open>auto simp: session_ok_def terminal_def plan_released_def\<close>)
  show ?thesis using Inr ok ab cl
    by (cases "ss_state d") (auto simp: commit_claim_def split: prod.splits sum.splits)
qed (use ok in \<open>simp add: commit_claim_def\<close>)

lemma manager_ok_settle:
  assumes ok: "manager_ok env cfg s" and d: "map_of (sessions s) i = Some d" "ss_state d = SsCommitting"
  shows "manager_ok env cfg (snd (commit_settle env cfg i plan s))"
proof -
  obtain r s1 where r: "apply_commit (env_sha env) (env_display env) (env_uuid env) (sync_config.truncate cfg) plan s = (r, s1)"
    by fastforce
  have k: "tx_keep s s1" by (rule keepsD [OF keeps_tx_apply_commit r])
  have ok1: "manager_ok env cfg s1" and d1: "map_of (sessions s1) i = Some d"
    using manager_ok_tx [OF ok k] tx_keep_manager(1) [OF k] d by simp_all
  note so = manager_okD(1) [OF ok1 d1]
  have "manager_ok env cfg (release_plan i (upd_session i (outcome r (clock s1)) s1))"
    by (rule manager_ok_finish [OF ok1 d1])
      (use so d(2) in \<open>simp_all add: session_ok_def terminal_def outcome_def released_def plan_released_def split: sum.splits\<close>)
  then show ?thesis using r by (simp add: commit_settle_def)
qed

lemma keeps_fs_stage_upload [simp]: "keeps fs_keep (stage_upload env cfg st p tg tmp t b al intr)"
proof -
  have w: "keeps fs_keep (write_frames tm ex mx id dl nw fs fin h)" for tm ex mx id dl nw fs fin h
  proof -
    have "fs_keep s (snd (write_frames tm ex mx id dl nw fs fin h s))" for s
    proof (induction tm ex mx id dl nw fs fin h s rule: write_frames.induct)
      case (2 tm ex mx id dl nw delay f fs fin h s)
      show ?case
      proof (cases "nw \<ge> dl \<or> delay > min id (dl - nw)")
        case False
        show ?thesis
        proof (cases f)
          case (DataFrame data)
          obtain r s1 where r: "mapErr (internal ''failed to write staged file'') (append_file tm data) s = (r, s1)"
            by fastforce
          have "keeps fs_keep (mapErr (internal ''failed to write staged file'') (append_file tm data))"
            by (simp add: keeps_fs)
          from keepsD [OF this r] have k: "fs_keep s s1" .
          show ?thesis using 2(1) [OF False DataFrame refl _ _ r [symmetric]] k r False DataFrame
            by (cases r) (auto simp: Let_def intro: fs_keep_trans)
        next
          case TrailerFrame
          then show ?thesis using 2(2) [OF False TrailerFrame] False by simp
        qed (use False in simp)
      qed simp
    qed simp
    then show ?thesis unfolding keeps_def by blast
  qed
  have q: "keeps fs_keep (query f)" for f by (simp add: keeps_fs_only)
  have sp: "keeps fs_keep (sync_path p)" for p by (simp add: sync_path_def q)
  have wb: "keeps fs_keep (write_body_to_file a b c d e f g h j)" for a b c d e f g h j
    unfolding write_body_to_file_def Let_def by (auto intro!: keeps_fs simp: w q sp)
  have rb: "keeps fs_keep (receive_body env cfg tmp t b al intr)"
    unfolding receive_body_def by (auto intro!: keeps_fs simp: w wb split: option.splits)
  have gd: "keeps fs_keep (\<lambda>s. (v, drop_guard (Some tmp) s))" for v
    using keeps_fs_calls(4) [of tmp] by (simp add: keeps_def drop_guard_def)
  show ?thesis unfolding stage_upload_def
    by (rule keeps_case [OF fs_keep_rel(1)]) (auto intro!: keeps_fs simp: rb gd atomic_replace_def)
qed

lemma manager_ok_mark:
  assumes ok: "manager_ok env cfg s" and e: "upload_expected i project p s0 = (Inr x, s1)"
    and same: "map_of (sessions s0) i = map_of (sessions s) i"
  shows "manager_ok env cfg (snd (mark_uploaded i project p s))"
proof (cases "andThen (find_session i project s) ensure_open")
  case (Inr u)
  obtain d where d: "map_of (sessions s) i = Some d" "ss_state d = SsOpen"
    using Inr by (auto simp: res_simps ensure_open_def dest!: find_sessionD)
  have "map_of (sessions s0) i = Some d" using d(1) same by simp
  then have "map_of (upload_files (ss_plan d)) p \<noteq> None"
    using e by (auto simp: upload_expected_def find_session_def ok_or_def res_simps split: option.splits if_splits)
  then have p: "p \<in> set (bt_keys (upload_files (ss_plan d)))" by (auto simp: map_of_eq_None_iff)
  have "manager_ok env cfg (upd_session i (\<lambda>d. d\<lparr>uploaded := insert p (uploaded d)\<rparr>) s)"
    by (rule manager_ok_upd [where f = "\<lambda>d. d\<lparr>uploaded := insert p (uploaded d)\<rparr>", OF ok d(1)])
      (use d p manager_okD(1) [OF ok d(1)] in \<open>auto simp: session_ok_def terminal_def\<close>)
  then show ?thesis using Inr by (simp add: mark_uploaded_def)
qed (use ok in \<open>simp add: mark_uploaded_def\<close>)

lemma manager_ok_upload:
  fixes s :: "'z manager_scheme"
  assumes ok: "manager_ok env cfg s"
  shows "manager_ok env cfg (snd (receive_upload env cfg project i raw n b intr s))"
proof (cases "normalize_sync_path raw")
  case (Inr p)
  obtain r s1 where e: "upload_expected i project p s = (r, s1)" by fastforce
  then have s1: "s1 = s" by (simp add: upload_expected_def)
  show ?thesis
  proof (cases r)
    case (Inl x)
    then show ?thesis using Inr e s1 ok by (simp add: receive_upload_def bindS_def liftR_def)
  next
    case r: (Inr x)
    obtain t st al where x: "x = (t, st, al)" by (cases x)
    let ?Q = "\<lambda>s2 :: 'z manager_scheme. manager_ok env cfg s2 \<and> sessions s2 = sessions s"
    have B: "manager_ok env cfg (snd (bindS m f s2))"
      if "keeps fs_keep m" "?Q s2" "\<And>x s3. ?Q s3 \<Longrightarrow> manager_ok env cfg (snd (f x s3))"
      for m :: "'z manager_scheme \<Rightarrow> 'b res \<times> 'z manager_scheme" and f :: "'b \<Rightarrow> 'z manager_scheme \<Rightarrow> 'c res \<times> 'z manager_scheme" and s2
    proof -
      obtain y s3 where m: "m s2 = (y, s3)" by fastforce
      have k: "fs_keep s2 s3" using that(1) m by (rule keepsD)
      then have "?Q s3" using that(2) manager_ok_fs tx_keep_manager(1) [OF fs_keep_tx [OF k]] by metis
      then show ?thesis using that(3) m by (cases y) (auto simp: bindS_def)
    qed
    have M: "manager_ok env cfg (snd (bindS (mark_uploaded i project p) (\<lambda>_. okS v) s2))" if "?Q s2" for v s2
    proof -
      have "manager_ok env cfg (snd (mark_uploaded i project p s2))"
        by (rule manager_ok_mark [OF _ e [unfolded r]]) (use that in simp_all)
      then show ?thesis by (cases "mark_uploaded i project p s2") (auto simp: bindS_def okS_def split: sum.splits)
    qed
    have I: "?Q (s2\<lparr>issued := Suc (issued s2)\<rparr>)" if "?Q s2" for s2
      using that by (auto intro: manager_ok_same)
    have "manager_ok env cfg (snd (receive_upload env cfg project i raw n b intr s)) \<longleftrightarrow>
      manager_ok env cfg (snd (bindS (liftR (check_content_length n (ft_size t))) (\<lambda>_.
       bindS (ensure_path_has_no_links st (''files/'' @ p)) (\<lambda>_.
       bindS (liftR (resolve_relative_path (st @ [''files'']) p)) (\<lambda>target.
       bindS (liftR (ok_or (parent target) (BadRequest ''invalid upload path''))) (\<lambda>up.
       bindS (mapErr sync_internal_io (create_dir_all up)) (\<lambda>_ s.
       bindS (stage_upload env cfg st p target (st @ [''tmp'', env_uuid env (issued s) @ ''.part'']) t b al intr) (\<lambda>_.
       bindS (mark_uploaded i project p) (\<lambda>_.
       okS \<lparr>upl_path = p, upl_size = ft_size t, upl_sha = ft_sha t\<rparr>)) (s\<lparr>issued := Suc (issued s)\<rparr>)))))) s))"
      unfolding receive_upload_def Inr bindS_liftR_Inr bindS_eval [where m = "upload_expected i project p", OF e [unfolded r x s1]] prod.case Let_def ..
    also have "\<dots>"
      by (intro B M I) (use ok in \<open>simp_all add: keeps_fs\<close>)
    finally show ?thesis by simp
  qed
qed (use ok in \<open>simp add: receive_upload_def bindS_def liftR_def\<close>)

section \<open>A new plan\<close>

lemma private_staging_rootD:
  "private_staging_root w s = (Inr root, s') \<Longrightarrow> root = staging_path w"
  unfolding private_staging_root_def
  by (auto simp: staging_path_def internal_dir_def okS_def failS_def elim!: bindS_InrE split: if_splits)

lemma create_staging_dirD:
  assumes "create_staging_dir v w i s = (Inr p, s')"
  shows "p = staging_path w @ [i]"
proof -
  obtain root s1 where r: "private_staging_root w s = (Inr root, s1)"
    and k: "bindS (mapErr sync_internal_io (create_dir (root @ [i]))) (\<lambda>_ s.
       case bindS (mapErr sync_internal_io (create_dir (root @ [i, ''files'']))) (\<lambda>_.
            mapErr sync_internal_io (create_dir (root @ [i, ''tmp'']))) s of
       (Inr _, s1) \<Rightarrow> (Inr (root @ [i]), s1)
     | (Inl e, s1) \<Rightarrow> (Inl e, snd (remove_private_entry v root (root @ [i]) s1))) s1 = (Inr p, s')"
    using assms unfolding create_staging_dir_def Let_def by (rule bindS_InrE) simp
  from k have "p = root @ [i]"
    by (rule bindS_InrE) (auto split: prod.splits sum.splits)
  then show ?thesis using private_staging_rootD [OF r] by simp
qed

lemma stage_planD:
  assumes "stage_plan env cfg i plan s = (Inr p, s')"
  shows "p = plan\<lparr>staging_dir := staging_path (workspace_root cfg) @ [i]\<rparr>"
proof -
  obtain d s1 where c: "create_staging_dir (env_is_uuid env) (workspace_root cfg) i s = (Inr d, s1)"
    and k: "(case ensure_same_filesystem (workspace_root cfg) d (project_dir plan) s1 of
       (Inr _, s1) \<Rightarrow> (Inr (plan\<lparr>staging_dir := d\<rparr>), s1)
     | (Inl e, s1) \<Rightarrow> (Inl e, snd (remove_staging_dir (env_is_uuid env) (workspace_root cfg) d s1))) = (Inr p, s')"
    using assms unfolding stage_plan_def by (elim bindS_InrE) (auto simp: liftR_def)
  from k have "p = plan\<lparr>staging_dir := d\<rparr>" by (auto split: prod.splits sum.splits)
  then show ?thesis using create_staging_dirD [OF c] by simp
qed

lemma session_ok_open:
  "staging_dir plan = staging_path w @ [i] \<Longrightarrow> session_ok w i (open_session project plan t)"
  by (simp add: session_ok_def open_session_def terminal_def)

lemma manager_ok_new:
  assumes ok: "manager_ok env cfg s" and i: "i = env_uuid env n" "n < issued s'" "i \<notin> fst ` set (sessions s)"
    and d: "session_ok (workspace_root cfg) i d" "holds_permit d" "cleanup_failures d = 0"
    and s': "sessions s' = (i, d) # sessions s" "issued s \<le> issued s'" "permits s' = permits s - 1"
      "0 < permits s" "cleanup_degraded s' = cleanup_degraded s"
  shows "manager_ok env cfg s'"
proof -
  have "permits s = 1" "count_sessions holds_permit s = 0"
    using ok s'(4) by (auto simp: manager_ok_def)
  then show ?thesis
    using ok i d s' entries_mono [of env "workspace_root cfg" "issued s" "sessions s" "issued s'"]
    by (auto simp: manager_ok_def count_sessions_def entry_ok_def)
qed

lemma manager_ok_open_plan:
  assumes ok: "manager_ok env cfg s" and inj: "inj (env_uuid env)"
  shows "manager_ok env cfg (snd (open_plan env cfg project req r s))"
proof -
  show ?thesis
  proof (cases "permits s = 0")
    case False
    obtain x s1 where x: "draft_plan env cfg project req r s = (x, s1)" by fastforce
    have k1: "fs_keep s s1" by (rule keepsD [OF keeps_fs_draft x])
    note K1 = tx_keep_manager [OF fs_keep_tx [OF k1]]
    have ok2: "manager_ok env cfg s1" by (rule manager_ok_fs [OF ok k1])
    show ?thesis
    proof (cases x)
      case (Inl e)
      then show ?thesis using False x ok2 by (simp add: open_plan_def Let_def)
    next
      case (Inr plan)
      let ?i = "env_uuid env (issued s1)" and ?t = "clock s1 + session_ttl cfg"
      let ?s1 = "s1\<lparr>issued := Suc (issued s1)\<rparr>"
      obtain y s2 where y: "stage_plan env cfg ?i plan ?s1 = (y, s2)" by fastforce
      have k2: "fs_keep ?s1 s2" by (rule keepsD [OF keeps_fs_stage y])
      note K2 = tx_keep_manager [OF fs_keep_tx [OF k2]]
      have ok3: "manager_ok env cfg ?s1" by (rule manager_ok_same [OF ok2]) simp_all
      have ok4: "manager_ok env cfg s2" by (rule manager_ok_fs [OF ok3 k2])
      show ?thesis
      proof (cases y)
        case (Inl e)
        then show ?thesis using False x Inr y ok4 by (simp add: open_plan_def Let_def)
      next
        case y': (Inr p)
        have p: "staging_dir p = staging_path (workspace_root cfg) @ [?i]"
          using stage_planD [OF y [unfolded y']] by simp
        have fresh: "?i \<notin> fst ` set (sessions s2)"
        proof
          assume "?i \<in> fst ` set (sessions s2)"
          then have "?i \<in> env_uuid env ` {..<issued s1}"
            using ok2 K2(1) by (auto simp: manager_ok_def list_all_iff entry_ok_def)
          then show False using inj by (auto simp: inj_def)
        qed
        have "manager_ok env cfg (s2\<lparr>permits := permits s2 - 1,
            sessions := (?i, open_session project p ?t) # sessions s2\<rparr>)"
          by (rule manager_ok_new [OF ok4 refl _ fresh session_ok_open [OF p]])
            (use K1 K2 False in \<open>auto simp: open_session_def\<close>)
        then show ?thesis using False x Inr y y' by (simp add: open_plan_def Let_def)
      qed
    qed
  qed (use ok in \<open>simp add: open_plan_def Let_def\<close>)
qed

section \<open>The state machine\<close>

definition manager_new :: "'z txn_scheme \<Rightarrow> unit manager_scheme" where
  "manager_new t = \<lparr>store = store t, device = device t, faults = faults t, backup_root = backup_root t,
     changes = changes t, issued = issued t, sessions = [], closed = False, reaper_degraded = False,
     task_degraded = False, cleanup_degraded = 0, permits = 1, clock = 0\<rparr>"

text \<open>
  One rule per segment. \<open>tick\<close> and \<open>outside\<close> are the environment: time passes, and outside failures of
  later system calls are decided. A claim that finds its session expired is the segments of an abort. A prune
  ends with what it has collected in earlier states, which is then \<open>still_finished\<close> (see \<open>prune_visits\<close>).
\<close>

definition claim_expires :: "string \<Rightarrow> string \<Rightarrow> 'z manager_scheme \<Rightarrow> bool" where
  "claim_expires project i s \<longleftrightarrow>
     (case find_session i project s of
        Inl _ \<Rightarrow> False
      | Inr d \<Rightarrow> ss_state d = SsOpen \<and> clock s \<ge> expires_deadline d)"

inductive sync_step :: "sync_env \<Rightarrow> 'y manager_config_scheme \<Rightarrow> 'z manager_scheme \<Rightarrow> 'z manager_scheme \<Rightarrow> bool"
  for env cfg where
  step_plan: "open_plan env cfg project req r s = (x, s') \<Longrightarrow> sync_step env cfg s s'"
| step_upload: "upload_file env cfg project i raw n b intr s = (x, s') \<Longrightarrow> sync_step env cfg s s'"
| step_claim: "\<not> claim_expires project i s \<Longrightarrow> commit_claim env cfg project i s = (x, s') \<Longrightarrow> sync_step env cfg s s'"
| step_settle: "map_of (sessions s) i = Some d \<Longrightarrow> ss_state d = SsCommitting \<Longrightarrow>
    commit_settle env cfg i (ss_plan d) s = (x, s') \<Longrightarrow> sync_step env cfg s s'"
| step_cleanup: "settle_cleanup env cfg i s = (x, s') \<Longrightarrow> sync_step env cfg s s'"
| step_freeze: "st = SsAborted \<or> st = SsExpired \<Longrightarrow> sync_step env cfg s (abort_freeze i st s)"
| step_cancel: "sync_step env cfg s (upd_session i cancel_uploads s)"
| step_prune: "still_finished c s \<Longrightarrow> sync_step env cfg s (prune_collected cfg c s)"
| step_close: "sync_step env cfg s (shutdown_close s)"
| step_orphans: "cleanup_orphans env cfg s = (x, s') \<Longrightarrow> sync_step env cfg s s'"
| step_flag: "sync_step env cfg s (s\<lparr>reaper_degraded := b\<rparr>)"
| step_read: "fs_keep s s' \<Longrightarrow> store s' = store s \<Longrightarrow> sync_step env cfg s s'"
| step_tick: "sync_step env cfg s (s\<lparr>clock := clock s + k\<rparr>)"
| step_outside: "sync_step env cfg s (s\<lparr>faults := fl\<rparr>)"

inductive sync_run :: "sync_env \<Rightarrow> 'y manager_config_scheme \<Rightarrow> 'z manager_scheme \<Rightarrow> 'z manager_scheme \<Rightarrow> bool"
  for env cfg where
  run_refl: "sync_run env cfg s s"
| run_step: "sync_run env cfg s t \<Longrightarrow> sync_step env cfg t u \<Longrightarrow> sync_run env cfg s u"

lemma sync_run_trans: "sync_run env cfg s t \<Longrightarrow> sync_run env cfg t u \<Longrightarrow> sync_run env cfg s u"
  by (rotate_tac, induction rule: sync_run.induct) (auto intro: run_step)

lemma sync_run_step: "sync_step env cfg s t \<Longrightarrow> sync_run env cfg s t"
  by (rule run_step [OF run_refl])

lemma manager_ok_initial: "manager_ok env cfg (manager_new t)"
  by (simp add: manager_ok_def manager_new_def count_sessions_def)

lemma manager_ok_map:
  assumes ok: "manager_ok env cfg s" and f: "\<And>i d. session_ok (workspace_root cfg) i d \<Longrightarrow> session_ok (workspace_root cfg) i (f d)"
    "\<And>d. holds_permit (f d) = holds_permit d" "\<And>d. cleanup_failures (f d) = cleanup_failures d"
    and s': "sessions s' = map (\<lambda>(i, d). (i, f d)) (sessions s)" "issued s' = issued s" "permits s' = permits s"
      "cleanup_degraded s' = cleanup_degraded s"
  shows "manager_ok env cfg s'"
proof -
  have "filter (\<lambda>x. P (snd x)) (sessions s') = map (\<lambda>(i, d). (i, f d)) (filter (\<lambda>x. P (snd x)) (sessions s))"
    if "\<And>d. P (f d) = P d" for P
    using that by (simp add: s' filter_map comp_def case_prod_unfold)
  then have "count_sessions P s' = count_sessions P s" if "\<And>d. P (f d) = P d" for P
    using that by (simp add: count_sessions_def)
  from this [of holds_permit] this [of "\<lambda>d. cleanup_failures d > 0"] show ?thesis
    using ok f s' by (auto simp: manager_ok_def list_all_iff entry_ok_def comp_def case_prod_unfold)
qed

lemma manager_ok_step:
  assumes "sync_step env cfg s s'" "manager_ok env cfg s" "inj (env_uuid env)"
  shows "manager_ok env cfg s'"
  using assms
proof (cases rule: sync_step.cases)
  case (step_plan project req r x)
  then show ?thesis using manager_ok_open_plan [OF assms(2,3), of project req r] by simp
next
  case (step_upload project i raw n b intr x)
  then show ?thesis using manager_ok_upload [OF assms(2), of project i raw n b intr] assms(2)
    by (auto simp: upload_file_def tracked_def split: if_splits)
next
  case (step_claim project i x)
  then show ?thesis using manager_ok_claim [OF assms(2), of project i] by simp
next
  case (step_settle i d x)
  then show ?thesis using manager_ok_settle [OF assms(2) step_settle(1,2), of "ss_plan d"] by simp
next
  case (step_cleanup i x)
  then show ?thesis using manager_ok_settle_cleanup [OF assms(2), of i] by simp
next
  case (step_freeze st i)
  then show ?thesis using assms(2) by (auto intro!: manager_ok_abort_freeze simp: terminal_def)
next
  case (step_orphans x)
  have "fs_keep s (snd (clear_staging (env_is_uuid env) (workspace_root cfg) s))"
    by (rule keeps_snd [OF keeps_fs_staging(2)])
  then show ?thesis using step_orphans assms(2) manager_ok_fs [OF assms(2)]
    by (auto simp: cleanup_orphans_def tracked_def split: if_splits)
next
  case step_close
  then show ?thesis
    by (intro manager_ok_map [OF assms(2), of cancel_uploads])
      (auto simp: shutdown_close_def cancel_uploads_def session_ok_def plan_released_def)
next
  case step_read
  then show ?thesis using manager_ok_fs [OF assms(2)] by simp
qed (use assms(2) in \<open>auto intro: manager_ok_cancel manager_ok_prune_collected manager_ok_same\<close>)

lemma manager_ok_run: "sync_run env cfg s s' \<Longrightarrow> manager_ok env cfg s \<Longrightarrow> inj (env_uuid env) \<Longrightarrow> manager_ok env cfg s'"
  by (induction rule: sync_run.induct) (auto intro: manager_ok_step)

end
