(* ===== verification/Manager_Properties.thy ===== *)
theory Manager_Properties
  imports Manager_Steps
begin

text \<open>
  What holds in every reachable state of the sync manager; its handlers are runs of the state machine.
\<close>

section \<open>Views of the session map\<close>

definition same_outcome :: "push_session \<Rightarrow> push_session \<Rightarrow> bool" where
  "same_outcome d e \<longleftrightarrow> ss_state e = ss_state d \<and> ss_project e = ss_project d \<and> ss_result e = ss_result d \<and>
     ss_error e = ss_error d \<and> finished_at e = finished_at d"

lemma same_outcome_refl [simp]: "same_outcome d d"
  by (simp add: same_outcome_def)

lemma same_outcome_trans: "same_outcome d e \<Longrightarrow> same_outcome e f \<Longrightarrow> same_outcome d f"
  by (simp add: same_outcome_def)

lemma same_outcome_ops [simp]:
  "same_outcome d (cleanup_done d)" "same_outcome d (cleanup_failed t d)" "same_outcome d (cancel_uploads d)"
  "same_outcome d (d\<lparr>uploaded := u\<rparr>)" "same_outcome d (released d)"
  by (simp_all add: same_outcome_def cleanup_done_def cleanup_failed_def cancel_uploads_def released_def Let_def)

text \<open>What later steps keep of a terminal session: its outcome, and that its cleanup is done.\<close>

definition stays :: "push_session \<Rightarrow> push_session \<Rightarrow> bool" where
  "stays d e \<longleftrightarrow> same_outcome d e \<and> (cleanup_pending e \<longrightarrow> cleanup_pending d)"

lemma stays_refl [simp]: "stays d d"
  by (simp add: stays_def)

lemma stays_trans: "stays d e \<Longrightarrow> stays e f \<Longrightarrow> stays d f"
  by (auto simp: stays_def intro: same_outcome_trans)

lemma stays_ops [simp]:
  "stays d (cleanup_done d)" "stays d (cleanup_failed t d)" "stays d (cancel_uploads d)"
  "stays d (d\<lparr>uploaded := u\<rparr>)" "stays d (released d)"
  by (simp_all add: stays_def) (simp_all add: cleanup_done_def cleanup_failed_def cancel_uploads_def released_def Let_def)

lemma map_of_filter_key: "map_of (filter (\<lambda>x. fst x \<notin> G) ss) k = (if k \<in> G then None else map_of ss k)"
  by (induction ss) auto

lemma prune_view:
  "map_of (sessions (prune_collected cfg c s)) k = Some d \<Longrightarrow> map_of (sessions s) k = Some d"
  by (simp add: prune_collected_facts map_of_filter_key split: if_splits)

lemma settle_cleanup_view:
  assumes c: "settle_cleanup env cfg j s = (r, s1)" and d1: "map_of (sessions s1) k = Some d1"
  obtains d where "map_of (sessions s) k = Some d" "stays d d1" "k \<noteq> j \<Longrightarrow> d1 = d"
    "k = j \<Longrightarrow> is_ok r \<Longrightarrow> \<not> cleanup_pending d1"
proof (cases "map_of (sessions s) j")
  case None
  then have "s1 = s" using c by (simp add: settle_cleanup_def)
  moreover have "k \<noteq> j" using None d1 \<open>s1 = s\<close> by auto
  ultimately show thesis using that [of d1] d1 by simp
next
  case (Some d0)
  show thesis
  proof (cases "cleanup_pending d0")
    case False
    then have "s1 = s" using c Some by (simp add: settle_cleanup_def)
    then show thesis using that [of d1] d1 Some False by (cases "k = j") simp_all
  next
    case True
    obtain x s2 where x: "remove_staging_dir (env_is_uuid env) (workspace_root cfg) (staging_dir (ss_plan d0)) s = (x, s2)"
      by fastforce
    have k2: "sessions s2 = sessions s"
      using tx_keep_manager(1) [OF fs_keep_tx [OF keepsD [OF keeps_fs_staging(1) x]]] .
    define f where "f = (case x of Inl _ \<Rightarrow> cleanup_failed (clock s2) | Inr _ \<Rightarrow> cleanup_done)"
    have "map_of (map (\<lambda>(i, d). if i = j then (i, f d) else (i, d)) (sessions s)) k = Some d1"
    proof (cases x)
      case (Inl e)
      then have "f = cleanup_failed (clock s2)" by (simp add: f_def)
      then show ?thesis using c d1 Some True x k2 Inl
        by (auto simp: settle_cleanup_def)
    next
      case (Inr u)
      then have "f = cleanup_done" by (simp add: f_def)
      then show ?thesis using c d1 Some True x k2 Inr
        by (auto simp: settle_cleanup_def)
    qed
    then have m: "(if k = j then map_option f (map_of (sessions s) j) else map_of (sessions s) k) = Some d1"
      by (simp add: map_of_upd split: if_splits)
    have ok: "is_ok r = is_ok x" using c Some True x
      by (cases x) (auto simp: settle_cleanup_def)
    show thesis
    proof (cases "k = j")
      case True
      then have "d1 = f d0" using m Some by simp
      moreover have "stays d0 (f d0)" by (simp add: f_def split: sum.splits)
      moreover have "\<not> cleanup_pending (f d0)" if "is_ok r"
        using that ok by (cases x) (simp_all add: f_def cleanup_done_def Let_def is_ok_def)
      ultimately show thesis using that [of d0] Some True by simp
    next
      case False
      then show thesis using that [of d1] m by simp
    qed
  qed
qed

lemma view_upd:
  "map_of (sessions (upd_session i f s)) k =
    (if k = i then map_option f (map_of (sessions s) i) else map_of (sessions s) k)"
  by (simp add: map_of_upd)

lemma freeze_view:
  "map_of (sessions (abort_freeze j st s)) k =
    (if k = j then map_option (\<lambda>d. if ss_state d = SsOpen then released (frozen st (clock s) (cancel_uploads d))
                                   else cancel_uploads d) (map_of (sessions s) j)
     else map_of (sessions s) k)"
proof (cases "map_of (sessions s) j")
  case None
  then show ?thesis by (auto simp: abort_freeze_def Let_def upd_absent)
next
  case (Some d)
  then show ?thesis
    by (simp add: abort_freeze_def Let_def release_plan_def view_upd cancel_uploads_def del: sessions_upd)
qed

lemma cleanup_view:
  assumes c: "cleanup_session env cfg j s = (r, s1)" and d1: "map_of (sessions s1) k = Some d1"
  obtains d where "map_of (sessions s) k = Some d" "same_outcome d d1" "k \<noteq> j \<Longrightarrow> d1 = d"
    "k = j \<Longrightarrow> is_ok r \<Longrightarrow> \<not> cleanup_pending d1"
proof (cases "\<exists>d. map_of (sessions s) j = Some d \<and> cleanup_pending d")
  case False
  then have "s1 = s" using c by (auto simp: cleanup_session_def split: option.splits if_splits)
  then show thesis using that [of d1] d1 False by auto
next
  case True
  obtain x s2 where x: "settle_cleanup env cfg j s = (x, s2)" by fastforce
  then have s1: "r = x" "s1 = prune_results cfg s2" using c True by (auto simp: cleanup_session_def)
  then have "map_of (sessions s2) k = Some d1" using d1 prune_view unfolding prune_results_def by metis
  from settle_cleanup_view [OF x this] show thesis using that s1(1) unfolding stays_def by metis
qed

section \<open>Handlers are sequences of steps\<close>

lemma prune_step: "sync_step env cfg s (prune_results cfg s)"
  unfolding prune_results_def by (rule step_prune [OF still_finished_now])

lemma cleanup_run: "sync_run env cfg s (snd (cleanup_session env cfg i s))"
proof -
  obtain r s1 where r: "settle_cleanup env cfg i s = (r, s1)" by fastforce
  have "sync_run env cfg s (prune_results cfg s1)"
    by (rule run_step [OF sync_run_step [OF step_cleanup [OF r]] prune_step])
  then show ?thesis using r by (auto simp: cleanup_session_def run_refl split: option.split)
qed

lemma abort_now_run: "st = SsAborted \<or> st = SsExpired \<Longrightarrow> sync_run env cfg s (snd (abort_now env cfg i st s))"
proof -
  assume "st = SsAborted \<or> st = SsExpired"
  then have "sync_run env cfg s (abort_freeze i st s)" by (intro sync_run_step step_freeze)
  then show ?thesis unfolding abort_now_def by (rule sync_run_trans [OF _ cleanup_run])
qed

lemma abort_session_run:
  "st = SsAborted \<or> st = SsExpired \<Longrightarrow> sync_run env cfg s (snd (abort_session env cfg i st s))"
  using abort_now_run [of st env cfg s i]
  by (auto simp: abort_session_def split: prod.splits intro: sync_run_step step_cancel)

lemma commit_session_run: "sync_run env cfg s (snd (commit_session env cfg project i s))"
proof -
  obtain c s1 where c: "commit_claim env cfg project i s = (c, s1)" by fastforce
  have 1: "sync_run env cfg s s1"
  proof (cases "claim_expires project i s")
    case True
    then have "s1 = snd (abort_now env cfg i SsExpired s)"
      using c by (auto simp: claim_expires_def commit_claim_def split: sum.splits prod.splits)
    then show ?thesis by (simp add: abort_now_run)
  qed (use c in \<open>intro sync_run_step step_claim\<close>)
  show ?thesis
  proof (cases "\<exists>plan. c = Inr (Claimed plan)")
    case True
    then obtain plan where plan: "c = Inr (Claimed plan)" by blast
    obtain d where d: "map_of (sessions s) i = Some d" "ss_state d = SsOpen" "plan = ss_plan d"
      "s1 = upd_session i (\<lambda>d. d\<lparr>ss_state := SsCommitting\<rparr>) s"
      using c plan by (auto simp: commit_claim_def dest!: find_sessionD
          split: sum.splits sync_status.splits if_splits prod.splits)
    obtain r s2 where r: "commit_settle env cfg i plan s1 = (r, s2)" by fastforce
    have 2: "sync_step env cfg s1 s2"
      by (rule step_settle [of _ i "d\<lparr>ss_state := SsCommitting\<rparr>"]) (use d r in \<open>simp_all add: map_of_upd\<close>)
    have "sync_run env cfg s (snd (cleanup_session env cfg i s2))"
      by (rule sync_run_trans [OF run_step [OF 1 2] cleanup_run])
    then show ?thesis using c plan r by (simp add: commit_session_def)
  next
    case False
    then show ?thesis using 1 c by (auto simp: commit_session_def split: sum.splits claim.splits)
  qed
qed

lemma abort_each_run: "sync_run env cfg s (snd (abort_each env cfg project is s))"
proof (induction "is" arbitrary: s)
  case (Cons i "is")
  obtain r s1 where r: "abort_session env cfg i SsAborted s = (r, s1)" by fastforce
  have 1: "sync_run env cfg s s1" using abort_session_run [of SsAborted env cfg s i] r by simp
  show ?case using Cons 1 r
    by (auto split: option.splits sum.splits intro: sync_run_trans)
qed (simp add: run_refl)

lemma reap_one_run: "sync_run env cfg s (snd (reap_one env cfg i s))"
  using abort_now_run [of SsExpired env cfg s i] cleanup_run
  by (auto simp: reap_one_def run_refl split: option.splits)

lemma reap_each_run: "sync_run env cfg s (snd (reap_each env cfg is e s))"
proof (induction "is" arbitrary: s e)
  case (Cons i "is")
  obtain r s1 where r: "reap_one env cfg i s = (r, s1)" by fastforce
  have "sync_run env cfg s s1" using reap_one_run [of env cfg s i] r by simp
  then show ?case using Cons r by (auto intro: sync_run_trans)
qed (simp add: run_refl)

lemma reap_run: "sync_run env cfg s (snd (reap env cfg s))"
proof -
  obtain e s1 where r: "reap_each env cfg (map fst (sessions s)) None s = (e, s1)" by fastforce
  have "sync_run env cfg s s1" using reap_each_run [of env cfg s "map fst (sessions s)" None] r by simp
  then show ?thesis using r by (auto simp: reap_def intro: run_step prune_step)
qed

lemma shutdown_abort_run: "sync_run env cfg s (shutdown_abort env cfg s)"
proof -
  have "sync_run env cfg s0 (fold (\<lambda>i s. snd (abort_session env cfg i SsAborted s)) is s0)" for "is" s0
  proof (induction "is" arbitrary: s0)
    case (Cons i "is")
    have "sync_run env cfg s0 (snd (abort_session env cfg i SsAborted s0))" by (rule abort_session_run) simp
    then show ?case using Cons by (auto intro: sync_run_trans)
  qed (simp add: run_refl)
  then show ?thesis by (simp add: shutdown_abort_def)
qed

lemma commit_run: "sync_run env cfg s (snd (commit env cfg project i s))"
  by (simp add: commit_def run_refl commit_session_run)

section \<open>A demonstration manager\<close>

definition demo_env :: sync_env where
  "demo_env = \<lparr>env_sha = demo_sha, env_display = concat, env_uuid = demo_uuid, env_is_uuid = (\<lambda>_. True),
     env_globs = \<lparr>glob_error = (\<lambda>_. None), set_error = (\<lambda>_. None), set_match = (\<lambda>_ _. False)\<rparr>,
     env_fresh = demo_file []\<rparr>"

definition demo_manager_config :: manager_config where
  "demo_manager_config = sync_config.extend demo_config
     \<lparr>session_ttl = 5, ttl_error = None, result_retention = 60, upload_idle_timeout = 10, upload_deadline = 20\<rparr>"

definition demo_request :: push_request where
  "demo_request = \<lparr>req_entries = [], req_delete_extra = False, req_include = [], req_exclude = []\<rparr>"

text \<open>A manager after the plan of a full replacement by nothing, and after that plan is committed.\<close>

definition demo_planned :: manager where
  "demo_planned = snd (push_reset_plan demo_env demo_manager_config ''p'' demo_request (manager_new (demo_txn [])))"

definition demo_committed :: manager where
  "demo_committed = snd (commit demo_env demo_manager_config ''p'' [] demo_planned)"

lemma demo_inj: "inj (env_uuid demo_env)"
  by (auto simp: inj_def demo_env_def demo_uuid_def replicate_eq_replicate)

lemma demo_planned_run: "sync_run demo_env demo_manager_config (manager_new (demo_txn [])) demo_planned"
proof -
  let ?s = "manager_new (demo_txn [])"
  obtain x s1 where x: "open_plan demo_env demo_manager_config ''p'' demo_request True (prune_results demo_manager_config ?s) = (x, s1)"
    by fastforce
  have "sync_run demo_env demo_manager_config ?s s1"
    by (rule run_step [OF sync_run_step [OF prune_step] step_plan [OF x]])
  then show ?thesis using x
    by (simp add: demo_planned_def push_reset_plan_def tracked_def create_plan_def manager_new_def)
qed

lemma demo_committed_run: "sync_run demo_env demo_manager_config demo_planned demo_committed"
  unfolding demo_committed_def by (rule commit_run)

section \<open>The slot\<close>

text \<open>
  C3. At most one plan is open, and the slot says so. In every reachable state at most one session is not
  terminal, the slot is free exactly when there is none, the manager is degraded by cleanup exactly when
  some session's cleanup has failed, and result, error and pending cleanup agree with the state of each
  session.
\<close>

theorem one_open_plan:
  assumes "sync_run env cfg (manager_new t) s" "inj (env_uuid env)"
  shows "length (filter (\<lambda>x. \<not> terminal (ss_state (snd x))) (sessions s)) \<le> 1 \<and>
    (permits s = 0 \<longleftrightarrow> (\<exists>x\<in>set (sessions s). \<not> terminal (ss_state (snd x)))) \<and>
    (cleanup_degraded s = 0 \<longleftrightarrow> (\<forall>x\<in>set (sessions s). cleanup_failures (snd x) = 0)) \<and>
    list_all (\<lambda>x. (ss_result (snd x) \<noteq> None) = (ss_state (snd x) = SsCommitted) \<and>
       (ss_error (snd x) \<noteq> None) = (ss_state (snd x) = SsFailed) \<and>
       (\<not> terminal (ss_state (snd x)) \<longrightarrow> \<not> cleanup_pending (snd x))) (sessions s)"
proof -
  have ok: "manager_ok env cfg s" by (rule manager_ok_run [OF assms(1) manager_ok_initial assms(2)])
  then have S: "session_ok (workspace_root cfg) (fst x) (snd x)" if "x \<in> set (sessions s)" for x
    using that by (simp add: manager_ok_def list_all_iff entry_ok_def)
  then have "filter (\<lambda>x. \<not> terminal (ss_state (snd x))) (sessions s) = filter (\<lambda>x. holds_permit (snd x)) (sessions s)"
    by (intro filter_cong) (auto simp: session_ok_def)
  then have c: "permits s + length (filter (\<lambda>x. \<not> terminal (ss_state (snd x))) (sessions s)) = 1"
    using ok by (simp add: manager_ok_def count_sessions_def)
  have "permits s = 0 \<longleftrightarrow> filter (\<lambda>x. \<not> terminal (ss_state (snd x))) (sessions s) \<noteq> []"
    using c by (cases "filter (\<lambda>x. \<not> terminal (ss_state (snd x))) (sessions s)") auto
  moreover have "cleanup_degraded s = 0 \<longleftrightarrow> (\<forall>x\<in>set (sessions s). cleanup_failures (snd x) = 0)"
    using ok by (simp add: manager_ok_def count_sessions_def filter_empty_conv)
  ultimately show ?thesis using c S
    by (auto simp: filter_empty_conv list_all_iff session_ok_def)
qed

theorem one_open_plan_witness:
  "permits demo_planned = 0 \<and> length (filter (\<lambda>x. \<not> terminal (ss_state (snd x))) (sessions demo_planned)) \<le> 1"
proof -
  have "\<exists>x\<in>set (sessions demo_planned). \<not> terminal (ss_state (snd x))" by code_simp
  then show ?thesis using one_open_plan [OF demo_planned_run demo_inj] by blast
qed

section \<open>Relations between the states of one session\<close>

text \<open>
  A relation between states that ignores everything but the sessions and the supply of identifiers, and
  that marking an upload respects, holds across the reception of an upload.
\<close>

locale session_relation =
  fixes R :: "'z manager_scheme \<Rightarrow> 'z manager_scheme \<Rightarrow> bool"
  assumes trans: "R s t \<Longrightarrow> R t u \<Longrightarrow> R s u"
    and same: "sessions s' = sessions s \<Longrightarrow> issued s \<le> issued s' \<Longrightarrow> R s s'"
    and mark: "R s (upd_session i (\<lambda>d. d\<lparr>uploaded := insert p (uploaded d)\<rparr>) s)"
begin

lemma fs: "keeps fs_keep m \<Longrightarrow> keeps R m"
  by (auto simp: keeps_def intro!: same dest: fs_keep_tx tx_keep_manager(1,6))

lemma bind:
  assumes "keeps R m" "\<And>x s. R s (snd (f x s))"
  shows "R s (snd (bindS m f s))"
proof -
  obtain r s1 where m: "m s = (r, s1)" by fastforce
  have "R s s1" by (rule keepsD [OF assms(1) m])
  then show ?thesis using m trans [OF _ assms(2)] by (cases r) (simp_all add: bindS_def)
qed

lemma liftR: "(\<And>x. R s (snd (f x s))) \<Longrightarrow> R s (snd (bindS (liftR r) f s))"
  by (cases r) (simp_all add: bindS_def liftR_def same)

lemma upload: "R s (snd (receive_upload env cfg project i raw n b intr s))"
proof -
  have e: "keeps R (upload_expected i project p)" for p
    by (simp add: keeps_def upload_expected_def same)
  have m: "keeps R (mark_uploaded i project p)" for p
    by (auto simp: keeps_def mark_uploaded_def intro: mark same split: sum.splits)
  have M: "R s (snd (bindS (mark_uploaded i project p) (\<lambda>_. okS v) s))" for p v s
    by (rule bind [OF m]) (simp add: okS_def same)
  note I = trans [OF same [where s' = "s\<lparr>issued := Suc (issued s)\<rparr>" and s = s for s]]
  show ?thesis
    unfolding receive_upload_def Let_def
    by (rule liftR, rule bind [OF e], clarify, rule liftR, rule bind, rule fs, simp,
        rule liftR, rule liftR, rule bind, rule fs, simp add: keeps_mapErr, rule I, simp, simp,
        rule bind, rule fs, simp, rule M)
qed

end

section \<open>Terminal sessions\<close>

definition kept :: "string \<Rightarrow> 'z manager_scheme \<Rightarrow> 'z manager_scheme \<Rightarrow> bool" where
  "kept i s s' \<longleftrightarrow> issued s \<le> issued s' \<and>
     (case map_of (sessions s') i of
        None \<Rightarrow> True
      | Some e \<Rightarrow> (case map_of (sessions s) i of
                     None \<Rightarrow> False | Some d \<Rightarrow> terminal (ss_state d) \<longrightarrow> stays d e))"

lemma kept_refl [simp]: "kept i s s"
  by (simp add: kept_def split: option.split)

lemma kept_trans: "kept i s t \<Longrightarrow> kept i t u \<Longrightarrow> kept i s u"
  by (auto simp: kept_def split: option.splits) (auto simp: stays_def same_outcome_def)

lemma kept_rel: "transp (kept i)" "reflp (kept i)"
  by (auto simp: transp_def reflp_def intro: kept_trans)

lemma kept_same: "sessions s' = sessions s \<Longrightarrow> issued s \<le> issued s' \<Longrightarrow> kept i s s'"
  by (simp add: kept_def split: option.split)

lemma kept_upd: "(\<And>d. terminal (ss_state d) \<Longrightarrow> stays d (f d)) \<Longrightarrow> kept i s (upd_session j f s)"
  by (simp add: kept_def view_upd del: sessions_upd split: option.split)

interpretation kept: session_relation "kept i" for i
  by unfold_locales (auto intro: kept_trans kept_same kept_upd)

lemma freeze_issued: "issued (abort_freeze j st s) = issued s"
  by (auto simp: abort_freeze_def release_plan_def Let_def split: option.split)

lemma kept_freeze: "kept k s (abort_freeze j st s)"
  by (auto simp: kept_def freeze_view freeze_issued terminal_def split: option.split)

lemma cleanup_issued: "issued s \<le> issued (snd (settle_cleanup env cfg j s))"
proof (cases "map_of (sessions s) j")
  case (Some d)
  obtain r s1 where r: "remove_staging_dir (env_is_uuid env) (workspace_root cfg) (staging_dir (ss_plan d)) s = (r, s1)"
    by fastforce
  have "issued s \<le> issued s1" by (rule tx_keep_manager(6) [OF fs_keep_tx [OF keepsD [OF keeps_fs_staging(1) r]]])
  then show ?thesis using Some r by (cases r) (simp_all add: settle_cleanup_def)
qed (simp add: settle_cleanup_def)

lemma kept_cleanup: "kept k s (snd (settle_cleanup env cfg j s))"
proof -
  obtain r s1 where c: "settle_cleanup env cfg j s = (r, s1)" by fastforce
  have "kept k s s1"
  proof (cases "map_of (sessions s1) k")
    case (Some e)
    then obtain d where "map_of (sessions s) k = Some d" "stays d e"
      using settle_cleanup_view [OF c Some] by metis
    then show ?thesis using Some cleanup_issued [of s env cfg j] c by (simp add: kept_def)
  qed (use cleanup_issued [of s env cfg j] c in \<open>simp add: kept_def\<close>)
  then show ?thesis using c by simp
qed

lemma kept_prune: "kept k s (prune_collected cfg c s)"
  by (auto simp: kept_def prune_collected_facts(4) split: option.split dest!: prune_view)

lemma kept_claim:
  assumes "\<not> claim_expires project i s"
  shows "kept k s (snd (commit_claim env cfg project i s))"
proof (cases "find_session i project s")
  case (Inr d)
  have "kept k s (upd_session i (\<lambda>d. d\<lparr>ss_state := SsCommitting\<rparr>) s)" if "ss_state d = SsOpen"
    using that find_sessionD [OF Inr]
    by (auto simp: kept_def view_upd terminal_def simp del: sessions_upd split: option.split)
  then show ?thesis using Inr assms
    by (cases "ss_state d") (auto simp: commit_claim_def claim_expires_def)
qed (simp add: commit_claim_def)

lemma kept_settle:
  assumes "map_of (sessions s) i = Some d" "ss_state d = SsCommitting"
  shows "kept k s (snd (commit_settle env cfg i plan s))"
proof -
  obtain r s1 where r: "apply_commit (env_sha env) (env_display env) (env_uuid env) (sync_config.truncate cfg) plan s = (r, s1)"
    by fastforce
  have k: "sessions s1 = sessions s" "issued s \<le> issued s1"
    by (rule tx_keep_manager(1,6) [OF keepsD [OF keeps_tx_apply_commit r]])+
  have "issued (release_plan i (upd_session i (outcome r (clock s1)) s1)) = issued s1"
    by (simp add: release_plan_def split: option.split)
  moreover
  have "map_of (sessions (release_plan i (upd_session i (outcome r (clock s1)) s1))) j =
      (if j = i then Some (released (outcome r (clock s1) d)) else map_of (sessions s) j)" for j
    using assms(1) k by (simp add: release_plan_def view_upd del: sessions_upd)
  ultimately show ?thesis using assms r k(2)
    by (auto simp: commit_settle_def kept_def terminal_def split: option.split)
qed

lemma open_plan_sessions:
  assumes "open_plan env cfg project req r s = (x, s')"
  shows "issued s \<le> issued s' \<and> (sessions s' = sessions s \<or>
    (\<exists>n\<ge>issued s. fst (hd (sessions s')) = env_uuid env n \<and> tl (sessions s') = sessions s \<and>
       sessions s' \<noteq> [] \<and> ss_state (snd (hd (sessions s'))) = SsOpen))"
proof -
  obtain y s1 where y: "draft_plan env cfg project req r s = (y, s1)" by fastforce
  note K1 = tx_keep_manager [OF fs_keep_tx [OF keepsD [OF keeps_fs_draft y]]]
  let ?i = "env_uuid env (issued s1)"
  obtain z s2 where z: "stage_plan env cfg ?i (projr y) (s1\<lparr>issued := Suc (issued s1)\<rparr>) = (z, s2)" by fastforce
  note K2 = tx_keep_manager [OF fs_keep_tx [OF keepsD [OF keeps_fs_stage z]]]
  have i: "issued s \<le> issued s1" using K1(6) .
  show ?thesis
  proof (cases "permits s = 0 \<or> \<not> is_ok y")
    case True
    then show ?thesis using assms y i K1(1)
      by (cases y) (auto simp: open_plan_def Let_def split: if_splits)
  next
    case False
    then obtain plan where p: "y = Inr plan" by (cases y) auto
    then show ?thesis using assms y z i K1(1) K2(1,6) False
      by (cases z) (auto simp: open_plan_def Let_def open_session_def intro!: exI [of _ "issued s1"])
  qed
qed

lemma kept_open_plan:
  assumes "open_plan env cfg project req r s = (x, s')" "i \<in> env_uuid env ` {..<issued s}" "inj (env_uuid env)"
  shows "kept i s s'"
proof -
  have "map_of (sessions s') i = map_of (sessions s) i"
    using open_plan_sessions [OF assms(1)]
  proof (elim conjE disjE exE)
    fix n assume n: "n \<ge> issued s" "fst (hd (sessions s')) = env_uuid env n"
      "tl (sessions s') = sessions s" "sessions s' \<noteq> []"
    have "env_uuid env n \<noteq> i" using assms(2,3) n(1) by (auto simp: inj_eq)
    then show ?thesis using n(2-4) by (cases "sessions s'") auto
  qed simp
  then show ?thesis using open_plan_sessions [OF assms(1)] by (simp add: kept_def split: option.split)
qed

lemma kept_step:
  assumes "sync_step env cfg s s'" "i \<in> env_uuid env ` {..<issued s}" "inj (env_uuid env)"
  shows "kept i s s'"
  using assms(1)
proof (cases rule: sync_step.cases)
  case (step_plan project req r x)
  then show ?thesis using kept_open_plan [OF _ assms(2,3)] by blast
next
  case (step_upload project j raw n b intr x)
  then show ?thesis using kept.upload [of i s env cfg project j raw n b intr]
    by (auto simp: upload_file_def tracked_def split: if_splits)
next
  case (step_claim project j x)
  then show ?thesis using kept_claim [OF step_claim(1), of i env cfg] by simp
next
  case (step_settle j d x)
  then show ?thesis using kept_settle [OF step_settle(1,2), of i env cfg "ss_plan d"] by simp
next
  case (step_cleanup j x)
  then show ?thesis using kept_cleanup [of i s env cfg j] by simp
next
  case (step_orphans x)
  have "fs_keep s (snd (clear_staging (env_is_uuid env) (workspace_root cfg) s))"
    by (rule keeps_snd [OF keeps_fs_staging(2)])
  from tx_keep_manager(1,6) [OF fs_keep_tx [OF this]] show ?thesis using step_orphans
    by (auto simp: cleanup_orphans_def tracked_def split: if_splits intro!: kept_same)
next
  case step_close
  have "map_of (map (\<lambda>(i, d). (i, cancel_uploads d)) ss) i = map_option cancel_uploads (map_of ss i)" for ss
    by (induction ss) auto
  then show ?thesis using step_close by (auto simp: kept_def shutdown_close_def split: option.split)
next
  case step_read
  then show ?thesis by (auto intro!: kept_same dest: fs_keep_tx tx_keep_manager(1,6))
qed (auto intro: kept_same kept_freeze kept_upd kept_prune)

end
