(* ===== verification/Manager_Results.thy ===== *)
theory Manager_Results
  imports Manager_Properties
begin

text \<open>
  What a client of the sync manager can rely on: results do not change, a commit is decided once,
  aborting a project settles it, and the number of retained results is bounded.
\<close>

section \<open>Results are final\<close>

lemma kept_run:
  assumes "sync_run env cfg s s'" "i \<in> env_uuid env ` {..<issued s}" "inj (env_uuid env)"
  shows "kept i s s'"
  using assms
proof (induction rule: sync_run.induct)
  case (run_step s t u)
  have k: "kept i s t" by (rule run_step.IH [OF run_step.prems])
  then have "issued s \<le> issued t" by (simp add: kept_def)
  then have "i \<in> env_uuid env ` {..<issued t}" using run_step.prems(1) by auto
  then have "kept i t u" by (rule kept_step [OF run_step.hyps(2) _ run_step.prems(2)])
  then show ?case by (rule kept_trans [OF k])
qed simp

lemma reachable_ok: "sync_run env cfg (manager_new t) s \<Longrightarrow> inj (env_uuid env) \<Longrightarrow> manager_ok env cfg s"
  by (rule manager_ok_run [OF _ manager_ok_initial])

lemma final_outcome:
  assumes "manager_ok env cfg s" "sync_run env cfg s s'" "inj (env_uuid env)"
    "map_of (sessions s) i = Some d" "terminal (ss_state d)" "map_of (sessions s') i = Some e"
  shows "same_outcome d e"
  using kept_run [OF assms(2) manager_okD(3) [OF assms(1,4)] assms(3)] assms(4-6) by (simp add: kept_def stays_def)

lemma same_outcomeD:
  "same_outcome d e \<Longrightarrow> session_result e = session_result d"
  "same_outcome d e \<Longrightarrow> ss_project e = ss_project d"
  "same_outcome d e \<Longrightarrow> ss_state e = ss_state d"
  by (simp_all add: same_outcome_def session_result_def split: option.split)

text \<open>
  C5. Results are final. Once a session is committed, aborted, expired or failed, every later state either
  has forgotten it or shows the same state, result, error and finishing time for it, whatever requests,
  cleanups, reaper rounds and outside changes happen in between.
\<close>

theorem terminal_sessions_are_final:
  assumes "sync_run env cfg (manager_new t) s" "inj (env_uuid env)" "sync_run env cfg s s'"
    "map_of (sessions s) i = Some d" "terminal (ss_state d)"
  shows "case map_of (sessions s') i of None \<Rightarrow> True | Some e \<Rightarrow> same_outcome d e"
  using final_outcome [OF reachable_ok [OF assms(1,2)] assms(3,2,4,5)] by (simp split: option.split)

text \<open>The session of the demonstration plan after its commit.\<close>

definition demo_session :: push_session where
  "demo_session = the (map_of (sessions demo_committed) [])"

lemma demo_session_view:
  "map_of (sessions demo_committed) [] = Some demo_session" "ss_state demo_session = SsCommitted"
  "ss_project demo_session = ''p''"
proof -
  have "map_of (sessions demo_committed) [] \<noteq> None" by code_simp
  then show "map_of (sessions demo_committed) [] = Some demo_session" by (auto simp: demo_session_def)
  show "ss_state demo_session = SsCommitted" "ss_project demo_session = ''p''" by code_simp+
qed

lemma demo_reachable: "sync_run demo_env demo_manager_config (manager_new (demo_txn [])) demo_committed"
  by (rule sync_run_trans [OF demo_planned_run demo_committed_run])

theorem terminal_sessions_are_final_witness:
  "case map_of (sessions (shutdown_abort demo_env demo_manager_config demo_committed)) [] of
     None \<Rightarrow> True | Some e \<Rightarrow> same_outcome demo_session e"
  by (rule terminal_sessions_are_final [OF demo_reachable demo_inj shutdown_abort_run demo_session_view(1)])
    (simp add: demo_session_view terminal_def)

section \<open>Committing\<close>

lemma commit_split:
  assumes "commit env cfg project i s = (Some r, s1)" "\<not> closed s" "map_of (sessions s) i = Some d" "ss_project d = project"
  obtains
    (settled) "terminal (ss_state d)" "r = session_result d" "s1 = s"
  | (expired) e where "ss_state d = SsOpen" "clock s \<ge> expires_deadline d" "r = Inl e"
      "s1 = snd (abort_now env cfg i SsExpired s)"
  | (missing) "ss_state d = SsOpen" "r = Inl (Conflict ''planned uploads are missing'')" "s1 = s"
  | (applied) s2 where "ss_state d = SsOpen" "clock s < expires_deadline d"
      "set (bt_keys (upload_files (ss_plan d))) \<subseteq> uploaded d"
      "commit_settle env cfg i (ss_plan d) (upd_session i (\<lambda>d. d\<lparr>ss_state := SsCommitting\<rparr>) s) = (r, s2)"
      "s1 = snd (cleanup_session env cfg i s2)"
proof -
  have f: "find_session i project s = Inr d" using assms(3,4) by (simp add: find_session_def)
  have r: "commit_session env cfg project i s = (Some r, s1)" using assms(1,2) by (simp add: commit_def)
  show thesis
  proof (cases "ss_state d")
    case SsOpen
    show thesis
    proof (cases "clock s \<ge> expires_deadline d")
      case True
      obtain x s2 where "abort_now env cfg i SsExpired s = (x, s2)" by fastforce
      then show thesis using r f SsOpen True expired
        by (cases x) (auto simp: commit_session_def commit_claim_def)
    next
      case False
      then show thesis using r f SsOpen missing applied
        by (auto simp: commit_session_def commit_claim_def subset_eq split: if_splits prod.splits)
    qed
  next
    case SsCommitting
    then show thesis using r f assms(3) by (simp add: commit_session_def commit_claim_def commit_wait_def)
  qed (use r f settled in \<open>simp_all add: commit_session_def commit_claim_def terminal_def\<close>)
qed

lemma settle_view:
  assumes "commit_settle env cfg i plan s = (r, s2)" "map_of (sessions s) i = Some d"
  shows "\<exists>t. map_of (sessions s2) i = Some (released (outcome r t d)) \<and>
    permits s2 = permits s + (if holds_permit d then 1 else 0)"
proof -
  obtain s1 where a: "apply_commit (env_sha env) (env_display env) (env_uuid env) (sync_config.truncate cfg) plan s = (r, s1)"
    and s2: "s2 = release_plan i (upd_session i (outcome r (clock s1)) s1)"
    using assms(1) by (auto simp: commit_settle_def split: prod.splits)
  have k: "sessions s1 = sessions s" "permits s1 = permits s"
    by (rule tx_keep_manager(1,3) [OF keepsD [OF keeps_tx_apply_commit a]])+
  have v: "map_of (sessions (upd_session i (outcome r (clock s1)) s1)) i = Some (outcome r (clock s1) d)"
    using assms(2) k by (simp add: view_upd del: sessions_upd)
  have h: "holds_permit (outcome r (clock s1) d) = holds_permit d" by (simp add: outcome_def split: sum.split)
  have "map_of (sessions s2) i = Some (released (outcome r (clock s1) d)) \<and>
    permits s2 = permits s + (if holds_permit d then 1 else 0)"
    unfolding s2 release_plan_def v option.case using assms(2) k h by (simp add: view_upd del: sessions_upd)
  then show ?thesis by blast
qed

lemma commit_result:
  assumes ok: "manager_ok env cfg s" and c: "commit env cfg project i s = (Some r, s1)" "\<not> closed s"
    and d: "map_of (sessions s1) i = Some d" "ss_project d = project" "ss_state d = SsCommitted \<or> ss_state d = SsFailed"
  shows "r = session_result d"
proof -
  have "commit_session env cfg project i s = (Some r, s1)" using c by (simp add: commit_def)
  then obtain d0 where d0: "map_of (sessions s) i = Some d0" "ss_project d0 = project"
    using d by (cases "find_session i project s")
      (auto simp: commit_session_def commit_claim_def find_session_def split: option.splits if_splits)
  from c d0 show ?thesis
  proof (cases rule: commit_split)
    case settled
    then show ?thesis using d d0 by simp
  next
    case (expired e)
    obtain x s2 where x: "cleanup_session env cfg i (abort_freeze i SsExpired s) = (x, s2)" by fastforce
    then have "s1 = s2" using expired by (simp add: abort_now_def)
    then have "map_of (sessions s2) i = Some d" using d(1) by simp
    from cleanup_view [OF x this] obtain d1 where "map_of (sessions (abort_freeze i SsExpired s)) i = Some d1"
      "same_outcome d1 d" by metis
    then have "ss_state d = SsExpired" using d0 expired(1)
      by (auto simp: freeze_view same_outcome_def frozen_def released_def)
    then show ?thesis using d(3) by simp
  next
    case missing
    then show ?thesis using d d0 by simp
  next
    case (applied s2)
    let ?s = "upd_session i (\<lambda>d. d\<lparr>ss_state := SsCommitting\<rparr>) s"
    have "map_of (sessions ?s) i = Some (d0\<lparr>ss_state := SsCommitting\<rparr>)" using d0 by (simp add: map_of_upd)
    from settle_view [OF applied(4) this] obtain t
      where t: "map_of (sessions s2) i = Some (released (outcome r t (d0\<lparr>ss_state := SsCommitting\<rparr>)))" by blast
    obtain x where x: "cleanup_session env cfg i s2 = (x, s1)" using applied(5) by (metis prod.collapse)
    from cleanup_view [OF this d(1)] t have "same_outcome (released (outcome r t (d0\<lparr>ss_state := SsCommitting\<rparr>))) d"
      by (metis option.inject)
    moreover have "ss_result d0 = None" using manager_okD(1) [OF ok d0(1)] applied(1) by (simp add: session_ok_def)
    ultimately show ?thesis
      by (cases r) (auto simp: same_outcome_def session_result_def outcome_def released_def)
  qed
qed

text \<open>
  C4. A commit is decided once. When a commit leaves its session committed or failed, asking again at any
  later time, as long as the session is retained and the manager open, returns the same answer, success or
  error, and changes nothing.
\<close>

theorem commit_is_decided_once:
  assumes "sync_run env cfg (manager_new t) s" "inj (env_uuid env)" "\<not> closed s"
    "commit env cfg project i s = (Some r, s1)" "map_of (sessions s1) i = Some d" "ss_project d = project"
    "ss_state d = SsCommitted \<or> ss_state d = SsFailed"
    "sync_run env cfg s1 s2" "\<not> closed s2" "map_of (sessions s2) i \<noteq> None"
  shows "commit env cfg project i s2 = (Some r, s2)"
proof -
  have ok: "manager_ok env cfg s" by (rule reachable_ok [OF assms(1,2)])
  have run: "sync_run env cfg s s1" using commit_run [of env cfg s project i] assms(4) by simp
  have ok1: "manager_ok env cfg s1" by (rule manager_ok_run [OF run ok assms(2)])
  have ter: "terminal (ss_state d)" using assms(7) by (auto simp: terminal_def)
  have res: "r = session_result d" by (rule commit_result [OF ok assms(4,3,5,6,7)])
  obtain e where e: "map_of (sessions s2) i = Some e" using assms(10) by blast
  have "same_outcome d e" by (rule final_outcome [OF ok1 assms(8,2,5) ter e])
  from same_outcomeD [OF this] have "find_session i project s2 = Inr e" "session_result e = r" "terminal (ss_state e)"
    using e assms(6) ter res by (simp_all add: find_session_def)
  then show ?thesis using assms(9)
    by (cases "ss_state e") (auto simp: commit_def commit_session_def commit_claim_def terminal_def)
qed

theorem commit_is_decided_once_witness:
  "\<exists>r. fst (commit demo_env demo_manager_config ''p'' [] demo_planned) = Some r \<and>
     commit demo_env demo_manager_config ''p'' [] demo_committed = (Some r, demo_committed)"
proof -
  have 1: "fst (commit demo_env demo_manager_config ''p'' [] demo_planned) \<noteq> None" "\<not> closed demo_planned"
    "\<not> closed demo_committed" by code_simp+
  then obtain r where r: "commit demo_env demo_manager_config ''p'' [] demo_planned = (Some r, demo_committed)"
    unfolding demo_committed_def by (metis not_None_eq prod.collapse)
  have "commit demo_env demo_manager_config ''p'' [] demo_committed = (Some r, demo_committed)"
    by (rule commit_is_decided_once [OF demo_planned_run demo_inj 1(2) r demo_session_view(1,3) _ run_refl 1(3)])
      (simp_all add: demo_session_view)
  then show ?thesis using r by simp
qed

section \<open>A commit that succeeds\<close>

lemma permits_settle_cleanup: "permits (snd (settle_cleanup env cfg i s)) = permits s"
proof (cases "map_of (sessions s) i")
  case (Some d)
  obtain r s1 where r: "remove_staging_dir (env_is_uuid env) (workspace_root cfg) (staging_dir (ss_plan d)) s = (r, s1)"
    by fastforce
  have "permits s1 = permits s" by (rule tx_keep_manager(3) [OF fs_keep_tx [OF keepsD [OF keeps_fs_staging(1) r]]])
  then show ?thesis using Some r by (cases r) (simp_all add: settle_cleanup_def)
qed (simp add: settle_cleanup_def)

lemma permits_cleanup: "permits (snd (cleanup_session env cfg i s)) = permits s"
  using permits_settle_cleanup [of env cfg i s]
  by (auto simp: cleanup_session_def prune_results_facts split: option.split prod.splits)

text \<open>
  C6. What a successful commit took. If a commit of an open session succeeds, the plan had not expired,
  every planned upload had been received and no other, \<open>apply_commit\<close> succeeded with the very response the
  client gets, and the slot is free again, with the session committed or already forgotten.
\<close>

theorem commit_success:
  assumes "sync_run env cfg (manager_new t) s" "inj (env_uuid env)" "\<not> closed s"
    "map_of (sessions s) i = Some d" "ss_project d = project" "ss_state d = SsOpen"
    "commit env cfg project i s = (Some (Inr resp), s1)"
  shows "clock s < expires_deadline d \<and> uploaded d = set (bt_keys (upload_files (ss_plan d))) \<and>
    fst (apply_commit (env_sha env) (env_display env) (env_uuid env) (sync_config.truncate cfg) (ss_plan d)
       (upd_session i (\<lambda>d. d\<lparr>ss_state := SsCommitting\<rparr>) s)) = Inr resp \<and>
    permits s1 = 1 \<and>
    (case map_of (sessions s1) i of None \<Rightarrow> True | Some e \<Rightarrow> ss_state e = SsCommitted \<and> ss_result e = Some resp)"
  using assms(7,3,4,5)
proof (cases rule: commit_split)
  case (applied s2)
  let ?s = "upd_session i (\<lambda>d. d\<lparr>ss_state := SsCommitting\<rparr>) s"
  have ok: "manager_ok env cfg s" by (rule reachable_ok [OF assms(1,2)])
  note D = manager_okD(1) [OF ok assms(4)]
  have up: "uploaded d = set (bt_keys (upload_files (ss_plan d)))" using D applied(3) by (auto simp: session_ok_def)
  have m: "map_of (sessions ?s) i = Some (d\<lparr>ss_state := SsCommitting\<rparr>)" using assms(4) by (simp add: map_of_upd)
  have "manager_ok env cfg ?s"
    by (rule manager_ok_upd [where f = "\<lambda>d. d\<lparr>ss_state := SsCommitting\<rparr>", OF ok assms(4)])
      (use D up assms(6) in \<open>auto simp: session_ok_def terminal_def plan_released_def\<close>)
  then have "manager_ok env cfg s2" using manager_ok_settle [OF _ m, of env cfg "ss_plan d"] applied(4) by simp
  then have "permits s2 \<le> 1" by (simp add: manager_ok_def)
  obtain t where v: "map_of (sessions s2) i = Some (released (outcome (Inr resp) t (d\<lparr>ss_state := SsCommitting\<rparr>)))"
    and p2: "permits s2 = permits ?s + (if holds_permit d then 1 else 0)"
    using settle_view [OF applied(4) m] by auto
  have p: "permits s1 = 1" using applied(5) p2 D assms(6) \<open>permits s2 \<le> 1\<close>
    by (simp add: permits_cleanup session_ok_def terminal_def)
  have ap: "fst (apply_commit (env_sha env) (env_display env) (env_uuid env) (sync_config.truncate cfg) (ss_plan d) ?s) = Inr resp"
    using applied(4) by (auto simp: commit_settle_def split: prod.splits)
  obtain x where x: "cleanup_session env cfg i s2 = (x, s1)" using applied(5) by (metis prod.collapse)
  have "case map_of (sessions s1) i of None \<Rightarrow> True | Some e \<Rightarrow> ss_state e = SsCommitted \<and> ss_result e = Some resp"
  proof (cases "map_of (sessions s1) i")
    case (Some e)
    from cleanup_view [OF x Some] v have "same_outcome (released (outcome (Inr resp) t (d\<lparr>ss_state := SsCommitting\<rparr>))) e"
      by (metis option.inject)
    then show ?thesis using Some by (simp add: same_outcome_def outcome_def released_def)
  qed simp
  then show ?thesis using applied(2) up ap p by simp
qed (use assms(6) in \<open>simp_all add: terminal_def\<close>)

theorem commit_success_witness:
  "uploaded (the (map_of (sessions demo_planned) [])) =
     set (bt_keys (upload_files (ss_plan (the (map_of (sessions demo_planned) []))))) \<and> permits demo_committed = 1"
proof -
  let ?d = "the (map_of (sessions demo_planned) [])"
  let ?c = "commit demo_env demo_manager_config ''p'' [] demo_planned"
  have 1: "\<not> closed demo_planned" "map_of (sessions demo_planned) [] \<noteq> None" "ss_project ?d = ''p''"
    "ss_state ?d = SsOpen" "case fst ?c of Some (Inr _) \<Rightarrow> True | _ \<Rightarrow> False" by code_simp+
  from 1(5) obtain resp where "fst ?c = Some (Inr resp)" by (auto split: option.splits sum.splits)
  then have r: "?c = (Some (Inr resp), demo_committed)"
    unfolding demo_committed_def by (metis prod.collapse)
  have d: "map_of (sessions demo_planned) [] = Some ?d" using 1(2) by auto
  show ?thesis using commit_success [OF demo_planned_run demo_inj 1(1) d 1(3,4) r] by blast
qed

end
