(* ===== verification/Manager_Retention.thy ===== *)
theory Manager_Retention
  imports Manager_Results
begin

text \<open>
  Aborting a project settles all its sessions, and the number of finished sessions the manager
  retains is bounded in every reachable state.
\<close>

section \<open>Aborting a project\<close>

definition settled :: "push_session \<Rightarrow> bool" where
  "settled d \<longleftrightarrow> terminal (ss_state d) \<and> \<not> cleanup_pending d"

lemma abort_session_settles:
  assumes a: "abort_session env cfg i SsAborted s = (Some (Inr u), s1)" and k: "map_of (sessions s1) k = Some d1"
  obtains d where "map_of (sessions s) k = Some d" "ss_project d = ss_project d1" "k = i \<Longrightarrow> settled d1"
    "k \<noteq> i \<Longrightarrow> d1 = d"
proof -
  have nc: "\<not> committing i s" and n: "abort_now env cfg i SsAborted s = (Inr u, s1)"
    using a by (auto simp: abort_session_def split: if_splits prod.splits)
  have c: "cleanup_session env cfg i (abort_freeze i SsAborted s) = (Inr u, s1)" using n by (simp add: abort_now_def)
  obtain f where f: "map_of (sessions (abort_freeze i SsAborted s)) k = Some f" "same_outcome f d1" "k \<noteq> i \<Longrightarrow> d1 = f"
    "k = i \<Longrightarrow> \<not> cleanup_pending d1"
    using cleanup_view [OF c k] by (metis is_ok_simps)
  show thesis
  proof (cases "k = i")
    case True
    with f(1) obtain d where d: "map_of (sessions s) k = Some d"
      "f = (if ss_state d = SsOpen then released (frozen SsAborted (clock s) (cancel_uploads d)) else cancel_uploads d)"
      by (auto simp: freeze_view)
    have "ss_state d \<noteq> SsCommitting" using nc d(1) True by (simp add: committing_def)
    then have "terminal (ss_state f)" using d(2) by (simp add: terminal_def released_def frozen_def cancel_uploads_def)
    then have "settled d1" using f True by (simp add: settled_def same_outcome_def)
    moreover have "ss_project d = ss_project d1"
      using d(2) f(2) by (simp add: same_outcome_def released_def frozen_def cancel_uploads_def split: if_splits)
    ultimately show thesis using that d True by blast
  next
    case False
    then show thesis using that f by (simp add: freeze_view)
  qed
qed

lemma abort_each_settles:
  assumes "abort_each env cfg project is s = (Some (Inr u), s1)" "map_of (sessions s1) k = Some d" "ss_project d = project"
  shows "if k \<in> set is then settled d else map_of (sessions s) k = Some d"
  using assms(1)
proof (induction "is" arbitrary: s)
  case Nil
  then show ?case using assms(2) by simp
next
  case (Cons i "is")
  show ?case
  proof (cases "\<exists>e. map_of (sessions s) i = Some e \<and> ss_project e = project")
    case False
    then have "abort_each env cfg project is s = (Some (Inr u), s1)"
      using Cons.prems by (auto split: option.splits)
    from Cons.IH [OF this] show ?thesis using False assms(3) by (auto split: if_splits)
  next
    case True
    then obtain s2 v where a: "abort_session env cfg i SsAborted s = (Some (Inr v), s2)"
      and r: "abort_each env cfg project is s2 = (Some (Inr u), s1)"
      using Cons.prems by (auto split: prod.splits option.splits sum.splits)
    note IH = Cons.IH [OF r]
    show ?thesis
    proof (cases "k \<in> set is")
      case True
      then show ?thesis using IH by simp
    next
      case False
      then have "map_of (sessions s2) k = Some d" using IH by simp
      then obtain e where "map_of (sessions s) k = Some e" "k = i \<Longrightarrow> settled d" "k \<noteq> i \<Longrightarrow> d = e"
        using abort_session_settles [OF a] by metis
      then show ?thesis using False by (cases "k = i") simp_all
    qed
  qed
qed

text \<open>
  C8. Aborting a project leaves nothing behind. When \<open>abort_open\<close> returns successfully, every session of
  the project that is still retained is terminal and its staging directory needs no more cleanup.
\<close>

theorem abort_open_settles:
  assumes "abort_open env cfg project s = (Some (Inr u), s1)" "map_of (sessions s1) i = Some d" "ss_project d = project"
  shows "terminal (ss_state d) \<and> \<not> cleanup_pending d"
proof -
  have a: "abort_each env cfg project (map fst (sessions s)) s = (Some (Inr u), s1)"
    using assms(1) by (simp add: abort_open_def split: if_splits)
  have "i \<in> set (map fst (sessions s)) \<or> map_of (sessions s) i = None" by (simp add: map_of_eq_None_iff)
  then have "settled d" using abort_each_settles [OF a assms(2,3)] by (auto split: if_splits)
  then show ?thesis by (simp add: settled_def)
qed

theorem abort_open_settles_witness:
  "list_all (\<lambda>x. terminal (ss_state (snd x)) \<and> \<not> cleanup_pending (snd x))
     (sessions (snd (abort_open demo_env demo_manager_config ''p'' demo_planned))) \<and>
   fst (abort_open demo_env demo_manager_config ''p'' demo_planned) = Some (Inr ())"
proof -
  let ?a = "abort_open demo_env demo_manager_config ''p'' demo_planned"
  have 1: "fst ?a = Some (Inr ())" "distinct (map fst (sessions (snd ?a)))"
    "list_all (\<lambda>x. ss_project (snd x) = ''p'') (sessions (snd ?a))" by code_simp+
  have 2: "?a = (Some (Inr ()), snd ?a)" using 1(1) by (metis prod.collapse)
  have "terminal (ss_state (snd x)) \<and> \<not> cleanup_pending (snd x)" if x: "x \<in> set (sessions (snd ?a))" for x
  proof (rule abort_open_settles [OF 2])
    show "map_of (sessions (snd ?a)) (fst x) = Some (snd x)" using 1(2) x by simp
    show "ss_project (snd x) = ''p''" using 1(3) x by (simp add: list_all_iff)
  qed
  then show ?thesis using 1(1) by (simp add: list_all_iff)
qed

section \<open>Retention\<close>

text \<open>
  A prune while others run: it takes a snapshot of the identifiers, looks at each session in turn, and the
  manager takes any steps in between. \<open>ids\<close> are the sessions still to be looked at. A session that was
  forgotten since the snapshot is still held, with some finishing time.
\<close>

inductive prune_visits :: "sync_env \<Rightarrow> 'y manager_config_scheme \<Rightarrow> 'z manager_scheme \<Rightarrow> string list \<Rightarrow>
    (nat \<times> string) list \<Rightarrow> 'z manager_scheme \<Rightarrow> bool"
  for env cfg s0 where
  visits_start: "prune_visits env cfg s0 (map fst (sessions s0)) [] s0"
| visits_step: "prune_visits env cfg s0 ids c s \<Longrightarrow> sync_step env cfg s t \<Longrightarrow> prune_visits env cfg s0 ids c t"
| visits_look: "prune_visits env cfg s0 (i # ids) c s \<Longrightarrow> map_of (sessions s) i = Some d \<Longrightarrow>
    prune_visits env cfg s0 ids (c @ List.map_filter finished_entry [(i, d)]) s"
| visits_gone: "prune_visits env cfg s0 (i # ids) c s \<Longrightarrow> map_of (sessions s) i = None \<Longrightarrow>
    prune_visits env cfg s0 ids (c @ [(t, i)]) s"

lemma visits_run: "prune_visits env cfg s0 ids c s \<Longrightarrow> sync_run env cfg s0 s"
  by (induction rule: prune_visits.induct) (auto intro: run_refl run_step)

text \<open>A finished session stays finished until it is forgotten.\<close>

lemma finished_stays:
  assumes "manager_ok env cfg s" "sync_run env cfg s s'" "inj (env_uuid env)"
    "map_of (sessions s) i = Some d" "finished_entry (i, d) = Some x" "map_of (sessions s') i = Some e"
  shows "finished_entry (i, e) = Some x"
proof -
  have "terminal (ss_state d)" "\<not> cleanup_pending d" "finished_at d = Some (fst x)" "snd x = i"
    using finished_entry_mem [OF assms(5)] by (simp_all add: prunable_def)
  moreover from this(1) have "stays d e"
    using kept_run [OF assms(2) manager_okD(3) [OF assms(1,4)] assms(3)] assms(4,6) by (simp add: kept_def)
  ultimately show ?thesis by (cases x) (auto simp: stays_def same_outcome_def)
qed

lemma prunable_entry: "prunable d \<longleftrightarrow> (\<exists>x. finished_entry (i, d) = Some x)"
  by (auto simp: prunable_def)

lemma gone_stays:
  assumes "manager_ok env cfg s" "sync_run env cfg s s'" "inj (env_uuid env)"
    "i \<in> env_uuid env ` {..<issued s}" "map_of (sessions s) i = None"
  shows "map_of (sessions s') i = None"
  using kept_run [OF assms(2,4,3)] assms(5) by (auto simp: kept_def split: option.splits)

text \<open>
  What has been collected is still finished, and whatever was finished at the snapshot is collected or yet
  to be looked at.
\<close>

definition visited :: "sync_env \<Rightarrow> 'z manager_scheme \<Rightarrow> string list \<Rightarrow> (nat \<times> string) list \<Rightarrow> 'z manager_scheme \<Rightarrow> bool" where
  "visited env s0 ids c s \<longleftrightarrow>
     set ids \<union> snd ` set c \<subseteq> env_uuid env ` {..<issued s} \<and>
     (\<forall>(t, i)\<in>set c. \<forall>d. map_of (sessions s) i = Some d \<longrightarrow> finished_entry (i, d) = Some (t, i)) \<and>
     (\<forall>i d. map_of (sessions s0) i = Some d \<and> prunable d \<longrightarrow> i \<in> set ids \<union> snd ` set c)"

lemma visitedD:
  assumes "visited env s0 ids c s"
  shows "set ids \<union> snd ` set c \<subseteq> env_uuid env ` {..<issued s}"
    "(t, i) \<in> set c \<Longrightarrow> map_of (sessions s) i = Some d \<Longrightarrow> finished_entry (i, d) = Some (t, i)"
    "map_of (sessions s0) i = Some d \<Longrightarrow> prunable d \<Longrightarrow> i \<in> set ids \<union> snd ` set c"
proof -
  note v = assms [unfolded visited_def]
  show "set ids \<union> snd ` set c \<subseteq> env_uuid env ` {..<issued s}" by (rule conjunct1 [OF v])
  have "\<forall>(t, i)\<in>set c. \<forall>d. map_of (sessions s) i = Some d \<longrightarrow> finished_entry (i, d) = Some (t, i)"
    by (rule conjunct1 [OF conjunct2 [OF v]])
  then show "(t, i) \<in> set c \<Longrightarrow> map_of (sessions s) i = Some d \<Longrightarrow> finished_entry (i, d) = Some (t, i)" by blast
  have "\<forall>i d. map_of (sessions s0) i = Some d \<and> prunable d \<longrightarrow> i \<in> set ids \<union> snd ` set c"
    by (rule conjunct2 [OF conjunct2 [OF v]])
  then show "map_of (sessions s0) i = Some d \<Longrightarrow> prunable d \<Longrightarrow> i \<in> set ids \<union> snd ` set c" by blast
qed

lemma visited_step:
  assumes v: "visited env s0 ids c s" and ok: "manager_ok env cfg s" and st: "sync_step env cfg s t"
    and inj: "inj (env_uuid env)"
  shows "visited env s0 ids c t"
proof -
  have run: "sync_run env cfg s t" by (rule sync_run_step [OF st])
  have e: "finished_entry (i, d) = Some (k, i)" if "(k, i) \<in> set c" "map_of (sessions t) i = Some d" for k i d
  proof -
    have i: "i \<in> env_uuid env ` {..<issued s}" using visitedD(1) [OF v] that(1) by force
    show ?thesis
    proof (cases "map_of (sessions s) i")
      case None
      then show ?thesis using gone_stays [OF ok run inj i None] that(2) by simp
    next
      case (Some d0)
      with that(1) have "finished_entry (i, d0) = Some (k, i)" by (rule visitedD(2) [OF v])
      then show ?thesis by (rule finished_stays [OF ok run inj Some _ that(2)])
    qed
  qed
  have "i \<in> env_uuid env ` {..<issued t}" if i: "i \<in> env_uuid env ` {..<issued s}" for i
  proof -
    have "issued s \<le> issued t" using kept_run [OF run i inj] by (simp add: kept_def)
    with i show ?thesis by auto
  qed
  then have "env_uuid env ` {..<issued s} \<subseteq> env_uuid env ` {..<issued t}" by (rule subsetI)
  with visitedD(1) [OF v] have "set ids \<union> snd ` set c \<subseteq> env_uuid env ` {..<issued t}" by (rule subset_trans)
  moreover have "\<forall>(k, i)\<in>set c. \<forall>d. map_of (sessions t) i = Some d \<longrightarrow> finished_entry (i, d) = Some (k, i)"
    using e by blast
  moreover have "\<forall>i d. map_of (sessions s0) i = Some d \<and> prunable d \<longrightarrow> i \<in> set ids \<union> snd ` set c"
    using visitedD(3) [OF v] by blast
  ultimately show ?thesis unfolding visited_def by (intro conjI)
qed

lemma prune_visits_visited:
  assumes "prune_visits env cfg s0 ids c s" "manager_ok env cfg s0" "inj (env_uuid env)"
  shows "visited env s0 ids c s"
  using assms(1)
proof (induction rule: prune_visits.induct)
  case visits_start
  have "i \<in> env_uuid env ` {..<issued s0}" if "i \<in> fst ` set (sessions s0)" for i
    using that assms(2) by (auto simp: manager_ok_def list_all_iff entry_ok_def)
  then show ?case by (force simp: visited_def dest: map_of_SomeD)
next
  case (visits_step ids c s t)
  have "manager_ok env cfg s" by (rule manager_ok_run [OF visits_run [OF visits_step.hyps(1)] assms(2,3)])
  then show ?case by (rule visited_step [OF visits_step.IH _ visits_step.hyps(2) assms(3)])
next
  case (visits_look i ids c s d)
  show ?case
  proof (cases "finished_entry (i, d)")
    case None
    have "manager_ok env cfg s0 \<and> sync_run env cfg s0 s" using assms(2) visits_run [OF visits_look.hyps(1)] by simp
    then have "\<not> prunable d0" if "map_of (sessions s0) i = Some d0" for d0
      using finished_stays [OF _ _ assms(3) that _ visits_look.hyps(2)] None prunable_entry [of d0 i] by fastforce
    moreover have "c @ List.map_filter finished_entry [(i, d)] = c" using None by (simp add: List.map_filter_simps)
    ultimately show ?thesis using visits_look.IH by (auto simp: visited_def)
  next
    case (Some x)
    have x: "snd x = i" using finished_entry_mem [OF Some] by simp
    have "c @ List.map_filter finished_entry [(i, d)] = c @ [x]"
      using Some by (simp add: List.map_filter_simps del: finished_entry.simps)
    then show ?thesis using visits_look.IH visits_look.hyps(2) Some x
      by (cases x) (auto simp: visited_def simp del: finished_entry.simps)
  qed
next
  case (visits_gone i ids c s t)
  then show ?case by (auto simp: visited_def)
qed


text \<open>What a prune keeps of what it collected is at most the limit.\<close>

lemma pruned_excess: "set (take (length fs - limit) (map snd fs)) \<subseteq> set (pruned_ids limit ret t fs)"
proof
  fix i assume "i \<in> set (take (length fs - limit) (map snd fs))"
  then obtain n where n: "n < length fs - limit" "n < length fs" "i = snd (fs ! n)"
    by (auto simp: in_set_conv_nth)
  then have "(n, fs ! n) \<in> set (zip [0..<length fs] fs)" by (auto simp: in_set_zip intro!: exI [of _ n])
  then have "(n, fs ! n) \<in> set (filter (\<lambda>(index, t', i). index < length fs - limit \<or> t - t' \<ge> ret)
      (zip [0..<length fs] fs))" using n(1) by (auto split: prod.splits)
  then show "i \<in> set (pruned_ids limit ret t fs)" using n(3) unfolding pruned_ids_def Let_def
    by (force simp: image_iff)
qed

lemma pruned_now_leaves: "card (snd ` set c - pruned_now cfg c s) \<le> max_retained_sync_results"
proof -
  let ?fs = "sort c" and ?n = max_retained_sync_results
  have "set ?fs = set (take (length ?fs - ?n) ?fs) \<union> set (drop (length ?fs - ?n) ?fs)"
    by (metis append_take_drop_id set_append)
  then have "snd ` set c = set (take (length ?fs - ?n) (map snd ?fs)) \<union> set (drop (length ?fs - ?n) (map snd ?fs))"
    by (simp add: take_map drop_map flip: image_Un)
  then have "snd ` set c - pruned_now cfg c s \<subseteq> set (drop (length ?fs - ?n) (map snd ?fs))"
    using pruned_excess [of ?fs ?n "result_retention cfg" "clock s"] unfolding pruned_now_def by blast
  then have "card (snd ` set c - pruned_now cfg c s) \<le> card (set (drop (length ?fs - ?n) (map snd ?fs)))"
    by (rule card_mono [rotated]) simp
  also have "\<dots> \<le> ?n" by (rule order_trans [OF card_length]) simp
  finally show ?thesis .
qed

definition finished_now :: "push_session \<Rightarrow> bool" where
  "finished_now d \<longleftrightarrow> terminal (ss_state d) \<and> \<not> cleanup_pending d"

text \<open>The sessions that finished between two states.\<close>

definition finished_since :: "'z manager_scheme \<Rightarrow> 'z manager_scheme \<Rightarrow> (string \<times> push_session) list" where
  "finished_since s0 s = filter (\<lambda>(i, d). finished_now d \<and>
     \<not> (case map_of (sessions s0) i of Some d0 \<Rightarrow> finished_now d0 | None \<Rightarrow> False)) (sessions s)"

lemma finished_prunable: "manager_ok env cfg s \<Longrightarrow> map_of (sessions s) i = Some d \<Longrightarrow> finished_now d = prunable d"
  using manager_okD(1) [of env cfg s i d] by (auto simp: finished_now_def prunable_def session_ok_def)

lemma prune_leaves:
  assumes v: "visited env s0 [] c s" and ok0: "manager_ok env cfg s0" and ok: "manager_ok env cfg s"
  shows "length (filter (\<lambda>x. finished_now (snd x)) (sessions (prune_collected cfg c s)))
    \<le> max_retained_sync_results + length (finished_since s0 s)"
proof -
  let ?left = "filter (\<lambda>x. finished_now (snd x)) (sessions (prune_collected cfg c s))"
  have d: "distinct (map fst (sessions s))" using ok by (simp add: manager_ok_def)
  have "fst x \<in> snd ` set c - pruned_now cfg c s \<or> x \<in> set (finished_since s0 s)" if x: "x \<in> set ?left" for x
  proof (cases "fst x \<in> snd ` set c")
    case True
    then show ?thesis using x by (auto simp: prune_collected_facts)
  next
    case False
    have "\<not> finished_now d0" if m: "map_of (sessions s0) (fst x) = Some d0" for d0
      using visitedD(3) [OF v m] False finished_prunable [OF ok0 m] by auto
    then have "x \<in> set (finished_since s0 s)" using x
      by (fastforce simp: finished_since_def prune_collected_facts split: option.splits)
    then show ?thesis by simp
  qed
  then have "fst ` set ?left \<subseteq> (snd ` set c - pruned_now cfg c s) \<union> fst ` set (finished_since s0 s)" by blast
  then have "card (fst ` set ?left) \<le> card ((snd ` set c - pruned_now cfg c s) \<union> fst ` set (finished_since s0 s))"
    by (rule card_mono [rotated]) simp
  also have "\<dots> \<le> card (snd ` set c - pruned_now cfg c s) + card (fst ` set (finished_since s0 s))" by (rule card_Un_le)
  also have "\<dots> \<le> max_retained_sync_results + length (finished_since s0 s)"
    using pruned_now_leaves [of c cfg s] card_length [of "map fst (finished_since s0 s)"] by (intro add_mono) simp_all
  also have "card (fst ` set ?left) = length ?left"
    using d distinct_card [of "map fst ?left"] by (simp add: prune_collected_facts distinct_map_filter)
  finally show ?thesis .
qed

text \<open>
  C7. What a prune achieves while others run. Whatever the manager does between the snapshot of a prune and
  its end, afterwards it retains at most 128 finished sessions whose cleanup is done, besides those that
  finished since the snapshot; and the prune drops only finished sessions, never one that is open,
  committing or waiting for its cleanup. (Every cleanup is followed by a prune of its own, which looks at
  the sessions that finished meanwhile.)
\<close>

theorem prune_bounds_results:
  assumes "sync_run env cfg (manager_new t) s0" "inj (env_uuid env)" "prune_visits env cfg s0 [] c s"
  shows "length (filter (\<lambda>x. finished_now (snd x)) (sessions (prune_collected cfg c s)))
      \<le> max_retained_sync_results + length (finished_since s0 s) \<and>
    list_all (\<lambda>x. x \<in> set (sessions (prune_collected cfg c s)) \<or> finished_now (snd x)) (sessions s)"
proof
  have ok0: "manager_ok env cfg s0" by (rule reachable_ok [OF assms(1,2)])
  have ok: "manager_ok env cfg s" by (rule manager_ok_run [OF visits_run [OF assms(3)] ok0 assms(2)])
  have v: "visited env s0 [] c s" by (rule prune_visits_visited [OF assms(3) ok0 assms(2)])
  show "length (filter (\<lambda>x. finished_now (snd x)) (sessions (prune_collected cfg c s)))
      \<le> max_retained_sync_results + length (finished_since s0 s)" by (rule prune_leaves [OF v ok0 ok])
  have d: "distinct (map fst (sessions s))" using ok by (simp add: manager_ok_def)
  have "\<exists>d. (i, d) \<in> set (sessions s) \<and> finished_entry (i, d) = Some (t, i)"
    if m: "(t, i) \<in> set c" "i \<in> fst ` set (sessions s)" for t i
  proof -
    obtain d where "map_of (sessions s) i = Some d" using m(2) by (metis map_of_eq_None_iff not_None_eq)
    then show ?thesis using visitedD(2) [OF v m(1)] map_of_SomeD by metis
  qed
  then have "still_finished c s" unfolding still_finished_def by blast
  from pruned_prunable [OF d this, of _ cfg]
  show "list_all (\<lambda>x. x \<in> set (sessions (prune_collected cfg c s)) \<or> finished_now (snd x)) (sessions s)"
    by (auto simp: list_all_iff prune_collected_facts finished_now_def prunable_def)
qed

text \<open>A prune that looks at the demonstration plan while it is open, and ends after it is committed.\<close>

theorem prune_bounds_results_witness:
  "length (finished_since demo_planned demo_committed) = 1 \<and>
   length (filter (\<lambda>x. finished_now (snd x)) (sessions (prune_collected demo_manager_config [] demo_committed))) \<le> 129"
proof -
  have 1: "map fst (sessions demo_planned) = [[]]" "length (finished_since demo_planned demo_committed) = 1" by code_simp+
  have "map_of (sessions demo_planned) [] \<noteq> None" by code_simp
  then obtain d where d: "map_of (sessions demo_planned) [] = Some d" by blast
  have n: "finished_entry ([], the (map_of (sessions demo_planned) [])) = None" by code_simp
  have "prune_visits demo_env demo_manager_config demo_planned [] ([] @ List.map_filter finished_entry [([], d)]) demo_planned"
    using visits_start [of demo_env demo_manager_config demo_planned] unfolding 1(1) by (rule visits_look [OF _ d])
  then have v: "prune_visits demo_env demo_manager_config demo_planned [] [] demo_planned"
    using n d by (simp add: List.map_filter_simps)
  have "prune_visits demo_env demo_manager_config demo_planned [] [] s" if "sync_run demo_env demo_manager_config demo_planned s" for s
    using that v by (induction rule: sync_run.induct) (auto intro: visits_step)
  from prune_bounds_results [OF demo_planned_run demo_inj this [OF demo_committed_run]] 1(2)
  show ?thesis by (simp add: max_retained_sync_results_def)
qed

end
