(* ===== verification/Project_Store.thy ===== *)
theory Project_Store
  imports Commit_Atomic
begin

text \<open>
  Durable project validity: \<open>src/src/project.rs\<close>. A project may be reused only if its marker file
  \<open>.vivado-server/projects/<project>/state\<close> is exactly \<open>clean\<close> and the project is a real directory.
  The marker is replaced by a rename, so a reader finds the old value or the new one.

  An instance lock that another process holds is an outside failure of the \<open>flock\<close> call. Start-up
  errors are \<open>anyhow\<close> errors, here their text. \<open>fresh\<close> is the metadata of a new file, \<open>uuid\<close> the
  sequence of identifiers.
\<close>

section \<open>Directories and system calls\<close>

definition clean_bytes :: string where
  "clean_bytes = ''clean'' @ [CHR 0x0A]"

definition dirty_bytes :: string where
  "dirty_bytes = ''dirty'' @ [CHR 0x0A]"

record project_store =
  ps_root :: path
  metadata_root :: path

definition project_io :: "io_error \<Rightarrow> app_error" where
  "project_io = internal ''project metadata I/O failed''"

text \<open>\<open>O_DIRECTORY | O_NOFOLLOW\<close>.\<close>

definition open_directory :: "path \<Rightarrow> (unit, 'z) io" where
  "open_directory p = query (\<lambda>st. case lstat p st of
       Inl e \<Rightarrow> Inl e
     | Inr n \<Rightarrow> if n = Dir then Inr () else Inl (err NotADirectoryK))"

definition sync_directory :: "path \<Rightarrow> (unit, 'z) io" where
  "sync_directory p = bindS (open_directory p) (\<lambda>_. sync_path p)"

text \<open>
  The loop has no bound: \<open>retry_loop\<close> is \<open>None\<close> if every attempt is interrupted. A call whose
  interruptions come from outside alone always returns (\<open>Project_Facts.retry_interrupted_ends\<close>), so the
  last branch of \<open>retry_interrupted\<close> is not taken.
\<close>

partial_function (option) retry_loop ::
  "(unit, 'z) io \<Rightarrow> 'z fs_scheme \<Rightarrow> ((io_error + unit) \<times> 'z fs_scheme) option" where
  "retry_loop operation s =
     (case operation s of
        (Inr _, s1) \<Rightarrow> Some (Inr (), s1)
      | (Inl e, s1) \<Rightarrow> if io_kind e \<noteq> InterruptedK then Some (Inl e, s1) else retry_loop operation s1)"

declare retry_loop.simps [code]

definition retry_interrupted :: "(unit, 'z) io \<Rightarrow> (unit, 'z) io" where
  "retry_interrupted operation s =
     (case retry_loop operation s of Some r \<Rightarrow> r | None \<Rightarrow> (Inl (err InterruptedK), s))"

definition create_real_directory :: "path \<Rightarrow> 'z fs_scheme \<Rightarrow> unit res \<times> 'z fs_scheme" where
  "create_real_directory p =
     bindS (liftR (ok_or (parent p) (Internal ''metadata directory has no parent''))) (\<lambda>up.
     bindS (ensure_real_directory_chain up) (\<lambda>_ s.
     case create_dir p s of
       (Inr _, s1) \<Rightarrow>
         bindS (mapErr project_io (sync_directory p)) (\<lambda>_. mapErr project_io (sync_directory up)) s1
     | (Inl e, s1) \<Rightarrow>
         if io_kind e = AlreadyExistsK then ensure_real_directory_chain p s1
         else (Inl (project_io e), s1)))"

section \<open>Start-up\<close>

text \<open>Opening the lock file creates it if it is missing and never follows a link.\<close>

definition open_lock :: "file_data \<Rightarrow> path \<Rightarrow> (unit, 'z) io" where
  "open_lock fresh p = syscall (\<lambda>s.
     case entry_slot p (store s) of
       Inl e \<Rightarrow> Inl e
     | Inr _ \<Rightarrow>
         (case lookup (store s) p of
            None \<Rightarrow> Inr ((), (p, File (fresh\<lparr>fbytes := [], fmode := 0x180\<rparr>)) # store s)
          | Some Dir \<Rightarrow> Inl (err IsADirectoryK)
          | Some (Link _) \<Rightarrow> Inl (err ELoop)
          | Some _ \<Rightarrow> Inr ((), store s)))"

definition flock :: "path \<Rightarrow> (unit, 'z) io" where
  "flock p = query (\<lambda>_. Inr ())"

definition initialize :: "file_data \<Rightarrow> path \<Rightarrow> 'z fs_scheme \<Rightarrow> (string + project_store) \<times> 'z fs_scheme" where
  "initialize fresh root0 =
     bindS (mapErr to_string (ensure_real_directory_chain root0)) (\<lambda>_.
     bindS (mapErr (\<lambda>_. ''failed to resolve workspace'') (canonicalize root0)) (\<lambda>root.
     let internal = root @ [internal_dir]; lock = internal @ [''instance.lock''];
         projects = internal @ [''projects''] in
     bindS (mapErr to_string (create_real_directory internal)) (\<lambda>_.
     bindS (mapErr (\<lambda>_. ''failed to open workspace instance lock'') (open_lock fresh lock)) (\<lambda>_.
     bindS (mapErr io_text (symlink_metadata lock)) (\<lambda>n.
     bindS (liftR (ensure (is_file_node n) ''workspace instance lock must be a regular file'')) (\<lambda>_.
     bindS (mapErr (\<lambda>_. ''workspace is already in use or cannot be locked'') (retry_interrupted (flock lock))) (\<lambda>_.
     bindS (mapErr io_text (sync_path lock)) (\<lambda>_.
     bindS (mapErr io_text (sync_directory internal)) (\<lambda>_.
     bindS (mapErr to_string (create_real_directory projects)) (\<lambda>_.
     okS \<lparr>ps_root = root, metadata_root = projects\<rparr>))))))))))"

section \<open>Markers\<close>

definition checked_project_path :: "project_store \<Rightarrow> string \<Rightarrow> 'z fs_scheme \<Rightarrow> path res \<times> 'z fs_scheme" where
  "checked_project_path ps project =
     bindS (ensure_real_directory_chain (ps_root ps)) (\<lambda>_.
     bindS (liftR (resolve_project_dir (ps_root ps) project)) (\<lambda>p s.
     case symlink_metadata p s of
       (Inr _, s1) \<Rightarrow> bindS (ensure_safe_project_root (ps_root ps) p) (\<lambda>_. okS p) s1
     | (Inl e, s1) \<Rightarrow> if io_kind e = NotFoundK then (Inr p, s1) else (Inl (project_io e), s1)))"

definition project_path :: "project_store \<Rightarrow> string \<Rightarrow> 'z fs_scheme \<Rightarrow> path res \<times> 'z fs_scheme" where
  "project_path ps project =
     bindS (liftR (validate_project_name project)) (\<lambda>_. checked_project_path ps project)"

definition marker_path :: "project_store \<Rightarrow> string \<Rightarrow> path" where
  "marker_path ps project = metadata_root ps @ [project, ''state'']"

text \<open>Opened without following a link; at most one byte more than the expected value is read.\<close>

definition open_marker :: "path \<Rightarrow> (unit, 'z) io" where
  "open_marker p = query (\<lambda>st. case lstat p st of
       Inl e \<Rightarrow> Inl e
     | Inr (Link _) \<Rightarrow> Inl (err ELoop)
     | Inr _ \<Rightarrow> Inr ())"

definition read_at_most :: "nat \<Rightarrow> path \<Rightarrow> (string, 'z) io" where
  "read_at_most n p = query (\<lambda>st. case lstat p st of
       Inl e \<Rightarrow> Inl e
     | Inr (File d) \<Rightarrow> Inr (take n (fbytes d))
     | Inr _ \<Rightarrow> Inl (err IsADirectoryK))"

definition read_clean :: "project_store \<Rightarrow> string \<Rightarrow> 'z fs_scheme \<Rightarrow> bool res \<times> 'z fs_scheme" where
  "read_clean ps project =
     bindS (checked_project_path ps project) (\<lambda>dir.
     bindS (ensure_safe_project_root (ps_root ps) dir) (\<lambda>_.
     bindS (ensure_real_directory_chain (metadata_root ps @ [project])) (\<lambda>_.
     bindS (mapErr project_io (open_marker (marker_path ps project))) (\<lambda>_.
     bindS (mapErr project_io (symlink_metadata (marker_path ps project))) (\<lambda>n.
     if \<not> is_file_node n then okS False
     else
       bindS (mapErr project_io (read_at_most (length clean_bytes + 1) (marker_path ps project))) (\<lambda>bytes.
       okS (bytes = clean_bytes)))))))"

definition is_clean :: "project_store \<Rightarrow> string \<Rightarrow> 'z fs_scheme \<Rightarrow> bool res \<times> 'z fs_scheme" where
  "is_clean ps project =
     bindS (liftR (validate_project_name project)) (\<lambda>_ s.
     case read_clean ps project s of
       (Inr b, s1) \<Rightarrow> (Inr b, s1)
     | (Inl _, s1) \<Rightarrow> (Inr False, s1))"

definition create_new :: "path \<Rightarrow> file_data \<Rightarrow> (unit, 'z) io" where
  "create_new p d = syscall (\<lambda>s.
     case entry_slot p (store s) of
       Inl e \<Rightarrow> Inl e
     | Inr _ \<Rightarrow> if lookup (store s) p \<noteq> None then Inl (err AlreadyExistsK)
                else Inr ((), (p, File d) # store s))"

definition check_destination :: "path \<Rightarrow> 'z fs_scheme \<Rightarrow> unit res \<times> 'z fs_scheme" where
  "check_destination p s =
     (case symlink_metadata p s of
        (Inr n, s1) \<Rightarrow>
          (ensure (is_file_node n) (BadRequest ''project state must be a regular file''), s1)
      | (Inl e, s1) \<Rightarrow> if io_kind e = NotFoundK then (Inr (), s1) else (Inl (project_io e), s1))"

definition publish_marker :: "file_data \<Rightarrow> path \<Rightarrow> path \<Rightarrow> path \<Rightarrow> string \<Rightarrow> (unit, 'z) io" where
  "publish_marker fresh directory temporary destination value =
     bindS (create_new temporary (fresh\<lparr>fbytes := [], fmode := 0x180\<rparr>)) (\<lambda>_.
     bindS (append_file temporary value) (\<lambda>_.
     bindS (sync_path temporary) (\<lambda>_.
     bindS (rename temporary destination) (\<lambda>_.
     sync_directory directory))))"

definition atomic_marker :: "file_data \<Rightarrow> (nat \<Rightarrow> string) \<Rightarrow> path \<Rightarrow> string \<Rightarrow> (unit, 'z) tx" where
  "atomic_marker fresh uuid directory value =
     bindS (ensure_real_directory_chain directory) (\<lambda>_.
     bindS (check_destination (directory @ [''state''])) (\<lambda>_ s.
     let temporary = directory @ [''.state-'' @ uuid (issued s)] in
     case publish_marker fresh directory temporary (directory @ [''state'']) value (s\<lparr>issued := Suc (issued s)\<rparr>) of
       (Inr _, s1) \<Rightarrow> (Inr (), s1)
     | (Inl e, s1) \<Rightarrow> (Inl (project_io e), snd (remove_file temporary s1))))"

definition write_marker :: "file_data \<Rightarrow> (nat \<Rightarrow> string) \<Rightarrow> project_store \<Rightarrow> string \<Rightarrow> bool \<Rightarrow> (unit, 'z) tx" where
  "write_marker fresh uuid ps project clean =
     bindS (liftR (validate_project_name project)) (\<lambda>_.
     bindS (checked_project_path ps project) (\<lambda>project_dir.
     bindS (if clean then
              bindS (ensure_safe_project_root (ps_root ps) project_dir) (\<lambda>_.
              bindS (mapErr project_io (open_directory project_dir)) (\<lambda>_.
              mapErr project_io (retry_interrupted (sync_path project_dir))))
            else okS ()) (\<lambda>_.
     bindS (create_real_directory (metadata_root ps @ [project])) (\<lambda>_.
     atomic_marker fresh uuid (metadata_root ps @ [project]) (if clean then clean_bytes else dirty_bytes)))))"

definition mark_dirty :: "file_data \<Rightarrow> (nat \<Rightarrow> string) \<Rightarrow> project_store \<Rightarrow> string \<Rightarrow> (unit, 'z) tx" where
  "mark_dirty fresh uuid ps project = write_marker fresh uuid ps project False"

definition mark_clean :: "file_data \<Rightarrow> (nat \<Rightarrow> string) \<Rightarrow> project_store \<Rightarrow> string \<Rightarrow> (unit, 'z) tx" where
  "mark_clean fresh uuid ps project = write_marker fresh uuid ps project True"

end
