(* ===== verification/Project_Facts.thy ===== *)
theory Project_Facts
  imports Project_Store
begin

text \<open>
  What the project markers promise: only an exact marker restores trust, a marker is replaced as a whole
  whatever fails in between, and what was written is what is read.
\<close>

section \<open>Reading\<close>

lemma keeps_snd_at: "keeps R m \<Longrightarrow> R s (snd (m s))"
  by (simp add: keeps_def)

lemma keeps_only_project [simp]:
  "keeps only_faults (open_directory p)" "keeps only_faults (sync_directory p)"
  "keeps only_faults (open_marker p)" "keeps only_faults (read_at_most n p)" "keeps only_faults (flock p)"
  by (simp_all add: open_directory_def sync_directory_def open_marker_def read_at_most_def flock_def keeps_only)

text \<open>A retried call ends as its first attempt that is not interrupted.\<close>

lemma retry_step:
  "retry_loop m s = (if \<exists>e. fst (m s) = Inl e \<and> io_kind e = InterruptedK then retry_loop m (snd (m s)) else Some (m s))"
  by (subst retry_loop.simps) (auto split: prod.split sum.split)

lemma keeps_retry_loop:
  assumes ret: "retry_loop m s = Some r" and "keeps only_faults m"
  shows "only_faults s (snd r)"
proof -
  have "keeps only_faults m \<longrightarrow> only_faults s (snd r)"
  proof (rule retry_loop.raw_induct [where P = "\<lambda>m s r. keeps only_faults m \<longrightarrow> only_faults s (snd r)", OF _ ret])
    fix rl :: "(unit, 'a) io \<Rightarrow> 'a fs_scheme \<Rightarrow> ((io_error + unit) \<times> 'a fs_scheme) option" and m s r
    assume IH: "\<And>m s r. rl m s = Some r \<Longrightarrow> keeps only_faults m \<longrightarrow> only_faults s (snd r)"
      and eq: "(case m s of (Inl e, s1) \<Rightarrow> if io_kind e \<noteq> InterruptedK then Some (Inl e, s1) else rl m s1
        | (Inr x, s1) \<Rightarrow> Some (Inr (), s1)) = Some r"
    obtain y s1 where y: "m s = (y, s1)" by fastforce
    show "keeps only_faults m \<longrightarrow> only_faults s (snd r)"
    proof
      assume k: "keeps only_faults m"
      have 1: "only_faults s s1" by (rule keepsD [OF k y])
      have 2: "only_faults s1 (snd r)" if "rl m s1 = Some r" using IH [OF that] k by simp
      show "only_faults s (snd r)"
        using eq 1 only_faults_trans [OF 1 2] unfolding y by (cases y) (auto split: if_splits)
    qed
  qed
  with assms show ?thesis by simp
qed

lemma keeps_retry [simp]: "keeps only_faults m \<Longrightarrow> keeps only_faults (retry_interrupted m)"
  by (auto simp: keeps_def [of _ "retry_interrupted m"] retry_interrupted_def split: option.split dest: keeps_retry_loop)

text \<open>A call whose interruptions all come from the schedule of outside failures.\<close>

definition interrupted_outside :: "(unit, 'z) io \<Rightarrow> bool" where
  "interrupted_outside m \<longleftrightarrow> (\<forall>s e. fst (m s) = Inl e \<and> io_kind e = InterruptedK \<longrightarrow>
     length (faults (snd (m s))) < length (faults s))"

lemma retry_returns:
  assumes "interrupted_outside m"
  shows "\<exists>r. retry_loop m s = Some r"
proof (induction "length (faults s)" arbitrary: s rule: less_induct)
  case less
  show ?case
    by (subst retry_step) (use assms less in \<open>auto simp: interrupted_outside_def\<close>)
qed

lemma walk_kind: "walk st cur p = Inl e \<Longrightarrow> io_kind e \<noteq> InterruptedK"
  by (induction st cur p rule: walk.induct) (auto split: option.splits node.splits)

lemma lstat_kind: "lstat p st = Inl e \<Longrightarrow> io_kind e \<noteq> InterruptedK"
  by (auto simp: lstat_def dest: walk_kind split: sum.splits option.splits)

lemma interrupted_outside_calls: "interrupted_outside (flock p)" "interrupted_outside (sync_path p)"
  by (auto simp: interrupted_outside_def flock_def sync_path_def query_def syscall_def
      split: list.splits option.splits sum.splits dest: lstat_kind)

lemma retry_interrupted_ends:
  assumes "interrupted_outside m"
  shows "retry_loop m s = Some (retry_interrupted m s)"
  using retry_returns [OF assms, of s] by (auto simp: retry_interrupted_def)

lemma keeps_either:
  assumes "transp R" "keeps R m" "\<And>x. keeps R (f x)" "\<And>e. keeps R (g e)"
  shows "keeps R (\<lambda>s. case m s of (Inr x, s1) \<Rightarrow> f x s1 | (Inl e, s1) \<Rightarrow> g e s1)"
  unfolding keeps_def
proof
  fix s
  obtain r s1 where r: "m s = (r, s1)" by fastforce
  have 1: "R s s1" by (rule keepsD [OF assms(2) r])
  have "R s1 (snd (f x s1))" "R s1 (snd (g e s1))" for x e using assms(3,4) by (simp_all add: keeps_def)
  with 1 show "R s (snd (case m s of (Inr x, s1) \<Rightarrow> f x s1 | (Inl e, s1) \<Rightarrow> g e s1))"
    using r transpD [OF assms(1)] by (cases r) fastforce+
qed

lemma keeps_only_checked [simp]: "keeps only_faults (checked_project_path ps project)"
proof -
  have "keeps only_faults (\<lambda>s. if b then (Inr p, s) else (Inl e, s))" for b p e
    by (cases b) (simp_all add: keeps_def)
  then show ?thesis unfolding checked_project_path_def
    by (intro keeps_only keeps_only_chain keeps_either only_faults_rel keeps_only_calls keeps_only_safe_root)
qed

lemma keeps_only_read_clean [simp]: "keeps only_faults (read_clean ps project)"
  unfolding read_clean_def
  by (intro keeps_only keeps_only_checked keeps_only_safe_root keeps_only_chain keeps_only_project keeps_only_calls)
    (auto intro!: keeps_only)

lemma is_clean_only: "is_clean ps project s = (r, s') \<Longrightarrow> only_faults s s'"
  using keepsD [OF keeps_only_read_clean [of ps project]]
  by (auto simp: is_clean_def bindS_def liftR_def split: sum.splits prod.splits)

definition marker_holds :: "string \<Rightarrow> path \<Rightarrow> store \<Rightarrow> bool" where
  "marker_holds v p st \<longleftrightarrow> (case lookup st p of Some (File d) \<Rightarrow> fbytes d = v | _ \<Rightarrow> False)"

lemma read_cleanD:
  assumes "read_clean ps project s = (Inr True, s')" "''.'' \<notin> set (ps_root ps)"
  shows "real_dirs (store s) (ps_root ps)" "lookup (store s) (ps_root ps @ [project]) = Some Dir"
    "marker_holds clean_bytes (marker_path ps project) (store s)"
proof -
  obtain dir s1 s2 s3 s4 s5 n b where
    c: "checked_project_path ps project s = (Inr dir, s1)"
    and e: "ensure_safe_project_root (ps_root ps) dir s1 = (Inr (), s2)"
    and ch: "ensure_real_directory_chain (metadata_root ps @ [project]) s2 = (Inr (), s3)"
    and o: "open_marker (marker_path ps project) s3 = (Inr (), s4)"
    and m: "symlink_metadata (marker_path ps project) s4 = (Inr n, s5)"
    and b: "read_at_most (length clean_bytes + 1) (marker_path ps project) s5 = (Inr b, s')" "b = clean_bytes"
    using assms(1) unfolding read_clean_def
    by (elim bindS_InrE) (auto simp: okS_def elim!: bindS_InrE split: if_splits dest!: mapErr_InrD)
  have k1: "store s1 = store s" by (rule only_faultsD(1) [OF keepsD [OF keeps_only_checked c]])
  have k2: "store s2 = store s1" by (rule only_faultsD(1) [OF keepsD [OF keeps_only_safe_root e]])
  have k3: "store s3 = store s2" by (rule only_faultsD(1) [OF keepsD [OF keeps_only_chain ch]])
  have k4: "store s4 = store s3" by (rule only_faultsD(1) [OF keepsD [OF keeps_only_project(3) o]])
  have k5: "store s5 = store s4" by (rule only_faultsD(1) [OF keepsD [OF keeps_only_calls(1) m]])
  have dir: "dir = ps_root ps @ [project]"
    using c by (auto simp: checked_project_path_def resolve_project_dir_def okS_def liftR_def res_simps
        elim!: bindS_InrE split: prod.splits sum.splits if_splits)
  note S = safe_project_rootD [OF e assms(2)]
  show "real_dirs (store s) (ps_root ps)" "lookup (store s) (ps_root ps @ [project]) = Some Dir"
    using S(1,3) k1 dir by simp_all
  have "(case lstat (marker_path ps project) (store s5) of Inr (File d) \<Rightarrow> take (length clean_bytes + 1) (fbytes d) = clean_bytes
      | _ \<Rightarrow> False)"
    using b unfolding read_at_most_def by (auto dest!: query_InrD split: sum.splits node.splits)
  moreover have "take (Suc (length v)) x = v \<Longrightarrow> x = v" for v x :: string
    by (cases "length x \<le> length v") (auto dest: arg_cong [of _ _ length])
  ultimately show "marker_holds clean_bytes (marker_path ps project) (store s)"
    using k1 k2 k3 k4 k5 
    by (auto simp: marker_holds_def clean_bytes_def split: sum.splits node.splits dest!: lstat_Some)
qed

section \<open>Writing\<close>

lemma rename_over:
  assumes "rename a b s = (Inr u, s')" "store_ok (store s)" "lookup (store s) a = Some (File d)" "a \<noteq> b"
  shows "lookup (store s') q = (if q = b then Some (File d) else if q = a then None else lookup (store s) q)"
    "store_ok (store s')"
proof -
  let ?st = "store s" and ?dl = "delete_key b (store s)"
  obtain st where m: "mv (device s) a b ?st = Inr ((), st)" and s': "store s' = st"
    using rename_InrD [OF assms(1)] by auto
  have ab: "\<not> is_prefix a b" "a \<noteq> []" "b \<noteq> []" "lookup ?st b \<noteq> Some Dir" "st = move a b ?st" "lookup ?st (butlast b) = Some Dir"
    using m assms(2-4)
    by (auto simp: mv_def lstat_Inr entry_slot_Inr split: sum.splits if_splits option.splits node.splits)
  have nb: "\<not> occupied_below b ?st" using not_occupied [OF assms(2) ab(4)] .
  have okd: "store_ok ?dl" by (rule delete_leaf_ok [OF assms(2) ab(3) nb])
  have v: "vacant b ?dl" by (rule vacantI [OF okd]) (simp add: lookup_delete_key)
  have mv: "st = move a b ?dl" by (simp add: ab(5) move_def delete_key_def)
  have la: "lookup ?dl a = Some (File d)" using assms(3,4) by (simp add: lookup_delete_key)
  have ba: "\<not> is_prefix b a"
  proof
    assume "is_prefix b a"
    then obtain r where r: "a = b @ r" "r \<noteq> []" using assms(4) by (auto simp: is_prefix_iff)
    show False using lookup_below_nondir [OF assms(2) ab(4) r(2)] assms(3) r(1) by simp
  qed
  have below_a: "lookup ?dl (a @ r) = None" if "r \<noteq> []" for r
    by (rule lookup_below_nondir [OF okd _ that]) (simp add: la)
  have below_b: "lookup ?st (b @ r) = None" if "r \<noteq> []" for r
    by (rule lookup_below_nondir [OF assms(2) ab(4) that])
  show "lookup (store s') q = (if q = b then Some (File d) else if q = a then None else lookup ?st q)"
  proof (cases "is_prefix b q")
    case True
    then obtain r where q: "q = b @ r" by (auto simp: is_prefix_iff)
    have "lookup st q = lookup ?dl (a @ r)" unfolding mv q by (rule lookup_move_in [OF v])
    then show ?thesis using q s' la below_a below_b ba by (cases "r = []") auto
  next
    case False
    have "lookup st q = (if is_prefix a q then None else lookup ?dl q)" unfolding mv by (rule lookup_move_out [OF v False])
    moreover have "lookup ?dl q = None" if "is_prefix a q" "q \<noteq> a" using that below_a unfolding is_prefix_iff by force
    ultimately show ?thesis using s' False by (auto simp: lookup_delete_key)
  qed
  have "lookup ?dl (butlast b) = Some Dir" using ab(6) butlast_neq [OF ab(3)] by (simp add: lookup_delete_key)
  then show "store_ok (store s')" unfolding s' mv by (rule move_ok [OF okd v _ ab(2,3,1)])
qed

text \<open>Only the temporary file and the marker change, and the marker only as a whole.\<close>

definition marker_change :: "path \<Rightarrow> path \<Rightarrow> string \<Rightarrow> store \<Rightarrow> store \<Rightarrow> bool" where
  "marker_change tmp dest v st st' \<longleftrightarrow> store_ok st' \<and>
     (\<forall>q. q \<noteq> tmp \<and> q \<noteq> dest \<longrightarrow> lookup st' q = lookup st q) \<and>
     (lookup st' dest = lookup st dest \<or> marker_holds v dest st')"

lemma store_ok_cons:
  assumes "store_ok st" "lookup st p = None" "lookup st (butlast p) = Some Dir" "p \<noteq> []"
  shows "store_ok ((p, n) # st)"
proof (rule store_okI)
  show "distinct (map fst ((p, n) # st))" using assms by (simp add: store_okD lookup_None_notin)
  show "lookup ((p, n) # st) [] = Some Dir" using assms by (simp add: store_okD(2))
  fix q m assume q: "lookup ((p, n) # st) q = Some m" "q \<noteq> []"
  show "lookup ((p, n) # st) (butlast q) = Some Dir"
  proof (cases "q = p")
    case True
    then show ?thesis using assms(3,4) butlast_neq [OF assms(4)] by simp
  next
    case False
    then have "lookup st (butlast q) = Some Dir" using q store_okD(3) [OF assms(1)] by simp
    then show ?thesis using assms(2) by auto
  qed
qed

lemma create_newD:
  assumes "create_new p d s = (r, s')" "store_ok (store s)"
  shows "store_ok (store s')" "q \<noteq> p \<Longrightarrow> lookup (store s') q = lookup (store s) q"
    "r = Inr u \<Longrightarrow> lookup (store s') p = Some (File d)" "r = Inl e \<Longrightarrow> store s' = store s"
proof -
  have *: "case r of Inl _ \<Rightarrow> store s' = store s
    | Inr _ \<Rightarrow> store s' = (p, File d) # store s \<and> lookup (store s) p = None \<and> lookup (store s) (butlast p) = Some Dir"
    using assms unfolding create_new_def
    by (cases r) (auto dest!: syscall_InrD syscall_InlD simp: entry_slot_Inr split: sum.splits if_splits)
  have "p \<noteq> []" if "r = Inr u" using * that assms(2) by (auto simp: store_okD)
  then have "store_ok ((p, File d) # store s)" if "r = Inr u"
    using * that by (intro store_ok_cons [OF assms(2)]) auto
  then show "store_ok (store s')" using * assms(2) by (cases r) auto
  show "q \<noteq> p \<Longrightarrow> lookup (store s') q = lookup (store s) q" using * by (cases r) auto
  show "r = Inr u \<Longrightarrow> lookup (store s') p = Some (File d)" "r = Inl e \<Longrightarrow> store s' = store s" using * by auto
qed

lemma set_node_ok:
  assumes "store_ok st" "lookup st p = Some (File d)"
  shows "store_ok (set_node p (File d') st)"
proof (rule store_okI)
  show "distinct (map fst (set_node p (File d') st))" using assms(1) by (simp add: store_okD)
  show "lookup (set_node p (File d') st) [] = Some Dir"
    using assms store_okD(2) [OF assms(1)] by (auto simp: lookup_set_node)
  fix q n assume "lookup (set_node p (File d') st) q = Some n" "q \<noteq> []"
  then have "lookup st (butlast q) = Some Dir"
    using assms store_okD(3) [OF assms(1)] by (auto simp: lookup_set_node split: if_splits)
  then show "lookup (set_node p (File d') st) (butlast q) = Some Dir"
    using assms(2) by (auto simp: lookup_set_node)
qed

lemma append_fileD':
  assumes "append_file p v s = (r, s')" "store_ok (store s)" "lookup (store s) p = Some (File d)"
  shows "store_ok (store s')" "q \<noteq> p \<Longrightarrow> lookup (store s') q = lookup (store s) q"
    "r = Inr u \<Longrightarrow> lookup (store s') p = Some (File (d\<lparr>fbytes := fbytes d @ v\<rparr>))"
proof -
  have *: "case r of Inl _ \<Rightarrow> store s' = store s
    | Inr _ \<Rightarrow> store s' = set_node p (File (d\<lparr>fbytes := fbytes d @ v\<rparr>)) (store s)"
    using assms(1,3) append_fileD [of p v s _ s'] unfolding append_file_def
    by (cases r) (auto dest!: syscall_InlD syscall_InrD)
  then show "store_ok (store s')" using assms(2,3) set_node_ok by (cases r) auto
  show "q \<noteq> p \<Longrightarrow> lookup (store s') q = lookup (store s) q" using * by (cases r) (auto simp: lookup_set_node)
  show "r = Inr u \<Longrightarrow> lookup (store s') p = Some (File (d\<lparr>fbytes := fbytes d @ v\<rparr>))"
    using * assms(3) by (auto simp: lookup_set_node)
qed

lemma publish_marker_change:
  assumes p: "publish_marker fresh dir tmp dest v s = (r, s')" and ok: "store_ok (store s)" and ne: "tmp \<noteq> dest"
  shows "marker_change tmp dest v (store s) (store s')" "r = Inr u \<Longrightarrow> marker_holds v dest (store s')"
proof -
  let ?d = "fresh\<lparr>fbytes := [], fmode := 0x180\<rparr>"
  obtain r1 s1 where c: "create_new tmp ?d s = (r1, s1)" by fastforce
  note C = create_newD [OF c ok]
  have "marker_change tmp dest v (store s) (store s') \<and> (is_ok r \<longrightarrow> marker_holds v dest (store s'))"
  proof (cases r1)
    case (Inl e)
    then show ?thesis using p c C ok by (auto simp: publish_marker_def bindS_def marker_change_def)
  next
    case (Inr u1)
    obtain r2 s2 where a: "append_file tmp v s1 = (r2, s2)" by fastforce
    note A = append_fileD' [OF a C(1) C(3) [OF Inr]]
    have base: "lookup (store s2) q = lookup (store s) q" if "q \<noteq> tmp" for q using A(2) C(2) that by simp
    show ?thesis
    proof (cases r2)
      case (Inl e)
      then show ?thesis using p c a Inr A(1) base ne by (auto simp: publish_marker_def bindS_def marker_change_def)
    next
      case r2: (Inr u2)
      obtain r3 s3 where y: "sync_path tmp s2 = (r3, s3)" by fastforce
      have k3: "store s3 = store s2" by (rule only_faultsD(1) [OF keepsD [OF keeps_only_calls(5) y]])
      show ?thesis
      proof (cases r3)
        case (Inl e)
        then show ?thesis using p c a y Inr r2 A(1) base ne k3 by (auto simp: publish_marker_def bindS_def marker_change_def)
      next
        case r3: (Inr u3)
        obtain r4 s4 where m: "rename tmp dest s3 = (r4, s4)" by fastforce
        show ?thesis
        proof (cases r4)
          case (Inl e)
          then have "store s4 = store s3" using rename_InlD [of tmp dest s3 e s4] m by simp
          then show ?thesis using p c a y m Inl Inr r2 r3 A(1) base ne k3
            by (auto simp: publish_marker_def bindS_def marker_change_def)
        next
          case r4: (Inr u4)
          have t: "lookup (store s3) tmp = Some (File (?d\<lparr>fbytes := v\<rparr>))" using A(3) [OF r2] k3 by simp
          have ok3: "store_ok (store s3)" using A(1) k3 by simp
          note R = rename_over [OF m [unfolded r4] ok3 t ne]
          have "sync_directory dir s4 = (r, s')"
            using p c a y m Inr r2 r3 r4 by (simp add: publish_marker_def bindS_def)
          then have k: "store s' = store s4" by (rule only_faultsD(1) [OF keepsD [OF keeps_only_project(2)]])
          have "marker_holds v dest (store s')" by (simp add: k marker_holds_def R(1))
          moreover have "lookup (store s') q = lookup (store s) q" if "q \<noteq> tmp" "q \<noteq> dest" for q
            using that by (simp add: k R(1) k3 base)
          ultimately show ?thesis using R(2) k by (simp add: marker_change_def)
        qed
      qed
    qed
  qed
  then show "marker_change tmp dest v (store s) (store s')" "r = Inr u \<Longrightarrow> marker_holds v dest (store s')" by auto
qed

lemma create_real_directoryD:
  assumes "create_real_directory p s = (r, s')" "store_ok (store s)"
  shows "store_ok (store s')" "q \<noteq> p \<Longrightarrow> lookup (store s') q = lookup (store s) q"
proof -
  have *: "store s' = store s \<or> store s' = (p, Dir) # store s \<and> store_ok ((p, Dir) # store s)"
  proof (cases "parent p")
    case None
    then show ?thesis using assms(1) by (simp add: create_real_directory_def bindS_def liftR_def ok_or_def)
  next
    case (Some up)
    obtain r1 s1 where c: "ensure_real_directory_chain up s = (r1, s1)" by fastforce
    have k1: "store s1 = store s" by (rule only_faultsD(1) [OF keepsD [OF keeps_only_chain c]])
    obtain r2 s2 where d: "create_dir p s1 = (r2, s2)" by fastforce
    have K: "keeps only_faults (bindS (mapErr project_io (sync_directory p)) (\<lambda>_. mapErr project_io (sync_directory up)))"
      by (intro keeps_only keeps_only_project)
    obtain x3 s3 where post: "bindS (mapErr project_io (sync_directory p))
        (\<lambda>_. mapErr project_io (sync_directory up)) s2 = (x3, s3)" by fastforce
    obtain x4 s4 where ex: "ensure_real_directory_chain p s2 = (x4, s4)" by fastforce
    have k3: "store s3 = store s2" by (rule only_faultsD(1) [OF keepsD [OF K post]])
    have k4: "store s4 = store s2" by (rule only_faultsD(1) [OF keepsD [OF keeps_only_chain ex]])
    have all: "s' = s1 \<or> s' = s2 \<or> s' = s3 \<or> s' = s4"
      using assms(1) Some c d post ex
      by (cases r1; cases r2) (auto simp: create_real_directory_def bindS_def [of "liftR x" for x]
          bindS_def [of "ensure_real_directory_chain up"] liftR_def ok_or_def split: if_splits)
    show ?thesis
    proof (cases r2)
      case (Inl e)
      then have "store s2 = store s1" using d unfolding create_dir_def by (auto dest: syscall_InlD)
      then show ?thesis using all k1 k3 k4 by auto
    next
      case (Inr u)
      then obtain st where m: "mkdir p (store s) = Inr ((), st)" "store s2 = st"
        using d k1 unfolding create_dir_def by (auto dest!: syscall_InrD)
      have "store s2 = (p, Dir) # store s" "store_ok ((p, Dir) # store s)"
        using mkdir_InrE(4) [OF m(1) assms(2)] mkdir_ok [OF m(1) assms(2)] m(2) by simp_all
      then show ?thesis using all k1 k3 k4 by auto
    qed
  qed
  then show "store_ok (store s')" "q \<noteq> p \<Longrightarrow> lookup (store s') q = lookup (store s) q" using assms(2) by auto
qed

lemma remove_file_other: "remove_file p s = (r, s') \<Longrightarrow> q \<noteq> p \<Longrightarrow> lookup (store s') q = lookup (store s) q"
  unfolding remove_file_def
  by (cases r) (auto dest!: syscall_InrD syscall_InlD simp: unlink_def lookup_delete_key
      split: sum.splits node.splits)

lemma remove_file_ok: "remove_file p s = (r, s') \<Longrightarrow> store_ok (store s) \<Longrightarrow> store_ok (store s')"
  unfolding remove_file_def
  by (cases r) (auto dest!: syscall_InrD syscall_InlD intro: unlink_ok)

lemma atomic_marker_change:
  assumes a: "atomic_marker fresh uuid dir v s = (r, s')" and ok: "store_ok (store s)"
  shows "marker_change (dir @ [''.state-'' @ uuid (issued s)]) (dir @ [''state'']) v (store s) (store s')"
    "r = Inr u \<Longrightarrow> marker_holds v (dir @ [''state'']) (store s')"
proof -
  let ?tmp = "dir @ [''.state-'' @ uuid (issued s)]" and ?dest = "dir @ [''state'']"
  have ne: "?tmp \<noteq> ?dest" by simp
  obtain r1 s1 where c: "ensure_real_directory_chain dir s = (r1, s1)" by fastforce
  obtain r2 s2 where d: "check_destination ?dest s1 = (r2, s2)" by fastforce
  have k1: "only_faults s s1" by (rule keepsD [OF keeps_only_chain c])
  have k2: "only_faults s1 s2"
    using d keepsD [OF keeps_only_calls(1)] unfolding check_destination_def
    by (auto split: prod.splits sum.splits if_splits)
  have k: "store s2 = store s" "issued s2 = issued s"
    using only_faults_trans [OF k1 k2] by (auto simp: only_faults_def)
  have "marker_change ?tmp ?dest v (store s) (store s') \<and> (is_ok r \<longrightarrow> marker_holds v ?dest (store s'))"
  proof (cases "is_ok r1 \<and> is_ok r2")
    case False
    have "store s' = store s \<and> \<not> is_ok r"
      using a c d False k only_faultsD(1) [OF k1]
      by (cases r1; cases r2) (auto simp: atomic_marker_def bindS_def)
    then show ?thesis using ok by (simp add: marker_change_def)
  next
    case True
    obtain r3 s3 where p: "publish_marker fresh dir ?tmp ?dest v (s2\<lparr>issued := Suc (issued s2)\<rparr>) = (r3, s3)" by fastforce
    have "store_ok (store (s2\<lparr>issued := Suc (issued s2)\<rparr>))" using ok k by simp
    note P = publish_marker_change [OF p this ne, simplified, unfolded k]
    show ?thesis
    proof (cases r3)
      case (Inr u1)
      then have "r = Inr ()" "s' = s3" using a c d True p k
        by (auto simp: atomic_marker_def bindS_def is_ok_iff)
      then show ?thesis using P Inr by simp
    next
      case (Inl e)
      obtain x s4 where m: "remove_file ?tmp s3 = (x, s4)" by fastforce
      have "r = Inl (project_io e)" "s' = s4" using a c d True p k Inl m
        by (auto simp: atomic_marker_def bindS_def is_ok_iff)
      then show ?thesis using P(1) remove_file_other [OF m] remove_file_ok [OF m]
        by (auto simp: marker_change_def marker_holds_def)
    qed
  qed
  then show "marker_change ?tmp ?dest v (store s) (store s')" "r = Inr u \<Longrightarrow> marker_holds v ?dest (store s')" by auto
qed

definition marker_value :: "bool \<Rightarrow> string" where
  "marker_value clean = (if clean then clean_bytes else dirty_bytes)"

lemma write_marker_split:
  assumes "write_marker fresh uuid ps project clean s = (r, s')"
  obtains (early) "only_faults s s'" "\<not> is_ok r"
  | (late) s1 r2 s2 where "only_faults s s1"
      "create_real_directory (metadata_root ps @ [project]) s1 = (r2, s2)"
      "(if is_ok r2 then atomic_marker fresh uuid (metadata_root ps @ [project]) (marker_value clean) s2 = (r, s')
        else s' = s2 \<and> \<not> is_ok r)"
proof -
  let ?chk = "\<lambda>dir. if clean then
              bindS (ensure_safe_project_root (ps_root ps) dir) (\<lambda>_.
              bindS (mapErr project_io (open_directory dir)) (\<lambda>_.
              mapErr project_io (retry_interrupted (sync_path dir))))
            else okS ()"
  have "keeps only_faults (?chk dir)" for dir :: path
    by (cases clean) (auto intro!: keeps_only keeps_only_safe_root keeps_only_project keeps_retry keeps_only_calls)
  then have K: "keeps only_faults (bindS (liftR (validate_project_name project)) (\<lambda>_.
      bindS (checked_project_path ps project) ?chk))"
    by (intro keeps_only keeps_only_checked)
  obtain r1 s1 where w: "bindS (liftR (validate_project_name project)) (\<lambda>_.
      bindS (checked_project_path ps project) ?chk) s = (r1, s1)" by fastforce
  have k: "only_faults s s1" by (rule keepsD [OF K w])
  have assoc: "bindS (bindS m f) g = bindS m (\<lambda>x. bindS (f x) g)" for m f g
    by (auto simp: bindS_def fun_eq_iff split: prod.split sum.split)
  have "bindS (bindS (liftR (validate_project_name project)) (\<lambda>_.
      bindS (checked_project_path ps project) ?chk)) (\<lambda>_.
      bindS (create_real_directory (metadata_root ps @ [project])) (\<lambda>_.
      atomic_marker fresh uuid (metadata_root ps @ [project]) (marker_value clean))) s = (r, s')"
    using assms unfolding write_marker_def assoc marker_value_def .
  then have rest: "(case r1 of Inl e \<Rightarrow> r = Inl e \<and> s' = s1 | Inr _ \<Rightarrow>
     bindS (create_real_directory (metadata_root ps @ [project])) (\<lambda>_.
      atomic_marker fresh uuid (metadata_root ps @ [project]) (marker_value clean)) s1 = (r, s'))"
    unfolding bindS_def [of "bindS (liftR x) f" for x f] w by (cases r1) auto
  show thesis
  proof (cases r1)
    case (Inl e)
    then show thesis using early rest k by simp
  next
    case (Inr u)
    obtain r2 s2 where c: "create_real_directory (metadata_root ps @ [project]) s1 = (r2, s2)" by fastforce
    show thesis
      by (rule late [OF k c]) (use rest Inr c in \<open>auto simp: bindS_def is_ok_def split: sum.splits\<close>)
  qed
qed

lemma marker_written:
  assumes "store_ok (store s)" "write_marker fresh uuid ps project clean s = (r, s')"
  shows "(lookup (store s') (marker_path ps project) = lookup (store s) (marker_path ps project) \<and> \<not> is_ok r \<or>
     marker_holds (marker_value clean) (marker_path ps project) (store s')) \<and>
    store_ok (store s') \<and> touches {metadata_root ps @ [project]} s s'"
  using assms(2)
proof (cases rule: write_marker_split)
  case early
  then show ?thesis using assms(1) only_faultsD(1) [OF early(1)] by (simp add: touches_store)
next
  case (late s1 r2 s2)
  let ?dir = "metadata_root ps @ [project]"
  have k1: "store s1 = store s" by (rule only_faultsD(1) [OF late(1)])
  have mp: "marker_path ps project = ?dir @ [''state'']" by (simp add: marker_path_def)
  have "store_ok (store s1)" using assms(1) k1 by simp
  note C = create_real_directoryD [OF late(2) this]
  have t2: "touches {?dir} s s2" unfolding touches_def
  proof (intro allI impI)
    fix q assume "\<forall>t\<in>{?dir}. \<not> is_prefix t q"
    then have "q \<noteq> ?dir" by auto
    then show "lookup (store s2) q = lookup (store s) q" using C(2) k1 by simp
  qed
  show ?thesis
  proof (cases "is_ok r2")
    case False
    then show ?thesis using late(3) C(1) C(2) [of "marker_path ps project"] k1 t2 by (simp add: mp)
  next
    case True
    then have a: "atomic_marker fresh uuid ?dir (marker_value clean) s2 = (r, s')" using late(3) by simp
    note A = atomic_marker_change [OF a C(1)]
    have l: "lookup (store s2) (?dir @ [''state'']) = lookup (store s) (?dir @ [''state''])" using C(2) k1 by simp
    have "touches {?dir} s2 s'" unfolding touches_def
    proof (intro allI impI)
      fix q assume "\<forall>t\<in>{?dir}. \<not> is_prefix t q"
      then have "q \<noteq> ?dir @ [x]" for x using is_prefix_simps(3) [of ?dir "[x]"] by auto
      then show "lookup (store s') q = lookup (store s2) q" using A(1) unfolding marker_change_def by blast
    qed
    then have "touches {?dir} s s'" using t2 touches_trans by blast
    moreover have "marker_holds (marker_value clean) (?dir @ [''state'']) (store s')" if "is_ok r"
      using that A(2) by (auto simp: is_ok_iff)
    ultimately show ?thesis using A(1) l by (auto simp: marker_change_def mp)
  qed
qed

end
