(* ===== verification/Project_Properties.thy ===== *)
theory Project_Properties
  imports Project_Facts
begin

text \<open>
  The properties of the project markers: trust is restored only by an exact marker, and what was marked
  is what is read.
\<close>

section \<open>Checks in calm weather\<close>

lemma query_calm: "calm s \<Longrightarrow> fst (query f s) = f (store s)"
  unfolding query_def by (simp add: syscall_calm split: sum.split)

lemma only_faults_calm: "only_faults s s' \<Longrightarrow> calm s \<Longrightarrow> calm s'"
  by (auto simp: only_faults_def calm_def)

text \<open>A step that only looks succeeds, and what follows it sees the same store.\<close>

lemma bindS_calm:
  assumes "keeps only_faults m" "fst (m s) = Inr x" "calm s"
    and "\<And>s'. store s' = store s \<Longrightarrow> calm s' \<Longrightarrow> fst (f x s') = Inr y"
  shows "fst (bindS m f s) = Inr y"
proof -
  obtain s' where m: "m s = (Inr x, s')" using assms(2) by (metis prod.collapse)
  have k: "only_faults s s'" by (rule keepsD [OF assms(1) m])
  show ?thesis using assms(4) [OF only_faultsD(1) [OF k] only_faults_calm [OF k assms(3)]] m by (simp add: bindS_def)
qed

lemma mapErr_calm: "fst (m s) = Inr x \<Longrightarrow> fst (mapErr g m s) = Inr x"
  by (cases "m s") (simp add: mapErr_def)

lemma liftR_calm: "fst (liftR r s) = r"
  by (simp add: liftR_def)

lemma symlink_metadata_calm: "calm s \<Longrightarrow> store_ok (store s) \<Longrightarrow> lookup (store s) p = Some n \<Longrightarrow> fst (symlink_metadata p s) = Inr n"
  by (simp add: symlink_metadata_def query_calm)

lemma check_real_dir_calm:
  assumes "calm s" "store_ok (store s)" "lookup (store s) p = Some Dir"
  shows "fst (check_real_dir p s) = Inr ()"
  unfolding check_real_dir_def
  by (rule bindS_calm [where x = Dir], rule keeps_mapErr, rule keeps_only_calls, rule mapErr_calm,
      rule symlink_metadata_calm [OF assms], rule assms(1)) (simp add: liftR_calm ensure_def)

lemma real_chain_from_calm:
  assumes "calm s" "store_ok (store s)" "clean_path p"
    and "\<And>k. k < length p \<Longrightarrow> lookup (store s) (cur @ take (Suc k) p) = Some Dir"
  shows "fst (real_chain_from cur p s) = Inr ()"
  using assms
proof (induction cur p arbitrary: s rule: real_chain_from.induct)
  case (2 cur c cs)
  have c: "c \<noteq> ''.''" "c \<noteq> ''..''" "clean_path cs" using "2.prems"(3) by (auto simp: clean_path_def)
  have "fst (bindS (check_real_dir (cur @ [c])) (\<lambda>_. real_chain_from (cur @ [c]) cs) s) = Inr ()"
  proof (rule bindS_calm [OF keeps_only_real_dir check_real_dir_calm "2.prems"(1)])
    show "calm s" "store_ok (store s)" by fact+
    show "lookup (store s) (cur @ [c]) = Some Dir" using "2.prems"(4) [of 0] by simp
    fix s' :: "'a fs_scheme" assume s': "store s' = store s" "calm s'"
    show "fst (real_chain_from (cur @ [c]) cs s') = Inr ()"
    proof (rule "2.IH"(2) [OF c(1,2) s'(2)])
      show "store_ok (store s')" "clean_path cs" using s' "2.prems"(2) c(3) by simp_all
      show "lookup (store s') ((cur @ [c]) @ take (Suc k) cs) = Some Dir" if "k < length cs" for k
        using "2.prems"(4) [of "Suc k"] that s' by simp
    qed
  qed
  then show ?case using c by simp
qed (simp add: okS_def)

lemma chain_calm:
  assumes "calm s" "store_ok (store s)" "clean_path p" "real_dirs (store s) p"
  shows "fst (ensure_real_directory_chain p s) = Inr ()"
  unfolding ensure_real_directory_chain_def
proof (rule bindS_calm [OF keeps_only_real_dir check_real_dir_calm assms(1)])
  show "calm s" "store_ok (store s)" "lookup (store s) [] = Some Dir" using assms by (simp_all add: store_okD)
  fix s' :: "'a fs_scheme" assume s': "store s' = store s" "calm s'"
  show "fst (real_chain_from [] p s') = Inr ()"
    by (rule real_chain_from_calm) (use s' assms in \<open>auto simp: real_dirs_def\<close>)
qed

lemma canonicalize_calm:
  assumes "calm s" "real_dirs (store s) p"
  shows "fst (canonicalize p s) = Inr p"
  using assms realpath_real [of p "store s" "[]" 40] by (simp add: canonicalize_def query_calm real_dirs_def)

lemma safe_root_calm:
  assumes "calm s" "store_ok (store s)" "clean_path w" "real_dirs (store s) w" "lookup (store s) (w @ [x]) = Some Dir"
  shows "fst (ensure_safe_project_root w (w @ [x]) s) = Inr ()"
proof -
  have r: "real_dirs (store s) (w @ [x])" using assms(4,5) by (auto simp: real_dirs_def take_Suc_conv_app_nth le_Suc_eq)
  show ?thesis
    unfolding ensure_safe_project_root_def
    apply (rule bindS_calm [OF keeps_only_chain chain_calm [OF assms(1-4)] assms(1)])
    apply (rule bindS_calm [where x = w], rule keeps_mapErr, rule keeps_only_calls, rule mapErr_calm,
        rule canonicalize_calm, assumption, simp add: assms, assumption)
    apply (rule bindS_calm [where x = Dir], rule keeps_mapErr, rule keeps_only_calls, rule mapErr_calm,
        rule symlink_metadata_calm, assumption, simp add: assms, simp add: assms, assumption)
    apply (rule bindS_calm [where x = "()"], rule keeps_pure(3), rule only_faults_rel,
        simp add: liftR_calm ensure_def, assumption)
    apply (rule bindS_calm [where x = "w @ [x]"], rule keeps_mapErr, rule keeps_only_calls, rule mapErr_calm,
        rule canonicalize_calm, assumption, simp add: r, assumption)
    apply (simp add: liftR_calm ensure_def parent_def)
    done
qed

section \<open>Replacing a marker\<close>

text \<open>
  C30. A marker is replaced as a whole. Whatever fails while a project is marked clean or dirty, the marker
  is the one from before or the complete new one, it is the new one if the operation reports success, and
  nothing outside the project's metadata directory has changed.
\<close>

theorem marker_is_old_or_new:
  assumes "store_ok (store s)" "write_marker fresh uuid ps project clean s = (r, s')"
  shows "(lookup (store s') (marker_path ps project) = lookup (store s) (marker_path ps project) \<and> \<not> is_ok r \<or>
     marker_holds (marker_value clean) (marker_path ps project) (store s')) \<and>
    store_ok (store s') \<and> touches {metadata_root ps @ [project]} s s'"
  by (rule marker_written [OF assms])

section \<open>Trust\<close>

text \<open>
  C31. Only an exact marker restores trust. If a project is reported clean, the workspace root is a chain of
  real directories, the project a real directory directly below it, and the marker holds exactly the clean
  value; reading it changed nothing.
\<close>

theorem clean_needs_marker:
  assumes "is_clean ps project s = (Inr True, s')" "''.'' \<notin> set (ps_root ps)"
  shows "real_dirs (store s) (ps_root ps) \<and> lookup (store s) (ps_root ps @ [project]) = Some Dir \<and>
    marker_holds clean_bytes (marker_path ps project) (store s) \<and> store s' = store s"
proof -
  obtain s1 where "read_clean ps project s = (Inr True, s1)"
    using assms(1) by (auto simp: is_clean_def bindS_def liftR_def split: sum.splits prod.splits)
  from read_cleanD [OF this assms(2)] show ?thesis using only_faultsD(1) [OF is_clean_only [OF assms(1)]] by simp
qed

section \<open>What was marked is read\<close>

lemma marker_distinct: "clean_bytes \<noteq> dirty_bytes"
  by (simp add: clean_bytes_def dirty_bytes_def)

lemma is_clean_result:
  "validate_project_name project = Inr () \<Longrightarrow>
   fst (is_clean ps project s) = Inr (fst (read_clean ps project s) = Inr True)"
  by (cases "read_clean ps project s"; cases "fst (read_clean ps project s)") (auto simp: is_clean_def bindS_def liftR_def)

lemma dirs_above:
  assumes "store_ok st" "lookup st (p @ [x]) = Some n"
  shows "real_dirs st p"
  unfolding real_dirs_def
proof (intro allI impI)
  fix k assume "k \<le> length p"
  have "take k p @ drop k p @ [x] = p @ [x]" by (metis append.assoc append_take_drop_id)
  then have "lookup st (take k p @ drop k p @ [x]) = Some n" using assms(2) by metis
  from lookup_above [OF assms(1) this] show "lookup st (take k p) = Some Dir" by simp
qed

lemma read_clean_calm:
  fixes s :: "'z fs_scheme"
  assumes calm: "calm s" and ok: "store_ok (store s)" and v: "validate_project_name project = Inr ()"
    and root: "clean_path (ps_root ps)" "metadata_root ps = ps_root ps @ [internal_dir, ''projects'']"
    and dir: "lookup (store s) (ps_root ps @ [project]) = Some Dir"
    and m: "marker_holds clean_bytes (marker_path ps project) (store s)"
  shows "fst (read_clean ps project s) = Inr True"
proof -
  let ?m = "metadata_root ps @ [project]"
  obtain d where d: "lookup (store s) (marker_path ps project) = Some (File d)" "fbytes d = clean_bytes"
    using m by (auto simp: marker_holds_def split: option.splits node.splits)
  have rm: "real_dirs (store s) ?m" by (rule dirs_above [OF ok, of _ "''state''"]) (use d in \<open>simp add: marker_path_def\<close>)
  have rr: "real_dirs (store s) (ps_root ps)" using dirs_above [OF ok dir] .
  have "project \<noteq> ''.'' \<and> project \<noteq> ''..''" using project_name_ok(1) [OF v] portable_not_dots by blast
  then have cm: "clean_path ?m" using root by (auto simp: clean_path_def internal_dir_def)
  have r: "resolve_project_dir (ps_root ps) project = Inr (ps_root ps @ [project])"
    by (simp add: resolve_project_dir_def v)
  have ck: "fst (checked_project_path ps project t) = Inr (ps_root ps @ [project])"
    if t: "calm t" "store t = store s" for t :: "'z fs_scheme"
    unfolding checked_project_path_def
    apply (rule bindS_calm [OF keeps_only_chain chain_calm [OF t(1) _ root(1)] t(1)], simp add: t ok, simp add: t rr)
    apply (rule bindS_calm [where x = "ps_root ps @ [project]"], rule keeps_pure(3), rule only_faults_rel,
        simp add: liftR_calm r, assumption)
    subgoal for u v
    proof -
      assume uv: "store u = store t" "calm u" "store v = store u" "calm v"
      obtain w where w: "symlink_metadata (ps_root ps @ [project]) v = (Inr Dir, w)"
        using symlink_metadata_calm [OF uv(4)] ok uv t dir by (metis prod.collapse)
      have k: "only_faults v w" by (rule keepsD [OF keeps_only_calls(1) w])
      have kw: "calm w" "store w = store s" using only_faults_calm [OF k] only_faultsD(1) [OF k] uv t by simp_all
      have "fst (bindS (ensure_safe_project_root (ps_root ps) (ps_root ps @ [project])) (\<lambda>_. okS (ps_root ps @ [project])) w)
          = Inr (ps_root ps @ [project])"
        by (rule bindS_calm [OF keeps_only_safe_root safe_root_calm [OF kw(1) _ root(1)] kw(1)])
          (simp_all add: kw ok rr dir okS_def)
      then show ?thesis using w by simp
    qed
    done
  show ?thesis
    unfolding read_clean_def
    apply (rule bindS_calm [OF keeps_only_checked ck [OF calm refl] calm])
    apply (rule bindS_calm [OF keeps_only_safe_root safe_root_calm [OF _ _ root(1)]], assumption, simp add: ok,
        simp add: rr, simp add: dir, assumption)
    apply (rule bindS_calm [OF keeps_only_chain chain_calm [OF _ _ cm]], assumption, simp add: ok, simp add: rm, assumption)
    apply (rule bindS_calm [where x = "()"], rule keeps_mapErr, rule keeps_only_project(3), rule mapErr_calm,
        simp add: open_marker_def query_calm ok d, assumption)
    apply (rule bindS_calm [where x = "File d"], rule keeps_mapErr, rule keeps_only_calls, rule mapErr_calm,
        rule symlink_metadata_calm, assumption, simp add: ok, simp add: d, assumption)
    apply simp
    apply (rule bindS_calm [where x = clean_bytes], rule keeps_mapErr, rule keeps_only_project(4), rule mapErr_calm,
        simp add: read_at_most_def query_calm ok d, assumption)
    apply (simp add: okS_def)
    done
qed

text \<open>
  C32. A marker is read as it was written. After a project was marked clean or dirty successfully, it is
  reported dirty if it was marked dirty, and clean if it was marked clean and no outside failure is left.
\<close>

theorem marker_roundtrip:
  assumes "store_ok (store s)" "''.'' \<notin> set (ps_root ps)"
    and "metadata_root ps = ps_root ps @ [internal_dir, ''projects'']"
    and "write_marker fresh uuid ps project clean s = (Inr (), s1)" "clean = False \<or> calm s1"
  shows "fst (is_clean ps project s1) = Inr clean"
proof -
  have v: "validate_project_name project = Inr ()"
    using assms(4) by (auto simp: write_marker_def bindS_def liftR_def split: sum.splits)
  have M: "marker_holds (marker_value clean) (marker_path ps project) (store s1)" "store_ok (store s1)"
    "touches {metadata_root ps @ [project]} s s1"
    using marker_written [OF assms(1,4)] by auto
  show ?thesis
  proof (cases clean)
    case False
    have "\<not> marker_holds clean_bytes (marker_path ps project) (store s1)"
      using M(1) False marker_distinct
      by (auto simp: marker_value_def marker_holds_def split: option.splits node.splits)
    then have "fst (read_clean ps project s1) \<noteq> Inr True" using read_cleanD(3) [OF _ assms(2)] by (metis prod.collapse)
    then show ?thesis using is_clean_result [OF v, of ps s1] False by simp
  next
    case True
    obtain dir t t1 where c: "checked_project_path ps project s = (Inr dir, t)"
      and e: "ensure_safe_project_root (ps_root ps) dir t = (Inr (), t1)"
      using assms(4) True unfolding write_marker_def by (elim bindS_InrE) (auto simp: liftR_def elim!: bindS_InrE)
    have dir: "dir = ps_root ps @ [project]"
      using c by (auto simp: checked_project_path_def resolve_project_dir_def okS_def liftR_def res_simps
          elim!: bindS_InrE split: prod.splits sum.splits if_splits)
    note S = safe_project_rootD [OF e assms(2)]
    have ts: "store t = store s" by (rule only_faultsD(1) [OF keepsD [OF keeps_only_checked c]])
    have "\<not> is_prefix (metadata_root ps @ [project]) (ps_root ps @ [project])"
      by (auto simp: assms(3) is_prefix_iff)
    then have "lookup (store s1) (ps_root ps @ [project]) = Some Dir"
      using M(3) S(3) ts dir by (simp add: touches_def)
    then have "fst (read_clean ps project s1) = Inr True"
      using True assms(5) M(1) by (intro read_clean_calm [OF _ M(2) v S(2) assms(3)]) (simp_all add: marker_value_def)
    then show ?thesis using is_clean_result [OF v, of ps s1] True by simp
  qed
qed

section \<open>Witnesses\<close>

text \<open>The demonstration workspace after start-up, and after its project is marked clean.\<close>

definition demo_projects :: project_store where
  "demo_projects = \<lparr>ps_root = [''w''], metadata_root = [''w'', internal_dir, ''projects'']\<rparr>"

definition demo_started :: txn where
  "demo_started = snd (initialize (demo_file []) [''w''] (demo_txn []))"

definition demo_marked :: txn where
  "demo_marked = snd (mark_clean (demo_file []) demo_uuid demo_projects ''p'' demo_started)"

lemma demo_marked:
  "write_marker (demo_file []) demo_uuid demo_projects ''p'' True demo_started = (Inr (), demo_marked)"
proof -
  have "fst (write_marker (demo_file []) demo_uuid demo_projects ''p'' True demo_started) = Inr ()" by code_simp
  then show ?thesis unfolding demo_marked_def mark_clean_def by (metis prod.collapse)
qed

lemma demo_root: "''.'' \<notin> set (ps_root demo_projects)"
  by (simp add: demo_projects_def)

lemma demo_started_ok: "store_ok (store demo_started)"
  by code_simp

theorem marker_is_old_or_new_witness:
  "marker_holds clean_bytes (marker_path demo_projects ''p'') (store demo_marked) \<and> store_ok (store demo_marked)"
  using marker_is_old_or_new [OF demo_started_ok demo_marked] by (simp add: marker_value_def)

theorem marker_roundtrip_witness: "fst (is_clean demo_projects ''p'' demo_marked) = Inr True"
proof (rule marker_roundtrip [OF demo_started_ok demo_root _ demo_marked])
  show "metadata_root demo_projects = ps_root demo_projects @ [internal_dir, ''projects'']"
    by (simp add: demo_projects_def)
  have "faults demo_marked = []" by code_simp
  then show "True = False \<or> calm demo_marked" by (simp add: calm_def)
qed

theorem clean_needs_marker_witness:
  "lookup (store demo_marked) [''w'', ''p''] = Some Dir \<and>
   marker_holds clean_bytes (marker_path demo_projects ''p'') (store demo_marked)"
proof -
  have "fst (is_clean demo_projects ''p'' demo_marked) = Inr True" by code_simp
  then obtain s' where "is_clean demo_projects ''p'' demo_marked = (Inr True, s')" by (metis prod.collapse)
  from clean_needs_marker [OF this demo_root] show ?thesis by (simp add: demo_projects_def)
qed

end
