(* ===== verification/Session_Output.thy ===== *)
theory Session_Output
  imports Utf8
begin

text \<open>
  The output of a Vivado session: \<open>src/src/session/output.rs\<close>. \<open>decode_push\<close> and \<open>decode_finish\<close> are
  \<open>Utf8StreamDecoder\<close>, which decodes the bytes of successive reads without breaking a character that
  two reads share. \<open>push\<close> and \<open>since\<close> are \<open>OutputBuffer\<close>, a bounded queue of numbered chunks that
  reports to a reader whether something it has not seen was dropped.

  The theorems: the decoder's output does not depend on how the bytes were cut into reads; the buffer
  keeps its bounds; and a read returns exactly what is retained from its cursor on and says exactly
  whether that is all.

  A sequence number is a natural number: the 64-bit counter does not wrap in the life of a session.
  Time stamps are given from outside.
\<close>

section \<open>Decoding\<close>

definition replacement :: string where
  "replacement = [CHR 0xEF, CHR 0xBF, CHR 0xBD]"

text \<open>The loop of \<open>push\<close>: what is decoded and what stays pending.\<close>

lemma valid_prefix_bad:
  "valid_prefix bs = (n, Some (Some k)) \<Longrightarrow> bs \<noteq> [] \<and> n + k \<le> length bs \<and> 0 < k"
proof (induction bs arbitrary: n rule: valid_prefix.induct)
  case (1 bs)
  show ?case
  proof (cases "utf8_head bs")
    case (Good m)
    obtain n' where n': "valid_prefix (drop m bs) = (n', Some (Some k))" "n = m + n'" "bs \<noteq> []"
      using 1(2) Good by (subst (asm) valid_prefix.simps) (auto split: if_splits prod.splits)
    then show ?thesis using 1(1) [OF n'(3) Good n'(1)] utf8_head_pos(1) [OF Good] by auto
  next
    case (Bad m)
    then show ?thesis using 1(2) utf8_head_pos(2) [OF Bad]
      by (subst (asm) valid_prefix.simps) (auto split: if_splits)
  next
    case Cut
    then show ?thesis using 1(2) by (subst (asm) valid_prefix.simps) (auto split: if_splits)
  qed
qed

function decode_loop :: "string \<Rightarrow> string \<times> string" where
  "decode_loop pending =
     (case valid_prefix pending of
        (valid, None) \<Rightarrow> (pending, [])
      | (valid, Some None) \<Rightarrow> (take valid pending, drop valid pending)
      | (valid, Some (Some invalid_len)) \<Rightarrow>
          let (out, rest) = decode_loop (drop (valid + invalid_len) pending) in
          (take valid pending @ replacement @ out, rest))"
  by pat_completeness auto
termination
  by (relation "measure length") (auto dest!: valid_prefix_bad [OF sym])

declare decode_loop.simps [simp del]

definition decode_push :: "string \<Rightarrow> string \<Rightarrow> string \<times> string" where
  "decode_push pending bytes = decode_loop (pending @ bytes)"

text \<open>\<open>String::from_utf8_lossy\<close>: every invalid sequence and a cut last one become U+FFFD.\<close>

function from_utf8_lossy :: "string \<Rightarrow> string" where
  "from_utf8_lossy bs =
     (if bs = [] then []
      else case utf8_head bs of
        Good n \<Rightarrow> take n bs @ from_utf8_lossy (drop n bs)
      | Bad n \<Rightarrow> replacement @ from_utf8_lossy (drop n bs)
      | Cut \<Rightarrow> replacement)"
  by pat_completeness auto
termination
  by (relation "measure length") (auto dest: utf8_head_pos)

declare from_utf8_lossy.simps [simp del]

definition decode_finish :: "string \<Rightarrow> string" where
  "decode_finish pending = from_utf8_lossy pending"

section \<open>The buffer\<close>

datatype session_status = Running | Stopping | Exited | Terminated | Failed

fun is_terminal :: "session_status \<Rightarrow> bool" where
  "is_terminal Exited = True"
| "is_terminal Terminated = True"
| "is_terminal Failed = True"
| "is_terminal _ = False"

record output_chunk =
  seq :: nat
  timestamp :: int
  chunk_text :: string

record output_buffer =
  chunks :: "output_chunk list"
  bytes :: nat
  max_bytes :: nat
  next_seq :: nat
  truncated_seq :: "nat option"

record output_response =
  resp_cursor :: nat
  resp_chunks :: "output_chunk list"
  resp_session :: session_status
  overrun :: bool
  output_truncated :: bool

definition buffer_new :: "nat \<Rightarrow> output_buffer" where
  "buffer_new limit = \<lparr>chunks = [], bytes = 0, max_bytes = limit, next_seq = 0, truncated_seq = None\<rparr>"

definition is_char_boundary :: "string \<Rightarrow> nat \<Rightarrow> bool" where
  "is_char_boundary s i \<longleftrightarrow> i = 0 \<or> i = length s \<or> (i < length s \<and> \<not> is_cont (s ! i))"

function next_boundary :: "string \<Rightarrow> nat \<Rightarrow> nat" where
  "next_boundary s i = (if is_char_boundary s i \<or> i > length s then i else next_boundary s (Suc i))"
  by pat_completeness auto
termination
  by (relation "measure (\<lambda>(s, i). Suc (length s) - i)") auto

declare next_boundary.simps [simp del]

text \<open>A text longer than the limit keeps a tail that starts at a character.\<close>

definition clip :: "nat \<Rightarrow> string \<Rightarrow> string" where
  "clip limit s = (if length s > limit then drop (next_boundary s (length s - limit)) s else s)"

definition max_chunks :: nat where
  "max_chunks = 4096"

fun evict :: "nat \<Rightarrow> nat \<Rightarrow> output_chunk list \<Rightarrow> nat \<Rightarrow> nat \<times> output_chunk list \<times> nat" where
  "evict limit held [] evicted = ((if held > limit then 0 else held), [], evicted)"
| "evict limit held (front # rest) evicted =
     (if held > limit \<or> length (front # rest) > max_chunks
      then evict limit (held - length (chunk_text front)) rest (Suc evicted)
      else (held, front # rest, evicted))"

definition push :: "int \<Rightarrow> string \<Rightarrow> output_buffer \<Rightarrow> (nat \<times> nat \<times> nat) \<times> output_buffer" where
  "push now s b =
     (let chunk_truncated = length s > max_bytes b;
          t = clip (max_bytes b) s;
          n = next_seq b;
          (held, kept, evicted) =
            evict (max_bytes b) (bytes b + length t)
              (chunks b @ [\<lparr>seq = n, timestamp = now, chunk_text = t\<rparr>]) (if chunk_truncated then 1 else 0) in
      ((n, held, evicted),
       b\<lparr>chunks := kept, bytes := held, next_seq := Suc n,
         truncated_seq := (if chunk_truncated then Some n else truncated_seq b)\<rparr>))"

definition since :: "nat \<Rightarrow> session_status \<Rightarrow> output_buffer \<Rightarrow> output_response" where
  "since cursor st b =
     (let first_seq = (case chunks b of [] \<Rightarrow> next_seq b | c # _ \<Rightarrow> seq c) in
      \<lparr>resp_cursor = next_seq b,
       resp_chunks = filter (\<lambda>c. cursor \<le> seq c) (chunks b),
       resp_session = st,
       overrun = (cursor < first_seq \<or> (case truncated_seq b of None \<Rightarrow> False | Some t \<Rightarrow> cursor \<le> t)),
       output_truncated = False\<rparr>)"

section \<open>The decoder does not depend on the reads\<close>

text \<open>One step of decoding at a time: the form the proofs use.\<close>

function decode_steps :: "string \<Rightarrow> string \<times> string" where
  "decode_steps bs =
     (if bs = [] then ([], [])
      else case utf8_head bs of
        Good n \<Rightarrow> (let (out, rest) = decode_steps (drop n bs) in (take n bs @ out, rest))
      | Bad n \<Rightarrow> (let (out, rest) = decode_steps (drop n bs) in (replacement @ out, rest))
      | Cut \<Rightarrow> ([], bs))"
  by pat_completeness auto
termination
  by (relation "measure length") (auto dest: utf8_head_pos)

declare decode_steps.simps [simp del]

lemma valid_prefix_take:
  "valid_prefix bs = (n, e) \<Longrightarrow> n \<le> length bs \<and> (e = None \<longrightarrow> n = length bs)"
proof (induction bs arbitrary: n rule: valid_prefix.induct)
  case (1 bs)
  show ?case
  proof (cases "bs \<noteq> [] \<and> (\<exists>m. utf8_head bs = Good m)")
    case True
    then obtain m where m: "utf8_head bs = Good m" "bs \<noteq> []" by blast
    then obtain n' where n': "valid_prefix (drop m bs) = (n', e)" "n = m + n'"
      using 1(2) by (subst (asm) valid_prefix.simps) (auto split: prod.splits)
    then show ?thesis using 1(1) [OF m(2,1) n'(1)] utf8_head_pos(1) [OF m(1)] by auto
  next
    case False
    then show ?thesis using 1(2)
      by (subst (asm) valid_prefix.simps) (auto split: if_splits utf8_step.splits)
  qed
qed

lemma decode_loop_steps: "decode_loop bs = decode_steps bs"
proof (induction bs rule: decode_steps.induct)
  case (1 bs)
  show ?case
  proof (cases "bs = []")
    case True
    have "valid_prefix [] = (0, None)" by (subst valid_prefix.simps) simp
    with True show ?thesis by (subst decode_loop.simps, subst decode_steps.simps) simp
  next
    case False
    show ?thesis
    proof (cases "utf8_head bs")
      case (Good m)
      have IH: "decode_loop (drop m bs) = decode_steps (drop m bs)" by (rule 1(1) [OF False Good])
      obtain k e where v: "valid_prefix (drop m bs) = (k, e)" by fastforce
      have vb: "valid_prefix bs = (m + k, e)" using False Good v by (subst valid_prefix.simps) simp
      have m: "m \<le> length bs" using utf8_head_pos(1) [OF Good] by simp
      have "decode_loop bs = (case decode_loop (drop m bs) of (out, rest) \<Rightarrow> (take m bs @ out, rest))"
      proof (cases e)
        case None
        then have "m + k = length bs" using valid_prefix_take [OF v] m by simp
        then show ?thesis using None
          by (simp add: decode_loop.simps [of bs] decode_loop.simps [of "drop m bs"] v vb)
      next
        case (Some c)
        have dd: "drop (m + k + a) bs = drop (k + a) (drop m bs)" "drop (m + k) bs = drop k (drop m bs)" for a
          by (simp_all add: ac_simps)
        show ?thesis using Some
          by (cases c) (simp_all add: decode_loop.simps [of bs] decode_loop.simps [of "drop m bs"] v vb
            take_add dd del: drop_drop split: prod.splits)
      qed
      then show ?thesis using False Good IH by (subst decode_steps.simps) simp
    next
      case (Bad m)
      have IH: "decode_loop (drop m bs) = decode_steps (drop m bs)" by (rule 1(2) [OF False Bad])
      have "valid_prefix bs = (0, Some (Some m))" using False Bad by (subst valid_prefix.simps) simp
      then show ?thesis using False Bad IH
        by (subst decode_loop.simps, subst decode_steps.simps) (simp split: prod.splits)
    next
      case Cut
      have "valid_prefix bs = (0, Some None)" using False Cut by (subst valid_prefix.simps) simp
      then show ?thesis using False Cut by (subst decode_loop.simps, subst decode_steps.simps) simp
    qed
  qed
qed

lemma conts_append: "conts rs n bs \<noteq> Cut \<Longrightarrow> conts rs n (bs @ cs) = conts rs n bs"
  by (induction rs n bs rule: conts.induct) auto

lemma utf8_head_append: "utf8_head bs \<noteq> Cut \<Longrightarrow> utf8_head (bs @ cs) = utf8_head bs"
  by (cases bs) (auto simp: conts_append split: option.splits)

lemma decode_steps_append:
  "decode_steps (a @ b) =
     (case decode_steps a of (o1, p) \<Rightarrow> case decode_steps (p @ b) of (o2, q) \<Rightarrow> (o1 @ o2, q))"
proof (induction a rule: decode_steps.induct)
  case (1 a)
  show ?case
  proof (cases "a = [] \<or> utf8_head a = Cut")
    case True
    then have "decode_steps a = ([], a)" by (subst decode_steps.simps) auto
    then show ?thesis by simp
  next
    case False
    then have h: "utf8_head (a @ b) = utf8_head a" "a \<noteq> []" "utf8_head a \<noteq> Cut"
      using utf8_head_append by auto
    show ?thesis
    proof (cases "utf8_head a")
      case (Good n)
      have "n \<le> length a" using utf8_head_pos(1) [OF Good] by simp
      then show ?thesis using 1(1) [OF h(2) Good] h(1,2) Good
        by (subst decode_steps.simps, subst (2) decode_steps.simps) (auto split: prod.splits)
    next
      case (Bad n)
      have "n \<le> length a" using utf8_head_pos(2) [OF Bad] by simp
      then show ?thesis using 1(2) [OF h(2) Bad] h(1,2) Bad
        by (subst decode_steps.simps, subst (2) decode_steps.simps) (auto split: prod.splits)
    qed (use h in simp)
  qed
qed

text \<open>
  The contract of an incremental decoder: what it leaves pending after some input is enough to
  continue. Then feeding the input piece by piece is the same as feeding it at once.
\<close>

fun feed :: "('p \<Rightarrow> 'a list \<Rightarrow> 'b list \<times> 'p) \<Rightarrow> 'p \<Rightarrow> 'a list list \<Rightarrow> 'b list \<times> 'p" where
  "feed f p [] = ([], p)"
| "feed f p (c # cs) = (let (o1, p1) = f p c; (o2, p2) = feed f p1 cs in (o1 @ o2, p2))"

locale incremental =
  fixes f :: "'p \<Rightarrow> 'a list \<Rightarrow> 'b list \<times> 'p" and start :: 'p
  assumes feed_nothing: "f start [] = ([], start)"
    and feed_append: "f p (a @ b) = (case f p a of (o1, q) \<Rightarrow> case f q b of (o2, r) \<Rightarrow> (o1 @ o2, r))"
begin

lemma pending_stable: "f p a = (o1, q) \<Longrightarrow> f q [] = ([], q)"
  using feed_append [of p a "[]"] by (auto split: prod.splits)

lemma feed_all: "f p [] = ([], p) \<Longrightarrow> feed f p cs = f p (concat cs)"
proof (induction cs arbitrary: p)
  case (Cons c cs)
  obtain o1 q where q: "f p c = (o1, q)" by fastforce
  from Cons.IH [OF pending_stable [OF q]] q show ?case by (simp add: feed_append split: prod.splits)
qed simp

lemma feed_start: "feed f start cs = f start (concat cs)"
  by (rule feed_all [OF feed_nothing])

lemma chunking_irrelevant: "concat cs = concat ds \<Longrightarrow> feed f start cs = feed f start ds"
  by (simp add: feed_start)

end

interpretation utf8_stream: incremental decode_push "[]"
proof
  show "decode_push [] [] = ([], [])"
    unfolding decode_push_def decode_loop_steps by (subst decode_steps.simps) simp
  show "decode_push p (a @ b) = (case decode_push p a of (o1, q) \<Rightarrow> case decode_push q b of (o2, r) \<Rightarrow> (o1 @ o2, r))"
    for p a b
    using decode_steps_append [of "p @ a" b] by (simp add: decode_push_def decode_loop_steps)
qed

lemma decode_steps_lossy: "decode_steps bs = (out, rest) \<Longrightarrow> out @ from_utf8_lossy rest = from_utf8_lossy bs"
proof (induction bs arbitrary: out rule: decode_steps.induct)
  case (1 bs)
  show ?case
  proof (cases "bs = []")
    case False
    show ?thesis
    proof (cases "utf8_head bs")
      case (Good n)
      with 1(1) [OF False Good] 1(3) False show ?thesis
        by (subst (asm) decode_steps.simps, subst (2) from_utf8_lossy.simps) (auto split: prod.splits)
    next
      case (Bad n)
      with 1(2) [OF False Bad] 1(3) False show ?thesis
        by (subst (asm) decode_steps.simps, subst (2) from_utf8_lossy.simps) (auto split: prod.splits)
    qed (use 1(3) False in \<open>simp add: decode_steps.simps\<close>)
  qed (use 1(3) in \<open>simp add: decode_steps.simps\<close>)
qed

text \<open>
  C9. Decoding is independent of the reads. However the bytes of the terminal are cut into reads, the
  texts the decoder returns for them followed by what \<open>finish\<close> returns are the lossy decoding of all the
  bytes at once: no character is lost or replaced because two reads share it.
\<close>

theorem decoder_ignores_chunking:
  "(case feed decode_push [] reads of (out, pending) \<Rightarrow> out @ decode_finish pending) = from_utf8_lossy (concat reads)"
proof -
  obtain out pending where f: "feed decode_push [] reads = (out, pending)" by fastforce
  then have "decode_steps (concat reads) = (out, pending)"
    unfolding utf8_stream.feed_start by (simp add: decode_push_def decode_loop_steps)
  then show ?thesis using decode_steps_lossy f by (simp add: decode_finish_def)
qed

section \<open>The buffer keeps its bounds\<close>

definition text_sizes :: "output_chunk list \<Rightarrow> nat" where
  "text_sizes cs = sum_list (map (length \<circ> chunk_text) cs)"

lemma text_sizes_simps [simp]:
  "text_sizes [] = 0" "text_sizes (c # cs) = length (chunk_text c) + text_sizes cs"
  "text_sizes (cs @ ds) = text_sizes cs + text_sizes ds"
  by (simp_all add: text_sizes_def)

lemma evict_spec:
  "evict limit held cs n = (held', cs', n') \<Longrightarrow> held = text_sizes cs \<Longrightarrow>
   held' = text_sizes cs' \<and> held' \<le> limit \<and> length cs' \<le> max_chunks \<and>
   (\<exists>k\<le>length cs. cs' = drop k cs \<and> n' = n + k) \<and>
   (cs \<noteq> [] \<longrightarrow> length (chunk_text (last cs)) \<le> limit \<longrightarrow> cs' \<noteq> [])"
proof (induction limit held cs n rule: evict.induct)
  case (2 limit held front rest evicted)
  show ?case
  proof (cases "held > limit \<or> length (front # rest) > max_chunks")
    case True
    then have "evict limit (text_sizes rest) rest (Suc evicted) = (held', cs', n')"
      using 2(2,3) by simp
    from 2(1) [OF True] this 2(3) obtain k where IH: "held' = text_sizes cs'" "held' \<le> limit"
      "length cs' \<le> max_chunks" "k \<le> length rest" "cs' = drop k rest" "n' = Suc evicted + k"
      "rest \<noteq> [] \<longrightarrow> length (chunk_text (last rest)) \<le> limit \<longrightarrow> cs' \<noteq> []" by auto
    have "rest \<noteq> []" if "length (chunk_text (last (front # rest))) \<le> limit"
      using True 2(3) that by (cases rest) (auto simp: max_chunks_def)
    then show ?thesis using IH by (auto intro!: exI [of _ "Suc k"])
  qed (use 2(2,3) in \<open>auto intro: exI [of _ 0]\<close>)
qed auto

lemma next_boundary_bounds:
  "i \<le> length s \<Longrightarrow> i \<le> next_boundary s i \<and> next_boundary s i \<le> length s \<and> is_char_boundary s (next_boundary s i)"
proof (induction s i rule: next_boundary.induct)
  case (1 s i)
  show ?case
  proof (cases "is_char_boundary s i")
    case False
    then have "Suc i \<le> length s" using 1(2) by (auto simp: is_char_boundary_def)
    then show ?thesis using 1(1) False 1(2) by (subst (1 2 3) next_boundary.simps) auto
  qed (use 1(2) in \<open>auto simp: next_boundary.simps\<close>)
qed

lemma clip_bounds: "length (clip limit s) \<le> limit" "length s \<le> limit \<Longrightarrow> clip limit s = s"
  "length s > limit \<Longrightarrow> length (clip limit s) < length s"
  using next_boundary_bounds [of "length s - limit" s] by (auto simp: clip_def)

text \<open>Cutting a valid text at a character boundary leaves a valid text.\<close>

lemma conts_bytes:
  "conts rs n bs = Good m \<Longrightarrow> \<forall>(lo, hi)\<in>set rs. 128 \<le> lo \<and> hi \<le> 191 \<Longrightarrow> j < length rs \<Longrightarrow>
   128 \<le> (of_char (bs ! j) :: nat) \<and> (of_char (bs ! j) :: nat) \<le> 191"
proof (induction rs n bs arbitrary: j rule: conts.induct)
  case (3 lo hi rs n b bs)
  then show ?case by (cases j) (auto simp: in_range_def split: if_splits)
qed auto

lemma utf8_head_bytes:
  assumes "utf8_head s = Good m" "0 < j" "j < m" shows "is_cont (s ! j)"
proof -
  obtain b bs rs where s: "s = b # bs" "cont_ranges b = Some rs" "conts rs 1 bs = Good m"
    using assms(1) by (cases s) (auto split: option.splits)
  have "\<forall>(lo, hi)\<in>set rs. 128 \<le> lo \<and> hi \<le> 191"
    using s(2) by (auto simp: cont_ranges_def Let_def split: if_splits)
  moreover have j: "j - 1 < length rs" using conts_Good [OF s(3)] assms(2,3) by auto
  ultimately have "128 \<le> (of_char (bs ! (j - 1)) :: nat) \<and> (of_char (bs ! (j - 1)) :: nat) \<le> 191"
    by (rule conts_bytes [OF s(3)])
  moreover have "s ! j = bs ! (j - 1)" using s(1) assms(2) by (simp add: nth_Cons')
  ultimately show ?thesis by (simp add: is_cont_def)
qed

lemma utf8_drop_boundary: "utf8 s \<Longrightarrow> is_char_boundary s i \<Longrightarrow> utf8 (drop i s)"
proof (induction s arbitrary: i rule: valid_prefix.induct)
  case (1 s)
  show ?case
  proof (cases "i = 0 \<or> s = []")
    case False
    then obtain m where m: "utf8_head s = Good m" "utf8 (drop m s)"
      using 1(2) unfolding utf8_def
      by (subst (asm) valid_prefix.simps) (auto split: utf8_step.splits prod.splits)
    have i: "m \<le> i" using 1(3) utf8_head_bytes [OF m(1)] utf8_head_pos(1) [OF m(1)] False
      by (force simp: is_char_boundary_def not_le)
    then have "is_char_boundary (drop m s) (i - m)"
      using 1(3) by (auto simp: is_char_boundary_def)
    from 1(1) [OF _ m this] False i show ?thesis by simp
  qed (use 1 in auto)
qed

text \<open>
  An oversized text keeps a valid tail: \<open>push\<close> stores a suffix of the text that fits the limit, the
  whole text when it fits, and the suffix of a valid text is valid, so the slice cannot panic.
\<close>

theorem clipped_text_is_valid_tail:
  "length (clip limit s) \<le> limit \<and> (length s \<le> limit \<longrightarrow> clip limit s = s) \<and>
   (\<exists>p. s = p @ clip limit s) \<and> (utf8 s \<longrightarrow> utf8 (clip limit s))"
proof -
  have "\<exists>p. s = p @ clip limit s" by (auto simp: clip_def intro: append_take_drop_id [symmetric])
  moreover have "utf8 (clip limit s)" if "utf8 s"
    using utf8_drop_boundary [OF that] next_boundary_bounds [of "length s - limit" s] that
    by (simp add: clip_def)
  ultimately show ?thesis using clip_bounds by blast
qed

theorem clipped_text_is_valid_tail_witness:
  "length ''abc'' \<le> (5::nat) \<and> utf8 ''abc'' \<and> clip 5 ''abc'' = ''abc''"
proof -
  have "utf8 ''abc''" by code_simp
  then show ?thesis using clipped_text_is_valid_tail [of 5 "''abc''"] by simp
qed

text \<open>The buffer as a function of the texts pushed so far, and the contract it implements.\<close>

definition buffer_of :: "nat \<Rightarrow> (int \<times> string) list \<Rightarrow> output_buffer" where
  "buffer_of limit pushes = fold (\<lambda>(now, s) b. snd (push now s b)) pushes (buffer_new limit)"

definition represents :: "nat \<Rightarrow> string list \<Rightarrow> output_buffer \<Rightarrow> bool" where
  "represents limit ts b \<longleftrightarrow>
     max_bytes b = limit \<and> next_seq b = length ts \<and>
     (\<exists>k\<le>length ts. map (\<lambda>c. (seq c, chunk_text c)) (chunks b) =
        map (\<lambda>i. (i, clip limit (ts ! i))) [k..<length ts]) \<and>
     bytes b = text_sizes (chunks b) \<and> bytes b \<le> limit \<and> length (chunks b) \<le> max_chunks \<and>
     (ts \<noteq> [] \<longrightarrow> chunks b \<noteq> []) \<and>
     (case truncated_seq b of
        None \<Rightarrow> \<forall>i<length ts. length (ts ! i) \<le> limit
      | Some t \<Rightarrow> t < length ts \<and> length (ts ! t) > limit \<and>
          (\<forall>i<length ts. t < i \<longrightarrow> length (ts ! i) \<le> limit))"

lemma represents_new: "represents limit [] (buffer_new limit)"
  by (simp add: represents_def buffer_new_def)

lemma represents_push:
  assumes "represents limit ts b"
  shows "represents limit (ts @ [s]) (snd (push now s b))"
proof -
  let ?n = "length ts" and ?tr = "length s > max_bytes b"
  let ?all = "chunks b @ [\<lparr>seq = next_seq b, timestamp = now, chunk_text = clip limit s\<rparr>]"
  let ?view = "\<lambda>c. (seq c, chunk_text c)"
  have m: "max_bytes b = limit" "next_seq b = ?n" using assms by (simp_all add: represents_def)
  obtain k where k: "k \<le> ?n" "map ?view (chunks b) = map (\<lambda>i. (i, clip limit (ts ! i))) [k..<?n]"
    using assms by (auto simp: represents_def)
  obtain held kept ev where e:
    "evict limit (bytes b + length (clip limit s)) ?all (if ?tr then 1 else 0) = (held, kept, ev)"
    by (metis prod_cases3)
  have b': "snd (push now s b) = b\<lparr>chunks := kept, bytes := held, next_seq := Suc ?n,
      truncated_seq := (if ?tr then Some ?n else truncated_seq b)\<rparr>"
    using e m by (simp add: push_def Let_def)
  have "bytes b + length (clip limit s) = text_sizes ?all" using assms by (simp add: represents_def)
  note E = evict_spec [OF e this]
  then obtain j where j: "j \<le> length ?all" "kept = drop j ?all" by blast
  have va: "map ?view ?all = map (\<lambda>i. (i, clip limit ((ts @ [s]) ! i))) [k..<Suc ?n]"
    using k m by (simp add: nth_append cong: map_cong)
  have v: "map ?view kept = map (\<lambda>i. (i, clip limit ((ts @ [s]) ! i))) [k + j..<Suc ?n]"
    unfolding j(2) drop_map [symmetric] va by (simp only: drop_map drop_upt)
  have l: "length (chunks b) = ?n - k" using arg_cong [OF k(2), of length] by simp
  have "k + j \<le> Suc ?n" using j(1) l k(1) by simp
  moreover have "kept \<noteq> []" using E clip_bounds(1) [of limit s] by auto
  moreover have "case (if ?tr then Some ?n else truncated_seq b) of
      None \<Rightarrow> \<forall>i<length (ts @ [s]). length ((ts @ [s]) ! i) \<le> limit
    | Some t \<Rightarrow> t < length (ts @ [s]) \<and> length ((ts @ [s]) ! t) > limit \<and>
        (\<forall>i<length (ts @ [s]). t < i \<longrightarrow> length ((ts @ [s]) ! i) \<le> limit)"
  proof (cases ?tr)
    case False
    then show ?thesis using assms m
      by (cases "truncated_seq b") (auto simp: represents_def nth_append less_Suc_eq)
  qed (use m in \<open>auto simp: nth_append\<close>)
  ultimately show ?thesis using E m
    unfolding b' represents_def by (intro conjI exI [of _ "k + j"]) (simp_all add: v del: upt_Suc)
qed

lemma buffer_of_represents: "represents limit (map snd pushes) (buffer_of limit pushes)"
proof (induction pushes rule: rev_induct)
  case (snoc p ps)
  then show ?case using represents_push [OF snoc, of "snd p" "fst p"] by (cases p) (simp add: buffer_of_def)
qed (simp add: buffer_of_def represents_new)

text \<open>
  C10. The buffer is bounded whatever is pushed: the bytes it counts are those it holds and never more
  than the limit, it holds at most 4096 chunks, their numbers are consecutive up to the last push, and
  the newest text is always retained.
\<close>

theorem output_buffer_bounded:
  "bytes (buffer_of limit pushes) = text_sizes (chunks (buffer_of limit pushes)) \<and>
   bytes (buffer_of limit pushes) \<le> limit \<and> length (chunks (buffer_of limit pushes)) \<le> max_chunks \<and>
   map seq (chunks (buffer_of limit pushes)) =
     [length pushes - length (chunks (buffer_of limit pushes))..<length pushes] \<and>
   (chunks (buffer_of limit pushes) = []) = (pushes = [])"
proof -
  let ?b = "buffer_of limit pushes"
  note R = buffer_of_represents [of limit pushes, unfolded represents_def]
  then obtain k where k: "k \<le> length pushes" "map (\<lambda>c. (seq c, chunk_text c)) (chunks ?b) =
      map (\<lambda>i. (i, clip limit (map snd pushes ! i))) [k..<length pushes]" by auto
  have l: "length (chunks ?b) = length pushes - k" using arg_cong [OF k(2), of length] by simp
  have "map seq (chunks ?b) = [k..<length pushes]"
    using arg_cong [OF k(2), of "map fst"] by (simp add: comp_def)
  then show ?thesis using R l k(1) by auto
qed

lemma filter_upt: "filter ((\<le>) c) [k..<n] = [max k c..<n]"
proof (induction n)
  case (Suc n)
  then show ?case by (auto simp: max_def)
qed simp

lemma overrun_iff:
  assumes "represents limit ts b"
  obtains k where "k \<le> length ts" "map (\<lambda>c. (seq c, chunk_text c)) (chunks b) = map (\<lambda>i. (i, clip limit (ts ! i))) [k..<length ts]"
    "map chunk_text (resp_chunks (since cursor st b)) = map (\<lambda>i. clip limit (ts ! i)) [max k cursor..<length ts]"
    "overrun (since cursor st b) \<longleftrightarrow> cursor < k \<or> (\<exists>i<length ts. cursor \<le> i \<and> length (ts ! i) > limit)"
proof -
  let ?view = "\<lambda>c. (seq c, chunk_text c)" and ?n = "length ts"
  obtain k where k: "k \<le> ?n" "map ?view (chunks b) = map (\<lambda>i. (i, clip limit (ts ! i))) [k..<?n]"
    using assms by (auto simp: represents_def)
  have "map chunk_text (filter (\<lambda>c. cursor \<le> seq c) (chunks b)) =
      map snd (filter (\<lambda>x. cursor \<le> fst x) (map ?view (chunks b)))"
    by (simp add: filter_map comp_def)
  also have "\<dots> = map (\<lambda>i. clip limit (ts ! i)) (filter ((\<le>) cursor) [k..<?n])"
    unfolding k(2) by (simp add: filter_map comp_def)
  finally have 1: "map chunk_text (resp_chunks (since cursor st b)) =
      map (\<lambda>i. clip limit (ts ! i)) [max k cursor..<?n]"
    by (simp add: since_def Let_def filter_upt)
  have first: "(case chunks b of [] \<Rightarrow> next_seq b | c # _ \<Rightarrow> seq c) = k"
  proof (cases "chunks b")
    case Nil
    then show ?thesis using k assms by (simp add: represents_def)
  next
    case (Cons c cs)
    then have "k < ?n" using k(2) by (cases "k < ?n") auto
    then show ?thesis using k(2) Cons by (simp add: upt_conv_Cons)
  qed
  have tr: "(case truncated_seq b of None \<Rightarrow> False | Some t \<Rightarrow> cursor \<le> t) \<longleftrightarrow>
      (\<exists>i<?n. cursor \<le> i \<and> length (ts ! i) > limit)"
  proof (cases "truncated_seq b")
    case None
    then show ?thesis using assms by (auto simp: represents_def not_less)
  next
    case (Some t)
    then have "t < ?n" "length (ts ! t) > limit" "\<forall>i<?n. t < i \<longrightarrow> length (ts ! i) \<le> limit"
      using assms by (auto simp: represents_def)
    then show ?thesis using Some by (metis le_trans not_le_imp_less option.simps(5) leD)
  qed
  show thesis by (rule that [OF k 1]) (simp add: since_def Let_def first tr)
qed

text \<open>What a buffer retains: the longest end of the clipped texts that fits the limits.\<close>

definition fits :: "nat \<Rightarrow> string list \<Rightarrow> bool" where
  "fits limit ts \<longleftrightarrow> sum_list (map length ts) \<le> limit \<and> length ts \<le> max_chunks"

fun longest_fit :: "nat \<Rightarrow> string list \<Rightarrow> string list" where
  "longest_fit limit [] = []"
| "longest_fit limit (t # ts) = (if fits limit (t # ts) then t # ts else longest_fit limit ts)"

lemma evict_texts:
  "evict limit held cs n = (held', cs', n') \<Longrightarrow> held = text_sizes cs \<Longrightarrow>
   map chunk_text cs' = longest_fit limit (map chunk_text cs)"
proof (induction limit held cs n rule: evict.induct)
  case (2 limit held front rest evicted)
  have "fits limit (map chunk_text (front # rest)) \<longleftrightarrow> \<not> (held > limit \<or> length (front # rest) > max_chunks)"
    using 2(3) by (auto simp: fits_def text_sizes_def comp_def)
  with 2 show ?case by (auto split: if_splits)
qed simp

lemma fits_append: "fits limit (ts @ [t]) \<Longrightarrow> fits limit ts"
  by (simp add: fits_def)

lemma longest_fit_append: "longest_fit limit (longest_fit limit ts @ [t]) = longest_fit limit (ts @ [t])"
proof (induction ts)
  case (Cons x ts)
  then show ?case using fits_append [of limit "x # ts" t] by auto
qed simp

lemma buffer_texts:
  "map chunk_text (chunks (buffer_of limit pushes)) = longest_fit limit (map (clip limit) (map snd pushes))"
proof (induction pushes rule: rev_induct)
  case (snoc p ps)
  obtain now t where p: "p = (now, t)" by (cases p)
  let ?b = "buffer_of limit ps"
  let ?all = "chunks ?b @ [\<lparr>seq = next_seq ?b, timestamp = now, chunk_text = clip limit t\<rparr>]"
  have R: "max_bytes ?b = limit" "bytes ?b = text_sizes (chunks ?b)"
    using buffer_of_represents [of limit ps] by (simp_all add: represents_def)
  obtain held kept ev where e:
    "evict limit (bytes ?b + length (clip limit t)) ?all (if length t > limit then 1 else 0) = (held, kept, ev)"
    by (metis prod_cases3)
  have "map chunk_text kept = longest_fit limit (map chunk_text ?all)"
    by (rule evict_texts [OF e]) (simp add: R text_sizes_def)
  moreover have "chunks (buffer_of limit (ps @ [p])) = kept"
    using e R by (simp add: buffer_of_def p push_def Let_def)
  ultimately show ?case using snoc longest_fit_append by (simp add: p)
qed (simp add: buffer_of_def buffer_new_def)

text \<open>
  C11. A read returns exactly what is retained from its cursor on, and says exactly whether that is all. Of
  the texts pushed, each clipped to the byte limit, the buffer retains the longest end that fits the byte
  limit and 4096 chunks, with their numbers; \<open>since\<close> returns those with a number from the cursor on, the
  cursor for the next read and the status it was given. \<open>overrun\<close> is set exactly when the cursor is before
  the first retained text or one of the texts from the cursor on was clipped. For a cursor that lies within
  the stream, this is so exactly when the texts returned are not the texts pushed from the cursor on.
\<close>

theorem read_is_exact:
  "let r = since cursor st (buffer_of limit pushes);
       kept = longest_fit limit (map (clip limit) (map snd pushes));
       first_kept = length pushes - length kept in
   map (\<lambda>c. (seq c, chunk_text c)) (resp_chunks r) = filter (\<lambda>(i, _). cursor \<le> i) (enumerate first_kept kept) \<and>
   resp_cursor r = length pushes \<and> resp_session r = st \<and>
   overrun r = (cursor < first_kept \<or> list_ex (\<lambda>(_, t). length t > limit) (drop cursor pushes)) \<and>
   (overrun r \<and> cursor \<le> length pushes) =
     (map chunk_text (resp_chunks r) \<noteq> drop cursor (map snd pushes) \<and> cursor \<le> length pushes)"
proof -
  let ?ts = "map snd pushes" and ?b = "buffer_of limit pushes"
  let ?n = "length ?ts" and ?got = "map chunk_text (resp_chunks (since cursor st (buffer_of limit pushes)))"
  let ?view = "\<lambda>c. (seq c, chunk_text c)"
  obtain k where k: "k \<le> ?n" "map ?view (chunks ?b) = map (\<lambda>i. (i, clip limit (?ts ! i))) [k..<?n]"
    "?got = map (\<lambda>i. clip limit (?ts ! i)) [max k cursor..<?n]"
    "overrun (since cursor st ?b) \<longleftrightarrow> cursor < k \<or> (\<exists>i<?n. cursor \<le> i \<and> length (?ts ! i) > limit)"
    by (rule overrun_iff [OF buffer_of_represents [of limit pushes], of cursor st]) (rule that)
  have len: "length (chunks ?b) = ?n - k" using arg_cong [OF k(2), of length] by simp
  let ?kept = "longest_fit limit (map (clip limit) ?ts)"
  have kept: "map chunk_text (chunks ?b) = ?kept" by (rule buffer_texts)
  then have kl: "length ?kept = ?n - k" using len by (metis length_map)
  then have first: "length pushes - length ?kept = k" using k(1) by simp
  have "map seq (chunks ?b) = [k..<?n]" using arg_cong [OF k(2), of "map fst"] by (simp add: comp_def)
  then have "map ?view (chunks ?b) = zip [k..<?n] ?kept"
    using kept by (metis (no_types, lifting) zip_map_fst_snd map_map comp_apply fst_conv snd_conv map_eq_conv)
  then have view: "map ?view (chunks ?b) = enumerate k ?kept"
    using kl k(1) by (simp add: enumerate_eq_zip)
  have "map ?view (resp_chunks (since cursor st ?b)) = filter (\<lambda>(i, _). cursor \<le> i) (map ?view (chunks ?b))"
    by (simp add: since_def Let_def filter_map comp_def)
  then have 1: "map ?view (resp_chunks (since cursor st ?b)) = filter (\<lambda>(i, _). cursor \<le> i) (enumerate k ?kept)"
    by (simp only: view)
  have ex: "(\<exists>i<?n. cursor \<le> i \<and> length (?ts ! i) > limit) \<longleftrightarrow> list_ex (\<lambda>(_, t). length t > limit) (drop cursor pushes)"
  proof
    assume "\<exists>i<?n. cursor \<le> i \<and> length (?ts ! i) > limit"
    then obtain i where i: "i < ?n" "cursor \<le> i" "length (?ts ! i) > limit" by blast
    then have "drop cursor pushes ! (i - cursor) = pushes ! i" "i - cursor < length (drop cursor pushes)" by simp_all
    with i show "list_ex (\<lambda>(_, t). length t > limit) (drop cursor pushes)"
      by (auto simp: list_ex_length case_prod_beta intro!: exI [of _ "i - cursor"])
  next
    assume "list_ex (\<lambda>(_, t). length t > limit) (drop cursor pushes)"
    then obtain j where "j < length pushes - cursor" "length (snd (pushes ! (cursor + j))) > limit"
      by (auto simp: list_ex_length case_prod_beta)
    then show "\<exists>i<?n. cursor \<le> i \<and> length (?ts ! i) > limit" by (intro exI [of _ "cursor + j"]) simp
  qed
  have d: "drop cursor ?ts = map ((!) ?ts) [cursor..<?n]"
    using drop_map [of cursor "(!) ?ts" "[0..<?n]"] map_nth [of ?ts] by simp
  have all: "?got = drop cursor ?ts \<longleftrightarrow> k \<le> cursor \<and> (\<forall>i<?n. cursor \<le> i \<longrightarrow> length (?ts ! i) \<le> limit)"
    if "cursor \<le> length pushes"
  proof
    assume eq: "?got = drop cursor ?ts"
    then have "length ?got = ?n - cursor" by simp
    then have "?n - max k cursor = ?n - cursor" unfolding k(3) by simp
    then have kc: "k \<le> cursor" using k(1) that by auto
    have "length (?ts ! i) \<le> limit" if i: "i < ?n" "cursor \<le> i" for i
    proof -
      have "map (\<lambda>i. clip limit (?ts ! i)) [cursor..<?n] = map ((!) ?ts) [cursor..<?n]"
        using eq kc unfolding k(3) d by (simp add: max_absorb2)
      then have "clip limit (?ts ! i) = ?ts ! i" using i by (auto simp: map_eq_conv)
      then show ?thesis using clip_bounds(1) [of limit "?ts ! i"] by simp
    qed
    with kc show "k \<le> cursor \<and> (\<forall>i<?n. cursor \<le> i \<longrightarrow> length (?ts ! i) \<le> limit)" by blast
  next
    assume a: "k \<le> cursor \<and> (\<forall>i<?n. cursor \<le> i \<longrightarrow> length (?ts ! i) \<le> limit)"
    then show "?got = drop cursor ?ts" unfolding k(3) d by (simp add: max_absorb2 clip_bounds(2))
  qed
  have "resp_cursor (since cursor st ?b) = length pushes" "resp_session (since cursor st ?b) = st"
    using buffer_of_represents [of limit pushes] by (simp_all add: since_def Let_def represents_def)
  moreover have "overrun (since cursor st ?b) \<longleftrightarrow> ?got \<noteq> drop cursor ?ts" if "cursor \<le> length pushes"
    using all [OF that] k(4) by (metis not_le)
  ultimately show ?thesis using 1 unfolding Let_def first k(4) ex by blast
qed

end
