(* ===== verification/Process_Group.thy ===== *)
theory Process_Group
  imports Utf8 Prelude
begin

text \<open>
  The Linux process of a session: \<open>src/src/session/process.rs\<close>. What the system calls return is an
  argument; the model is what the code makes of it: the identity of the leader that allows signals to its
  group, the scan of \<open>/proc\<close> for live members and the parser of a \<open>stat\<close> line.
\<close>

section \<open>The owned leader\<close>

record pty_process =
  child :: bool
  identity_owned :: bool

datatype errno = EChild | ESrch | EIntr | EOtherNo string

fun errno_text :: "errno \<Rightarrow> string" where
  "errno_text EChild = ''No child processes (os error 10)''"
| "errno_text ESrch = ''No such process (os error 3)''"
| "errno_text EIntr = ''Interrupted system call (os error 4)''"
| "errno_text (EOtherNo m) = m"

definition spawned_process :: pty_process where
  "spawned_process = \<lparr>child = True, identity_owned = True\<rparr>"

text \<open>The result of \<open>waitid\<close> is whether a state change was reported.\<close>

definition observe_exit :: "errno + bool \<Rightarrow> pty_process \<Rightarrow> (string + bool) \<times> pty_process" where
  "observe_exit waitid p =
     (case waitid of
        Inr exited \<Rightarrow> (Inr exited, p)
      | Inl e \<Rightarrow>
          let q = (if e = EChild then p\<lparr>identity_owned := False\<rparr> else p) in
          if e = EIntr then (Inr False, q) else (Inl (errno_text e), q))"

definition signal_group :: "errno + unit \<Rightarrow> pty_process \<Rightarrow> string + unit" where
  "signal_group kill p =
     (if \<not> identity_owned p then Inl ''child ownership was lost; refusing to signal a numeric PGID''
      else case kill of
        Inr _ \<Rightarrow> Inr ()
      | Inl e \<Rightarrow> if e = ESrch then Inr () else Inl (errno_text e))"

text \<open>An exit code is unsigned; the cast to \<open>i32\<close> wraps.\<close>

definition as_i32 :: "nat \<Rightarrow> int" where
  "as_i32 n = (if int n < 2 ^ 31 then int n else int n - 2 ^ 32)"

definition reap_process :: "errno + nat \<Rightarrow> pty_process \<Rightarrow> (string + int) \<times> pty_process" where
  "reap_process wait p =
     (if \<not> child p then (Inl ''child already reaped'', p)
      else case wait of
        Inl e \<Rightarrow> (Inl (errno_text e), if e = EChild then p\<lparr>identity_owned := False\<rparr> else p)
      | Inr n \<Rightarrow> (Inr (as_i32 n), p\<lparr>identity_owned := False, child := False\<rparr>))"

text \<open>The command line \<open>spawn\<close> runs: the mode is the server's.\<close>

definition vivado_command :: "string list \<Rightarrow> string list" where
  "vivado_command args = [''-mode'', ''tcl''] @ args"

section \<open>The process table\<close>

definition malformed :: string where
  "malformed = ''malformed /proc process stat''"

definition is_ascii_whitespace :: "char \<Rightarrow> bool" where
  "is_ascii_whitespace c \<longleftrightarrow> (of_char c :: nat) \<in> {9, 10, 12, 13, 32}"

definition split_ascii_whitespace :: "string \<Rightarrow> string list" where
  "split_ascii_whitespace s =
     filter (\<lambda>w. w \<noteq> []) (split_on CHR '' '' (map (\<lambda>c. if is_ascii_whitespace c then CHR '' '' else c) s))"

definition is_ascii_digit :: "char \<Rightarrow> bool" where
  "is_ascii_digit c \<longleftrightarrow> 48 \<le> (of_char c :: nat) \<and> (of_char c :: nat) \<le> 57"

definition digit_value :: "char \<Rightarrow> nat" where
  "digit_value c = of_char c - 48"

text \<open>\<open>str::parse\<close> for an integer type with the given bounds; only a signed type takes a minus sign.\<close>

definition parse_digits :: "string \<Rightarrow> nat option" where
  "parse_digits s =
     (if s = [] \<or> \<not> list_all is_ascii_digit s then None
      else Some (foldl (\<lambda>n c. 10 * n + digit_value c) 0 s))"

definition parse_integer :: "int \<Rightarrow> int \<Rightarrow> string \<Rightarrow> int option" where
  "parse_integer lo hi s =
     (let (negative, digits) =
        (case s of
           [] \<Rightarrow> (False, [])
         | c # cs \<Rightarrow> if c = CHR ''+'' then (False, cs)
                     else if c = CHR ''-'' \<and> lo < 0 then (True, cs) else (False, s)) in
      case parse_digits digits of
        None \<Rightarrow> None
      | Some n \<Rightarrow> let v = (if negative then - int n else int n) in if lo \<le> v \<and> v \<le> hi then Some v else None)"

definition parse_pid :: "string \<Rightarrow> int option" where
  "parse_pid = parse_integer (- (2 ^ 31)) (2 ^ 31 - 1)"

definition parse_usize :: "string \<Rightarrow> int option" where
  "parse_usize = parse_integer 0 (2 ^ 64 - 1)"

definition parse_stat :: "string \<Rightarrow> string + int \<times> bool" where
  "parse_stat bytes =
     (if CHR '')'' \<notin> set bytes then Inl malformed
      else
        let tail = rev (takeWhile (\<lambda>c. c \<noteq> CHR '')'') (rev bytes)) in
        if snd (valid_prefix tail) \<noteq> None then Inl malformed
        else
          let fields = split_ascii_whitespace tail in
          if fields = [] \<or> length fields \<le> 2 then Inl malformed
          else case parse_pid (fields ! 2) of
            None \<Rightarrow> Inl malformed
          | Some pgid \<Rightarrow>
              if length fields \<le> 17 then Inl malformed
              else case parse_usize (fields ! 17) of
                None \<Rightarrow> Inl malformed
              | Some threads \<Rightarrow>
                  Inr (pgid, fields ! 0 \<notin> {''Z'', ''X'', ''x''} \<or> threads > 1))"

text \<open>
  The scan: an entry of \<open>/proc\<close> is a directory error, or a name with the result of reading its \<open>stat\<close>
  file. A process that disappeared is skipped; any other failure is an error, never an empty group.
\<close>

datatype stat_error = StatGone | StatFailed string

fun group_has_live_members :: "int \<Rightarrow> (string + string \<times> (stat_error + string)) list \<Rightarrow> string + bool" where
  "group_has_live_members pgid [] = Inr False"
| "group_has_live_members pgid (Inl e # rest) = Inl e"
| "group_has_live_members pgid (Inr (name, stat) # rest) =
     (if \<not> list_all is_ascii_digit name then group_has_live_members pgid rest
      else case stat of
        Inl StatGone \<Rightarrow> group_has_live_members pgid rest
      | Inl (StatFailed e) \<Rightarrow> Inl e
      | Inr bytes \<Rightarrow>
          (case parse_stat bytes of
             Inl e \<Rightarrow> Inl e
           | Inr (grp, live) \<Rightarrow>
               if grp = pgid \<and> live then Inr True else group_has_live_members pgid rest))"

end
