(* ===== verification/Retention.thy ===== *)
theory Retention
  imports Prelude
begin

text \<open>
  The retention of finished work that \<open>src/src/session.rs\<close> (\<open>Manager::prune\<close>) and
  \<open>src/src/workflow.rs\<close> (\<open>WorkflowManager::prune\<close>) share: entries whose retention has begun are
  dropped when it is over, and then the oldest ones until at most the configured number is left. An
  entry whose retention has not begun is never dropped.

  A \<open>HashMap\<close> is an association list; the order in which the source iterates over it is not specified,
  and shows only between two entries retained since the same instant.
\<close>

definition young :: "('v \<Rightarrow> nat option) \<Rightarrow> nat \<Rightarrow> nat \<Rightarrow> 'v \<Rightarrow> bool" where
  "young since retention instant v =
     (case since v of None \<Rightarrow> True | Some t \<Rightarrow> instant - t < retention)"

definition ended_entries :: "('v \<Rightarrow> nat option) \<Rightarrow> ('k \<times> 'v) list \<Rightarrow> ('k \<times> nat) list" where
  "ended_entries since xs =
     sort_key snd (List.map_filter (\<lambda>(k, v). map_option (\<lambda>t. (k, t)) (since v)) xs)"

definition prune_entries :: "('v \<Rightarrow> nat option) \<Rightarrow> nat \<Rightarrow> nat \<Rightarrow> nat \<Rightarrow> ('k \<times> 'v) list \<Rightarrow> ('k \<times> 'v) list" where
  "prune_entries since limit retention instant xs =
     (let kept = filter (\<lambda>(_, v). young since retention instant v) xs;
          ended = ended_entries since kept;
          gone = map fst (take (length ended - limit) ended) in
      filter (\<lambda>(k, _). k \<notin> set gone) kept)"

definition retained :: "('v \<Rightarrow> nat option) \<Rightarrow> ('k \<times> 'v) list \<Rightarrow> ('k \<times> 'v) list" where
  "retained since xs = filter (\<lambda>(_, v). since v \<noteq> None) xs"

section \<open>Facts\<close>

lemma set_prune_entries: "set (prune_entries since limit retention instant xs) \<subseteq> set xs"
  by (auto simp: prune_entries_def Let_def)

lemma prune_keeps_live:
  assumes "distinct (map fst xs)" "(k, v) \<in> set xs" "since v = None"
  shows "(k, v) \<in> set (prune_entries since limit retention instant xs)"
proof -
  let ?kept = "filter (\<lambda>(_, v). young since retention instant v) xs"
  have "k \<notin> fst ` set (ended_entries since ?kept)"
  proof
    assume "k \<in> fst ` set (ended_entries since ?kept)"
    then obtain w t where w: "(k, w) \<in> set xs" "since w = Some t"
      by (auto simp: ended_entries_def map_filter_def)
    with assms(1,2) have "v = w" by (metis map_of_eq_Some_iff option.inject)
    with w(2) assms(3) show False by simp
  qed
  then have "k \<notin> set (map fst (take n (ended_entries since ?kept)))" for n
    by (auto dest: in_set_takeD)
  with assms(2,3) show ?thesis by (auto simp: prune_entries_def Let_def young_def)
qed

lemma distinct_prune: "distinct (map fst xs) \<Longrightarrow> distinct (map fst (prune_entries since limit retention instant xs))"
  by (simp add: prune_entries_def Let_def distinct_map_filter)

lemma length_ended: "length (ended_entries since xs) = length (retained since xs)"
  by (induction xs) (auto simp: ended_entries_def retained_def map_filter_def split: prod.splits)

lemma ended_keys: "set (ended_entries since xs) = {(k, t). \<exists>v. (k, v) \<in> set xs \<and> since v = Some t}"
  by (force simp: ended_entries_def map_filter_def)

lemma distinct_ended:
  assumes "distinct (map fst xs)"
  shows "distinct (map fst (ended_entries since xs))"
proof -
  have "distinct (map fst (List.map_filter (\<lambda>(k, v). map_option (\<lambda>t. (k, t)) (since v)) xs))"
    using assms by (induction xs) (auto simp: map_filter_def split: prod.splits, force)
  then show ?thesis
    unfolding ended_entries_def distinct_map
    by (simp add: distinct_sort)
qed

lemma keys_beyond_take: "fst ` set es - set (map fst (take n es)) \<subseteq> fst ` set (drop n es)"
proof -
  have "fst ` set es = fst ` set (take n es) \<union> fst ` set (drop n es)"
    unfolding image_Un [symmetric] set_append [symmetric] by simp
  then show ?thesis by auto
qed

lemma beyond_take:
  assumes "x \<notin> set (map fst (take n es))" "(x, t) \<in> set es"
  shows "(x, t) \<in> set (drop n es)"
proof -
  have "set es = set (take n es) \<union> set (drop n es)" unfolding set_append [symmetric] by simp
  with assms show ?thesis by force
qed

text \<open>What is left: at most \<open>limit\<close> retained entries, none of them past its retention, and none older
  than an entry that was dropped for room.\<close>

lemma prune_bounded:
  assumes d: "distinct (map fst xs)"
  shows "length (retained since (prune_entries since limit retention instant xs)) \<le> limit"
proof -
  let ?kept = "filter (\<lambda>(_, v). young since retention instant v) xs"
  let ?e = "ended_entries since ?kept"
  let ?n = "length ?e - limit"
  let ?p = "prune_entries since limit retention instant xs"
  have dk: "distinct (map fst ?kept)" using d by (rule distinct_map_filter)
  have de: "distinct (map fst ?e)" by (rule distinct_ended [OF dk])
  have "fst ` set (ended_entries since ?p) \<subseteq> fst ` set ?e - set (map fst (take ?n ?e))"
    by (auto simp: ended_keys prune_entries_def Let_def image_iff)
  also have "\<dots> \<subseteq> fst ` set (drop ?n ?e)" by (rule keys_beyond_take)
  finally have sub: "fst ` set (ended_entries since ?p) \<subseteq> fst ` set (drop ?n ?e)" .
  have "length (retained since ?p) = card (fst ` set (ended_entries since ?p))"
    using distinct_ended [OF distinct_prune [OF d]] distinct_card
    by (metis length_ended length_map list.set_map)
  also have "\<dots> \<le> card (fst ` set (drop ?n ?e))" by (rule card_mono [OF _ sub]) simp
  also have "\<dots> \<le> length (drop ?n ?e)" by (meson card_image_le card_length finite_set le_trans)
  also have "\<dots> \<le> limit" by simp
  finally show ?thesis .
qed

lemma prune_young: "(k, v) \<in> set (prune_entries since limit retention instant xs) \<Longrightarrow> young since retention instant v"
  by (auto simp: prune_entries_def Let_def)

lemma sorted_take_le:
  assumes "sorted (map f xs)" "x \<in> set (take n xs)" "y \<in> set (drop n xs)"
  shows "f x \<le> f y"
proof -
  have "sorted (map f (take n xs) @ map f (drop n xs))" using assms(1) by (metis append_take_drop_id map_append)
  with assms(2,3) show ?thesis by (auto simp: sorted_append)
qed

lemma prune_drops_oldest:
  assumes d: "distinct (map fst xs)"
    and k: "(k, v) \<in> set xs" "young since retention instant v" "(k, v) \<notin> set (prune_entries since limit retention instant xs)"
    and j: "(j, w) \<in> set (prune_entries since limit retention instant xs)" "since w = Some t"
  shows "\<exists>t'. since v = Some t' \<and> t' \<le> t"
proof -
  let ?kept = "filter (\<lambda>(_, v). young since retention instant v) xs"
  let ?e = "ended_entries since ?kept"
  let ?n = "length ?e - limit"
  have dk: "distinct (map fst ?kept)" using d by (rule distinct_map_filter)
  from k have "k \<in> set (map fst (take ?n ?e))" by (auto simp: prune_entries_def Let_def)
  then obtain t' where t': "(k, t') \<in> set (take ?n ?e)" by auto
  then have "(k, t') \<in> set ?e" by (rule in_set_takeD)
  then obtain v' where v': "(k, v') \<in> set xs" "since v' = Some t'" by (auto simp: ended_keys)
  have v: "since v = Some t'" using eq_key_imp_eq_value [OF d k(1) v'(1)] v'(2) by simp
  from j have jk: "(j, w) \<in> set ?kept" "j \<notin> set (map fst (take ?n ?e))" by (auto simp: prune_entries_def Let_def)
  with j(2) have "(j, t) \<in> set ?e" unfolding ended_keys by blast
  from jk(2) this have j': "(j, t) \<in> set (drop ?n ?e)"
    by (rule beyond_take)
  have sorted: "sorted (map snd ?e)" by (simp add: ended_entries_def)
  from sorted_take_le [OF sorted t' j'] have "t' \<le> t" by simp
  with v show ?thesis by blast
qed

text \<open>
  The contract of a registry with retention: entries whose retention has not begun stay, nothing is
  added or duplicated, and at most \<open>limit\<close> of the others are left.
\<close>

locale retention_policy =
  fixes since :: "'v \<Rightarrow> nat option" and limit :: nat
    and prune :: "nat \<Rightarrow> ('k \<times> 'v) list \<Rightarrow> ('k \<times> 'v) list"
  assumes bounded: "distinct (map fst xs) \<Longrightarrow> length (retained since (prune instant xs)) \<le> limit"
    and live_kept: "distinct (map fst xs) \<Longrightarrow> (k, v) \<in> set xs \<Longrightarrow> since v = None \<Longrightarrow> (k, v) \<in> set (prune instant xs)"
    and nothing_new: "set (prune instant xs) \<subseteq> set xs"
    and keys_distinct: "distinct (map fst xs) \<Longrightarrow> distinct (map fst (prune instant xs))"
begin

lemma lookup_kept:
  assumes "distinct (map fst xs)" "map_of xs k = Some v" "since v = None"
  shows "map_of (prune instant xs) k = Some v"
  using live_kept [OF assms(1) map_of_SomeD [OF assms(2)] assms(3)] keys_distinct [OF assms(1)]
  by (simp add: map_of_eq_Some_iff)

lemma lookup_old: "distinct (map fst xs) \<Longrightarrow> map_of (prune instant xs) k = Some v \<Longrightarrow> map_of xs k = Some v"
  using nothing_new [of instant xs] by (metis map_of_SomeD map_of_eq_Some_iff subsetD)

text \<open>A lookup that misses after pruning missed before or found an entry in retention.\<close>

lemma lookup_lost:
  "distinct (map fst xs) \<Longrightarrow> map_of (prune instant xs) k = None \<Longrightarrow> map_of xs k = Some v \<Longrightarrow> since v \<noteq> None"
  using lookup_kept by fastforce

lemma all_kept: "\<forall>(k, v)\<in>set xs. P k v \<Longrightarrow> \<forall>(k, v)\<in>set (prune instant xs). P k v"
  using nothing_new by blast

end

lemma prune_entries_policy: "retention_policy since limit (prune_entries since limit retention)"
  by unfold_locales (simp_all add: prune_bounded prune_keeps_live set_prune_entries distinct_prune)

end
