(* ===== verification/Session.thy ===== *)
theory Session
  imports Session_Output Process_Group Retention Errors Manifest
begin

text \<open>
  A Vivado session and the manager that owns it: \<open>src/src/session.rs\<close> and \<open>src/src/session/model.rs\<close>.
  \<open>session_data\<close> is the part of a session its clients see or reach; the record of its supervisor task,
  in \<open>Supervisor\<close>, extends it. An operation of the manager is one function per stretch between two
  suspensions; what it awaits (a history write, the caller) is an argument.

  Identifiers (\<open>Uuid::new_v4\<close>) are the numbers the manager has not issued yet, instants are
  milliseconds, and the completion channel of an input is the list \<open>answers\<close> of what was sent on it.
  Telemetry, tracing, the history records that are not critical and the diagnostics archive are left out.
\<close>

section \<open>Data\<close>

datatype termination_reason =
    ProcessExited | ClientRequested | HeartbeatTimeout | ServiceShutdown | OutputReadFailed
  | ProcessWaitFailed | ProcessStartFailed | InputWriteFailed | WorkflowClosed

fun reason_label :: "termination_reason \<Rightarrow> string" where
  "reason_label ProcessExited = ''process_exited''"
| "reason_label ClientRequested = ''client_requested''"
| "reason_label HeartbeatTimeout = ''heartbeat_timeout''"
| "reason_label ServiceShutdown = ''service_shutdown''"
| "reason_label OutputReadFailed = ''output_read_failed''"
| "reason_label ProcessWaitFailed = ''process_wait_failed''"
| "reason_label ProcessStartFailed = ''process_start_failed''"
| "reason_label InputWriteFailed = ''input_write_failed''"
| "reason_label WorkflowClosed = ''workflow_closed''"

record session_info =
  session_id :: nat
  si_project :: string
  si_status :: session_status
  started_at :: nat
  ended_at :: "nat option"
  exit_code :: "int option"
  termination_reason :: "termination_reason option"
  info_truncated :: bool
  cleanup_error :: "string option"

record stdin_input =
  in_id :: nat
  in_bytes :: string
  in_offset :: nat

record session_config =
  output_buffer_bytes :: nat
  stdin_max_bytes :: nat
  workflow_retention :: nat
  max_retained_workflows :: nat

text \<open>
  \<open>reserved\<close> are the calls of \<open>send_input\<close> that hold byte permits and have not queued their input yet;
  \<open>budget\<close> is the number of permits left. \<open>answers\<close> lists what those calls were answered, each with the
  input as it was then: \<open>in_offset\<close> is what \<open>record_completion\<close> reports as written.
\<close>

record session_data =
  vs_workflow :: "nat option"
  vs_pid :: int
  vs_info :: session_info
  vs_output :: output_buffer
  output_total :: nat
  evicted_total :: nat
  queue :: "stdin_input list"
  queue_closed :: bool
  budget :: nat
  reserved :: "(nat \<times> string) list"
  answers :: "(stdin_input \<times> unit res) list"
  stop_cancelled :: bool
  stop_reason :: "termination_reason option"
  vs_terminal :: bool
  retained_since :: "nat option"

definition max_vivado_args :: nat where
  "max_vivado_args = 128"

definition max_vivado_arg_bytes :: nat where
  "max_vivado_arg_bytes = 32 * 1024"

definition input_queue_length :: nat where
  "input_queue_length = 8"

section \<open>Arguments\<close>

definition bad_vivado_arg :: "string \<Rightarrow> bool" where
  "bad_vivado_arg arg =
     (let lower = to_ascii_lowercase arg in
      CHR 0x00 \<in> set arg \<or> lower \<in> {''-mode'', ''-gui'', ''-batch'', ''-tcl''} \<or> is_prefix ''-mode='' lower)"

definition validate_vivado_args :: "string list \<Rightarrow> unit res" where
  "validate_vivado_args args =
     (if length args > max_vivado_args \<or> sum_list (map length args) > max_vivado_arg_bytes
      then Inl (BadRequest ''Vivado arguments exceed the count or byte limit'')
      else if list_ex bad_vivado_arg args
      then Inl (BadRequest ''invalid Vivado argument; execution mode is owned by the server'')
      else Inr ())"

section \<open>The session\<close>

definition new_info :: "nat \<Rightarrow> string \<Rightarrow> nat \<Rightarrow> session_info" where
  "new_info i project instant =
     \<lparr>session_id = i, si_project = project, si_status = Running, started_at = instant, ended_at = None,
      exit_code = None, termination_reason = None, info_truncated = False, cleanup_error = None\<rparr>"

definition begin_retention :: "nat \<Rightarrow> 'z session_data_scheme \<Rightarrow> 'z session_data_scheme" where
  "begin_retention instant s =
     s\<lparr>retained_since := Some (case retained_since s of None \<Rightarrow> instant | Some t \<Rightarrow> t)\<rparr>"

text \<open>The first request fixes the reason; a terminal session takes none.\<close>

definition request_stop :: "termination_reason \<Rightarrow> 'z session_data_scheme \<Rightarrow> 'z session_data_scheme" where
  "request_stop reason s =
     s\<lparr>stop_reason := (if stop_reason s = None \<and> \<not> vs_terminal s then Some reason else stop_reason s),
       stop_cancelled := True\<rparr>"

definition session_reason :: "'z session_data_scheme \<Rightarrow> termination_reason" where
  "session_reason s = (case stop_reason s of None \<Rightarrow> ClientRequested | Some r \<Rightarrow> r)"

definition push_output :: "nat \<Rightarrow> string \<Rightarrow> 'z session_data_scheme \<Rightarrow> 'z session_data_scheme" where
  "push_output instant output s =
     (if output = [] then s
      else case push (int instant) output (vs_output s) of
        ((_, _, evicted), b) \<Rightarrow>
          s\<lparr>output_total := output_total s + length output, vs_output := b,
            evicted_total := evicted_total s + evicted\<rparr>)"

definition stopping :: "termination_reason \<Rightarrow> 'z session_data_scheme \<Rightarrow> 'z session_data_scheme" where
  "stopping reason s =
     s\<lparr>vs_info := (vs_info s)\<lparr>si_status := Stopping,
         termination_reason := Some (case termination_reason (vs_info s) of None \<Rightarrow> reason | Some r \<Rightarrow> r)\<rparr>\<rparr>"

fun final_status :: "termination_reason \<Rightarrow> session_status" where
  "final_status ProcessExited = Exited"
| "final_status ProcessStartFailed = Failed"
| "final_status ProcessWaitFailed = Failed"
| "final_status InputWriteFailed = Failed"
| "final_status OutputReadFailed = Failed"
| "final_status _ = Terminated"

definition finish :: "nat \<Rightarrow> termination_reason \<Rightarrow> int option \<Rightarrow> bool \<Rightarrow> 'z session_data_scheme \<Rightarrow> 'z session_data_scheme" where
  "finish instant reason result truncated s =
     s\<lparr>vs_info := (vs_info s)\<lparr>si_status := final_status reason, termination_reason := Some reason,
         exit_code := result, ended_at := Some instant, info_truncated := truncated, cleanup_error := None\<rparr>,
       vs_terminal := True\<rparr>"

section \<open>Input\<close>

text \<open>An input is answered once, and its permits go back when it is dropped.\<close>

definition answer_input :: "stdin_input \<Rightarrow> unit res \<Rightarrow> 'z session_data_scheme \<Rightarrow> 'z session_data_scheme" where
  "answer_input i result s =
     s\<lparr>answers := answers s @ [(i, result)], budget := budget s + length (in_bytes i)\<rparr>"

text \<open>
  The checks of \<open>send_input\<close> up to the acquisition of the permits. The result is \<open>None\<close> for an empty
  text, which only returns a snapshot.
\<close>

definition u32_max :: int where
  "u32_max = 2 ^ 32 - 1"

definition send_checks :: "'y session_config_scheme \<Rightarrow> string \<Rightarrow> 'z session_data_scheme \<Rightarrow> nat option res" where
  "send_checks cfg input s =
     (if stop_cancelled s \<or> si_status (vs_info s) \<noteq> Running then Inl SessionNotRunning
      else if length input > stdin_max_bytes cfg then Inl (BadRequest ''stdin exceeds stdin_max_bytes'')
      else if input = [] then Inr None
      else if int (length input) > u32_max then Inl (BadRequest ''stdin is too large'')
      else if length input > budget s then Inl (Capacity ''stdin queue byte budget is full'')
      else Inr (Some (length input)))"

definition send_reserve :: "'y session_config_scheme \<Rightarrow> nat \<Rightarrow> string \<Rightarrow> 'z session_data_scheme \<Rightarrow> 'z session_data_scheme" where
  "send_reserve cfg i input s =
     (case send_checks cfg input s of
        Inr (Some count) \<Rightarrow> s\<lparr>budget := budget s - count, reserved := (i, input) # reserved s\<rparr>
      | _ \<Rightarrow> s)"

text \<open>
  The rest of \<open>send_input\<close>, after the critical history write: the input is queued or answered at once.
\<close>

definition send_queue :: "unit res \<Rightarrow> nat \<Rightarrow> 'z session_data_scheme \<Rightarrow> 'z session_data_scheme" where
  "send_queue history i s =
     (case map_of (reserved s) i of
        None \<Rightarrow> s
      | Some input \<Rightarrow>
          let t = s\<lparr>reserved := filter (\<lambda>(j, _). j \<noteq> i) (reserved s)\<rparr>;
              x = \<lparr>in_id = i, in_bytes = input, in_offset = 0\<rparr> in
          case history of
            Inl e \<Rightarrow> answer_input x (Inl e) t
          | Inr _ \<Rightarrow>
              if queue_closed t then answer_input x (Inl SessionNotRunning) t
              else if length (queue t) \<ge> input_queue_length
              then answer_input x (Inl (Capacity ''stdin queue is full'')) t
              else t\<lparr>queue := queue t @ [x]\<rparr>)"

section \<open>Output\<close>

definition output_timeout :: "nat option \<Rightarrow> nat" where
  "output_timeout timeout_ms = min (case timeout_ms of None \<Rightarrow> 30000 | Some t \<Rightarrow> t) 60000"

text \<open>One round of the loop of \<open>read_output\<close>; it waits for the next change when the result is \<open>None\<close>.\<close>

definition read_output :: "nat \<Rightarrow> nat \<Rightarrow> nat \<Rightarrow> 'z session_data_scheme \<Rightarrow> output_response option" where
  "read_output cursor deadline instant s =
     (let response = (since cursor (si_status (vs_info s)) (vs_output s))
                       \<lparr>output_truncated := info_truncated (vs_info s)\<rparr> in
      if resp_chunks response \<noteq> [] \<or> is_terminal (resp_session response) \<or> instant \<ge> deadline
      then Some response else None)"

end
