(* ===== verification/Supervisor.thy ===== *)
theory Supervisor
  imports Session
begin

text \<open>
  The task that owns a session's process: \<open>src/src/session/supervisor.rs\<close>. \<open>run\<close> is \<open>prepare\<close>,
  \<open>spawned\<close>, the events of \<open>supervise\<close>, \<open>supervise_end\<close> and the manager's \<open>finished\<close>. The loop waits
  for one event at a time: \<open>enabled\<close> are the guards of the \<open>select!\<close> and \<open>sv_step\<close> its arms. What the
  kernel answers (wait, kill, \<open>/proc\<close>, the PTY) is part of the event. The clock is read once per event.
\<close>

section \<open>State\<close>

record stop_state =
  stop_why :: termination_reason
  stop_since :: nat
  term_sent :: bool
  last_kill :: "nat option"

text \<open>
  A task is \<open>Sealed\<close> between publishing the terminal session and releasing the manager's slot, and
  \<open>Abandoned\<close> when it ended without confirming that no process is left.
\<close>

datatype task_phase = Preparing | Spawning | Supervising | Sealed | TaskDone | Abandoned

text \<open>
  \<open>raised\<close> is whether the running step set the manager's degradation flag; \<open>pty_input\<close> is what the
  PTY has taken so far; \<open>reply\<close> is what was sent to the caller that created the session.
\<close>

record supervised = session_data +
  phase :: task_phase
  sv_args :: "string list"
  command :: "string list option"
  proc :: pty_process
  fd_open :: bool
  sv_stop :: "stop_state option"
  pending :: "stdin_input option"
  decoder :: string
  reader_done :: bool
  sv_truncated :: bool
  leader_exited :: bool
  reaped_at :: "nat option"
  sv_exit_code :: "int option"
  unclaimed :: bool
  startup_error :: "app_error option"
  reply :: "session_info res option"
  raised :: bool
  pty_input :: string

definition term_grace :: nat where
  "term_grace = 1000"

definition drain_grace :: nat where
  "drain_grace = 2000"

definition cleanup_deadline :: nat where
  "cleanup_deadline = 8000"

definition kill_interval :: nat where
  "kill_interval = 1000"

definition new_session :: "'y session_config_scheme \<Rightarrow> nat \<Rightarrow> nat option \<Rightarrow> string \<Rightarrow> string list \<Rightarrow> nat \<Rightarrow> supervised" where
  "new_session cfg i workflow project args instant =
     \<lparr>vs_workflow = workflow, vs_pid = 0, vs_info = new_info i project instant,
      vs_output = buffer_new (output_buffer_bytes cfg), output_total = 0, evicted_total = 0,
      queue = [], queue_closed = False, budget = stdin_max_bytes cfg, reserved = [], answers = [],
      stop_cancelled = False, stop_reason = None, vs_terminal = False, retained_since = None,
      phase = Preparing, sv_args = args, command = None,
      proc = \<lparr>child = False, identity_owned = False\<rparr>, fd_open = False, sv_stop = None, pending = None,
      decoder = [], reader_done = False, sv_truncated = False, leader_exited = False, reaped_at = None,
      sv_exit_code = None, unclaimed = False, startup_error = None, reply = None, raised = False,
      pty_input = []\<rparr>"

definition stop_new :: "termination_reason \<Rightarrow> nat \<Rightarrow> stop_state" where
  "stop_new reason instant = \<lparr>stop_why = reason, stop_since = instant, term_sent = False, last_kill = None\<rparr>"

definition report_cleanup_error :: "string \<Rightarrow> 'z supervised_scheme \<Rightarrow> 'z supervised_scheme" where
  "report_cleanup_error e s =
     s\<lparr>raised := True, vs_info := (vs_info s)\<lparr>cleanup_error :=
         Some (case cleanup_error (vs_info s) of None \<Rightarrow> e | Some first \<Rightarrow> first)\<rparr>\<rparr>"

fun reject_all :: "stdin_input list \<Rightarrow> 'z supervised_scheme \<Rightarrow> 'z supervised_scheme" where
  "reject_all [] s = s"
| "reject_all (i # is) s = reject_all is (answer_input i (Inl SessionNotRunning) s)"

definition reject_inputs :: "'z supervised_scheme \<Rightarrow> 'z supervised_scheme" where
  "reject_inputs s =
     (let waiting = (case pending s of None \<Rightarrow> [] | Some i \<Rightarrow> [i]) @ queue s in
      reject_all waiting (s\<lparr>queue_closed := True, pending := None, queue := []\<rparr>))"

section \<open>A tick\<close>

type_synonym proc_scan = "string + (string + string \<times> (stat_error + string)) list"

record tick_env =
  te_wait :: "errno + bool"
  te_term :: "errno + unit"
  te_kill :: "errno + unit"
  te_scan :: proc_scan
  te_final :: "errno + unit"
  te_rescan :: proc_scan
  te_reap :: "errno + nat"

definition inspect_group :: "string \<Rightarrow> string \<Rightarrow> int \<Rightarrow> proc_scan \<Rightarrow> string + bool" where
  "inspect_group what failed pgid scan =
     (case scan of
        Inl e \<Rightarrow> Inl (failed @ e)
      | Inr table \<Rightarrow> (case group_has_live_members pgid table of Inl e \<Rightarrow> Inl (what @ e) | Inr b \<Rightarrow> Inr b))"

definition drain_tick :: "nat \<Rightarrow> 'z supervised_scheme \<Rightarrow> 'z supervised_scheme" where
  "drain_tick instant s =
     (case reaped_at s of
        None \<Rightarrow> s
      | Some reaped \<Rightarrow>
          if \<not> reader_done s \<and> instant - reaped \<ge> drain_grace
          then s\<lparr>sv_truncated := True, reader_done := True, fd_open := False\<rparr> else s)"

definition observe_tick :: "nat \<Rightarrow> tick_env \<Rightarrow> 'z supervised_scheme \<Rightarrow> 'z supervised_scheme" where
  "observe_tick instant env s =
     (if leader_exited s then s
      else case observe_exit (te_wait env) (proc s) of (r, p) \<Rightarrow>
        let s = s\<lparr>proc := p\<rparr> in
        case r of
          Inr True \<Rightarrow>
            let s = s\<lparr>leader_exited := True\<rparr> in
            if sv_stop s = None
            then reject_inputs (stopping ProcessExited (s\<lparr>sv_stop := Some (stop_new ProcessExited instant)\<rparr>))
            else s
        | Inr False \<Rightarrow> s
        | Inl e \<Rightarrow> report_cleanup_error (''cannot observe Vivado exit: '' @ e) (request_stop ProcessWaitFailed s))"

definition term_tick :: "tick_env \<Rightarrow> stop_state \<Rightarrow> 'z supervised_scheme \<Rightarrow> 'z supervised_scheme" where
  "term_tick env st s =
     (if term_sent st then s
      else case signal_group (te_term env) (proc s) of
        Inr _ \<Rightarrow> s\<lparr>sv_stop := Some (st\<lparr>term_sent := True\<rparr>)\<rparr>
      | Inl e \<Rightarrow> report_cleanup_error (''cannot terminate Vivado group: '' @ e) s)"

definition kill_due :: "nat \<Rightarrow> stop_state \<Rightarrow> bool" where
  "kill_due instant st \<longleftrightarrow> instant - stop_since st \<ge> term_grace \<and>
     (case last_kill st of None \<Rightarrow> True | Some t \<Rightarrow> instant - t \<ge> kill_interval)"

definition kill_tick :: "nat \<Rightarrow> tick_env \<Rightarrow> 'z supervised_scheme \<Rightarrow> 'z supervised_scheme" where
  "kill_tick instant env s =
     (case sv_stop s of
        None \<Rightarrow> s
      | Some st \<Rightarrow>
          if kill_due instant st
          then (let s = s\<lparr>sv_stop := Some (st\<lparr>last_kill := Some instant\<rparr>)\<rparr> in
                case signal_group (te_kill env) (proc s) of
                  Inr _ \<Rightarrow> s
                | Inl e \<Rightarrow> report_cleanup_error (''cannot kill Vivado group: '' @ e) s)
          else s)"

definition deadline_tick :: "nat \<Rightarrow> stop_state \<Rightarrow> 'z supervised_scheme \<Rightarrow> 'z supervised_scheme" where
  "deadline_tick instant st s =
     (if instant - stop_since st \<ge> cleanup_deadline
      then report_cleanup_error ''Vivado group death remains unconfirmed; workflow ownership is retained'' s
      else s)"

definition stop_tick :: "nat \<Rightarrow> tick_env \<Rightarrow> 'z supervised_scheme \<Rightarrow> 'z supervised_scheme" where
  "stop_tick instant env s =
     (case sv_stop s of
        None \<Rightarrow> s
      | Some st \<Rightarrow> deadline_tick instant st (kill_tick instant env (term_tick env st s)))"

text \<open>
  The leader has exited and its group was asked to stop: the group is scanned, killed and scanned again
  before the leader is reaped.
\<close>

definition reap_tick :: "nat \<Rightarrow> tick_env \<Rightarrow> 'z supervised_scheme \<Rightarrow> 'z supervised_scheme" where
  "reap_tick instant env s =
     (case reap_process (te_reap env) (proc s) of
        (Inr exit, p) \<Rightarrow> s\<lparr>proc := p, sv_exit_code := Some exit, reaped_at := Some instant\<rparr>
      | (Inl e, p) \<Rightarrow> report_cleanup_error (''cannot reap Vivado: '' @ e) (s\<lparr>proc := p\<rparr>))"

definition confirm_tick :: "nat \<Rightarrow> tick_env \<Rightarrow> 'z supervised_scheme \<Rightarrow> 'z supervised_scheme" where
  "confirm_tick instant env s =
     (case signal_group (te_final env) (proc s) of
        Inl e \<Rightarrow> report_cleanup_error (''cannot finalize Vivado group cleanup: '' @ e) s
      | Inr _ \<Rightarrow>
          (case inspect_group ''cannot confirm Vivado group cleanup: '' ''process group confirmation failed: ''
                  (vs_pid s) (te_rescan env) of
             Inl e \<Rightarrow> report_cleanup_error e s
           | Inr True \<Rightarrow> s
           | Inr False \<Rightarrow> reap_tick instant env s))"

definition group_stopping :: "'z supervised_scheme \<Rightarrow> bool" where
  "group_stopping s \<longleftrightarrow> leader_exited s \<and> (case sv_stop s of None \<Rightarrow> False | Some st \<Rightarrow> term_sent st)"

definition finalize_tick :: "nat \<Rightarrow> tick_env \<Rightarrow> 'z supervised_scheme \<Rightarrow> 'z supervised_scheme" where
  "finalize_tick instant env s =
     (if group_stopping s
      then case inspect_group ''cannot inspect Vivado process group: '' ''process group inspection failed: ''
                  (vs_pid s) (te_scan env) of
             Inl e \<Rightarrow> report_cleanup_error e s
           | Inr True \<Rightarrow> s
           | Inr False \<Rightarrow> confirm_tick instant env s
      else s)"

definition tick :: "nat \<Rightarrow> tick_env \<Rightarrow> 'z supervised_scheme \<Rightarrow> 'z supervised_scheme" where
  "tick instant env s =
     (if reaped_at s \<noteq> None then drain_tick instant s
      else finalize_tick instant env (stop_tick instant env (observe_tick instant env s)))"

section \<open>The loop\<close>

datatype sv_event = EvStop | EvTick tick_env | EvInput | EvRead "string + string" | EvWritten "string + nat"

definition loop_over :: "'z supervised_scheme \<Rightarrow> bool" where
  "loop_over s \<longleftrightarrow> reaped_at s \<noteq> None \<and> reader_done s"

text \<open>The cancellation is polled first, so no other event is taken while it is unhandled.\<close>

definition stop_waiting :: "'z supervised_scheme \<Rightarrow> bool" where
  "stop_waiting s \<longleftrightarrow> stop_cancelled s \<and> sv_stop s = None"

fun event_ready :: "sv_event \<Rightarrow> 'z supervised_scheme \<Rightarrow> bool" where
  "event_ready EvStop s = stop_waiting s"
| "event_ready (EvTick _) s = (\<not> stop_waiting s)"
| "event_ready EvInput s =
     (\<not> stop_waiting s \<and> sv_stop s = None \<and> pending s = None \<and> \<not> leader_exited s \<and> (queue s \<noteq> [] \<or> queue_closed s))"
| "event_ready (EvWritten r) s =
     (\<not> stop_waiting s \<and> fd_open s \<and> reaped_at s = None \<and>
      (case pending s of None \<Rightarrow> False
       | Some i \<Rightarrow> (case r of Inl _ \<Rightarrow> True | Inr n \<Rightarrow> 0 < n \<and> n \<le> min 4096 (length (in_bytes i) - in_offset i))))"
| "event_ready (EvRead r) s =
     (\<not> stop_waiting s \<and> \<not> reader_done s \<and> (case r of Inl _ \<Rightarrow> True | Inr bs \<Rightarrow> length bs \<le> 4096))"

definition enabled :: "sv_event \<Rightarrow> 'z supervised_scheme \<Rightarrow> bool" where
  "enabled e s \<longleftrightarrow> phase s = Supervising \<and> \<not> loop_over s \<and> event_ready e s"

definition stop_event :: "nat \<Rightarrow> 'z supervised_scheme \<Rightarrow> 'z supervised_scheme" where
  "stop_event instant s =
     reject_inputs (stopping (session_reason s) (s\<lparr>sv_stop := Some (stop_new (session_reason s) instant)\<rparr>))"

definition input_event :: "'z supervised_scheme \<Rightarrow> 'z supervised_scheme" where
  "input_event s =
     (case queue s of
        i # rest \<Rightarrow> s\<lparr>pending := Some i, queue := rest\<rparr>
      | [] \<Rightarrow> request_stop ServiceShutdown s)"

definition read_event :: "nat \<Rightarrow> string + string \<Rightarrow> 'z supervised_scheme \<Rightarrow> 'z supervised_scheme" where
  "read_event instant r s =
     (case r of
        Inr bs \<Rightarrow>
          if bs = [] then s\<lparr>reader_done := True\<rparr>
          else (case decode_push (decoder s) bs of (out, rest) \<Rightarrow> push_output instant out (s\<lparr>decoder := rest\<rparr>))
      | Inl _ \<Rightarrow>
          let s = request_stop OutputReadFailed (s\<lparr>reader_done := True, sv_truncated := True\<rparr>) in
          case sv_stop s of
            None \<Rightarrow> s
          | Some st \<Rightarrow>
              if stop_why st = ProcessExited then s\<lparr>sv_stop := Some (st\<lparr>stop_why := OutputReadFailed\<rparr>)\<rparr> else s)"

definition written_event :: "string + nat \<Rightarrow> 'z supervised_scheme \<Rightarrow> 'z supervised_scheme" where
  "written_event r s =
     (case pending s of
        None \<Rightarrow> s
      | Some i \<Rightarrow>
          (case r of
             Inr n \<Rightarrow>
               let i' = i\<lparr>in_offset := in_offset i + n\<rparr>;
                   s = s\<lparr>pty_input := pty_input s @ take n (drop (in_offset i) (in_bytes i))\<rparr> in
               if in_offset i' = length (in_bytes i)
               then answer_input i' (Inr ()) (s\<lparr>pending := None\<rparr>)
               else s\<lparr>pending := Some i'\<rparr>
           | Inl e \<Rightarrow>
               request_stop InputWriteFailed
                 (answer_input i (Inl (Internal (''PTY input failed: '' @ e)))
                    (s\<lparr>pending := None\<rparr>))))"

fun sv_step :: "nat \<Rightarrow> sv_event \<Rightarrow> 'z supervised_scheme \<Rightarrow> 'z supervised_scheme" where
  "sv_step instant EvStop s = stop_event instant s"
| "sv_step instant (EvTick env) s = tick instant env s"
| "sv_step instant EvInput s = input_event s"
| "sv_step instant (EvRead r) s = read_event instant r s"
| "sv_step instant (EvWritten r) s = written_event r s"

section \<open>Start and end\<close>

text \<open>Every way of finishing without a process: the terminal session and its retention.\<close>

definition seal :: "nat \<Rightarrow> termination_reason \<Rightarrow> app_error \<Rightarrow> 'z supervised_scheme \<Rightarrow> 'z supervised_scheme" where
  "seal instant reason e s =
     (begin_retention instant (finish instant reason None False s))\<lparr>phase := Sealed, reply := Some (Inl e)\<rparr>"

text \<open>\<open>dir\<close> is the result of \<open>ensure_project_dir\<close>; \<open>caller_gone\<close> whether the creating call was dropped.\<close>

definition prepare :: "nat \<Rightarrow> path res \<Rightarrow> bool \<Rightarrow> 'z supervised_scheme \<Rightarrow> 'z supervised_scheme" where
  "prepare instant dir caller_gone s =
     (case dir of
        Inl e \<Rightarrow> seal instant ProcessStartFailed e s
      | Inr _ \<Rightarrow>
          if caller_gone \<or> stop_cancelled s
          then seal instant (if stop_cancelled s then session_reason s else ClientRequested) SessionNotRunning s
          else s\<lparr>phase := Spawning, command := Some (vivado_command (sv_args s))\<rparr>)"

datatype spawn_result = SpawnOk int "string + unit" | SpawnFailed string | SpawnLost string

definition spawned :: "nat \<Rightarrow> spawn_result \<Rightarrow> bool \<Rightarrow> 'z supervised_scheme \<Rightarrow> 'z supervised_scheme" where
  "spawned instant result caller_gone s =
     (case result of
        SpawnFailed e \<Rightarrow> seal instant ProcessStartFailed (Internal (''failed to start Vivado: '' @ e)) s
      | SpawnLost e \<Rightarrow>
          (reject_inputs (report_cleanup_error (''Vivado spawn task failed: '' @ e) (stopping ProcessStartFailed s)))
            \<lparr>phase := Abandoned, reply := Some (Inl (Internal ''Vivado startup ownership could not be confirmed''))\<rparr>
      | SpawnOk pid registered \<Rightarrow>
          let s = s\<lparr>vs_pid := pid, proc := spawned_process, phase := Supervising\<rparr> in
          case registered of
            Inl e \<Rightarrow>
              (request_stop OutputReadFailed s)
                \<lparr>startup_error := Some (Internal (''failed to register PTY: '' @ e)),
                 fd_open := False, reader_done := True, sv_truncated := True\<rparr>
          | Inr _ \<Rightarrow>
              let s = s\<lparr>fd_open := True, reader_done := False, sv_truncated := False\<rparr> in
              if caller_gone then request_stop ClientRequested (s\<lparr>unclaimed := True\<rparr>)
              else s\<lparr>reply := Some (Inr (vs_info s))\<rparr>)"

definition supervise_end :: "nat \<Rightarrow> 'z supervised_scheme \<Rightarrow> 'z supervised_scheme" where
  "supervise_end instant s =
     (let s = push_output instant (decode_finish (decoder s)) ((reject_inputs s)\<lparr>fd_open := False\<rparr>);
          reason = (case sv_stop s of None \<Rightarrow> ProcessExited | Some st \<Rightarrow> stop_why st);
          s = finish instant reason (sv_exit_code s) (sv_truncated s) s;
          s = (if unclaimed s \<or> startup_error s \<noteq> None then begin_retention instant s else s) in
      s\<lparr>phase := Sealed, decoder := [],
        reply := (case startup_error s of None \<Rightarrow> reply s | Some e \<Rightarrow> Some (Inl e))\<rparr>)"

text \<open>
  When \<open>run\<close> returns, the receiver is dropped: a call whose input it still holds, which can only be
  when no process was started, is told that the session is not running.
\<close>

definition run_return :: "'z supervised_scheme \<Rightarrow> 'z supervised_scheme" where
  "run_return s = (reject_inputs s)\<lparr>phase := TaskDone\<rparr>"

end
