(* ===== verification/Session_Manager.thy ===== *)
theory Session_Manager
  imports Supervisor
begin

text \<open>
  \<open>SessionManager\<close> of \<open>src/src/session.rs\<close>: the registry of sessions with the one active slot, the
  operations of its clients and the transition system they form with the supervisor tasks.
\<close>

record session_manager =
  vsessions :: "(nat \<times> supervised) list"
  active :: "nat option"
  shutting_down :: bool
  degraded :: bool
  clock_ms :: nat
  next_uuid :: nat

definition manager_new :: session_manager where
  "manager_new = \<lparr>vsessions = [], active = None, shutting_down = False, degraded = False, clock_ms = 0, next_uuid = 0\<rparr>"

section \<open>Registry\<close>

definition prune_sessions :: "'y session_config_scheme \<Rightarrow> nat \<Rightarrow> (nat \<times> supervised) list \<Rightarrow> (nat \<times> supervised) list" where
  "prune_sessions cfg = prune_entries retained_since (max_retained_workflows cfg) (workflow_retention cfg)"

definition prune :: "'y session_config_scheme \<Rightarrow> 'z session_manager_scheme \<Rightarrow> 'z session_manager_scheme" where
  "prune cfg m = m\<lparr>vsessions := prune_sessions cfg (clock_ms m) (vsessions m)\<rparr>"

text \<open>\<open>SessionManager::session\<close>: every lookup prunes first.\<close>

definition lookup_session :: "'y session_config_scheme \<Rightarrow> nat \<Rightarrow> 'z session_manager_scheme \<Rightarrow>
    supervised res \<times> 'z session_manager_scheme" where
  "lookup_session cfg i m = (let m = prune cfg m in (ok_or (map_of (vsessions m) i) SessionNotFound, m))"

definition on_session :: "nat \<Rightarrow> (supervised \<Rightarrow> supervised) \<Rightarrow> 'z session_manager_scheme \<Rightarrow> 'z session_manager_scheme" where
  "on_session i f m = m\<lparr>vsessions := map (\<lambda>(j, s). if j = i then (j, f s) else (j, s)) (vsessions m)\<rparr>"

text \<open>A step of a session's task, which may set the manager's flag.\<close>

definition on_task :: "nat \<Rightarrow> (supervised \<Rightarrow> supervised) \<Rightarrow> 'z session_manager_scheme \<Rightarrow> 'z session_manager_scheme" where
  "on_task i f m =
     (case map_of (vsessions m) i of
        None \<Rightarrow> m
      | Some s \<Rightarrow>
          let t = f (s\<lparr>raised := False\<rparr>) in
          (on_session i (\<lambda>_. t) m)\<lparr>degraded := (degraded m \<or> raised t)\<rparr>)"

definition finished :: "'y session_config_scheme \<Rightarrow> nat \<Rightarrow> 'z session_manager_scheme \<Rightarrow> 'z session_manager_scheme" where
  "finished cfg i m =
     prune cfg (m\<lparr>active := (if active m = Some i then None else active m), degraded := False\<rparr>)"

section \<open>Operations\<close>

text \<open>
  \<open>create_session_with_workflow\<close> up to the point where it waits for the supervisor's reply. \<open>history\<close> is
  the result of the critical write that precedes the registration.
\<close>

definition register_session :: "'y session_config_scheme \<Rightarrow> nat \<Rightarrow> nat option \<Rightarrow> string \<Rightarrow> string list \<Rightarrow>
    'z session_manager_scheme \<Rightarrow> nat res \<times> 'z session_manager_scheme" where
  "register_session cfg i workflow project args m =
     (let m = prune cfg m in
      if shutting_down m \<or> degraded m
      then (Inl (Capacity ''session service is stopping or requires cleanup''), m)
      else if active m \<noteq> None then (Inl (Capacity ''a Vivado session is already active''), m)
      else (Inr i, m\<lparr>active := Some i,
              vsessions := (i, new_session cfg i workflow project args (clock_ms m)) # vsessions m\<rparr>))"

definition create_session :: "'y session_config_scheme \<Rightarrow> nat option \<Rightarrow> string \<Rightarrow> string list \<Rightarrow> unit res \<Rightarrow>
    'z session_manager_scheme \<Rightarrow> nat res \<times> 'z session_manager_scheme" where
  "create_session cfg workflow project args history m =
     (case validate_vivado_args args of
        Inl e \<Rightarrow> (Inl e, m)
      | Inr _ \<Rightarrow>
          let i = next_uuid m; m = m\<lparr>next_uuid := Suc i\<rparr> in
          case history of
            Inl e \<Rightarrow> (Inl e, m)
          | Inr _ \<Rightarrow> register_session cfg i workflow project args m)"

definition get_session :: "'y session_config_scheme \<Rightarrow> nat \<Rightarrow> 'z session_manager_scheme \<Rightarrow>
    session_info res \<times> 'z session_manager_scheme" where
  "get_session cfg i m = (case lookup_session cfg i m of (r, m) \<Rightarrow> (andThen r (\<lambda>s. Inr (vs_info s)), m))"

definition release_session :: "'y session_config_scheme \<Rightarrow> nat \<Rightarrow> 'z session_manager_scheme \<Rightarrow>
    unit res \<times> 'z session_manager_scheme" where
  "release_session cfg i m =
     (case lookup_session cfg i m of
        (Inl e, m) \<Rightarrow> (Inl e, m)
      | (Inr s, m) \<Rightarrow>
          if \<not> vs_terminal s then (Inl SessionNotRunning, m)
          else (Inr (), prune cfg (on_session i (begin_retention (clock_ms m)) m)))"

text \<open>The two halves of \<open>send_input\<close>, before and after the critical history write.\<close>

definition send_input_begin :: "'y session_config_scheme \<Rightarrow> nat \<Rightarrow> string \<Rightarrow> 'z session_manager_scheme \<Rightarrow>
    nat option res \<times> 'z session_manager_scheme" where
  "send_input_begin cfg i input m =
     (case lookup_session cfg i m of
        (Inl e, m) \<Rightarrow> (Inl e, m)
      | (Inr s, m) \<Rightarrow>
          (case send_checks cfg input s of
             Inl e \<Rightarrow> (Inl e, m)
           | Inr None \<Rightarrow> (Inr None, m)
           | Inr (Some _) \<Rightarrow>
               let n = next_uuid m in
               (Inr (Some n), on_session i (send_reserve cfg n input) (m\<lparr>next_uuid := Suc n\<rparr>))))"

definition send_input_queue :: "nat \<Rightarrow> unit res \<Rightarrow> nat \<Rightarrow> 'z session_manager_scheme \<Rightarrow> 'z session_manager_scheme" where
  "send_input_queue i history n = on_session i (send_queue history n)"

text \<open>The request half of \<open>stop_session\<close>; it then waits at most ten seconds and returns a snapshot.\<close>

definition stop_session :: "'y session_config_scheme \<Rightarrow> nat \<Rightarrow> termination_reason \<Rightarrow> 'z session_manager_scheme \<Rightarrow>
    unit res \<times> 'z session_manager_scheme" where
  "stop_session cfg i reason m =
     (case lookup_session cfg i m of
        (Inl e, m) \<Rightarrow> (Inl e, m)
      | (Inr _, m) \<Rightarrow> (Inr (), on_session i (request_stop reason) m))"

definition shutdown_begin :: "'z session_manager_scheme \<Rightarrow> 'z session_manager_scheme" where
  "shutdown_begin m =
     m\<lparr>shutting_down := True,
       vsessions := map (\<lambda>(i, s). (i, if vs_terminal s then s else request_stop ServiceShutdown s)) (vsessions m)\<rparr>"

definition shutdown_deadline :: "bool \<Rightarrow> 'z session_manager_scheme \<Rightarrow> 'z session_manager_scheme" where
  "shutdown_deadline tasks_ended m = (if tasks_ended then m else m\<lparr>degraded := True\<rparr>)"

section \<open>Steps of the tasks\<close>

definition task_prepare :: "nat \<Rightarrow> path res \<Rightarrow> bool \<Rightarrow> 'z session_manager_scheme \<Rightarrow> 'z session_manager_scheme" where
  "task_prepare i dir gone m = on_task i (prepare (clock_ms m) dir gone) m"

definition task_spawned :: "nat \<Rightarrow> spawn_result \<Rightarrow> bool \<Rightarrow> 'z session_manager_scheme \<Rightarrow> 'z session_manager_scheme" where
  "task_spawned i r gone m = on_task i (spawned (clock_ms m) r gone) m"

definition task_event :: "nat \<Rightarrow> sv_event \<Rightarrow> 'z session_manager_scheme \<Rightarrow> 'z session_manager_scheme" where
  "task_event i e m = on_task i (sv_step (clock_ms m) e) m"

definition task_end :: "nat \<Rightarrow> 'z session_manager_scheme \<Rightarrow> 'z session_manager_scheme" where
  "task_end i m = on_task i (supervise_end (clock_ms m)) m"

definition task_finished :: "'y session_config_scheme \<Rightarrow> nat \<Rightarrow> 'z session_manager_scheme \<Rightarrow> 'z session_manager_scheme" where
  "task_finished cfg i m = finished cfg i (on_task i run_return m)"

section \<open>The transition system\<close>

text \<open>The task that holds the slot is past sealing; the registry may already have dropped its session.\<close>

definition sealed_task :: "nat \<Rightarrow> 'z session_manager_scheme \<Rightarrow> bool" where
  "sealed_task i m = (case map_of (vsessions m) i of None \<Rightarrow> True | Some s \<Rightarrow> phase s = Sealed)"

text \<open>The reasons the callers of \<open>stop_session\<close> give.\<close>

definition external_reason :: "termination_reason \<Rightarrow> bool" where
  "external_reason r \<longleftrightarrow> r \<in> {ClientRequested, HeartbeatTimeout, ServiceShutdown, WorkflowClosed}"

inductive mstep :: "session_config \<Rightarrow> session_manager \<Rightarrow> session_manager \<Rightarrow> bool" for cfg where
  step_create: "mstep cfg m (snd (create_session cfg w p args h m))"
| step_lookup: "mstep cfg m (snd (get_session cfg i m))"
| step_release: "mstep cfg m (snd (release_session cfg i m))"
| step_send: "mstep cfg m (snd (send_input_begin cfg i input m))"
| step_queue: "mstep cfg m (send_input_queue i h n m)"
| step_stop: "external_reason r \<Longrightarrow> mstep cfg m (snd (stop_session cfg i r m))"
| step_shutdown: "mstep cfg m (shutdown_begin m)"
| step_deadline: "mstep cfg m (shutdown_deadline b m)"
| step_clock: "mstep cfg m (m\<lparr>clock_ms := clock_ms m + d\<rparr>)"
| step_prepare: "map_of (vsessions m) i = Some s \<Longrightarrow> phase s = Preparing \<Longrightarrow> mstep cfg m (task_prepare i dir gone m)"
| step_spawned: "map_of (vsessions m) i = Some s \<Longrightarrow> phase s = Spawning \<Longrightarrow> mstep cfg m (task_spawned i r gone m)"
| step_event: "map_of (vsessions m) i = Some s \<Longrightarrow> enabled e s \<Longrightarrow> mstep cfg m (task_event i e m)"
| step_end: "map_of (vsessions m) i = Some s \<Longrightarrow> phase s = Supervising \<Longrightarrow> loop_over s \<Longrightarrow> mstep cfg m (task_end i m)"
| step_finished: "active m = Some i \<Longrightarrow> sealed_task i m \<Longrightarrow> mstep cfg m (task_finished cfg i m)"

inductive msteps :: "session_config \<Rightarrow> session_manager \<Rightarrow> session_manager \<Rightarrow> bool" for cfg where
  msteps_refl: "msteps cfg m m"
| msteps_step: "msteps cfg m n \<Longrightarrow> mstep cfg n k \<Longrightarrow> msteps cfg m k"

definition sreachable :: "session_config \<Rightarrow> session_manager \<Rightarrow> bool" where
  "sreachable cfg m \<longleftrightarrow> msteps cfg manager_new m"

end
