(* ===== verification/Session_Facts.thy ===== *)
theory Session_Facts
  imports Session_Manager "HOL-Library.Multiset"
begin

text \<open>
  The invariants of one session and that every operation of \<open>Session\<close> and \<open>Supervisor\<close> keeps them:
  \<open>stdin_ok\<close> accounts for the permits and the bytes of its input, \<open>life_ok\<close> ties the phase of its task,
  its process and what its clients see.
\<close>

named_theorems stdin_keeps \<open>operations that keep the accounting of the input\<close>
named_theorems life_simps \<open>what the operations leave of a session\<close>

section \<open>Input\<close>

definition held :: "'z supervised_scheme \<Rightarrow> stdin_input list" where
  "held s = (case pending s of None \<Rightarrow> [] | Some i \<Rightarrow> [i]) @ queue s"

definition written_of :: "stdin_input \<Rightarrow> string" where
  "written_of i = take (in_offset i) (in_bytes i)"

definition answer_ok :: "stdin_input \<times> unit res \<Rightarrow> bool" where
  "answer_ok a \<longleftrightarrow> in_offset (fst a) \<le> length (in_bytes (fst a)) \<and>
     (snd a = Inr () \<longleftrightarrow> in_offset (fst a) = length (in_bytes (fst a)))"

definition input_ids :: "'z supervised_scheme \<Rightarrow> nat list" where
  "input_ids s = map fst (reserved s) @ map in_id (held s) @ map (in_id \<circ> fst) (answers s)"

definition stdin_ok :: "nat \<Rightarrow> 'z supervised_scheme \<Rightarrow> bool" where
  "stdin_ok limit s \<longleftrightarrow>
     budget s + sum_list (map (length \<circ> snd) (reserved s)) + sum_list (map (length \<circ> in_bytes) (held s)) = limit \<and>
     distinct (input_ids s) \<and>
     list_all (\<lambda>x. snd x \<noteq> []) (reserved s) \<and>
     list_all (\<lambda>i. in_offset i < length (in_bytes i)) (held s) \<and>
     list_all (\<lambda>i. in_offset i = 0) (queue s) \<and>
     list_all answer_ok (answers s) \<and>
     pty_input s = concat (map (written_of \<circ> fst) (answers s)) @
       (case pending s of None \<Rightarrow> [] | Some i \<Rightarrow> written_of i) \<and>
     (queue_closed s \<longrightarrow> held s = [])"

definition stdin_view :: "'z supervised_scheme \<Rightarrow>
    nat \<times> (nat \<times> string) list \<times> stdin_input option \<times> stdin_input list \<times> bool \<times> (stdin_input \<times> unit res) list \<times> string" where
  "stdin_view s = (budget s, reserved s, pending s, queue s, queue_closed s, answers s, pty_input s)"

lemma stdin_ok_view: "stdin_view s = stdin_view t \<Longrightarrow> stdin_ok n s = stdin_ok n t \<and> input_ids s = input_ids t"
  by (simp add: stdin_view_def stdin_ok_def held_def input_ids_def)

lemma view_updates [simp]:
  "stdin_view (s\<lparr>proc := p\<rparr>) = stdin_view s" "stdin_view (s\<lparr>sv_stop := x\<rparr>) = stdin_view s"
  "stdin_view (s\<lparr>leader_exited := b\<rparr>) = stdin_view s" "stdin_view (s\<lparr>reader_done := b\<rparr>) = stdin_view s"
  "stdin_view (s\<lparr>sv_truncated := b\<rparr>) = stdin_view s" "stdin_view (s\<lparr>fd_open := b\<rparr>) = stdin_view s"
  "stdin_view (s\<lparr>decoder := d\<rparr>) = stdin_view s" "stdin_view (s\<lparr>reaped_at := x'\<rparr>) = stdin_view s"
  "stdin_view (s\<lparr>sv_exit_code := c\<rparr>) = stdin_view s" "stdin_view (s\<lparr>phase := ph\<rparr>) = stdin_view s"
  "stdin_view (s\<lparr>reply := r\<rparr>) = stdin_view s" "stdin_view (s\<lparr>command := cmd\<rparr>) = stdin_view s"
  "stdin_view (s\<lparr>vs_pid := pid\<rparr>) = stdin_view s" "stdin_view (s\<lparr>unclaimed := b\<rparr>) = stdin_view s"
  "stdin_view (s\<lparr>startup_error := er\<rparr>) = stdin_view s" "stdin_view (s\<lparr>raised := b\<rparr>) = stdin_view s"
  "stdin_view (s\<lparr>vs_info := i\<rparr>) = stdin_view s" "stdin_view (s\<lparr>stop_reason := rs\<rparr>) = stdin_view s"
  "stdin_view (s\<lparr>retained_since := x'\<rparr>) = stdin_view s"
  by (simp_all add: stdin_view_def)

lemma view_ops [simp]:
  "stdin_view (report_cleanup_error e s) = stdin_view s" "stdin_view (request_stop r s) = stdin_view s"
  "stdin_view (stopping r s) = stdin_view s" "stdin_view (push_output t out s) = stdin_view s"
  "stdin_view (finish t r x tr s) = stdin_view s" "stdin_view (begin_retention t s) = stdin_view s"
  "stdin_view (drain_tick t s) = stdin_view s" "stdin_view (seal t r er s) = stdin_view s"
  by (simp_all add: stdin_view_def report_cleanup_error_def request_stop_def stopping_def push_output_def
      finish_def begin_retention_def drain_tick_def seal_def split: prod.splits option.splits)

lemma view_ticks [simp]:
  "stdin_view (term_tick env st s) = stdin_view s" "stdin_view (kill_tick t env s) = stdin_view s"
  "stdin_view (deadline_tick t st s) = stdin_view s" "stdin_view (reap_tick t env s) = stdin_view s"
  by (simp_all add: term_tick_def kill_tick_def deadline_tick_def reap_tick_def Let_def split: sum.splits option.splits prod.splits)

lemma view_stop_tick [simp]: "stdin_view (stop_tick t env s) = stdin_view s"
  by (simp add: stop_tick_def split: option.splits)

lemma view_finalize [simp]: "stdin_view (finalize_tick t env s) = stdin_view s"
  by (simp add: finalize_tick_def confirm_tick_def split: sum.splits bool.splits)

text \<open>Answering what is held moves it from one side of every account to the other.\<close>

lemma reject_all_fields:
  "reject_all is s = s\<lparr>answers := answers s @ map (\<lambda>i. (i, Inl SessionNotRunning)) is,
     budget := budget s + sum_list (map (length \<circ> in_bytes) is)\<rparr>"
  by (induction "is" arbitrary: s) (simp_all add: answer_input_def)

lemma reject_inputs_eq:
  "reject_inputs s = s\<lparr>queue_closed := True, pending := None, queue := [],
     answers := answers s @ map (\<lambda>i. (i, Inl SessionNotRunning)) (held s),
     budget := budget s + sum_list (map (length \<circ> in_bytes) (held s))\<rparr>"
  by (simp add: reject_inputs_def reject_all_fields held_def Let_def)

lemma reject_fields [simp]:
  "reserved (reject_inputs s) = reserved s" "held (reject_inputs s) = []" "queue (reject_inputs s) = []"
  "pending (reject_inputs s) = None" "queue_closed (reject_inputs s)" "pty_input (reject_inputs s) = pty_input s"
  "answers (reject_inputs s) = answers s @ map (\<lambda>i. (i, Inl SessionNotRunning)) (held s)"
  "budget (reject_inputs s) = budget s + sum_list (map (length \<circ> in_bytes) (held s))"
  by (simp_all add: reject_inputs_eq held_def)

lemma written_unstarted: "list_all (\<lambda>i. in_offset i = 0) q \<Longrightarrow> concat (map written_of q) = []"
  by (induction q) (simp_all add: written_of_def)

lemma stdin_ok_reject [stdin_keeps]:
  assumes ok: "stdin_ok n s" shows "stdin_ok n (reject_inputs s)"
proof -
  have a: "list_all answer_ok (map (\<lambda>i. (i, Inl SessionNotRunning)) (held s))"
    using ok by (auto simp: stdin_ok_def list_all_iff answer_ok_def)
  have w: "concat (map written_of (held s)) = (case pending s of None \<Rightarrow> [] | Some i \<Rightarrow> written_of i)"
    using ok written_unstarted [of "queue s"] by (simp add: stdin_ok_def held_def split: option.splits)
  have "mset (input_ids (reject_inputs s)) = mset (input_ids s)"
    by (simp add: input_ids_def comp_def)
  from mset_eq_imp_distinct_iff [OF this] have d: "distinct (input_ids (reject_inputs s))"
    using ok by (simp add: stdin_ok_def)
  show ?thesis
    using ok a by (simp add: stdin_ok_def d comp_def w)
qed

lemma input_ids_reject: "set (input_ids (reject_inputs s)) = set (input_ids s)"
  by (auto simp: input_ids_def reject_inputs_eq held_def split: option.splits)

text \<open>\<open>keeps_stdin\<close>: the operation may answer and move inputs, but no account changes and no identifier appears.\<close>

definition keeps_stdin :: "'z supervised_scheme \<Rightarrow> 'z supervised_scheme \<Rightarrow> bool" where
  "keeps_stdin s t \<longleftrightarrow> (\<forall>n. stdin_ok n s \<longrightarrow> stdin_ok n t) \<and> set (input_ids t) \<subseteq> set (input_ids s)"

lemma keeps_stdin_view: "stdin_view t = stdin_view s \<Longrightarrow> keeps_stdin s t"
  unfolding keeps_stdin_def using stdin_ok_view [of t s] by auto

lemma keeps_stdin_trans: "keeps_stdin s t \<Longrightarrow> keeps_stdin t u \<Longrightarrow> keeps_stdin s u"
  by (auto simp: keeps_stdin_def)

lemma keeps_stdin_reject: "keeps_stdin s (reject_inputs s)"
  by (simp add: keeps_stdin_def input_ids_reject stdin_ok_reject)

lemma keeps_stdin_rejecting: "stdin_view t = stdin_view s \<Longrightarrow> keeps_stdin s (reject_inputs t)"
  by (rule keeps_stdin_trans [OF keeps_stdin_view keeps_stdin_reject])

lemma keeps_stdin_then: "keeps_stdin s t \<Longrightarrow> stdin_view u = stdin_view t \<Longrightarrow> keeps_stdin s u"
  by (rule keeps_stdin_trans [OF _ keeps_stdin_view])

lemma keeps_stdin_stop: "keeps_stdin s (stop_event t s)"
  by (simp add: stop_event_def keeps_stdin_rejecting)

lemma keeps_stdin_observe: "keeps_stdin s (observe_tick t env s)"
  by (auto simp: observe_tick_def Let_def keeps_stdin_rejecting keeps_stdin_view split: prod.splits sum.splits bool.splits)

lemma keeps_stdin_tick: "keeps_stdin s (tick t env s)"
proof (cases "reaped_at s")
  case None
  show ?thesis by (rule keeps_stdin_then [OF keeps_stdin_observe]) (simp add: tick_def None)
qed (simp add: tick_def keeps_stdin_view)

lemma keeps_stdin_input: "keeps_stdin s (input_event s)" if "pending s = None"
proof (cases "queue s")
  case (Cons i q)
  have "stdin_ok n (input_event s)" if "stdin_ok n s" for n
    using that Cons \<open>pending s = None\<close> by (auto simp: input_event_def stdin_ok_def held_def input_ids_def written_of_def)
  then show ?thesis using Cons \<open>pending s = None\<close>
    by (auto simp: keeps_stdin_def input_event_def input_ids_def held_def)
qed (simp add: input_event_def keeps_stdin_view)

lemma keeps_stdin_read: "keeps_stdin s (read_event t r s)"
  by (rule keeps_stdin_view) (auto simp: read_event_def Let_def split: sum.splits prod.splits option.splits)

lemma written_more:
  "take k bs @ take n (drop k bs) = take (k + n) bs"
  by (simp add: take_add)

lemma keeps_stdin_written:
  assumes p: "pending s = Some i" and n: "\<And>n. r = Inr n \<Longrightarrow> n \<le> length (in_bytes i) - in_offset i"
  shows "keeps_stdin s (written_event r s)"
proof -
  have ids: "set (input_ids (written_event r s)) \<subseteq> set (input_ids s)"
    using p by (auto simp: written_event_def Let_def input_ids_def held_def answer_input_def request_stop_def split: sum.splits)
  have "stdin_ok k (written_event r s)" if ok: "stdin_ok k s" for k
  proof (cases r)
    case (Inl e)
    with p ok show ?thesis
      by (auto simp: written_event_def Let_def stdin_ok_def input_ids_def held_def answer_input_def request_stop_def answer_ok_def)
  next
    case (Inr m)
    with n have "in_offset i + m \<le> length (in_bytes i)" using p ok by (auto simp: stdin_ok_def held_def)
    with Inr p ok show ?thesis
      by (auto simp: written_event_def Let_def stdin_ok_def input_ids_def held_def answer_input_def answer_ok_def written_of_def written_more)
  qed
  with ids show ?thesis by (simp add: keeps_stdin_def)
qed

lemma keeps_stdin_step: "enabled e s \<Longrightarrow> keeps_stdin s (sv_step t e s)"
proof (cases e)
  case (EvWritten r)
  assume en: "enabled e s"
  then obtain i where i: "pending s = Some i" by (auto simp: enabled_def EvWritten split: option.splits)
  have "keeps_stdin s (written_event r s)"
    by (rule keeps_stdin_written [OF i]) (use en i in \<open>auto simp: enabled_def EvWritten\<close>)
  then show ?thesis by (simp add: EvWritten)
qed (simp_all add: enabled_def keeps_stdin_stop keeps_stdin_tick keeps_stdin_input keeps_stdin_read)

lemma keeps_stdin_prepare: "keeps_stdin s (prepare t dir gone s)"
  by (rule keeps_stdin_view) (simp add: prepare_def split: sum.splits)

lemma keeps_stdin_spawned: "keeps_stdin s (spawned t r gone s)"
proof (cases r)
  case (SpawnLost e)
  have "keeps_stdin s (reject_inputs (report_cleanup_error (''Vivado spawn task failed: '' @ e) (stopping ProcessStartFailed s)))"
    by (rule keeps_stdin_rejecting) simp
  then show ?thesis by (rule keeps_stdin_then) (simp add: spawned_def SpawnLost)
qed (rule keeps_stdin_view, simp add: spawned_def Let_def split: sum.splits)+

lemma keeps_stdin_end: "keeps_stdin s (supervise_end t s)"
  by (rule keeps_stdin_then [OF keeps_stdin_reject]) (simp add: supervise_end_def Let_def)

lemma keeps_stdin_return: "keeps_stdin s (run_return s)"
  by (rule keeps_stdin_then [OF keeps_stdin_reject]) (simp add: run_return_def)

text \<open>The client's half: permits are reserved under a fresh identifier, then the input is queued or answered.\<close>

lemma stdin_ok_reserve:
  assumes "stdin_ok n s" "i \<notin> set (input_ids s)"
  shows "stdin_ok n (send_reserve cfg i input s)"
  using assms
  by (auto simp: send_reserve_def send_checks_def stdin_ok_def input_ids_def held_def split: option.splits if_splits)

lemma input_ids_reserve: "set (input_ids (send_reserve cfg i input s)) \<subseteq> insert i (set (input_ids s))"
  by (auto simp: send_reserve_def send_checks_def input_ids_def held_def split: option.splits if_splits)

lemma sum_list_remove:
  "distinct (map fst xs) \<Longrightarrow> map_of xs i = Some t \<Longrightarrow>
   sum_list (map (length \<circ> snd) xs) = length t + sum_list (map (length \<circ> snd) (filter (\<lambda>(j, _). j \<noteq> i) xs))"
proof (induction xs)
  case (Cons x xs)
  obtain j u where x: "x = (j, u)" by fastforce
  show ?case
  proof (cases "j = i")
    case True
    then have "filter (\<lambda>(j, _). j \<noteq> i) xs = xs" using Cons.prems(1) x
      by (auto simp: filter_id_conv image_iff)
    with True Cons.prems(2) x show ?thesis by simp
  qed (use Cons x in simp)
qed simp

text \<open>Taking a call out of \<open>reserved\<close>: what the accounts are until its input is placed.\<close>

definition unreserve :: "nat \<Rightarrow> 'z supervised_scheme \<Rightarrow> 'z supervised_scheme" where
  "unreserve i s = s\<lparr>reserved := filter (\<lambda>(j, _). j \<noteq> i) (reserved s)\<rparr>"

lemma unreserve_fields [simp]:
  "budget (unreserve i s) = budget s" "pending (unreserve i s) = pending s" "queue (unreserve i s) = queue s"
  "queue_closed (unreserve i s) = queue_closed s" "answers (unreserve i s) = answers s"
  "pty_input (unreserve i s) = pty_input s" "held (unreserve i s) = held s"
  by (simp_all add: unreserve_def held_def)

lemma send_queue_cases:
  assumes "map_of (reserved s) i = Some input"
  obtains e where "send_queue h i s = answer_input \<lparr>in_id = i, in_bytes = input, in_offset = 0\<rparr> (Inl e) (unreserve i s)"
  | "\<not> queue_closed s" "send_queue h i s =
       (unreserve i s)\<lparr>queue := queue s @ [\<lparr>in_id = i, in_bytes = input, in_offset = 0\<rparr>]\<rparr>"
proof -
  let ?x = "\<lparr>in_id = i, in_bytes = input, in_offset = 0\<rparr>"
  have "send_queue h i s = (case h of Inl e \<Rightarrow> answer_input ?x (Inl e) (unreserve i s)
      | Inr _ \<Rightarrow> if queue_closed s then answer_input ?x (Inl SessionNotRunning) (unreserve i s)
               else if length (queue s) \<ge> input_queue_length
               then answer_input ?x (Inl (Capacity ''stdin queue is full'')) (unreserve i s)
               else (unreserve i s)\<lparr>queue := queue s @ [?x]\<rparr>)"
    using assms by (cases h) (simp_all add: send_queue_def Let_def unreserve_def)
  then show ?thesis using that by (cases h) (simp_all split: if_splits)
qed

lemma keeps_stdin_queue: "keeps_stdin s (send_queue h i s)"
proof (cases "map_of (reserved s) i")
  case (Some input)
  let ?x = "\<lparr>in_id = i, in_bytes = input, in_offset = 0\<rparr>"
  have i: "i \<in> fst ` set (reserved s)" using Some by (force dest: map_of_SomeD)
  have ids: "set (input_ids (send_queue h i s)) \<subseteq> set (input_ids s)"
    using Some i by (rule_tac send_queue_cases [OF Some, of h])
      (auto simp: unreserve_def input_ids_def held_def answer_input_def)
  have "stdin_ok n (send_queue h i s)" if ok: "stdin_ok n s" for n
  proof -
    have d: "distinct (map fst (reserved s))" using ok by (simp add: stdin_ok_def input_ids_def)
    have ne: "input \<noteq> []" using map_of_SomeD [OF Some] ok by (force simp: stdin_ok_def list_all_iff)
    have la: "list_all (\<lambda>x. snd x \<noteq> []) (reserved (unreserve i s))"
      using ok by (auto simp: stdin_ok_def list_all_iff unreserve_def)
    have b: "sum_list (map (length \<circ> snd) (reserved s)) =
        length input + sum_list (map (length \<circ> snd) (reserved (unreserve i s)))"
      unfolding unreserve_def using sum_list_remove [OF d Some] by simp
    have di: "distinct (i # input_ids (unreserve i s))"
      using ok i distinct_map_filter [OF d, of "\<lambda>(j, _). j \<noteq> i"]
      by (auto simp: stdin_ok_def input_ids_def unreserve_def held_def)
    show ?thesis
    proof (rule send_queue_cases [OF Some, of h])
      fix e assume "send_queue h i s = answer_input ?x (Inl e) (unreserve i s)"
      then show ?thesis using ok b ne la di
        by (auto simp: stdin_ok_def input_ids_def held_def answer_input_def answer_ok_def written_of_def)
    next
      assume "\<not> queue_closed s" "send_queue h i s = (unreserve i s)\<lparr>queue := queue s @ [?x]\<rparr>"
      then show ?thesis using ok b ne la di
        by (auto simp: stdin_ok_def input_ids_def held_def)
    qed
  qed
  with ids show ?thesis by (simp add: keeps_stdin_def)
qed (simp add: send_queue_def keeps_stdin_view)

end
