(* ===== verification/Session_Life.thy ===== *)
theory Session_Life
  imports Session_Facts
begin

text \<open>
  The life of a session: in every phase of its task, what is true of its process, of the reason it
  stops for and of what its clients are shown; and that no step of the task breaks it.
\<close>

definition shown_ok :: "'z supervised_scheme \<Rightarrow> bool" where
  "shown_ok s \<longleftrightarrow> (vs_terminal s \<longleftrightarrow> phase s \<in> {Sealed, TaskDone}) \<and>
     (is_terminal (si_status (vs_info s)) \<longleftrightarrow> vs_terminal s) \<and> (retained_since s \<noteq> None \<longrightarrow> vs_terminal s) \<and>
     (child (proc s) \<longleftrightarrow> phase s = Supervising \<and> reaped_at s = None) \<and>
     (stop_cancelled s \<and> \<not> vs_terminal s \<longrightarrow> stop_reason s \<noteq> None) \<and>
     stop_reason s \<noteq> Some ProcessExited"

definition fresh_ok :: "'z supervised_scheme \<Rightarrow> bool" where
  "fresh_ok s \<longleftrightarrow> sv_stop s = None \<and> \<not> leader_exited s \<and> reaped_at s = None \<and> sv_exit_code s = None \<and>
     \<not> queue_closed s \<and> pending s = None \<and> startup_error s = None \<and> \<not> unclaimed s \<and> cleanup_error (vs_info s) = None"

definition stop_ok :: "'z supervised_scheme \<Rightarrow> bool" where
  "stop_ok s \<longleftrightarrow> (sv_stop s = None \<longrightarrow> \<not> leader_exited s \<and> \<not> queue_closed s) \<and>
     (\<forall>st. sv_stop s = Some st \<longrightarrow>
        queue_closed s \<and> (stop_why st \<in> {ProcessExited, OutputReadFailed} \<or> stop_reason s = Some (stop_why st)))"

definition owner_ok :: "'z supervised_scheme \<Rightarrow> bool" where
  "owner_ok s \<longleftrightarrow> stop_ok s \<and> (reaped_at s \<noteq> None \<longrightarrow> leader_exited s) \<and>
     (sv_exit_code s = None \<longleftrightarrow> reaped_at s = None) \<and> (reader_done s \<or> fd_open s)"

definition sealed_ok :: "'z supervised_scheme \<Rightarrow> bool" where
  "sealed_ok s \<longleftrightarrow> ended_at (vs_info s) \<noteq> None \<and> cleanup_error (vs_info s) = None \<and>
     (\<exists>r. termination_reason (vs_info s) = Some r \<and> si_status (vs_info s) = final_status r \<and>
        (r = ProcessExited \<longrightarrow> exit_code (vs_info s) \<noteq> None \<and> exit_code (vs_info s) = sv_exit_code s \<and> reaped_at s \<noteq> None))"

definition life_ok :: "'z supervised_scheme \<Rightarrow> bool" where
  "life_ok s \<longleftrightarrow> shown_ok s \<and>
     (phase s \<in> {Preparing, Spawning} \<longrightarrow> fresh_ok s) \<and>
     (phase s = Supervising \<longrightarrow> owner_ok s) \<and>
     (phase s \<in> {Sealed, TaskDone} \<longrightarrow> sealed_ok s) \<and>
     (phase s \<in> {TaskDone, Abandoned} \<longrightarrow> queue_closed s) \<and>
     (phase s = Abandoned \<longrightarrow> cleanup_error (vs_info s) \<noteq> None)"

lemmas life_defs = life_ok_def shown_ok_def fresh_ok_def owner_ok_def stop_ok_def sealed_ok_def

lemma final_status_terminal: "is_terminal (final_status r)"
  by (cases r) simp_all

section \<open>Steps of the task\<close>

definition owned :: "'z supervised_scheme \<Rightarrow> bool" where
  "owned s \<longleftrightarrow> phase s = Supervising \<and> \<not> vs_terminal s \<and> \<not> is_terminal (si_status (vs_info s)) \<and>
     retained_since s = None \<and> (child (proc s) \<longleftrightarrow> reaped_at s = None) \<and>
     (stop_cancelled s \<longrightarrow> stop_reason s \<noteq> None) \<and> stop_reason s \<noteq> Some ProcessExited \<and>
     (sv_stop s = None \<longrightarrow> \<not> leader_exited s \<and> \<not> queue_closed s) \<and>
     (\<forall>st. sv_stop s = Some st \<longrightarrow>
        queue_closed s \<and> (stop_why st \<in> {ProcessExited, OutputReadFailed} \<or> stop_reason s = Some (stop_why st))) \<and>
     (reaped_at s \<noteq> None \<longrightarrow> leader_exited s) \<and>
     (sv_exit_code s = None \<longleftrightarrow> reaped_at s = None) \<and> (reader_done s \<or> fd_open s)"

lemma life_ok_owned: "phase s = Supervising \<Longrightarrow> life_ok s \<longleftrightarrow> owned s"
  by (auto simp: owned_def life_defs split: option.splits)

lemma owned_life: "owned s \<Longrightarrow> life_ok s"
  using life_ok_owned [of s] by (simp add: owned_def)

lemma owned_phase: "owned s \<Longrightarrow> phase s = Supervising"
  by (simp add: owned_def)

lemma owned_report: "owned s \<Longrightarrow> owned (report_cleanup_error e s)"
  by (simp add: owned_def report_cleanup_error_def)

lemma owned_request: "owned s \<Longrightarrow> r \<noteq> ProcessExited \<Longrightarrow> owned (request_stop r s)"
  by (auto simp: owned_def request_stop_def split: option.splits)

lemma owned_stopping:
  assumes "owned s" "sv_stop s = None" "r = ProcessExited \<or> stop_reason s = Some r"
  shows "owned (reject_inputs (stopping r (s\<lparr>sv_stop := Some (stop_new r t)\<rparr>)))"
    "owned (reject_inputs (stopping r (s\<lparr>leader_exited := True, sv_stop := Some (stop_new r t)\<rparr>)))"
  using assms by (auto simp: owned_def stopping_def reject_inputs_eq stop_new_def)

lemma owned_push: "owned s \<Longrightarrow> owned (push_output t out s)"
  by (simp add: owned_def push_output_def split: prod.splits)

lemma observe_exit_child [simp]: "child (snd (observe_exit w p)) = child p"
  by (simp add: observe_exit_def Let_def split: sum.splits)

lemma owned_proc: "owned s \<Longrightarrow> child p = child (proc s) \<Longrightarrow> owned (s\<lparr>proc := p\<rparr>)"
  by (simp add: owned_def)

lemma owned_observe: "owned s \<Longrightarrow> owned (observe_tick t env s)"
proof (cases "leader_exited s")
  case False
  assume o: "owned s"
  obtain r p where r: "observe_exit (te_wait env) (proc s) = (r, p)" by fastforce
  then have "child p = child (proc s)" using observe_exit_child [of "te_wait env" "proc s"] by simp
  note q = owned_proc [OF o this]
  have x: "owned (s\<lparr>proc := p, leader_exited := True\<rparr>)" if "sv_stop s \<noteq> None"
    using q that by (auto simp: owned_def)
  show ?thesis using False r q x owned_stopping(2) [OF q] owned_report [OF owned_request [OF q]]
    by (auto simp: observe_tick_def Let_def split: sum.splits bool.splits)
qed (simp add: observe_tick_def)

lemma owned_stop_upd:
  "owned s \<Longrightarrow> sv_stop s = Some st \<Longrightarrow> stop_why st' = stop_why st \<Longrightarrow> owned (s\<lparr>sv_stop := Some st'\<rparr>)"
  by (simp add: owned_def)

lemma owned_stop_tick: "owned s \<Longrightarrow> owned (stop_tick t env s)"
proof (cases "sv_stop s")
  case (Some st)
  assume o: "owned s"
  have a: "owned (term_tick env st s)" using o Some owned_report [OF o] owned_stop_upd [OF o Some]
    by (simp add: term_tick_def split: sum.splits)
  have b: "owned (kill_tick t env s)" if o: "owned s" for s
  proof (cases "sv_stop s")
    case (Some st)
    have u: "owned (s\<lparr>sv_stop := Some (st\<lparr>last_kill := Some t\<rparr>)\<rparr>)" by (rule owned_stop_upd [OF o Some]) simp
    show ?thesis using o u owned_report [OF u] by (simp add: kill_tick_def Some Let_def split: sum.splits)
  qed (simp add: kill_tick_def o)
  show ?thesis using Some owned_report [OF b [OF a]] b [OF a]
    by (simp add: stop_tick_def deadline_tick_def)
qed (simp add: stop_tick_def)

lemma owned_reap: "owned s \<Longrightarrow> reaped_at s = None \<Longrightarrow> leader_exited s \<Longrightarrow> owned (reap_tick t env s)"
  by (auto simp: reap_tick_def reap_process_def owned_def report_cleanup_error_def split: sum.splits prod.splits if_splits option.splits)

lemma owned_finalize: "owned s \<Longrightarrow> reaped_at s = None \<Longrightarrow> owned (finalize_tick t env s)"
  using owned_report owned_reap
  by (auto simp: finalize_tick_def confirm_tick_def group_stopping_def split: sum.splits bool.splits)

lemma ticks_reaped [simp]:
  "reaped_at (observe_tick t env s) = reaped_at s" "reaped_at (stop_tick t env s) = reaped_at s"
  by (auto simp: observe_tick_def stop_tick_def term_tick_def kill_tick_def deadline_tick_def Let_def
      report_cleanup_error_def reject_inputs_eq stopping_def request_stop_def
      split: sum.splits bool.splits prod.splits option.splits)

lemma owned_tick: "owned s \<Longrightarrow> owned (tick t env s)"
proof (cases "reaped_at s")
  case None
  assume "owned s"
  then show ?thesis using None by (simp add: tick_def owned_finalize owned_stop_tick owned_observe)
qed (auto simp: tick_def drain_tick_def owned_def split: option.splits)

lemma owned_input:
  assumes "owned s"
  shows "owned (answer_input i x (s\<lparr>pending := y\<rparr>))" "owned (answer_input i x (s\<lparr>pty_input := z, pending := y\<rparr>))"
    "owned (s\<lparr>pty_input := z, pending := y\<rparr>)"
  using assms by (simp_all add: owned_def answer_input_def)

lemma owned_step: "owned s \<Longrightarrow> event_ready e s \<Longrightarrow> owned (sv_step t e s)"
proof (cases e)
  case EvStop
  assume o: "owned s" and e: "event_ready e s"
  then have st: "sv_stop s = None" "stop_reason s = Some (session_reason s)"
    using EvStop by (auto simp: stop_waiting_def session_reason_def owned_def)
  then show ?thesis using owned_stopping(1) [OF o st(1)] EvStop by (simp add: stop_event_def)
next
  case EvInput
  assume o: "owned s"
  show ?thesis using o EvInput owned_request [OF o, of ServiceShutdown]
    by (cases "queue s") (simp_all add: input_event_def, simp add: owned_def)
next
  case (EvRead r)
  assume o: "owned s"
  have d: "owned (s\<lparr>decoder := x\<rparr>)" "owned (s\<lparr>reader_done := True\<rparr>)"
    "owned (s\<lparr>reader_done := True, sv_truncated := True\<rparr>)" for x using o by (simp_all add: owned_def)
  have f: "owned (request_stop OutputReadFailed (s\<lparr>reader_done := True, sv_truncated := True\<rparr>))" (is "owned ?r")
    by (rule owned_request [OF d(3)]) simp
  have g: "owned (?r\<lparr>sv_stop := Some (st\<lparr>stop_why := OutputReadFailed\<rparr>)\<rparr>)" if "sv_stop ?r = Some st" for st
    using f that by (simp add: owned_def)
  show ?thesis
  proof (cases r)
    case (Inl e)
    show ?thesis using EvRead f g by (simp add: read_event_def Let_def Inl split: option.splits)
  next
    case (Inr bs)
    then show ?thesis using EvRead d(1,2) owned_push [OF d(1)] by (simp add: read_event_def split: prod.splits)
  qed
next
  case (EvWritten r)
  assume o: "owned s"
  show ?thesis
  proof (cases r)
    case (Inl m)
    show ?thesis using o EvWritten owned_input [OF o]
      by (auto simp: written_event_def Inl owned_request split: option.splits)
  next
    case (Inr n)
    then show ?thesis using o EvWritten owned_input [OF o]
      by (auto simp: written_event_def Let_def split: option.splits)
  qed
qed (use owned_tick in simp)

section \<open>Start and end of the task\<close>

lemma life_new: "life_ok (new_session cfg i w p args t)"
  by (simp add: life_defs new_session_def new_info_def)

lemma life_seal:
  assumes "life_ok s" "phase s = Preparing \<or> phase s = Spawning" "r \<noteq> ProcessExited"
  shows "life_ok (seal t r e s)"
  using assms final_status_terminal [of r]
  by (auto simp: life_defs seal_def begin_retention_def finish_def)

lemma life_prepare: "life_ok s \<Longrightarrow> phase s = Preparing \<Longrightarrow> life_ok (prepare t dir gone s)"
proof -
  assume ok: "life_ok s" and p: "phase s = Preparing"
  have "session_reason s \<noteq> ProcessExited"
    using ok by (auto simp: life_ok_def shown_ok_def session_reason_def split: option.splits)
  then have "life_ok (seal t r e s)" if "r = ProcessStartFailed \<or> r = ClientRequested \<or> r = session_reason s" for r e
    using life_seal [OF ok] p that by auto
  moreover have "life_ok (s\<lparr>phase := Spawning, command := c\<rparr>)" for c
    using ok p by (auto simp: life_defs)
  ultimately show ?thesis by (simp add: prepare_def split: sum.splits)
qed

lemma life_spawned: "life_ok s \<Longrightarrow> phase s = Spawning \<Longrightarrow> life_ok (spawned t r gone s)"
proof (cases r)
  case (SpawnOk pid reg)
  assume "life_ok s" "phase s = Spawning"
  then have "owned (spawned t r gone s)"
    by (cases reg) (auto simp: SpawnOk spawned_def Let_def owned_def life_defs spawned_process_def request_stop_def)
  then show ?thesis by (rule owned_life)
next
  case (SpawnFailed e)
  assume "life_ok s" "phase s = Spawning"
  then show ?thesis by (simp add: SpawnFailed spawned_def life_seal)
next
  case (SpawnLost e)
  assume "life_ok s" "phase s = Spawning"
  then show ?thesis
    by (auto simp: SpawnLost spawned_def life_defs report_cleanup_error_def stopping_def reject_inputs_eq)
qed

lemma push_output_other:
  "vs_info (push_output t out s) = vs_info s" "phase (push_output t out s) = phase s"
  "sv_stop (push_output t out s) = sv_stop s" "sv_exit_code (push_output t out s) = sv_exit_code s"
  "reaped_at (push_output t out s) = reaped_at s" "proc (push_output t out s) = proc s"
  "stop_reason (push_output t out s) = stop_reason s" "stop_cancelled (push_output t out s) = stop_cancelled s"
  "sv_truncated (push_output t out s) = sv_truncated s" "unclaimed (push_output t out s) = unclaimed s"
  "startup_error (push_output t out s) = startup_error s" "retained_since (push_output t out s) = retained_since s"
  "reply (push_output t out s) = reply s" "queue_closed (push_output t out s) = queue_closed s"
  "vs_workflow (push_output t out s) = vs_workflow s" "reserved (push_output t out s) = reserved s"
  "command (push_output t out s) = command s" "sv_args (push_output t out s) = sv_args s"
  by (simp_all add: push_output_def split: prod.splits)

lemma life_end:
  assumes ok: "life_ok s" "phase s = Supervising" "loop_over s"
  shows "life_ok (supervise_end t s)"
proof -
  have o: "owned s" using ok life_ok_owned by blast
  then obtain st where st: "sv_stop s = Some st" using ok(3) by (auto simp: owned_def loop_over_def)
  have "stop_why st = ProcessExited \<longrightarrow> sv_exit_code s \<noteq> None" using o ok(3) by (auto simp: owned_def loop_over_def)
  then show ?thesis using o ok(3) st final_status_terminal [of "stop_why st"]
    by (auto simp: supervise_end_def Let_def life_defs owned_def loop_over_def finish_def push_output_other
        begin_retention_def reject_inputs_eq)
qed

lemma life_return: "life_ok s \<Longrightarrow> phase s = Sealed \<Longrightarrow> life_ok (run_return s)"
  by (simp add: life_ok_def shown_ok_def sealed_ok_def fresh_ok_def owner_ok_def stop_ok_def run_return_def reject_inputs_eq)

definition life_view where
  "life_view s = ((phase s, vs_terminal s, vs_info s, retained_since s, proc s, reaped_at s),
     (sv_stop s, leader_exited s, sv_exit_code s, queue_closed s, pending s, startup_error s, unclaimed s),
     (reader_done s, fd_open s, stop_cancelled s, stop_reason s))"

lemma life_ok_view: "life_view t = life_view s \<Longrightarrow> life_ok t = life_ok s"
  by (simp add: life_view_def life_defs)

lemma life_raised [simp]: "life_ok (s\<lparr>raised := b\<rparr>) = life_ok s"
  by (rule life_ok_view) (simp add: life_view_def)

section \<open>Clients\<close>

lemma life_request:
  assumes ok: "life_ok s" and r: "r \<noteq> ProcessExited" shows "life_ok (request_stop r s)"
proof (cases "phase s = Supervising")
  case True
  with ok r have "owned (request_stop r s)" by (simp add: life_ok_owned owned_request)
  then show ?thesis by (rule owned_life)
next
  case False
  have "shown_ok s" using ok by (simp add: life_ok_def)
  then have "shown_ok (request_stop r s)" using r by (auto simp: shown_ok_def request_stop_def)
  with ok False show ?thesis by (simp add: life_ok_def fresh_ok_def sealed_ok_def request_stop_def)
qed

lemma life_retention:
  assumes ok: "life_ok s" and t: "vs_terminal s" shows "life_ok (begin_retention t s)"
proof -
  have "shown_ok (begin_retention t s)" using ok t by (simp add: life_ok_def shown_ok_def begin_retention_def)
  moreover have "phase s = Sealed \<or> phase s = TaskDone" using ok t by (simp add: life_ok_def shown_ok_def)
  ultimately show ?thesis using ok
    by (auto simp: life_ok_def sealed_ok_def begin_retention_def)
qed

lemma view_reserve: "life_view (send_reserve cfg i input s) = life_view s"
  by (simp add: send_reserve_def life_view_def split: sum.splits option.splits)

lemma view_queue: "life_view (send_queue h i s) = life_view s"
proof (cases "map_of (reserved s) i")
  case (Some input)
  show ?thesis by (rule send_queue_cases [OF Some, of h]) (simp_all add: life_view_def unreserve_def answer_input_def)
qed (simp add: send_queue_def)

lemmas life_reserve [simp] = life_ok_view [OF view_reserve]
lemmas life_queue [simp] = life_ok_view [OF view_queue]

section \<open>What a terminal session shows\<close>

definition shown :: "'z supervised_scheme \<Rightarrow> session_info \<times> output_buffer \<times> bool" where
  "shown s = (vs_info s, vs_output s, vs_terminal s)"

lemma shown_clients [simp]:
  "shown (request_stop r s) = shown s" "shown (begin_retention t s) = shown s"
  "shown (send_reserve cfg i input s) = shown s" "shown (run_return s) = shown s" "shown (s\<lparr>raised := b\<rparr>) = shown s"
  by (simp_all add: shown_def request_stop_def begin_retention_def send_reserve_def run_return_def
      reject_inputs_eq split: sum.splits option.splits)

lemma shown_queue [simp]: "shown (send_queue h i s) = shown s"
proof (cases "map_of (reserved s) i")
  case (Some input)
  show ?thesis by (rule send_queue_cases [OF Some, of h]) (simp_all add: shown_def unreserve_def answer_input_def)
qed (simp add: send_queue_def)

section \<open>Cleanup errors are flagged\<close>

text \<open>A step never unsets the flag it raises for the manager, and sets it when it reports an error.\<close>

definition flags :: "'z supervised_scheme \<Rightarrow> 'z supervised_scheme \<Rightarrow> bool" where
  "flags s t \<longleftrightarrow> (raised s \<longrightarrow> raised t) \<and>
     (raised t \<or> cleanup_error (vs_info t) = cleanup_error (vs_info s) \<or> cleanup_error (vs_info t) = None)"

lemma flags_trans: "flags s t \<Longrightarrow> flags t u \<Longrightarrow> flags s u"
  by (auto simp: flags_def)

lemma flags_same: "raised t = raised s \<Longrightarrow> cleanup_error (vs_info t) = cleanup_error (vs_info s) \<Longrightarrow> flags s t"
  by (simp add: flags_def)

lemma flags_report: "flags s t \<Longrightarrow> flags s (report_cleanup_error e t)"
  by (simp add: flags_def report_cleanup_error_def)

lemma flags_prims [simp]:
  "flags s (request_stop r s)" "flags s (stopping r s)" "flags s (reject_inputs s)" "flags s (push_output t out s)"
  "flags s (answer_input i x s)" "flags s (begin_retention t s)" "flags s (finish t r c b s)" "flags s (seal t r er s)"
  "flags s (report_cleanup_error e s)" "flags s s"
  by (simp_all add: flags_def request_stop_def stopping_def reject_inputs_eq push_output_def answer_input_def
      begin_retention_def finish_def seal_def report_cleanup_error_def split: prod.splits)

lemma flags_observe: "flags s (observe_tick t env s)"
  by (auto simp: observe_tick_def Let_def flags_def stopping_def reject_inputs_eq report_cleanup_error_def request_stop_def
      split: sum.splits bool.splits prod.splits)

lemma flags_stop_tick: "flags s (stop_tick t env s)"
proof (cases "sv_stop s")
  case (Some st)
  have "flags s (term_tick env st s)" for s :: "'z supervised_scheme"
    by (auto simp: term_tick_def flags_same flags_report split: sum.splits)
  moreover have "flags s (kill_tick t env s)" for s :: "'z supervised_scheme"
    by (auto simp: kill_tick_def Let_def flags_same flags_report split: sum.splits option.splits)
  moreover have "flags s (deadline_tick t st s)" for s :: "'z supervised_scheme"
    by (simp add: deadline_tick_def)
  ultimately show ?thesis unfolding stop_tick_def Some option.case by (blast intro: flags_trans)
qed (simp add: stop_tick_def)

lemma flags_finalize: "flags s (finalize_tick t env s)"
  by (auto simp: finalize_tick_def confirm_tick_def reap_tick_def flags_same flags_report
      split: sum.splits bool.splits prod.splits)

lemma flags_step: "flags s (sv_step t e s)"
proof (cases e)
  case (EvTick env)
  have "flags s (finalize_tick t env (stop_tick t env (observe_tick t env s)))"
    by (rule flags_trans [OF flags_trans [OF flags_observe flags_stop_tick] flags_finalize])
  then show ?thesis by (simp add: EvTick tick_def drain_tick_def flags_same split: option.splits)
next
  case (EvRead r)
  then show ?thesis
    by (auto simp: read_event_def Let_def flags_def request_stop_def push_output_def split: sum.splits prod.splits option.splits)
next
  case (EvWritten r)
  then show ?thesis
    by (auto simp: written_event_def Let_def flags_def request_stop_def answer_input_def split: sum.splits option.splits)
qed (auto simp: stop_event_def input_event_def flags_def stopping_def reject_inputs_eq request_stop_def split: list.splits)

lemma flags_start:
  "flags s (prepare t dir gone s)" "flags s (spawned t r gone s)" "flags s (supervise_end t s)" "flags s (run_return s)"
  by (auto simp: prepare_def flags_same spawned_def Let_def supervise_end_def run_return_def flags_def request_stop_def
      reject_inputs_eq report_cleanup_error_def stopping_def push_output_def begin_retention_def finish_def seal_def
      split: sum.splits spawn_result.splits prod.splits)

end
