(* ===== verification/Session_Inv.thy ===== *)
theory Session_Inv
  imports Session_Life
begin

text \<open>
  The invariant of the session manager: every unfinished task holds the one slot, sessions satisfy their
  own invariants, and a cleanup error is visible as degradation. Every step keeps it.
\<close>

interpretation session_retention: retention_policy retained_since "max_retained_workflows cfg" "prune_sessions cfg" for cfg
  unfolding prune_sessions_def by (rule prune_entries_policy)

definition entry_ok :: "'y session_config_scheme \<Rightarrow> nat \<Rightarrow> bool \<Rightarrow> nat option \<Rightarrow> nat \<Rightarrow> supervised \<Rightarrow> bool" where
  "entry_ok cfg fresh deg slot i s \<longleftrightarrow> life_ok s \<and> stdin_ok (stdin_max_bytes cfg) s \<and> i < fresh \<and>
     (\<forall>n\<in>set (input_ids s). n < fresh) \<and> (phase s = TaskDone \<or> slot = Some i) \<and>
     (cleanup_error (vs_info s) = None \<or> deg)"

definition sm_ok :: "'y session_config_scheme \<Rightarrow> session_manager \<Rightarrow> bool" where
  "sm_ok cfg m \<longleftrightarrow> distinct (map fst (vsessions m)) \<and>
     (\<forall>i s. map_of (vsessions m) i = Some s \<longrightarrow> entry_ok cfg (next_uuid m) (degraded m) (active m) i s) \<and>
     (\<forall>i s. active m = Some i \<longrightarrow> map_of (vsessions m) i = Some s \<longrightarrow> phase s \<noteq> TaskDone)"

lemma sm_okD:
  assumes "sm_ok cfg m"
  shows "distinct (map fst (vsessions m))"
    "map_of (vsessions m) i = Some s \<Longrightarrow> entry_ok cfg (next_uuid m) (degraded m) (active m) i s"
    "active m = Some i \<Longrightarrow> map_of (vsessions m) i = Some s \<Longrightarrow> phase s \<noteq> TaskDone"
  using assms by (auto simp: sm_ok_def)

lemma map_of_entry:
  "map_of (map (\<lambda>(j, s). if j = i then (j, f s) else (j, s)) xs) k =
   (if k = i then map_option f (map_of xs k) else map_of xs k)"
  by (induction xs) auto

lemma map_of_on_session [simp]:
  "map_of (vsessions (on_session i f m)) j = (if j = i then map_option f (map_of (vsessions m) j) else map_of (vsessions m) j)"
  by (simp add: on_session_def map_of_entry)

lemma keys_on_session [simp]: "map fst (vsessions (on_session i f m)) = map fst (vsessions m)"
  by (simp add: on_session_def comp_def case_prod_unfold if_distrib)

lemma on_session_other [simp]:
  "active (on_session i f m) = active m" "degraded (on_session i f m) = degraded m"
  "next_uuid (on_session i f m) = next_uuid m" "clock_ms (on_session i f m) = clock_ms m"
  "shutting_down (on_session i f m) = shutting_down m"
  by (simp_all add: on_session_def)

lemma prune_other [simp]:
  "active (prune cfg m) = active m" "degraded (prune cfg m) = degraded m"
  "next_uuid (prune cfg m) = next_uuid m" "clock_ms (prune cfg m) = clock_ms m"
  "shutting_down (prune cfg m) = shutting_down m"
  "vsessions (prune cfg m) = prune_sessions cfg (clock_ms m) (vsessions m)"
  by (simp_all add: prune_def)

lemma slot_entry_mono:
  "entry_ok cfg n d a i s \<Longrightarrow> n \<le> n' \<Longrightarrow> (d \<Longrightarrow> d') \<Longrightarrow> entry_ok cfg n' d' a i s"
  by (auto simp: entry_ok_def intro: less_le_trans)

section \<open>Two ways a step keeps the invariant\<close>

lemma sm_ok_prune: "sm_ok cfg m \<Longrightarrow> sm_ok cfg (prune cfg m)"
proof -
  assume ok: "sm_ok cfg m"
  note d = sm_okD(1) [OF ok]
  have old: "map_of (vsessions m) i = Some s" if "map_of (vsessions (prune cfg m)) i = Some s" for i s
    using session_retention.lookup_old [OF d] that by simp
  show ?thesis unfolding sm_ok_def
    using session_retention.keys_distinct [OF d] sm_okD(2) [OF ok old] sm_okD(3) [OF ok _ old] by simp
qed

lemma sm_ok_fields:
  assumes ok: "sm_ok cfg m" and n: "vsessions n = vsessions m" "active n = active m" "next_uuid m \<le> next_uuid n"
    and d: "degraded m \<Longrightarrow> degraded n"
  shows "sm_ok cfg n"
proof -
  have "entry_ok cfg (next_uuid n) (degraded n) (active n) i s" if "map_of (vsessions n) i = Some s" for i s
    using slot_entry_mono [OF sm_okD(2) [OF ok] n(3) d] that n by simp
  then show ?thesis unfolding sm_ok_def using sm_okD(1,3) [OF ok] n by simp
qed

lemma sm_ok_upd:
  assumes ok: "sm_ok cfg m" and s: "map_of (vsessions m) i = Some s"
    and t: "entry_ok cfg n (d \<or> degraded m) (active m) i t" "phase s \<noteq> TaskDone \<Longrightarrow> phase t \<noteq> TaskDone"
    and n: "next_uuid m \<le> n"
  shows "sm_ok cfg ((on_session i (\<lambda>_. t) m)\<lparr>degraded := (d \<or> degraded m), next_uuid := n\<rparr>)"
proof -
  have v: "vsessions ((on_session i (\<lambda>_. t) m)\<lparr>degraded := (d \<or> degraded m), next_uuid := n\<rparr>) = vsessions (on_session i (\<lambda>_. t) m)"
    by simp
  show ?thesis
    unfolding sm_ok_def v
  proof (intro conjI allI impI)
    fix j u
    assume u: "map_of (vsessions (on_session i (\<lambda>_. t) m)) j = Some u"
    show "entry_ok cfg (next_uuid ((on_session i (\<lambda>_. t) m)\<lparr>degraded := (d \<or> degraded m), next_uuid := n\<rparr>))
      (degraded ((on_session i (\<lambda>_. t) m)\<lparr>degraded := (d \<or> degraded m), next_uuid := n\<rparr>))
      (active ((on_session i (\<lambda>_. t) m)\<lparr>degraded := (d \<or> degraded m), next_uuid := n\<rparr>)) j u"
    proof (cases "j = i")
      case False
      then have "map_of (vsessions m) j = Some u" using u by simp
      from slot_entry_mono [OF sm_okD(2) [OF ok this] n] show ?thesis by simp
    qed (use u s t(1) in simp)
    assume "active ((on_session i (\<lambda>_. t) m)\<lparr>degraded := (d \<or> degraded m), next_uuid := n\<rparr>) = Some j"
    then show "phase u \<noteq> TaskDone" using u s t(2) sm_okD(3) [OF ok] by (auto split: if_splits)
  qed (use sm_okD(1) [OF ok] in simp)
qed

lemma on_session_const:
  "distinct (map fst (vsessions m)) \<Longrightarrow> map_of (vsessions m) i = Some s \<Longrightarrow> on_session i f m = on_session i (\<lambda>_. f s) m"
proof -
  assume d: "distinct (map fst (vsessions m))" and s: "map_of (vsessions m) i = Some s"
  have "u = s" if "(i, u) \<in> set (vsessions m)" for u
    using eq_key_imp_eq_value [OF d that map_of_SomeD [OF s]] .
  then have "map (\<lambda>(j, s). if j = i then (j, f s) else (j, s)) (vsessions m) =
      map (\<lambda>(j, u). if j = i then (j, f s) else (j, u)) (vsessions m)"
    by (intro map_cong) auto
  then show ?thesis unfolding on_session_def by (rule arg_cong)
qed

lemma entry_okI:
  assumes "entry_ok cfg n d a i s" "life_ok t" "keeps_stdin s t" "phase t = TaskDone \<Longrightarrow> phase s = TaskDone"
    "cleanup_error (vs_info t) = None \<or> cleanup_error (vs_info t) = cleanup_error (vs_info s) \<or> d'" "phase s = TaskDone \<Longrightarrow> phase t = TaskDone"
  shows "entry_ok cfg n (d' \<or> d) a i t"
  using assms unfolding entry_ok_def keeps_stdin_def by auto

section \<open>Tasks\<close>

lemma on_task_eq:
  assumes "map_of (vsessions m) i = Some s"
  shows "on_task i f m = (on_session i (\<lambda>_. f (s\<lparr>raised := False\<rparr>)) m)\<lparr>degraded := (raised (f (s\<lparr>raised := False\<rparr>)) \<or> degraded m)\<rparr>"
  using assms by (simp add: on_task_def Let_def disj_commute)

lemma sm_ok_task:
  assumes ok: "sm_ok cfg m" and s: "map_of (vsessions m) i = Some s"
    and f: "let u = s\<lparr>raised := False\<rparr>; t = f u in life_ok t \<and> keeps_stdin u t \<and> flags u t \<and> (phase t = TaskDone \<longleftrightarrow> phase s = TaskDone)"
  shows "sm_ok cfg (on_task i f m)"
proof -
  let ?u = "s\<lparr>raised := False\<rparr>" let ?t = "f ?u"
  note e = sm_okD(2) [OF ok s]
  have v: "stdin_view ?u = stdin_view s" by simp
  have k: "keeps_stdin s ?t" using f keeps_stdin_trans [OF keeps_stdin_view [OF v]] by (simp add: Let_def)
  have "entry_ok cfg (next_uuid m) (raised ?t \<or> degraded m) (active m) i ?t"
    by (rule entry_okI [OF e _ k]) (use f in \<open>auto simp: Let_def flags_def\<close>)
  from sm_ok_upd [OF ok s this _ le_refl] f
  have "sm_ok cfg ((on_task i f m)\<lparr>next_uuid := next_uuid m\<rparr>)" by (simp add: on_task_eq [OF s] Let_def)
  then show ?thesis by (rule sm_ok_fields) (simp_all add: on_task_eq [OF s])
qed

lemma life_entry: "entry_ok cfg n d a i s \<Longrightarrow> life_ok s"
  by (simp add: entry_ok_def)

lemma phase_start:
  "phase s \<noteq> TaskDone \<Longrightarrow> phase (prepare t dir gone s) \<noteq> TaskDone"
  "phase s \<noteq> TaskDone \<Longrightarrow> phase (spawned t r gone s) \<noteq> TaskDone"
  "phase (supervise_end t s) \<noteq> TaskDone"
  by (auto simp: prepare_def seal_def spawned_def Let_def supervise_end_def request_stop_def split: sum.splits spawn_result.splits)

lemma sm_ok_prepare:
  assumes "sm_ok cfg m" "map_of (vsessions m) i = Some s" "phase s = Preparing"
  shows "sm_ok cfg (task_prepare i dir gone m)"
  unfolding task_prepare_def
  by (rule sm_ok_task [OF assms(1,2)])
    (use assms(3) life_entry [OF sm_okD(2) [OF assms(1,2)]] in
      \<open>simp add: Let_def keeps_stdin_prepare flags_start phase_start life_prepare\<close>)

lemma sm_ok_spawned:
  assumes "sm_ok cfg m" "map_of (vsessions m) i = Some s" "phase s = Spawning"
  shows "sm_ok cfg (task_spawned i r gone m)"
  unfolding task_spawned_def
  by (rule sm_ok_task [OF assms(1,2)])
    (use assms(3) life_entry [OF sm_okD(2) [OF assms(1,2)]] in
      \<open>simp add: Let_def keeps_stdin_spawned flags_start phase_start life_spawned\<close>)

lemma owned_not_done: "owned s \<Longrightarrow> phase s \<noteq> TaskDone"
  by (simp add: owned_def)

lemma enabled_raised: "enabled e (s\<lparr>raised := b\<rparr>) = enabled e s"
  by (cases e) (simp_all add: enabled_def loop_over_def stop_waiting_def)

lemma sm_ok_event:
  assumes "sm_ok cfg m" "map_of (vsessions m) i = Some s" "enabled e s"
  shows "sm_ok cfg (task_event i e m)"
proof -
  let ?u = "s\<lparr>raised := False\<rparr>"
  have en: "enabled e ?u" "event_ready e ?u" using assms(3) enabled_raised [where s = s and e = e] by (simp_all add: enabled_def)
  have "owned ?u" using en life_entry [OF sm_okD(2) [OF assms(1,2)]] by (simp add: enabled_def flip: life_ok_owned)
  then have o: "owned (sv_step (clock_ms m) e ?u)" by (rule owned_step [OF _ en(2)])
  show ?thesis unfolding task_event_def
    by (rule sm_ok_task [OF assms(1,2)])
      (use en o owned_life [OF o] owned_not_done [OF o] in \<open>simp add: Let_def keeps_stdin_step flags_step enabled_def\<close>)
qed

lemma sm_ok_end:
  assumes "sm_ok cfg m" "map_of (vsessions m) i = Some s" "phase s = Supervising" "loop_over s"
  shows "sm_ok cfg (task_end i m)"
  unfolding task_end_def
  by (rule sm_ok_task [OF assms(1,2)])
    (use assms(3,4) life_entry [OF sm_okD(2) [OF assms(1,2)]] in
      \<open>simp add: Let_def keeps_stdin_end flags_start phase_start life_end loop_over_def\<close>)

text \<open>Releasing the slot: every task that is left is done.\<close>

lemma sm_ok_finished:
  assumes ok: "sm_ok cfg m" and a: "active m = Some i" and p: "sealed_task i m"
  shows "sm_ok cfg (task_finished cfg i m)"
proof -
  let ?m = "on_task i run_return m"
  have others: "phase u = TaskDone \<and> entry_ok cfg (next_uuid m) (degraded m) (active m) j u"
    if "j \<noteq> i" "map_of (vsessions m) j = Some u" for j u
    using sm_okD(2) [OF ok that(2)] a that(1) by (auto simp: entry_ok_def)
  have fin: "entry_ok cfg (next_uuid m) False None j u \<and> j < next_uuid m" if "map_of (vsessions ?m) j = Some u" for j u
  proof (cases "map_of (vsessions m) i")
    case None
    then have "?m = m" by (simp add: on_task_def)
    with that None have "j \<noteq> i" "map_of (vsessions m) j = Some u" by auto
    from others [OF this] show ?thesis by (auto simp: entry_ok_def life_ok_def sealed_ok_def)
  next
    case (Some s)
    let ?u = "s\<lparr>raised := False\<rparr>"
    have s: "phase s = Sealed" using p Some by (simp add: sealed_task_def)
    note e = sm_okD(2) [OF ok Some]
    have v: "stdin_view ?u = stdin_view s" by simp
    have l: "life_ok (run_return ?u)" using life_return [of ?u] life_entry [OF e] s by simp
    have k: "keeps_stdin s (run_return ?u)" by (rule keeps_stdin_trans [OF keeps_stdin_view [OF v] keeps_stdin_return])
    have c: "phase (run_return ?u) = TaskDone" by (simp add: run_return_def)
    show ?thesis
    proof (cases "j = i")
      case True
      with that Some have "u = run_return ?u" by (simp add: on_task_eq)
      moreover have "cleanup_error (vs_info (run_return ?u)) = None"
        using life_entry [OF e] s by (simp add: life_ok_def sealed_ok_def run_return_def reject_inputs_eq)
      moreover from k e have "stdin_ok (stdin_max_bytes cfg) (run_return ?u)"
        "\<forall>n\<in>set (input_ids (run_return ?u)). n < next_uuid m" unfolding keeps_stdin_def entry_ok_def by auto
      ultimately show ?thesis using e l c True unfolding entry_ok_def by simp
    next
      case False
      with that Some have "map_of (vsessions m) j = Some u" by (simp add: on_task_eq)
      from others [OF False this] show ?thesis by (auto simp: entry_ok_def life_ok_def sealed_ok_def)
    qed
  qed
  have keys: "map fst (vsessions ?m) = map fst (vsessions m)"
    by (simp add: on_task_def Let_def split: option.splits)
  have other: "active ?m = Some i" "next_uuid ?m = next_uuid m"
    using a by (simp_all add: on_task_def Let_def split: option.splits)
  have "sm_ok cfg (?m\<lparr>active := None, degraded := False\<rparr>)"
    unfolding sm_ok_def using keys sm_okD(1) [OF ok] fin other by simp
  then show ?thesis using other by (simp add: task_finished_def finished_def sm_ok_prune)
qed

section \<open>Clients\<close>

lemma sm_ok_client:
  assumes ok: "sm_ok cfg m" and s: "map_of (vsessions m) i = Some s"
    and f: "life_ok (f s)" "keeps_stdin s (f s)" "phase (f s) = phase s" "vs_info (f s) = vs_info s"
  shows "sm_ok cfg (on_session i f m)"
proof -
  have e: "entry_ok cfg (next_uuid m) (False \<or> degraded m) (active m) i (f s)"
    by (rule entry_okI [OF sm_okD(2) [OF ok s]]) (use f in simp_all)
  from sm_ok_upd [OF ok s e _ le_refl] f(3)
  have "sm_ok cfg ((on_session i (\<lambda>_. f s) m)\<lparr>degraded := (False \<or> degraded m), next_uuid := next_uuid m\<rparr>)" by simp
  moreover have "on_session i f m = on_session i (\<lambda>_. f s) m" by (rule on_session_const [OF sm_okD(1) [OF ok] s])
  ultimately show ?thesis by (auto elim: sm_ok_fields)
qed

lemma lookup_sessionD:
  assumes "lookup_session cfg i m = (r, n)"
  shows "n = prune cfg m" "r = Inr s \<Longrightarrow> map_of (vsessions n) i = Some s"
  using assms by (auto simp: lookup_session_def Let_def ok_or_def split: option.splits)

lemma client_same:
  "phase (begin_retention t s) = phase s" "vs_info (begin_retention t s) = vs_info s"
  "phase (request_stop r s) = phase s" "vs_info (request_stop r s) = vs_info s"
  by (simp_all add: begin_retention_def request_stop_def)

lemma sm_ok_release: "sm_ok cfg m \<Longrightarrow> sm_ok cfg (snd (release_session cfg i m))"
proof -
  assume ok: "sm_ok cfg m"
  obtain r n where r: "lookup_session cfg i m = (r, n)" by fastforce
  have n: "sm_ok cfg n" using sm_ok_prune [OF ok] lookup_sessionD(1) [OF r] by simp
  show ?thesis
  proof (cases r)
    case (Inr s)
    note s = lookup_sessionD(2) [OF r Inr]
    have "sm_ok cfg (on_session i (begin_retention (clock_ms n)) n)" if "vs_terminal s"
      by (rule sm_ok_client [OF n s])
        (use that life_entry [OF sm_okD(2) [OF n s]] in
          \<open>simp_all add: life_retention keeps_stdin_view client_same\<close>)
    then show ?thesis using r Inr n by (simp add: release_session_def sm_ok_prune)
  qed (use r n in \<open>simp add: release_session_def\<close>)
qed

lemma sm_ok_stop: "sm_ok cfg m \<Longrightarrow> external_reason why \<Longrightarrow> sm_ok cfg (snd (stop_session cfg i why m))"
proof -
  assume ok: "sm_ok cfg m" and w: "external_reason why"
  obtain r n where r: "lookup_session cfg i m = (r, n)" by fastforce
  have n: "sm_ok cfg n" using sm_ok_prune [OF ok] lookup_sessionD(1) [OF r] by simp
  show ?thesis
  proof (cases r)
    case (Inr s)
    note s = lookup_sessionD(2) [OF r Inr]
    have "sm_ok cfg (on_session i (request_stop why) n)"
      by (rule sm_ok_client [OF n s])
        (use w life_entry [OF sm_okD(2) [OF n s]] in
          \<open>auto simp: external_reason_def life_request keeps_stdin_view client_same\<close>)
    then show ?thesis using r Inr by (simp add: stop_session_def)
  qed (use r n in \<open>simp add: stop_session_def\<close>)
qed

lemma sm_ok_queue: "sm_ok cfg m \<Longrightarrow> sm_ok cfg (send_input_queue i h n m)"
proof (cases "map_of (vsessions m) i")
  case None
  assume "sm_ok cfg m"
  moreover have "send_input_queue i h n m = m" using None
    by (force simp: send_input_queue_def on_session_def map_of_eq_None_iff image_iff intro!: session_manager.equality map_idI)
  ultimately show ?thesis by simp
next
  case (Some s)
  assume ok: "sm_ok cfg m"
  have same: "phase (send_queue h n s) = phase s" "vs_info (send_queue h n s) = vs_info s"
    using view_queue [of h n s] by (simp_all add: life_view_def)
  show ?thesis unfolding send_input_queue_def
    by (rule sm_ok_client [OF ok Some])
      (use life_entry [OF sm_okD(2) [OF ok Some]] same in \<open>simp_all add: keeps_stdin_queue\<close>)
qed

lemma sm_ok_send: "sm_ok cfg m \<Longrightarrow> sm_ok cfg (snd (send_input_begin cfg i input m))"
proof -
  assume ok: "sm_ok cfg m"
  obtain r n where r: "lookup_session cfg i m = (r, n)" by fastforce
  have n: "sm_ok cfg n" using sm_ok_prune [OF ok] lookup_sessionD(1) [OF r] by simp
  show ?thesis
  proof (cases r)
    case (Inr s)
    note s = lookup_sessionD(2) [OF r Inr]
    let ?k = "next_uuid n"
    let ?t = "send_reserve cfg ?k input s"
    note e = sm_okD(2) [OF n s]
    have fresh: "?k \<notin> set (input_ids s)" using e by (auto simp: entry_ok_def)
    have same: "phase ?t = phase s" "vs_info ?t = vs_info s"
      using view_reserve [of cfg ?k input s] by (simp_all add: life_view_def)
    have t: "entry_ok cfg (Suc ?k) (False \<or> degraded n) (active n) i ?t"
      using e stdin_ok_reserve [OF _ fresh, of "stdin_max_bytes cfg" cfg input] input_ids_reserve [of cfg ?k input s] same
      unfolding entry_ok_def by (auto intro: less_SucI)
    have d: "distinct (map fst (vsessions (n\<lparr>next_uuid := Suc ?k\<rparr>)))" using sm_okD(1) [OF n] by simp
    have "sm_ok cfg ((on_session i (\<lambda>_. ?t) n)\<lparr>degraded := (False \<or> degraded n), next_uuid := Suc ?k\<rparr>)"
      by (rule sm_ok_upd [OF n s t]) (use same in simp_all)
    moreover have "on_session i (send_reserve cfg ?k input) (n\<lparr>next_uuid := Suc ?k\<rparr>) =
        on_session i (\<lambda>_. ?t) (n\<lparr>next_uuid := Suc ?k\<rparr>)"
      by (rule on_session_const [OF d]) (simp add: s)
    ultimately have "sm_ok cfg (on_session i (send_reserve cfg ?k input) (n\<lparr>next_uuid := Suc ?k\<rparr>))"
      by (auto elim!: sm_ok_fields simp: on_session_def)
    then show ?thesis using r Inr n by (auto simp: send_input_begin_def Let_def split: sum.splits option.splits)
  qed (use r n in \<open>simp add: send_input_begin_def\<close>)
qed

lemma sm_ok_get: "sm_ok cfg m \<Longrightarrow> sm_ok cfg (snd (get_session cfg i m))"
  by (simp add: get_session_def lookup_session_def Let_def sm_ok_prune)

lemma stdin_new: "stdin_ok (stdin_max_bytes cfg) (new_session cfg i w p a t)" "input_ids (new_session cfg i w p a t) = []"
  by (simp_all add: stdin_ok_def held_def input_ids_def new_session_def)

lemma sm_ok_create: "sm_ok cfg m \<Longrightarrow> sm_ok cfg (snd (create_session cfg w p a h m))"
proof -
  assume ok: "sm_ok cfg m"
  let ?i = "next_uuid m"
  let ?m = "prune cfg (m\<lparr>next_uuid := Suc ?i\<rparr>)"
  have ok': "sm_ok cfg (m\<lparr>next_uuid := Suc ?i\<rparr>)" by (rule sm_ok_fields [OF ok]) simp_all
  have okp: "sm_ok cfg ?m" by (rule sm_ok_prune [OF ok'])
  have lt: "j < ?i" if "map_of (vsessions ?m) j = Some s" for j s
  proof -
    have "map_of (vsessions m) j = Some s"
      using session_retention.lookup_old [OF sm_okD(1) [OF ok]] that by simp
    from sm_okD(2) [OF ok this] show ?thesis by (simp add: entry_ok_def)
  qed
  let ?n = "?m\<lparr>active := Some ?i, vsessions := (?i, new_session cfg ?i w p a (clock_ms ?m)) # vsessions ?m\<rparr>"
  have "sm_ok cfg ?n" if a: "active ?m = None"
  proof -
    have new: "entry_ok cfg (Suc ?i) (degraded ?m) (Some ?i) ?i (new_session cfg ?i w p a (clock_ms ?m))"
      by (simp add: entry_ok_def life_new stdin_new, simp add: new_session_def new_info_def)
    have old: "entry_ok cfg (Suc ?i) (degraded ?m) (Some ?i) j s" if "map_of (vsessions ?m) j = Some s" for j s
      using sm_okD(2) [OF okp that] a by (simp add: entry_ok_def)
    have ni: "?i \<notin> fst ` set (vsessions ?m)"
      using lt sm_okD(1) [OF okp] by (force simp: image_iff)
    show ?thesis unfolding sm_ok_def using sm_okD(1) [OF okp] ni new old
      by (auto simp: new_session_def)
  qed
  then show ?thesis using ok ok' okp
    by (auto simp: create_session_def register_session_def Let_def split: sum.splits)
qed

lemma sm_ok_shutdown: "sm_ok cfg m \<Longrightarrow> sm_ok cfg (shutdown_begin m)"
proof -
  assume ok: "sm_ok cfg m"
  let ?f = "\<lambda>s. if vs_terminal s then s else request_stop ServiceShutdown s"
  have m: "map_of (vsessions (shutdown_begin m)) i = map_option ?f (map_of (vsessions m) i)" for i
    by (simp add: shutdown_begin_def map_of_map)
  have k: "map fst (vsessions (shutdown_begin m)) = map fst (vsessions m)"
    by (simp add: shutdown_begin_def comp_def case_prod_unfold)
  have f: "entry_ok cfg n d a i (?f s) \<and> phase (?f s) = phase s" if "entry_ok cfg n d a i s" for n d a i s
    using that life_request [of s ServiceShutdown] stdin_ok_view [of "request_stop ServiceShutdown s" s]
    by (simp add: entry_ok_def client_same)
  have o: "active (shutdown_begin m) = active m" "next_uuid (shutdown_begin m) = next_uuid m"
    "degraded (shutdown_begin m) = degraded m" by (simp_all add: shutdown_begin_def)
  have e: "entry_ok cfg (next_uuid m) (degraded m) (active m) i t \<and> (active m = Some i \<longrightarrow> phase t \<noteq> TaskDone)"
    if "map_of (vsessions (shutdown_begin m)) i = Some t" for i t
  proof -
    from that obtain s where s: "map_of (vsessions m) i = Some s" "t = ?f s" by (auto simp: m)
    show ?thesis using f [OF sm_okD(2) [OF ok s(1)]] sm_okD(3) [OF ok _ s(1)] unfolding s(2) by simp
  qed
  show ?thesis unfolding sm_ok_def k o using sm_okD(1) [OF ok] e by simp
qed

section \<open>Reachable states\<close>

theorem sm_ok_step: "mstep cfg m n \<Longrightarrow> sm_ok cfg m \<Longrightarrow> sm_ok cfg n"
proof (induction rule: mstep.induct)
  case (step_deadline m b)
  then show ?case by (auto simp: shutdown_deadline_def intro: sm_ok_fields)
next
  case (step_clock m d)
  then show ?case by (auto intro: sm_ok_fields)
qed (simp_all add: sm_ok_create sm_ok_get sm_ok_release sm_ok_send sm_ok_queue sm_ok_stop sm_ok_shutdown
  sm_ok_prepare sm_ok_spawned sm_ok_event sm_ok_end sm_ok_finished)

lemma sm_ok_reachable: "sreachable cfg m \<Longrightarrow> sm_ok cfg m"
proof -
  have "sm_ok cfg n" if "msteps cfg m n" "sm_ok cfg m" for m n
    using that by (induction rule: msteps.induct) (auto intro: sm_ok_step)
  moreover have "sm_ok cfg manager_new" by (simp add: sm_ok_def manager_new_def)
  ultimately show "sreachable cfg m \<Longrightarrow> sm_ok cfg m" by (simp add: sreachable_def)
qed

end
