(* ===== verification/Session_Properties.thy ===== *)
theory Session_Properties
  imports Session_Inv
begin

text \<open>
  What the session manager promises its clients: at most one process, input that is answered once and
  written in order, a terminal session that never changes, and a slot that is released only when the
  process group is known to be empty.
\<close>

section \<open>Steps and what clients are shown\<close>

lemma sreachable_new: "sreachable cfg manager_new"
  by (simp add: sreachable_def msteps_refl)

lemma sreachable_step: "sreachable cfg m \<Longrightarrow> mstep cfg m n \<Longrightarrow> sreachable cfg n"
  unfolding sreachable_def by (rule msteps_step)

lemma shown_lookup:
  assumes "lookup_session cfg i m = (r, n)" "distinct (map fst (vsessions m))" "map_of (vsessions n) j = Some t"
  shows "map_of (vsessions m) j = Some t"
  using lookup_sessionD(1) [OF assms(1)] session_retention.lookup_old [OF assms(2)] assms(3) by simp

text \<open>
  A session after a step was there before, unless its identifier was not issued yet; and if it was
  terminal, it shows the same.
\<close>

definition continues :: "session_manager \<Rightarrow> session_manager \<Rightarrow> bool" where
  "continues m n \<longleftrightarrow> next_uuid m \<le> next_uuid n \<and>
     (\<forall>i t. map_of (vsessions n) i = Some t \<longrightarrow>
        (\<exists>s. map_of (vsessions m) i = Some s \<and> (vs_terminal s \<longrightarrow> shown t = shown s)) \<or> next_uuid m \<le> i)"

lemma continuesI:
  assumes "next_uuid m \<le> next_uuid n"
    "\<And>i t. map_of (vsessions n) i = Some t \<Longrightarrow> \<exists>s. map_of (vsessions m) i = Some s \<and> (vs_terminal s \<longrightarrow> shown t = shown s)"
  shows "continues m n"
  using assms unfolding continues_def by blast

lemma continuesD:
  assumes "continues m n" "map_of (vsessions n) i = Some t"
  shows "next_uuid m \<le> i \<or> (\<exists>s. map_of (vsessions m) i = Some s \<and> (vs_terminal s \<longrightarrow> shown t = shown s))"
  using assms unfolding continues_def by blast

lemma continues_same: "vsessions n = vsessions m \<Longrightarrow> next_uuid m \<le> next_uuid n \<Longrightarrow> continues m n"
  by (simp add: continues_def)

lemma continues_trans: "continues m n \<Longrightarrow> continues n k \<Longrightarrow> continues m k"
  unfolding continues_def by (force simp: shown_def)

lemma continues_prune: "distinct (map fst (vsessions m)) \<Longrightarrow> continues m (prune cfg m)"
  using session_retention.lookup_old [of "vsessions m"] by (fastforce intro!: continuesI)

lemma continues_client: "(\<And>s. shown (f s) = shown s) \<Longrightarrow> continues m (on_session i f m)"
  by (auto intro!: continuesI split: if_splits)

lemma continues_task:
  assumes "map_of (vsessions m) i = Some s" "\<not> vs_terminal s"
  shows "continues m (on_task i f m)"
  using assms by (auto simp: on_task_eq intro!: continuesI split: if_splits)

lemma continues_lookup:
  "distinct (map fst (vsessions m)) \<Longrightarrow> lookup_session cfg i m = (r, n) \<Longrightarrow> continues m n"
  using continues_prune lookup_sessionD(1) by metis

lemma not_terminal:
  "sm_ok cfg m \<Longrightarrow> map_of (vsessions m) i = Some s \<Longrightarrow> phase s \<in> {Preparing, Spawning, Supervising} \<Longrightarrow> \<not> vs_terminal s"
proof -
  assume "sm_ok cfg m" "map_of (vsessions m) i = Some s" "phase s \<in> {Preparing, Spawning, Supervising}"
  moreover from life_entry [OF sm_okD(2) [OF this(1,2)]] have "shown_ok s" by (simp add: life_ok_def)
  ultimately show ?thesis by (auto simp: shown_ok_def)
qed

lemma continues_step:
  assumes "mstep cfg m n" "sm_ok cfg m"
  shows "continues m n"
  using assms
proof (induction rule: mstep.induct)
  case (step_create m w p a h)
  let ?m = "m\<lparr>next_uuid := Suc (next_uuid m)\<rparr>"
  have a: "continues m ?m" by (rule continues_same) simp_all
  have b: "continues m (prune cfg ?m)"
    by (rule continues_trans [OF a continues_prune]) (use sm_okD(1) [OF step_create] in simp)
  then have "continues m ((prune cfg ?m)\<lparr>active := x, vsessions := (next_uuid m, s) # vsessions (prune cfg ?m)\<rparr>)" for x s
    unfolding continues_def by auto
  with a b show ?case
    by (auto simp: create_session_def register_session_def Let_def continues_same split: sum.splits)
next
  case (step_lookup m i)
  then show ?case using continues_prune sm_okD(1) by (auto simp: get_session_def lookup_session_def Let_def)
next
  case (step_release m i)
  obtain r n where r: "lookup_session cfg i m = (r, n)" by fastforce
  note l = continues_lookup [OF sm_okD(1) [OF step_release] r]
  have d: "distinct (map fst (vsessions n))"
    using sm_okD(1) [OF sm_ok_prune [OF step_release]] lookup_sessionD(1) [OF r] by simp
  have "continues n (prune cfg (on_session i (begin_retention (clock_ms n)) n))"
    by (rule continues_trans [OF continues_client continues_prune]) (simp_all add: d)
  with l show ?case using r by (auto simp: release_session_def intro: continues_trans split: sum.splits)
next
  case (step_send m i input)
  obtain r n where r: "lookup_session cfg i m = (r, n)" by fastforce
  note l = continues_lookup [OF sm_okD(1) [OF step_send] r]
  have "continues n (on_session i (send_reserve cfg (next_uuid n) input) (n\<lparr>next_uuid := Suc (next_uuid n)\<rparr>))"
    by (rule continues_trans [OF continues_same continues_client]) simp_all
  with l show ?case using r
    by (auto simp: send_input_begin_def Let_def intro: continues_trans split: sum.splits option.splits)
next
  case (step_queue m i h k)
  show ?case unfolding send_input_queue_def by (rule continues_client) simp
next
  case (step_stop why m i)
  obtain r n where r: "lookup_session cfg i m = (r, n)" by fastforce
  note l = continues_lookup [OF sm_okD(1) [OF step_stop(2)] r]
  have "continues n (on_session i (request_stop why) n)" by (rule continues_client) simp
  with l show ?case using r by (auto simp: stop_session_def intro: continues_trans split: sum.splits)
next
  case (step_shutdown m)
  show ?case by (rule continuesI) (auto simp: shutdown_begin_def map_of_map)
next
  case (step_prepare m i s dir gone)
  then show ?case unfolding task_prepare_def using not_terminal continues_task by blast
next
  case (step_spawned m i s r gone)
  then show ?case unfolding task_spawned_def using not_terminal continues_task by blast
next
  case (step_event m i s e)
  then show ?case unfolding task_event_def enabled_def using not_terminal continues_task by blast
next
  case (step_end m i s)
  then show ?case unfolding task_end_def using not_terminal continues_task by blast
next
  case (step_finished m i)
  have t: "continues m (on_task i run_return m)"
    by (rule continuesI) (auto simp: on_task_def Let_def split: option.splits if_splits)
  have k: "map fst (vsessions (on_task i run_return m)) = map fst (vsessions m)"
    by (simp add: on_task_def Let_def split: option.splits)
  have "continues (on_task i run_return m) (task_finished cfg i m)"
    unfolding task_finished_def finished_def
    by (rule continues_trans [OF continues_same continues_prune]) (use sm_okD(1) [OF step_finished(3)] k in simp_all)
  with t show ?case by (rule continues_trans)
qed (auto intro: continues_same simp: shutdown_deadline_def)

lemma continues_steps: "msteps cfg m n \<Longrightarrow> sm_ok cfg m \<Longrightarrow> sm_ok cfg n \<and> continues m n"
proof (induction rule: msteps.induct)
  case (msteps_step n k)
  then show ?case using continues_step sm_ok_step continues_trans by blast
qed (simp add: continues_same)

section \<open>A run\<close>

definition demo_cfg :: session_config where
  "demo_cfg = \<lparr>output_buffer_bytes = 64, stdin_max_bytes = 8, workflow_retention = 1000, max_retained_workflows = 2\<rparr>"

definition demo_env :: tick_env where
  "demo_env = \<lparr>te_wait = Inr True, te_term = Inr (), te_kill = Inr (), te_scan = Inr [], te_final = Inr (),
     te_rescan = Inr [], te_reap = Inr 3\<rparr>"

definition one_session :: "supervised \<Rightarrow> nat \<Rightarrow> session_manager" where
  "one_session s n = \<lparr>vsessions = [(0, s)], active = Some 0, shutting_down = False, degraded = False, clock_ms = 0, next_uuid = n\<rparr>"

definition demo_live :: supervised where
  "demo_live = (new_session demo_cfg 0 None ''p'' [''x''] 0)\<lparr>phase := Supervising, command := Some [''-mode'', ''tcl'', ''x''],
     vs_pid := 7, proc := spawned_process, fd_open := True, reply := Some (Inr (new_info 0 ''p'' 0))\<rparr>"

definition demo_typed :: supervised where
  "demo_typed = demo_live\<lparr>answers := [(\<lparr>in_id = 1, in_bytes = ''hi'', in_offset = 2\<rparr>, Inr ())], pty_input := ''hi''\<rparr>"

definition demo_reaped :: supervised where
  "demo_reaped = (stopping ProcessExited demo_typed)\<lparr>leader_exited := True, queue_closed := True,
     sv_stop := Some \<lparr>stop_why = ProcessExited, stop_since = 0, term_sent = True, last_kill = None\<rparr>,
     proc := \<lparr>child = False, identity_owned = False\<rparr>, sv_exit_code := Some 3, reaped_at := Some 0\<rparr>"

definition demo_sealed :: supervised where
  "demo_sealed = (finish 0 ProcessExited (Some 3) False demo_reaped)\<lparr>fd_open := False, reader_done := True, phase := Sealed\<rparr>"

lemmas eval_manager = create_session_def register_session_def prune_def prune_sessions_def prune_entries_def
  ended_entries_def map_filter_def young_def manager_new_def validate_vivado_args_def max_vivado_args_def max_vivado_arg_bytes_def
  task_prepare_def task_spawned_def task_event_def task_end_def on_task_def on_session_def Let_def prepare_def spawned_def
  vivado_command_def one_session_def new_session_def new_info_def

lemmas eval_steps = tick_def observe_tick_def observe_exit_def demo_env_def reject_inputs_eq held_def stopping_def stop_new_def
  stop_tick_def term_tick_def signal_group_def spawned_process_def kill_tick_def kill_due_def term_grace_def
  deadline_tick_def cleanup_deadline_def finalize_tick_def group_stopping_def inspect_group_def confirm_tick_def
  reap_tick_def reap_process_def as_i32_def

lemma demo_created: "snd (create_session demo_cfg None ''p'' [''x''] (Inr ()) manager_new) =
    one_session (new_session demo_cfg 0 None ''p'' [''x''] 0) 1"
  by (simp add: eval_manager) code_simp

lemma demo_started: "task_spawned 0 (SpawnOk 7 (Inr ())) False (task_prepare 0 (Inr []) False
    (one_session (new_session demo_cfg 0 None ''p'' [''x''] 0) 1)) = one_session demo_live 1"
  by (simp add: eval_manager demo_live_def)

lemma demo_input: "task_event 0 (EvWritten (Inr 2)) (task_event 0 EvInput (send_input_queue 0 (Inr ()) 1
    (snd (send_input_begin demo_cfg 0 ''hi'' (one_session demo_live 1))))) = one_session demo_typed 2"
  by (simp add: eval_manager demo_live_def demo_typed_def send_input_begin_def lookup_session_def ok_or_def send_checks_def
      send_reserve_def demo_cfg_def u32_max_def send_input_queue_def send_queue_def input_queue_length_def
      input_event_def written_event_def answer_input_def)

lemma demo_exit: "task_event 0 (EvTick demo_env) (one_session demo_typed 2) = one_session demo_reaped 2"
  by (simp add: eval_manager eval_steps demo_typed_def demo_live_def demo_reaped_def)

lemma demo_end: "task_end 0 (task_event 0 (EvRead (Inr [])) (one_session demo_reaped 2)) = one_session demo_sealed 2"
  by (simp add: eval_manager eval_steps demo_typed_def demo_live_def demo_reaped_def demo_sealed_def read_event_def
      supervise_end_def push_output_def decode_finish_def from_utf8_lossy.simps [of "[]"] finish_def)

lemma reachable_running: "sreachable demo_cfg (one_session demo_live 1)"
proof -
  let ?n = "one_session (new_session demo_cfg 0 None ''p'' [''x''] 0) 1"
  have "sreachable demo_cfg ?n"
    using sreachable_step [OF sreachable_new step_create [of demo_cfg _ None "''p''" "[''x'']" "Inr ()"]] demo_created by simp
  then have p: "sreachable demo_cfg (task_prepare 0 (Inr []) False ?n)"
    by (rule sreachable_step) (rule step_prepare, auto simp: one_session_def new_session_def)
  then have "sreachable demo_cfg (task_spawned 0 (SpawnOk 7 (Inr ())) False (task_prepare 0 (Inr []) False ?n))"
    by (rule sreachable_step) (rule step_spawned, auto simp: eval_manager)
  then show ?thesis by (simp only: demo_started)
qed

lemma event_reachable:
  "sreachable cfg m \<Longrightarrow> map_of (vsessions m) i = Some s \<Longrightarrow> enabled e s \<Longrightarrow> sreachable cfg (task_event i e m)"
  by (blast intro: sreachable_step step_event)

lemma demo_enabled: "phase s = Supervising \<Longrightarrow> reaped_at s = None \<Longrightarrow> event_ready e s \<Longrightarrow> enabled e s"
  by (simp add: enabled_def loop_over_def)

lemma reachable_typed: "sreachable demo_cfg (one_session demo_typed 2)"
proof -
  let ?b = "send_input_queue 0 (Inr ()) 1 (snd (send_input_begin demo_cfg 0 ''hi'' (one_session demo_live 1)))"
  have b: "sreachable demo_cfg ?b"
    by (rule sreachable_step [OF sreachable_step [OF reachable_running step_send] step_queue])
  note defs = eval_manager demo_live_def send_input_begin_def lookup_session_def ok_or_def send_checks_def
    send_reserve_def demo_cfg_def u32_max_def send_input_queue_def send_queue_def input_queue_length_def
  have q: "\<exists>s. map_of (vsessions ?b) 0 = Some s \<and> enabled EvInput s"
    by (simp add: defs enabled_def loop_over_def stop_waiting_def)
  then have c: "sreachable demo_cfg (task_event 0 EvInput ?b)" using event_reachable [OF b] by blast
  have "\<exists>s. map_of (vsessions (task_event 0 EvInput ?b)) 0 = Some s \<and> enabled (EvWritten (Inr 2)) s"
    by (simp add: defs enabled_def loop_over_def stop_waiting_def input_event_def)
  then have "sreachable demo_cfg (task_event 0 (EvWritten (Inr 2)) (task_event 0 EvInput ?b))"
    using event_reachable [OF c] by blast
  then show ?thesis by (simp only: demo_input)
qed

lemma reachable_sealed: "sreachable demo_cfg (one_session demo_sealed 2)"
proof -
  have "sreachable demo_cfg (task_event 0 (EvTick demo_env) (one_session demo_typed 2))"
    by (rule event_reachable [OF reachable_typed, where s = demo_typed])
      (simp_all add: one_session_def demo_typed_def demo_live_def new_session_def enabled_def loop_over_def stop_waiting_def)
  then have a: "sreachable demo_cfg (one_session demo_reaped 2)" by (simp only: demo_exit)
  have b: "sreachable demo_cfg (task_event 0 (EvRead (Inr [])) (one_session demo_reaped 2))"
    by (rule event_reachable [OF a, where s = demo_reaped])
      (simp_all add: one_session_def demo_reaped_def demo_typed_def demo_live_def new_session_def stopping_def enabled_def
        loop_over_def stop_waiting_def)
  have "sreachable demo_cfg (task_end 0 (task_event 0 (EvRead (Inr [])) (one_session demo_reaped 2)))"
    by (rule sreachable_step [OF b], rule step_end)
      (auto simp: eval_manager demo_reaped_def demo_typed_def demo_live_def stopping_def read_event_def loop_over_def)
  then show ?thesis by (simp only: demo_end)
qed

section \<open>Properties\<close>

text \<open>
  C22. One process at a time: while the process of a session is not reaped, its session holds the
  manager's slot and is not shown as terminal, no other session has a process, and every attempt to
  create a session is refused.
\<close>

theorem one_live_process:
  assumes "sreachable cfg m" "map_of (vsessions m) i = Some s" "child (proc s)"
  shows "active m = Some i \<and> \<not> is_terminal (si_status (vs_info s)) \<and>
    (\<forall>j t. map_of (vsessions m) j = Some t \<and> child (proc t) \<longrightarrow> j = i) \<and>
    (\<exists>e. fst (create_session cfg w p args h m) = Inl e)"
proof -
  note ok = sm_ok_reachable [OF assms(1)]
  have slot: "active m = Some k \<and> \<not> is_terminal (si_status (vs_info u))"
    if u: "map_of (vsessions m) k = Some u" "child (proc u)" for k u
  proof -
    have "shown_ok u" "phase u = TaskDone \<or> active m = Some k" using sm_okD(2) [OF ok u(1)]
      by (simp_all add: entry_ok_def life_ok_def)
    with u(2) show ?thesis by (auto simp: shown_ok_def)
  qed
  have a: "active m = Some i" using slot [OF assms(2,3)] ..
  have "\<exists>e. fst (register_session cfg k w p args (m\<lparr>next_uuid := n\<rparr>)) = Inl e" for k n
    by (simp add: register_session_def Let_def a)
  then have "\<exists>e. fst (create_session cfg w p args h m) = Inl e"
    by (simp add: create_session_def Let_def split: sum.splits)
  with slot [OF assms(2,3)] slot a show ?thesis by fastforce
qed

theorem one_live_process_witness:
  "active (one_session demo_typed 2) = Some 0 \<and>
   (\<exists>e. fst (create_session demo_cfg None ''q'' [] (Inr ()) (one_session demo_typed 2)) = Inl e)"
proof -
  have s: "map_of (vsessions (one_session demo_typed 2)) 0 = Some demo_typed" "child (proc demo_typed)"
    by (simp_all add: one_session_def demo_typed_def demo_live_def spawned_process_def)
  from one_live_process [OF reachable_typed s] show ?thesis by blast
qed

text \<open>
  C23. Input is accounted for exactly. In every reachable state the permits that are out are those of the
  calls and inputs under way; no call is answered twice, and a call is told that its input was written
  if and only if all of it was; what the PTY got is what was written of the inputs in the order in which
  they were answered, without interleaving; and when the task has ended nothing is left unanswered.
\<close>

theorem stdin_accounted:
  assumes "sreachable cfg m" "map_of (vsessions m) i = Some s"
  shows "budget s + sum_list (map (length \<circ> snd) (reserved s)) + sum_list (map (length \<circ> in_bytes) (held s)) = stdin_max_bytes cfg \<and>
    distinct (map (in_id \<circ> fst) (answers s)) \<and>
    (\<forall>(x, r)\<in>set (answers s). r = Inr () \<longleftrightarrow> written_of x = in_bytes x) \<and>
    pty_input s = concat (map (written_of \<circ> fst) (answers s)) @ (case pending s of None \<Rightarrow> [] | Some x \<Rightarrow> written_of x) \<and>
    (phase s = TaskDone \<longrightarrow> held s = [])"
proof -
  have e: "stdin_ok (stdin_max_bytes cfg) s" "life_ok s"
    using sm_okD(2) [OF sm_ok_reachable [OF assms(1)] assms(2)] by (simp_all add: entry_ok_def)
  have a: "r = Inr () \<longleftrightarrow> written_of x = in_bytes x" if "(x, r) \<in> set (answers s)" for x r
  proof -
    have "answer_ok (x, r)" using e(1) that by (auto simp: stdin_ok_def list_all_iff)
    then have "in_offset x \<le> length (in_bytes x)" "r = Inr () \<longleftrightarrow> in_offset x = length (in_bytes x)"
      by (simp_all add: answer_ok_def)
    moreover from this(1) have "written_of x = in_bytes x \<longleftrightarrow> in_offset x = length (in_bytes x)"
      unfolding written_of_def by (metis length_take min.absorb2 take_all_iff le_refl)
    ultimately show ?thesis by simp
  qed
  have "phase s = TaskDone \<longrightarrow> held s = []" using e by (simp add: life_ok_def stdin_ok_def)
  moreover have "distinct (map (in_id \<circ> fst) (answers s))" using e(1) by (simp add: stdin_ok_def input_ids_def)
  ultimately show ?thesis using e(1) a unfolding stdin_ok_def by blast
qed

theorem stdin_accounted_witness: "pty_input demo_typed = ''hi'' \<and> budget demo_typed = 8 \<and> length (answers demo_typed) = 1"
proof -
  have s: "map_of (vsessions (one_session demo_typed 2)) 0 = Some demo_typed" by (simp add: one_session_def)
  from stdin_accounted [OF reachable_typed s] show ?thesis
    by (simp add: demo_typed_def demo_live_def new_session_def demo_cfg_def)
qed

text \<open>
  C24. A terminal session is sealed: whatever happens after, and for as long as it is retained, its
  clients are shown the same status, reason, exit code and output.
\<close>

theorem terminal_is_sealed:
  assumes "sreachable cfg m" "map_of (vsessions m) i = Some s" "is_terminal (si_status (vs_info s))"
    and "msteps cfg m n" "map_of (vsessions n) i = Some t"
  shows "vs_info t = vs_info s \<and> vs_output t = vs_output s"
proof -
  note ok = sm_ok_reachable [OF assms(1)]
  have "shown_ok s" "i < next_uuid m" using sm_okD(2) [OF ok assms(2)] by (simp_all add: entry_ok_def life_ok_def)
  with assms(3) have e: "vs_terminal s" "i < next_uuid m" by (auto simp: shown_ok_def)
  from continues_steps [OF assms(4) ok] have c: "continues m n" ..
  from continuesD [OF c assms(5)] e(2) assms(2) e(1) have "shown t = shown s" by simp
  then show ?thesis by (simp add: shown_def)
qed

theorem terminal_is_sealed_witness: "vs_info (run_return demo_sealed) = vs_info demo_sealed \<and> exit_code (vs_info demo_sealed) = Some 3"
proof -
  let ?m = "one_session demo_sealed 2"
  let ?n = "task_finished demo_cfg 0 ?m"
  have s: "map_of (vsessions ?m) 0 = Some demo_sealed" "is_terminal (si_status (vs_info demo_sealed))"
    by (simp_all add: one_session_def demo_sealed_def finish_def)
  have "mstep demo_cfg ?m ?n"
    by (rule step_finished) (simp_all add: one_session_def sealed_task_def demo_sealed_def)
  then have st: "msteps demo_cfg ?m ?n" by (rule msteps_step [OF msteps_refl])
  have r: "raised demo_sealed = False" "retained_since demo_sealed = None"
    by (simp_all add: demo_sealed_def demo_reaped_def demo_typed_def demo_live_def new_session_def finish_def stopping_def)
  then have "demo_sealed\<lparr>raised := False\<rparr> = demo_sealed" by simp
  then have t: "map_of (vsessions ?n) 0 = Some (run_return demo_sealed)"
    using r(2) by (simp add: task_finished_def finished_def eval_manager run_return_def reject_inputs_eq)
  from terminal_is_sealed [OF reachable_sealed s st t] show ?thesis by (simp add: demo_sealed_def finish_def)
qed

text \<open>
  C25. The outcome a terminal session shows is the one its supervisor established: the status is that of
  its reason, nothing of the process is left, no cleanup error is hidden in it, and it is shown as
  exited only with the exit code of a leader that was reaped.
\<close>

theorem outcome_is_established:
  assumes "sreachable cfg m" "map_of (vsessions m) i = Some s" "is_terminal (si_status (vs_info s))"
  shows "\<exists>r. termination_reason (vs_info s) = Some r \<and> si_status (vs_info s) = final_status r \<and>
    ended_at (vs_info s) \<noteq> None \<and> cleanup_error (vs_info s) = None \<and> \<not> child (proc s) \<and>
    (r = ProcessExited \<longrightarrow> reaped_at s \<noteq> None \<and> sv_exit_code s \<noteq> None \<and> exit_code (vs_info s) = sv_exit_code s)"
proof -
  have l: "life_ok s" by (rule life_entry [OF sm_okD(2) [OF sm_ok_reachable [OF assms(1)] assms(2)]])
  then have sh: "shown_ok s" by (simp add: life_ok_def)
  then have p: "phase s \<in> {Sealed, TaskDone}" using assms(3) by (auto simp: shown_ok_def)
  then have "sealed_ok s" using l by (simp add: life_ok_def)
  moreover have "\<not> child (proc s)" using p sh by (auto simp: shown_ok_def)
  ultimately show ?thesis by (auto simp: sealed_ok_def)
qed

theorem outcome_is_established_witness: "termination_reason (vs_info demo_sealed) = Some ProcessExited \<and> \<not> child (proc demo_sealed)"
proof -
  have s: "map_of (vsessions (one_session demo_sealed 2)) 0 = Some demo_sealed" "is_terminal (si_status (vs_info demo_sealed))"
    by (simp_all add: one_session_def demo_sealed_def finish_def)
  from outcome_is_established [OF reachable_sealed s] show ?thesis by (auto simp: demo_sealed_def finish_def)
qed

text \<open>What a scan of \<open>/proc\<close> has seen when it reports no live member: nothing it could not read.\<close>

definition entry_clear :: "int \<Rightarrow> string + string \<times> (stat_error + string) \<Rightarrow> bool" where
  "entry_clear pgid e =
     (case e of
        Inl _ \<Rightarrow> False
      | Inr (name, contents) \<Rightarrow>
          list_all is_ascii_digit name \<longrightarrow>
          (case contents of
             Inl g \<Rightarrow> g = StatGone
           | Inr bs \<Rightarrow> (case parse_stat bs of Inl _ \<Rightarrow> False | Inr (g, live) \<Rightarrow> g \<noteq> pgid \<or> \<not> live)))"

lemma scan_clear: "group_has_live_members pgid es = Inr False \<Longrightarrow> list_all (entry_clear pgid) es"
  by (induction pgid es rule: group_has_live_members.induct)
    (auto simp: entry_clear_def split: if_splits sum.splits stat_error.splits prod.splits)

lemma inspect_clear:
  "inspect_group what failed pgid scan = Inr False \<Longrightarrow> \<exists>table. scan = Inr table \<and> list_all (entry_clear pgid) table"
  using scan_clear by (auto simp: inspect_group_def split: sum.splits)

lemma reaped_stages:
  "reaped_at (reap_tick t env s) \<noteq> None \<Longrightarrow> reaped_at s = None \<Longrightarrow> \<exists>n. te_reap env = Inr n \<and> child (proc s)"
  by (auto simp: reap_tick_def reap_process_def report_cleanup_error_def split: sum.splits prod.splits if_splits)

lemma observe_pid: "vs_pid (observe_tick t env s) = vs_pid s"
  by (auto simp: observe_tick_def Let_def report_cleanup_error_def reject_inputs_eq stopping_def request_stop_def
      split: sum.splits bool.splits prod.splits)

lemma report_same [simp]:
  "vs_pid (report_cleanup_error e s) = vs_pid s" "leader_exited (report_cleanup_error e s) = leader_exited s"
  "reaped_at (report_cleanup_error e s) = reaped_at s" "proc (report_cleanup_error e s) = proc s"
  "reader_done (report_cleanup_error e s) = reader_done s" "sv_stop (report_cleanup_error e s) = sv_stop s"
  by (simp_all add: report_cleanup_error_def)

lemma term_same [simp]:
  "vs_pid (term_tick env st s) = vs_pid s" "leader_exited (term_tick env st s) = leader_exited s"
  "proc (term_tick env st s) = proc s" "reader_done (term_tick env st s) = reader_done s"
  by (simp_all add: term_tick_def split: sum.splits)

lemma kill_same [simp]:
  "vs_pid (kill_tick t env s) = vs_pid s" "leader_exited (kill_tick t env s) = leader_exited s"
  "proc (kill_tick t env s) = proc s" "reader_done (kill_tick t env s) = reader_done s"
  by (simp_all add: kill_tick_def Let_def split: sum.splits option.splits)

lemma stop_tick_same:
  "vs_pid (stop_tick t env s) = vs_pid s" "leader_exited (stop_tick t env s) = leader_exited s"
  "proc (stop_tick t env s) = proc s" "reader_done (stop_tick t env s) = reader_done s"
  by (simp_all add: stop_tick_def deadline_tick_def split: option.splits)

text \<open>
  C26. The process is given up only when its group is known to be empty: a tick that reaps the leader saw
  it exit, killed the group, and two scans of the process table without an unreadable entry found no
  live member. Every failure on the way leaves the leader unreaped.
\<close>

theorem reap_needs_empty_group:
  assumes "reaped_at s = None" "reaped_at (tick t env s) \<noteq> None"
  shows "\<exists>before after. te_scan env = Inr before \<and> list_all (entry_clear (vs_pid s)) before \<and>
    te_rescan env = Inr after \<and> list_all (entry_clear (vs_pid s)) after \<and>
    te_final env \<in> {Inr (), Inl ESrch} \<and> (\<exists>n. te_reap env = Inr n) \<and> (leader_exited s \<or> te_wait env = Inr True)"
proof -
  let ?o = "observe_tick t env s"
  let ?u = "stop_tick t env ?o"
  note pid = stop_tick_same(1) [of t env ?o, unfolded observe_pid] and le = stop_tick_same(2) [of t env ?o]
  have r: "reaped_at ?u = None" "reaped_at (finalize_tick t env ?u) \<noteq> None" using assms by (simp_all add: tick_def)
  have rep: "reaped_at (report_cleanup_error e ?u) = None" for e using r(1) by (simp add: report_cleanup_error_def)
  from r rep have g: "group_stopping ?u"
    and sc: "inspect_group ''cannot inspect Vivado process group: '' ''process group inspection failed: '' (vs_pid ?u) (te_scan env) = Inr False"
    and c: "reaped_at (confirm_tick t env ?u) \<noteq> None"
    by (auto simp: finalize_tick_def split: if_splits sum.splits bool.splits)
  from c r(1) rep have k: "\<exists>x. signal_group (te_final env) (proc ?u) = Inr x"
    and rs: "inspect_group ''cannot confirm Vivado group cleanup: '' ''process group confirmation failed: '' (vs_pid ?u) (te_rescan env) = Inr False"
    and rp: "reaped_at (reap_tick t env ?u) \<noteq> None"
    by (auto simp: confirm_tick_def split: sum.splits bool.splits)
  have "te_final env \<in> {Inr (), Inl ESrch}" using k by (auto simp: signal_group_def split: if_splits sum.splits)
  moreover have "leader_exited s \<or> te_wait env = Inr True"
    using g le unfolding group_stopping_def
    by (auto simp: observe_tick_def observe_exit_def Let_def report_cleanup_error_def request_stop_def
        split: sum.splits bool.splits if_splits)
  ultimately show ?thesis
    using inspect_clear [OF sc] inspect_clear [OF rs] reaped_stages [OF rp r(1)] pid by auto
qed

theorem reap_needs_empty_group_witness: "te_reap demo_env = Inr 3 \<and> reaped_at (tick 0 demo_env demo_typed) = Some 0"
proof -
  have s: "reaped_at demo_typed = None" "reaped_at (tick 0 demo_env demo_typed) = Some 0"
    by (simp_all add: eval_manager eval_steps demo_typed_def demo_live_def)
  from reap_needs_empty_group [OF s(1), of 0 demo_env] s(2) show ?thesis by (auto simp: demo_env_def)
qed

text \<open>
  C27. Cleanup that fails is never hidden: while a session carries a cleanup error, the manager is
  degraded, the session keeps the slot, and it is not shown as terminal.
\<close>

theorem failed_cleanup_keeps_slot:
  assumes "sreachable cfg m" "map_of (vsessions m) i = Some s" "cleanup_error (vs_info s) \<noteq> None"
  shows "degraded m \<and> active m = Some i \<and> \<not> is_terminal (si_status (vs_info s))"
proof -
  have e: "entry_ok cfg (next_uuid m) (degraded m) (active m) i s" by (rule sm_okD(2) [OF sm_ok_reachable [OF assms(1)] assms(2)])
  have l: "life_ok s" by (rule life_entry [OF e])
  then have sh: "shown_ok s" by (simp add: life_ok_def)
  from l assms(3) have "phase s \<notin> {Sealed, TaskDone}" by (auto simp: life_ok_def sealed_ok_def)
  with e sh assms(3) show ?thesis by (auto simp: entry_ok_def shown_ok_def)
qed

theorem failed_cleanup_keeps_slot_witness:
  "degraded (task_event 0 (EvTick (demo_env\<lparr>te_reap := Inl EIntr\<rparr>)) (one_session demo_typed 2))"
proof -
  let ?e = "EvTick (demo_env\<lparr>te_reap := Inl EIntr\<rparr>)"
  let ?m = "task_event 0 ?e (one_session demo_typed 2)"
  have r: "sreachable demo_cfg ?m"
    by (rule event_reachable [OF reachable_typed, where s = demo_typed])
      (simp_all add: one_session_def demo_typed_def demo_live_def new_session_def enabled_def loop_over_def stop_waiting_def)
  have "\<exists>s. map_of (vsessions ?m) 0 = Some s \<and> cleanup_error (vs_info s) \<noteq> None"
    by (simp add: eval_manager eval_steps demo_typed_def demo_live_def report_cleanup_error_def)
  then show ?thesis using failed_cleanup_keeps_slot [OF r] by blast
qed

text \<open>A kernel that cooperates: the leader is gone or exits, signals are delivered, and the group is empty.\<close>

definition cooperative :: "int \<Rightarrow> tick_env \<Rightarrow> bool" where
  "cooperative pgid env \<longleftrightarrow> te_wait env = Inr True \<and> is_ok (te_term env) \<and> is_ok (te_kill env) \<and> is_ok (te_final env) \<and>
     (case te_scan env of Inl _ \<Rightarrow> False | Inr table \<Rightarrow> group_has_live_members pgid table = Inr False) \<and>
     (case te_rescan env of Inl _ \<Rightarrow> False | Inr table \<Rightarrow> group_has_live_members pgid table = Inr False) \<and>
     is_ok (te_reap env)"

lemma cooperative_reaps:
  assumes o: "owned s" "reaped_at s = None" "identity_owned (proc s)" and c: "cooperative (vs_pid s) env"
  shows "reaped_at (tick t env s) = Some t"
proof -
  let ?o = "observe_tick t env s"
  let ?u = "stop_tick t env ?o"
  have ch: "child (proc s)" using o by (simp add: owned_def)
  have obs: "leader_exited ?o" "sv_stop ?o \<noteq> None" "proc ?o = proc s"
    using o c by (auto simp: observe_tick_def observe_exit_def cooperative_def Let_def reject_inputs_eq stopping_def owned_def)
  have sent: "\<exists>st. sv_stop ?u = Some st \<and> term_sent st"
  proof -
    obtain st where st: "sv_stop ?o = Some st" using obs(2) by auto
    obtain a where a: "te_term env = Inr a" using c by (auto simp: cooperative_def is_ok_iff)
    obtain b where b: "te_kill env = Inr b" using c by (auto simp: cooperative_def is_ok_iff)
    have t: "sv_stop (term_tick env st ?o) = Some (st\<lparr>term_sent := True\<rparr>)" "proc (term_tick env st ?o) = proc s"
      using st obs(3) o(3) a by (simp_all add: term_tick_def signal_group_def)
    then show ?thesis using st o(3) b by (simp add: stop_tick_def deadline_tick_def kill_tick_def Let_def signal_group_def)
  qed
  have g: "group_stopping ?u" using sent obs(1) by (auto simp: group_stopping_def stop_tick_same)
  have p: "proc ?u = proc s" "vs_pid ?u = vs_pid s" by (simp_all add: stop_tick_same obs(3) observe_pid)
  obtain table table' where tb: "te_scan env = Inr table" "group_has_live_members (vs_pid s) table = Inr False"
    "te_rescan env = Inr table'" "group_has_live_members (vs_pid s) table' = Inr False"
    using c by (auto simp: cooperative_def split: sum.splits)
  obtain k where k: "te_final env = Inr k" using c by (auto simp: cooperative_def is_ok_iff)
  obtain n where n: "te_reap env = Inr n" using c by (auto simp: cooperative_def is_ok_iff)
  have "reaped_at (finalize_tick t env ?u) = Some t"
    using g p ch o(3) k n by (simp add: finalize_tick_def inspect_group_def confirm_tick_def signal_group_def reap_tick_def reap_process_def tb)
  then show ?thesis using o(2) by (simp add: tick_def)
qed

text \<open>
  C28. Cleanup ends. In any reachable state in which no wait has lost the child, once the kernel cooperates
  one tick reaps the process and, even if its output is never closed, a tick after the drain grace ends the loop; the task then
  publishes a terminal session with the exit code. No third event is needed.
\<close>

theorem cleanup_settles:
  assumes "sreachable cfg m" "map_of (vsessions m) i = Some s" "phase s = Supervising" "reaped_at s = None"
    and "identity_owned (proc s)" "cooperative (vs_pid s) env" "te_reap env = Inr n"
  shows "let u = tick (t + drain_grace) env' (tick t env s) in
    loop_over u \<and> is_terminal (si_status (vs_info (supervise_end x u))) \<and>
    exit_code (vs_info (supervise_end x u)) = Some (as_i32 n)"
proof -
  have o: "owned s"
    using life_entry [OF sm_okD(2) [OF sm_ok_reachable [OF assms(1)] assms(2)]] assms(3) by (simp add: life_ok_owned)
  let ?t = "tick t env s"
  note r = cooperative_reaps [OF o assms(4-6), of t]
  have ot: "owned ?t" by (rule owned_tick [OF o])
  have e: "sv_exit_code ?t = Some (as_i32 n)"
    using r assms(4,7) by (auto simp: tick_def finalize_tick_def confirm_tick_def reap_tick_def reap_process_def
        split: if_splits sum.splits bool.splits prod.splits)
  have u: "tick (t + drain_grace) env' ?t = drain_tick (t + drain_grace) ?t" using r by (simp add: tick_def)
  let ?u = "drain_tick (t + drain_grace) ?t"
  have d: "reaped_at ?u = Some t" "reader_done ?u" "sv_exit_code ?u = Some (as_i32 n)"
    using r e by (simp_all add: drain_tick_def)
  have "owned ?u" using owned_tick [OF ot, of "t + drain_grace" env'] by (simp add: u)
  then have "life_ok (supervise_end x ?u)" by (intro life_end) (use d in \<open>simp_all add: owned_life owned_phase loop_over_def\<close>)
  then have "shown_ok (supervise_end x ?u)" by (simp add: life_ok_def)
  moreover have "phase (supervise_end x ?u) = Sealed" by (simp add: supervise_end_def Let_def)
  moreover have "exit_code (vs_info (supervise_end x ?u)) = sv_exit_code ?u"
    by (simp add: supervise_end_def Let_def finish_def begin_retention_def push_output_other reject_inputs_eq)
  ultimately show ?thesis using d by (simp add: u Let_def loop_over_def shown_ok_def)
qed

theorem cleanup_settles_witness: "loop_over (tick drain_grace demo_env (tick 0 demo_env demo_typed))"
proof -
  have s: "map_of (vsessions (one_session demo_typed 2)) 0 = Some demo_typed" by (simp add: one_session_def)
  have f: "phase demo_typed = Supervising" "reaped_at demo_typed = None" "identity_owned (proc demo_typed)"
    "cooperative (vs_pid demo_typed) demo_env" "te_reap demo_env = Inr 3"
    by (simp_all add: demo_typed_def demo_live_def new_session_def spawned_process_def cooperative_def demo_env_def)
  from cleanup_settles [OF reachable_typed s f, of 0 demo_env] show ?thesis by (simp add: Let_def)
qed

text \<open>An argument that names an execution mode, as Vivado reads it: without regard to case.\<close>

definition names_mode :: "string \<Rightarrow> bool" where
  "names_mode arg = (let lower = to_ascii_lowercase arg in
     lower \<in> {''-mode'', ''-gui'', ''-batch'', ''-tcl''} \<or> is_prefix ''-mode='' lower)"

text \<open>
  C29. The execution mode is the server's: the command line of every session that is accepted starts with
  the mode the server chose and names none after it, its arguments are bounded in number and bytes, and
  no argument can be cut by a zero byte.
\<close>

theorem vivado_mode_owned:
  assumes "fst (create_session cfg w p args h m) = Inr i"
  shows "take 2 (vivado_command args) = [''-mode'', ''tcl''] \<and>
    filter names_mode (vivado_command args) = [''-mode''] \<and> list_all (\<lambda>a. CHR 0x00 \<notin> set a) args \<and>
    length args \<le> max_vivado_args \<and> sum_list (map length args) \<le> max_vivado_arg_bytes"
proof -
  have v: "validate_vivado_args args = Inr ()"
    using assms by (auto simp: create_session_def split: sum.splits)
  then have b: "list_all (\<lambda>a. \<not> bad_vivado_arg a) args" "length args \<le> max_vivado_args"
    "sum_list (map length args) \<le> max_vivado_arg_bytes"
    by (simp_all add: validate_vivado_args_def list_all_iff list_ex_iff split: if_splits)
  have "\<not> bad_vivado_arg a \<longleftrightarrow> CHR 0x00 \<notin> set a \<and> \<not> names_mode a" for a
    unfolding bad_vivado_arg_def names_mode_def Let_def by blast
  with b(1) have n: "list_all (\<lambda>a. CHR 0x00 \<notin> set a) args" "list_all (\<lambda>a. \<not> names_mode a) args"
    by (simp_all add: list_all_iff)
  have "filter names_mode args = []" using n(2) by (simp add: filter_empty_conv list_all_iff)
  moreover have "names_mode ''-mode''" "\<not> names_mode ''tcl''" by code_simp+
  ultimately show ?thesis using n(1) b(2,3) by (simp add: vivado_command_def)
qed

theorem vivado_mode_owned_witness: "filter names_mode (vivado_command [''x'']) = [''-mode'']"
proof -
  have "fst (create_session demo_cfg None ''p'' [''x''] (Inr ()) manager_new) = Inr 0"
    by (simp add: eval_manager) code_simp
  from vivado_mode_owned [OF this] show ?thesis by blast
qed

end
