(* ===== verification/Task.thy ===== *)
theory Task
  imports Errors
begin

text \<open>
  Asynchronous tasks over a shared state, and rely/guarantee reasoning about their interleaving. A task
  is a sequence of sections. A section is what the code does while it holds a mutex, or one awaited call;
  it runs without interruption, and waits while its function is \<open>None\<close>. Between two sections any other
  task may run. A pool holds the tasks that run concurrently, each under its own number; number 0
  stands for the environment.
\<close>

section \<open>Tasks\<close>

datatype ('a, 's) task = Ret 'a | Act "'s \<Rightarrow> (('a, 's) task \<times> 's) option"

primrec bindT :: "('a, 's) task \<Rightarrow> ('a \<Rightarrow> ('b, 's) task) \<Rightarrow> ('b, 's) task" where
  "bindT (Ret x) f = f x"
| "bindT (Act g) f = Act (\<lambda>s. map_option (map_prod (\<lambda>t. bindT t f) id) (g s))"

text \<open>The operator \<open>?\<close> of the source.\<close>

definition bindR :: "('a res, 's) task \<Rightarrow> ('a \<Rightarrow> ('b res, 's) task) \<Rightarrow> ('b res, 's) task" where
  "bindR t f = bindT t (\<lambda>r. case r of Inl e \<Rightarrow> Ret (Inl e) | Inr x \<Rightarrow> f x)"

definition waiting :: "('s \<Rightarrow> ('a \<times> 's) option) \<Rightarrow> ('a, 's) task" where
  "waiting f = Act (\<lambda>s. map_option (map_prod Ret id) (f s))"

definition atomic :: "('s \<Rightarrow> 'a \<times> 's) \<Rightarrow> ('a, 's) task" where
  "atomic f = waiting (\<lambda>s. Some (f s))"

definition reading :: "('s \<Rightarrow> 'a) \<Rightarrow> ('a, 's) task" where
  "reading f = atomic (\<lambda>s. (f s, s))"

definition update :: "('s \<Rightarrow> 's) \<Rightarrow> (unit, 's) task" where
  "update f = atomic (\<lambda>s. ((), f s))"

text \<open>A task on its own, to the end; \<open>None\<close> when one of its sections waits.\<close>

primrec run :: "('a, 's) task \<Rightarrow> 's \<Rightarrow> ('a \<times> 's) option" where
  "run (Ret x) s = Some (x, s)"
| "run (Act g) s = (case map_option (map_prod (\<lambda>t. run t) id) (g s) of None \<Rightarrow> None | Some (k, s') \<Rightarrow> k s')"

lemma run_Act: "run (Act g) s = (case g s of None \<Rightarrow> None | Some (t, s') \<Rightarrow> run t s')"
  by (auto split: option.splits)

declare run.simps(2) [simp del]
declare run_Act [simp]

lemma run_bindT: "run (bindT t f) s = (case run t s of None \<Rightarrow> None | Some (x, s') \<Rightarrow> run (f x) s')"
proof (induction t arbitrary: s)
  case (Act g)
  show ?case
  proof (cases "g s")
    case (Some p)
    obtain u s' where p: "p = (u, s')" by (cases p)
    have "run (bindT u f) s' = (case run u s' of None \<Rightarrow> None | Some (x, s') \<Rightarrow> run (f x) s')"
      using Act [of "g s" p u] rangeI [of g s] by (simp add: Some p)
    then show ?thesis by (simp add: Some p)
  qed simp
qed simp

lemma run_bindR:
  "run (bindR t f) s =
     (case run t s of None \<Rightarrow> None | Some (Inl e, s') \<Rightarrow> Some (Inl e, s') | Some (Inr x, s') \<Rightarrow> run (f x) s')"
  by (auto simp: bindR_def run_bindT split: option.splits sum.splits)

lemma run_sections [simp]:
  "run (waiting f) s = f s" "run (atomic h) s = Some (h s)"
  "run (reading r) s = Some (r s, s)" "run (update u) s = Some ((), u s)"
  by (simp_all add: waiting_def atomic_def reading_def update_def case_prod_unfold split: option.splits)

section \<open>Rely and guarantee\<close>

locale rely_guarantee =
  fixes inv :: "'s \<Rightarrow> bool"
    and guar :: "nat \<Rightarrow> 's \<Rightarrow> 's \<Rightarrow> bool"
  assumes guar_refl: "guar i s s"
begin

text \<open>An assertion of task \<open>i\<close> that no other task can invalidate.\<close>

definition stable :: "nat \<Rightarrow> ('s \<Rightarrow> bool) \<Rightarrow> bool" where
  "stable i P \<longleftrightarrow> (\<forall>j s t. j \<noteq> i \<longrightarrow> inv s \<longrightarrow> inv t \<longrightarrow> guar j s t \<longrightarrow> P s \<longrightarrow> P t)"

inductive safe :: "nat \<Rightarrow> ('a \<Rightarrow> 's \<Rightarrow> bool) \<Rightarrow> ('s \<Rightarrow> bool) \<Rightarrow> ('a, 's) task \<Rightarrow> bool" for i Q where
  safe_ret: "(\<And>s. P s \<Longrightarrow> Q x s) \<Longrightarrow> safe i Q P (Ret x)"
| safe_act: "(\<And>s t s'. inv s \<Longrightarrow> P s \<Longrightarrow> g s = Some (t, s') \<Longrightarrow>
      inv s' \<and> guar i s s' \<and> (\<exists>R. stable i R \<and> R s' \<and> safe i Q R t)) \<Longrightarrow> safe i Q P (Act g)"

lemma stable_True [simp]: "stable i (\<lambda>s. True)"
  by (simp add: stable_def)

lemma stable_const [simp]: "stable i (\<lambda>s. b)"
  unfolding stable_def by blast

lemma stable_conj: "stable i P \<Longrightarrow> stable i R \<Longrightarrow> stable i (\<lambda>s. P s \<and> R s)"
  by (simp add: stable_def)

lemma stable_across: "stable i P \<Longrightarrow> guar j s t \<Longrightarrow> j \<noteq> i \<Longrightarrow> inv s \<Longrightarrow> inv t \<Longrightarrow> P s \<Longrightarrow> P t"
  by (auto simp: stable_def)

lemma safe_pre:
  assumes "safe i Q P t" "\<And>s. R s \<Longrightarrow> P s"
  shows "safe i Q R t"
  using assms(1)
proof cases
  case safe_ret
  with assms(2) show ?thesis by (auto intro: safe.safe_ret)
next
  case (safe_act g)
  with assms(2) show ?thesis by (auto intro: safe.safe_act)
qed

lemma safe_bind:
  assumes "safe i R P t" "\<And>x. safe i Q (R x) (f x)"
  shows "safe i Q P (bindT t f)"
  using assms(1)
proof induction
  case (safe_ret P x)
  then show ?case using safe_pre [OF assms(2)] by simp
next
  case (safe_act P g)
  show ?case unfolding bindT.simps
  proof (rule safe.safe_act, goal_cases)
    case (1 s t s')
    then obtain u where u: "g s = Some (u, s')" "t = bindT u f" by auto
    from safe_act [OF 1(1,2) u(1)] show ?case unfolding u(2) by blast
  qed
qed

lemma safe_bindR:
  assumes "safe i R P t" "\<And>x. safe i Q (R (Inr x)) (f x)" "\<And>e s. R (Inl e) s \<Longrightarrow> Q (Inl e) s"
  shows "safe i Q P (bindR t f)"
  unfolding bindR_def using assms by (intro safe_bind) (auto split: sum.splits intro: safe_ret)

lemma safe_post: "safe i R P t \<Longrightarrow> (\<And>x s. R x s \<Longrightarrow> Q x s) \<Longrightarrow> safe i Q P t"
proof (induction rule: safe.induct)
  case (safe_act P g)
  show ?case by (rule safe.safe_act) (use safe_act in blast)
qed (auto intro: safe_ret)

lemma safe_waiting:
  assumes "\<And>s x s'. inv s \<Longrightarrow> P s \<Longrightarrow> f s = Some (x, s') \<Longrightarrow> inv s' \<and> guar i s s' \<and> Q x s'"
    and "\<And>x. stable i (Q x)"
  shows "safe i Q P (waiting f)"
  unfolding waiting_def
proof (rule safe_act, goal_cases)
  case (1 s t s')
  then obtain x where "f s = Some (x, s')" "t = Ret x" by auto
  with assms(1) [OF 1(1,2)] assms(2) [of x] show ?case
    by (intro conjI exI [of _ "Q x"]) (auto intro: safe_ret)
qed

lemma safe_atomic:
  assumes "\<And>s x s'. inv s \<Longrightarrow> P s \<Longrightarrow> f s = (x, s') \<Longrightarrow> inv s' \<and> guar i s s' \<and> Q x s'"
    and "\<And>x. stable i (Q x)"
  shows "safe i Q P (atomic f)"
  unfolding atomic_def using assms by (intro safe_waiting) auto

lemma safe_update:
  assumes "\<And>s. inv s \<Longrightarrow> P s \<Longrightarrow> inv (f s) \<and> guar i s (f s) \<and> Q (f s)" and "stable i Q"
  shows "safe i (\<lambda>_. Q) P (update f)"
  unfolding update_def using assms by (intro safe_atomic) auto

lemma safe_reading:
  assumes "\<And>s. inv s \<Longrightarrow> P s \<Longrightarrow> Q (f s) s" and "\<And>x. stable i (Q x)"
  shows "safe i Q P (reading f)"
  unfolding reading_def using assms guar_refl by (intro safe_atomic) auto

lemma safe_false: "safe i Q (\<lambda>s. False) t"
  by (cases t) (auto intro: safe_ret safe_act)

text \<open>What no task can invalidate holds throughout.\<close>

lemma safe_frame:
  assumes "safe i Q P t" and F: "\<And>j s s'. inv s \<Longrightarrow> inv s' \<Longrightarrow> guar j s s' \<Longrightarrow> F s \<Longrightarrow> F s'"
  shows "safe i (\<lambda>x s. Q x s \<and> F s) (\<lambda>s. P s \<and> F s) t"
  using assms(1)
proof induction
  case (safe_act P g)
  show ?case
  proof (rule safe.safe_act, goal_cases)
    case (1 s t s')
    with safe_act obtain R where R: "inv s'" "guar i s s'" "stable i R" "R s'"
        "safe i (\<lambda>x s. Q x s \<and> F s) (\<lambda>s. R s \<and> F s) t" by blast
    moreover have "F s'" by (rule F [OF 1(1) R(1,2)]) (use 1(2) in simp)
    moreover have "stable i (\<lambda>s. R s \<and> F s)" using R(3) F unfolding stable_def by blast
    ultimately show ?case by blast
  qed
qed (auto intro: safe_ret)

text \<open>A pool in which every task is safe under an assertion that holds.\<close>

definition pool_ok :: "(nat \<Rightarrow> 'a \<Rightarrow> 's \<Rightarrow> bool) \<Rightarrow> 's \<Rightarrow> (nat \<times> ('a, 's) task) list \<Rightarrow> bool" where
  "pool_ok Q s pool \<longleftrightarrow> distinct (map fst pool) \<and>
     (\<forall>(i, t)\<in>set pool. 0 < i \<and> (\<exists>P. stable i P \<and> P s \<and> safe i (Q i) P t))"

lemma pool_others:
  assumes "pool_ok Q s pool" "inv s" "inv s'" "guar j s s'" "(i, t) \<in> set pool" "i \<noteq> j"
  shows "0 < i \<and> (\<exists>P. stable i P \<and> P s' \<and> safe i (Q i) P t)"
proof -
  from assms(1,5) obtain P where P: "0 < i" "stable i P" "P s" "safe i (Q i) P t"
    unfolding pool_ok_def by blast
  from stable_across [OF P(2) assms(4) assms(6) [symmetric] assms(2,3) P(3)] P show ?thesis by blast
qed

lemma pool_environment:
  assumes "pool_ok Q s pool" "inv s" "inv s'" "guar 0 s s'"
  shows "pool_ok Q s' pool"
proof -
  have "0 < i \<and> (\<exists>P. stable i P \<and> P s' \<and> safe i (Q i) P t)" if "(i, t) \<in> set pool" for i t
  proof (rule pool_others [OF assms that])
    show "i \<noteq> 0" using assms(1) that by (auto simp: pool_ok_def)
  qed
  with assms(1) show ?thesis by (auto simp: pool_ok_def)
qed

lemma pool_remove:
  assumes "pool_ok Q s pool" "inv s" "inv s'" "guar j s s'"
  shows "pool_ok Q s' (filter (\<lambda>(i, _). i \<noteq> j) pool)"
proof -
  have "0 < i \<and> (\<exists>P. stable i P \<and> P s' \<and> safe i (Q i) P t)" if "(i, t) \<in> set pool" "i \<noteq> j" for i t
    by (rule pool_others [OF assms that])
  with assms(1) show ?thesis by (auto simp: pool_ok_def distinct_map_filter)
qed

lemma pool_add:
  assumes "pool_ok Q s pool" "0 < i" "i \<notin> fst ` set pool" "stable i P" "P s" "safe i (Q i) P t"
  shows "pool_ok Q s ((i, t) # pool)"
  using assms by (auto simp: pool_ok_def)

lemma pool_run:
  assumes ok: "pool_ok Q s pool" "inv s" and i: "(i, Act g) \<in> set pool" and g: "g s = Some (t, s')"
  shows "inv s' \<and> guar i s s' \<and> pool_ok Q s' ((i, t) # filter (\<lambda>(j, _). j \<noteq> i) pool)"
proof -
  from ok(1) i obtain P where P: "0 < i" "stable i P" "P s" "safe i (Q i) P (Act g)"
    unfolding pool_ok_def by blast
  from P(4) obtain R where R: "inv s'" "guar i s s'" "stable i R" "R s'" "safe i (Q i) R t"
    by cases (use ok(2) P(3) g in blast)
  have "pool_ok Q s' ((i, t) # filter (\<lambda>(j, _). j \<noteq> i) pool)"
    by (rule pool_add [OF pool_remove [OF ok R(1,2)] P(1) _ R(3-5)]) auto
  with R show ?thesis by blast
qed

lemma pool_value:
  assumes "pool_ok Q s pool" "(i, Ret x) \<in> set pool"
  shows "0 < i \<and> Q i x s"
proof -
  from assms obtain P where P: "0 < i" "P s" "safe i (Q i) P (Ret x)" unfolding pool_ok_def by blast
  from P(3) show ?thesis by cases (use P in blast)
qed

lemma pool_again:
  assumes ok: "pool_ok Q s pool" "inv s" and x: "(i, Ret x) \<in> set pool"
    and t: "stable i (Q i x)" "safe i (Q i) (Q i x) t"
  shows "pool_ok Q s ((i, t) # filter (\<lambda>(j, _). j \<noteq> i) pool)"
  using pool_value [OF ok(1) x] by (intro pool_add [OF pool_remove [OF ok ok(2) guar_refl] _ _ t(1) _ t(2)]) auto

end

end
