(* ===== verification/Workflow.thy ===== *)
theory Workflow
  imports Task Sync_Handlers Session_Manager Project_Store
begin

text \<open>
  The workflow service of \<open>src/src/workflow.rs\<close>: its state, and what happens to it in one section, that
  is while a mutex is held or in one awaited call of a lower manager. The handlers built from the
  sections are in \<open>Workflow_Handlers\<close>.

  A workflow is an object that handlers keep after the registry dropped it (an \<open>Arc\<close>), so the registry
  maps identifiers to addresses of a heap and a new workflow gets a new address. The activity lock is
  the field \<open>writer\<close>, the number of the task that holds it, and the list \<open>readers\<close> of the tasks with a
  transfer lease; its length is the counter \<open>transfers\<close> of the source. The cancellation token is
  \<open>cancelled\<close>. Workflow instants are the milliseconds of the session manager's clock, deadlines of
  open plans those of the sync manager's.
\<close>

section \<open>Data\<close>

datatype workflow_status =
  WfPreparing | WfRunning | WfPulling | WfStopping | WfCompleted | WfCancelled | WfFailed

fun final :: "workflow_status \<Rightarrow> bool" where
  "final WfCompleted = True"
| "final WfCancelled = True"
| "final WfFailed = True"
| "final _ = False"

fun status_label :: "workflow_status \<Rightarrow> string" where
  "status_label WfPreparing = ''preparing''"
| "status_label WfRunning = ''running''"
| "status_label WfPulling = ''pulling''"
| "status_label WfStopping = ''stopping''"
| "status_label WfCompleted = ''completed''"
| "status_label WfCancelled = ''cancelled''"
| "status_label WfFailed = ''failed''"

record workflow_request =
  wr_project :: string
  reset_project :: bool

record workflow_info =
  workflow_id :: nat
  wi_project :: string
  wi_status :: workflow_status
  wi_session :: "nat option"
  requires_full_upload :: bool
  cleanup_due :: bool
  wi_started_at :: nat
  last_heartbeat_at :: nat
  wi_ended_at :: "nat option"
  error_code :: "string option"
  error_message :: "string option"

record workflow =
  wf_info :: workflow_info
  wf_request :: workflow_request
  heartbeat :: nat
  wf_ended :: "nat option"
  open_sync :: "string option"
  open_sync_deadline :: "nat option"
  sync_ids :: "string list"
  baseline_clean :: bool
  initializing :: bool
  initialization_error :: "app_error option"
  cleanup_started :: bool
  cleanup_target :: workflow_status
  terminal_error :: "app_error option"
  cleanup_reason :: termination_reason
  invalidate_project :: bool
  wf_started :: nat
  phase_started :: nat
  writer :: "nat option"
  readers :: "nat list"
  cancelled :: bool

text \<open>Tasks the service starts by itself: a round of the session observer, of the cleanup.\<close>

datatype worker = NoMore | Observe nat nat | Clean nat | CleanRound nat

record service =
  sync_part :: manager
  session_part :: session_manager
  wf_heap :: "workflow list"
  wf_active :: "nat option"
  wf_entries :: "(nat \<times> nat) list"
  wf_stopping :: bool
  background_fault :: bool
  spawned_tasks :: "worker list"

record workflow_config =
  wc_env :: sync_env
  wc_sync :: manager_config
  wc_session :: session_config
  heartbeat_timeout :: nat
  wc_projects :: project_store

type_synonym 'a wtask = "('a, service) task"

section \<open>Access\<close>

definition wf :: "nat \<Rightarrow> service \<Rightarrow> workflow" where
  "wf a s = wf_heap s ! a"

definition upd_wf :: "nat \<Rightarrow> (workflow \<Rightarrow> workflow) \<Rightarrow> service \<Rightarrow> service" where
  "upd_wf a f s = s\<lparr>wf_heap := (wf_heap s)[a := f (wf_heap s ! a)]\<rparr>"

definition upd_info :: "(workflow_info \<Rightarrow> workflow_info) \<Rightarrow> workflow \<Rightarrow> workflow" where
  "upd_info f w = w\<lparr>wf_info := f (wf_info w)\<rparr>"

abbreviation wf_status :: "workflow \<Rightarrow> workflow_status" where
  "wf_status w \<equiv> wi_status (wf_info w)"

abbreviation wf_project :: "workflow \<Rightarrow> string" where
  "wf_project w \<equiv> wi_project (wf_info w)"

definition instant_of :: "service \<Rightarrow> nat" where
  "instant_of s = clock_ms (session_part s)"

definition on_sync :: "(manager \<Rightarrow> 'a \<times> manager) \<Rightarrow> service \<Rightarrow> 'a \<times> service" where
  "on_sync f s = (case f (sync_part s) of (r, m) \<Rightarrow> (r, s\<lparr>sync_part := m\<rparr>))"

definition on_sessions :: "(session_manager \<Rightarrow> 'a \<times> session_manager) \<Rightarrow> service \<Rightarrow> 'a \<times> service" where
  "on_sessions f s = (case f (session_part s) of (r, m) \<Rightarrow> (r, s\<lparr>session_part := m\<rparr>))"

text \<open>A call of the sync manager that may wait for a commit in progress.\<close>

definition sync_wait :: "(manager \<Rightarrow> 'a option \<times> manager) \<Rightarrow> service \<Rightarrow> ('a \<times> service) option" where
  "sync_wait f s = (case f (sync_part s) of (None, _) \<Rightarrow> None | (Some r, m) \<Rightarrow> Some (r, s\<lparr>sync_part := m\<rparr>))"

definition find_workflow :: "nat \<Rightarrow> service \<Rightarrow> nat res" where
  "find_workflow i s = ok_or (map_of (wf_entries s) i) (NotFound ''workflow not found'')"

definition admit :: "service \<Rightarrow> unit res" where
  "admit s = ensure (\<not> wf_stopping s) ShuttingDown"

definition wrong_phase :: app_error where
  "wrong_phase = WorkflowPhase ''operation is not allowed in the current phase''"

definition in_phase :: "workflow_status list \<Rightarrow> workflow \<Rightarrow> unit res" where
  "in_phase allowed w = ensure (\<not> initializing w \<and> wf_status w \<in> set allowed) wrong_phase"

definition owns_sync :: "string \<Rightarrow> workflow \<Rightarrow> unit res" where
  "owns_sync k w = ensure (k \<in> set (sync_ids w)) (NotFound ''sync plan does not belong to this workflow'')"

definition session_of :: "workflow \<Rightarrow> nat res" where
  "session_of w = ok_or (wi_session (wf_info w)) SessionNotFound"

section \<open>Updates of one workflow\<close>

definition new_workflow :: "nat \<Rightarrow> workflow_request \<Rightarrow> nat \<Rightarrow> workflow" where
  "new_workflow i req t =
     \<lparr>wf_info = \<lparr>workflow_id = i, wi_project = wr_project req, wi_status = WfPreparing, wi_session = None,
        requires_full_upload = True, cleanup_due = False, wi_started_at = t, last_heartbeat_at = t,
        wi_ended_at = None, error_code = None, error_message = None\<rparr>,
      wf_request = req, heartbeat = t, wf_ended = None, open_sync = None, open_sync_deadline = None,
      sync_ids = [], baseline_clean = False, initializing = True, initialization_error = None,
      cleanup_started = False, cleanup_target = WfCancelled, terminal_error = None,
      cleanup_reason = WorkflowClosed, invalidate_project = False, wf_started = t, phase_started = t,
      writer = None, readers = [], cancelled = False\<rparr>"

definition transition :: "nat \<Rightarrow> workflow_status \<Rightarrow> workflow \<Rightarrow> workflow" where
  "transition t next w =
     (if wf_status w = next then w
      else (upd_info (\<lambda>i. i\<lparr>wi_status := next\<rparr>) w)\<lparr>phase_started := t\<rparr>)"

definition report_error :: "app_error \<Rightarrow> workflow \<Rightarrow> workflow" where
  "report_error e = upd_info (\<lambda>i. i\<lparr>error_code := Some (code e), error_message := Some (client_message e)\<rparr>)"

definition initialized :: "bool res \<Rightarrow> workflow \<Rightarrow> workflow" where
  "initialized result w =
     (let w = w\<lparr>initializing := False\<rparr> in
      case result of
        Inr clean \<Rightarrow>
          upd_info (\<lambda>i. i\<lparr>requires_full_upload := reset_project (wf_request w) \<or> \<not> clean\<rparr>)
            (w\<lparr>baseline_clean := clean\<rparr>)
      | Inl e \<Rightarrow> w\<lparr>initialization_error := Some e\<rparr>)"

definition initialization_failed :: "app_error \<Rightarrow> workflow \<Rightarrow> workflow" where
  "initialization_failed e w =
     (if initializing w then w\<lparr>initializing := False, initialization_error := Some e\<rparr> else w)"

definition beat :: "nat \<Rightarrow> workflow \<Rightarrow> workflow" where
  "beat t w = upd_info (\<lambda>i. i\<lparr>last_heartbeat_at := t\<rparr>) (w\<lparr>heartbeat := t\<rparr>)"

definition close_plan :: "workflow \<Rightarrow> workflow" where
  "close_plan w = w\<lparr>open_sync := None, open_sync_deadline := None\<rparr>"

definition record_plan :: "string \<Rightarrow> nat \<Rightarrow> workflow \<Rightarrow> workflow" where
  "record_plan k deadline w =
     (let ids = sync_ids w @ [k] in
      w\<lparr>open_sync := Some k, open_sync_deadline := Some deadline,
        sync_ids := drop (length ids - max_retained_sync_results) ids\<rparr>)"

definition committed :: "workflow \<Rightarrow> workflow" where
  "committed w = upd_info (\<lambda>i. i\<lparr>requires_full_upload := False\<rparr>) ((close_plan w)\<lparr>baseline_clean := True\<rparr>)"

definition session_started :: "nat \<Rightarrow> nat \<Rightarrow> workflow \<Rightarrow> workflow" where
  "session_started t i w =
     (let w = upd_info (\<lambda>d. d\<lparr>wi_session := Some i\<rparr>) w in
      if wf_status w \<noteq> WfStopping then transition t WfRunning w else w)"

definition session_succeeded :: "nat \<Rightarrow> workflow \<Rightarrow> workflow" where
  "session_succeeded t w =
     (if wf_status w = WfRunning
      then upd_info (\<lambda>i. i\<lparr>requires_full_upload := False\<rparr>) (transition t WfPulling w) else w)"

definition stop_workflow :: "nat \<Rightarrow> termination_reason \<Rightarrow> workflow_status \<Rightarrow> app_error option \<Rightarrow> bool \<Rightarrow>
    workflow \<Rightarrow> workflow" where
  "stop_workflow t reason target e invalidate w =
     (let w = upd_info (\<lambda>i. i\<lparr>cleanup_due := True\<rparr>) (transition t WfStopping w);
          w = w\<lparr>invalidate_project := invalidate_project w \<or> invalidate\<rparr>;
          w = (if invalidate then upd_info (\<lambda>i. i\<lparr>requires_full_upload := True\<rparr>) w else w);
          w = (if target = WfFailed then w\<lparr>cleanup_target := target\<rparr> else w);
          w = (case e of None \<Rightarrow> w | Some e \<Rightarrow> (report_error e w)\<lparr>terminal_error := Some e\<rparr>);
          w = w\<lparr>cancelled := True\<rparr> in
      if cleanup_started w then w else w\<lparr>cleanup_started := True, cleanup_reason := reason\<rparr>)"

definition end_workflow :: "nat \<Rightarrow> workflow_status \<Rightarrow> app_error option \<Rightarrow> bool \<Rightarrow> workflow \<Rightarrow> workflow" where
  "end_workflow t next e full w =
     (let w = close_plan (transition t next w);
          w = upd_info (\<lambda>i. i\<lparr>cleanup_due := False, requires_full_upload := full, wi_ended_at := Some t\<rparr>) w;
          w = w\<lparr>wf_ended := Some t\<rparr> in
      case e of
        Some e \<Rightarrow> report_error e w
      | None \<Rightarrow> upd_info (\<lambda>i. i\<lparr>error_code := None, error_message := None\<rparr>) w)"

definition cleanup_due_error :: "app_error \<Rightarrow> workflow \<Rightarrow> workflow" where
  "cleanup_due_error e w = report_error e (upd_info (\<lambda>i. i\<lparr>cleanup_due := True\<rparr>) w)"

section \<open>The activity lock\<close>

definition lock_free :: "workflow \<Rightarrow> bool" where
  "lock_free w \<longleftrightarrow> writer w = None \<and> readers w = []"

definition take_lock :: "nat \<Rightarrow> workflow \<Rightarrow> workflow" where
  "take_lock me w = w\<lparr>writer := Some me\<rparr>"

definition drop_lock :: "workflow \<Rightarrow> workflow" where
  "drop_lock w = w\<lparr>writer := None\<rparr>"

section \<open>Sections of the registry\<close>

text \<open>A new workflow; its activity lock is free, so its creator has it without waiting.\<close>

definition alloc :: "nat \<Rightarrow> nat \<Rightarrow> workflow_request \<Rightarrow> service \<Rightarrow> nat \<times> service" where
  "alloc me i req s =
     (length (wf_heap s), s\<lparr>wf_heap := wf_heap s @ [take_lock me (new_workflow i req (instant_of s))]\<rparr>)"

text \<open>The reservation of the slot; \<open>Some b\<close> is the workflow an equal request created before.\<close>

definition reserve :: "nat \<Rightarrow> workflow_request \<Rightarrow> nat \<Rightarrow> service \<Rightarrow> nat option res \<times> service" where
  "reserve i req a s =
     (if wf_stopping s then (Inl ShuttingDown, s)
      else case map_of (wf_entries s) i of
        Some b \<Rightarrow>
          if wf_request (wf b s) \<noteq> req
          then (Inl (Conflict ''workflow ID was already used with different parameters''), s)
          else (Inr (Some b), s)
      | None \<Rightarrow>
          if wf_active s \<noteq> None then (Inl WorkflowBusy, s)
          else (Inr None, s\<lparr>wf_active := Some i, wf_entries := (i, a) # wf_entries s\<rparr>))"

definition spawn :: "worker \<Rightarrow> service \<Rightarrow> service" where
  "spawn t s = s\<lparr>spawned_tasks := spawned_tasks s @ [t]\<rparr>"

definition request_cleanup :: "nat \<Rightarrow> termination_reason \<Rightarrow> workflow_status \<Rightarrow> app_error option \<Rightarrow> bool \<Rightarrow>
    service \<Rightarrow> service" where
  "request_cleanup a reason target e invalidate s =
     (let w = wf a s in
      if final (wf_status w) \<or> wf_active s \<noteq> Some (workflow_id (wf_info w)) then s
      else
        let s1 = upd_wf a (stop_workflow (instant_of s) reason target e invalidate) s in
        if cleanup_started w then s1 else spawn (Clean a) s1)"

definition fail :: "nat \<Rightarrow> app_error \<Rightarrow> bool \<Rightarrow> service \<Rightarrow> service" where
  "fail a e invalidate = request_cleanup a WorkflowClosed WfFailed (Some e) invalidate"

definition release_of :: "workflow_config \<Rightarrow> workflow \<Rightarrow> service \<Rightarrow> service" where
  "release_of cfg w s =
     (case wi_session (wf_info w) of
        None \<Rightarrow> s
      | Some i \<Rightarrow> snd (on_sessions (release_session (wc_session cfg) i) s))"

definition terminate :: "workflow_config \<Rightarrow> nat \<Rightarrow> workflow_status \<Rightarrow> app_error option \<Rightarrow> bool \<Rightarrow>
    service \<Rightarrow> bool \<times> service" where
  "terminate cfg a next e full s =
     (let w = wf a s in
      if final (wf_status w) then (wf_status w = next, s)
      else if next = WfCompleted \<and> wf_status w \<noteq> WfPulling then (False, s)
      else if invalidate_project w \<and> \<not> full then (False, s)
      else
        let s1 = release_of cfg w (upd_wf a (end_workflow (instant_of s) next e full) s) in
        (True, if wf_active s1 = Some (workflow_id (wf_info w)) then s1\<lparr>wf_active := None\<rparr> else s1))"

definition heartbeat_of :: "nat \<Rightarrow> service \<Rightarrow> workflow_info res \<times> service" where
  "heartbeat_of i s =
     (if wf_stopping s then (Inl ShuttingDown, s)
      else case find_workflow i s of
        Inl e \<Rightarrow> (Inl e, s)
      | Inr a \<Rightarrow>
          if final (wf_status (wf a s)) \<or> wf_status (wf a s) = WfStopping
          then (Inl (WorkflowPhase ''workflow no longer accepts heartbeats''), s)
          else (let s1 = upd_wf a (beat (instant_of s)) s in (Inr (wf_info (wf a s1)), s1)))"

definition expire_active :: "workflow_config \<Rightarrow> service \<Rightarrow> service" where
  "expire_active cfg s =
     (if wf_stopping s then s
      else case Option.bind (wf_active s) (map_of (wf_entries s)) of
        None \<Rightarrow> s
      | Some a \<Rightarrow>
          let w = wf a s in
          if \<not> final (wf_status w) \<and> wf_status w \<noteq> WfStopping \<and> instant_of s - heartbeat w \<ge> heartbeat_timeout cfg
          then request_cleanup a HeartbeatTimeout WfCancelled None False s else s)"

definition prune_workflows :: "workflow_config \<Rightarrow> service \<Rightarrow> service" where
  "prune_workflows cfg s =
     s\<lparr>wf_entries := prune_entries (\<lambda>a. wf_ended (wf a s)) (max_retained_workflows (wc_session cfg))
        (workflow_retention (wc_session cfg)) (instant_of s) (wf_entries s)\<rparr>"

definition service_degraded :: "service \<Rightarrow> bool" where
  "service_degraded s \<longleftrightarrow> background_fault s \<or> degraded (session_part s) \<or> Sync_Handlers.is_degraded (sync_part s) \<or>
     list_ex (\<lambda>(_, a). cleanup_due (wf_info (wf a s)) \<and> error_code (wf_info (wf a s)) \<noteq> None) (wf_entries s)"

definition shutdown_start :: "service \<Rightarrow> service" where
  "shutdown_start s =
     (let s = s\<lparr>wf_stopping := True\<rparr> in
      case Option.bind (wf_active s) (map_of (wf_entries s)) of
        None \<Rightarrow> s
      | Some a \<Rightarrow> request_cleanup a ServiceShutdown WfCancelled None False s)"

section \<open>Leases\<close>

text \<open>
  The \<open>select!\<close> of a lease between the lock and the cancellation; \<open>seen\<close> is which of the two is polled
  first when both are ready.
\<close>

definition enter_lease :: "nat \<Rightarrow> workflow_status list \<Rightarrow> bool \<Rightarrow> nat \<Rightarrow> service \<Rightarrow> (nat res \<times> service) option" where
  "enter_lease me allowed seen a s =
     (let w = wf a s in
      if cancelled w \<and> (seen \<or> writer w \<noteq> None) then Some (Inl (WorkflowPhase ''workflow cancelled''), s)
      else if writer w \<noteq> None then None
      else if initializing w \<or> wf_status w \<notin> set allowed \<or> cancelled w then Some (Inl wrong_phase, s)
      else Some (Inr a, upd_wf a (\<lambda>w. w\<lparr>readers := me # readers w\<rparr>) s))"

definition drop_lease :: "nat \<Rightarrow> workflow \<Rightarrow> workflow" where
  "drop_lease me w = w\<lparr>readers := removeAll me (readers w)\<rparr>"

text \<open>What unwinding a task gives back.\<close>

definition unwind :: "nat \<Rightarrow> service \<Rightarrow> service" where
  "unwind me s =
     s\<lparr>wf_heap := map (\<lambda>w. let w = drop_lease me w in if writer w = Some me then drop_lock w else w) (wf_heap s)\<rparr>"

end
