(* ===== verification/Workflow_Handlers.thy ===== *)
theory Workflow_Handlers
  imports Workflow
begin

text \<open>
  The operations of \<open>WorkflowManager\<close> in \<open>src/src/workflow.rs\<close> as tasks. \<open>me\<close> is the number of the task
  that runs the operation, \<open>history\<close> the result of the critical history write of the four operations that
  have one. Other arguments that are not the client's say how a race ends: \<open>seen\<close> and \<open>taken\<close> whether a
  \<open>select!\<close> takes the cancellation, \<open>late\<close> what was sent on a channel by a session that has left the
  registry since.
\<close>

section \<open>Shared parts\<close>

definition on_project :: "workflow_config \<Rightarrow> (project_store \<Rightarrow> manager \<Rightarrow> 'a \<times> manager) \<Rightarrow> 'a wtask" where
  "on_project cfg f = atomic (on_sync (f (wc_projects cfg)))"

definition marked :: "workflow_config \<Rightarrow> bool \<Rightarrow> string \<Rightarrow> unit res wtask" where
  "marked cfg clean project =
     on_project cfg (\<lambda>ps. (if clean then mark_clean else mark_dirty)
       (env_fresh (wc_env cfg)) (env_uuid (wc_env cfg)) ps project)"

definition snapshot :: "nat \<Rightarrow> workflow_info wtask" where
  "snapshot a = reading (\<lambda>s. wf_info (wf a s))"

definition checked :: "nat \<Rightarrow> (workflow \<Rightarrow> 'a) \<Rightarrow> 'a wtask" where
  "checked a f = reading (\<lambda>s. f (wf a s))"

definition acquire :: "nat \<Rightarrow> nat \<Rightarrow> unit wtask" where
  "acquire me a = waiting (\<lambda>s. if lock_free (wf a s) then Some ((), upd_wf a (take_lock me) s) else None)"

definition try_acquire :: "nat \<Rightarrow> nat \<Rightarrow> bool wtask" where
  "try_acquire me a = atomic (\<lambda>s. if lock_free (wf a s) then (True, upd_wf a (take_lock me) s) else (False, s))"

definition unlock :: "nat \<Rightarrow> unit wtask" where
  "unlock a = update (upd_wf a drop_lock)"

text \<open>The lock is given back when the guard goes out of scope, on every path.\<close>

definition holding :: "nat \<Rightarrow> 'a wtask \<Rightarrow> 'a wtask" where
  "holding a body = bindT body (\<lambda>r. bindT (unlock a) (\<lambda>_. Ret r))"

definition locked :: "nat \<Rightarrow> nat \<Rightarrow> 'a wtask \<Rightarrow> 'a wtask" where
  "locked me a body = bindT (acquire me a) (\<lambda>_. holding a body)"

definition managed :: "unit res \<Rightarrow> 'a res wtask \<Rightarrow> 'a res wtask" where
  "managed history body =
     (case history of Inl e \<Rightarrow> Ret (Inl e) | Inr _ \<Rightarrow> bindR (reading admit) (\<lambda>_. body))"

text \<open>A managed operation on an existing workflow under its activity lock.\<close>

definition exclusive :: "unit res \<Rightarrow> nat \<Rightarrow> nat \<Rightarrow> (nat \<Rightarrow> 'a res wtask) \<Rightarrow> 'a res wtask" where
  "exclusive history me i body =
     managed history (bindR (reading (find_workflow i)) (\<lambda>a. locked me a (body a)))"

definition failing :: "nat \<Rightarrow> app_error \<Rightarrow> bool \<Rightarrow> 'a res wtask" where
  "failing a e invalidate = bindT (update (fail a e invalidate)) (\<lambda>_. Ret (Inl e))"

section \<open>Creation\<close>

definition inspect_project :: "workflow_config \<Rightarrow> workflow_request \<Rightarrow> bool res wtask" where
  "inspect_project cfg req =
     bindR (on_project cfg (\<lambda>ps. project_path ps (wr_project req))) (\<lambda>_.
     bindR (on_project cfg (\<lambda>ps. is_clean ps (wr_project req))) (\<lambda>clean.
     Ret (if \<not> clean \<and> \<not> reset_project req then Inl (ProjectReuploadRequired (wr_project req)) else Inr clean)))"

definition wait_initialized :: "nat \<Rightarrow> workflow_info res wtask" where
  "wait_initialized a =
     waiting (\<lambda>s. let w = wf a s in
       if initializing w then None
       else Some ((case initialization_error w of Some e \<Rightarrow> Inl e | None \<Rightarrow> Inr (wf_info w)), s))"

text \<open>The part after the slot was taken.\<close>

definition initialize_workflow :: "workflow_config \<Rightarrow> nat \<Rightarrow> workflow_request \<Rightarrow> workflow_info res wtask" where
  "initialize_workflow cfg a req =
     bindT (inspect_project cfg req) (\<lambda>result.
     bindT (update (upd_wf a (initialized result))) (\<lambda>_.
     case result of
       Inl e \<Rightarrow> bindT (atomic (terminate cfg a WfFailed (Some e) True)) (\<lambda>_. Ret (Inl e))
     | Inr _ \<Rightarrow> bindT (snapshot a) (\<lambda>info. Ret (Inr info))))"

definition workflow_create :: "workflow_config \<Rightarrow> nat \<Rightarrow> nat \<Rightarrow> workflow_request \<Rightarrow> unit res \<Rightarrow> workflow_info res wtask" where
  "workflow_create cfg me i req history =
     (case validate_project_name (wr_project req) of
        Inl e \<Rightarrow> Ret (Inl e)
      | Inr _ \<Rightarrow>
          managed history
            (bindT (atomic (alloc me i req)) (\<lambda>a.
             bindT (atomic (reserve i req a)) (\<lambda>r.
             case r of
               Inl e \<Rightarrow> holding a (Ret (Inl e))
             | Inr (Some b) \<Rightarrow> bindT (unlock a) (\<lambda>_. wait_initialized b)
             | Inr None \<Rightarrow> holding a (initialize_workflow cfg a req)))))"

section \<open>Leases\<close>

definition with_lease :: "nat \<Rightarrow> nat \<Rightarrow> workflow_status list \<Rightarrow> bool \<Rightarrow> (nat \<Rightarrow> 'a res wtask) \<Rightarrow> 'a res wtask" where
  "with_lease me i allowed seen body =
     bindR (reading admit) (\<lambda>_.
     bindR (reading (find_workflow i)) (\<lambda>a.
     bindR (waiting (enter_lease me allowed seen a)) (\<lambda>a.
     bindT (body a) (\<lambda>r. bindT (update (upd_wf a (drop_lease me))) (\<lambda>_. Ret r)))))"

text \<open>
  The call in a \<open>select!\<close> with the cancellation. When the cancellation is taken, an accepted call of the
  sync manager goes on by itself and its effect belongs to the environment.
\<close>

definition interruptible :: "nat \<Rightarrow> bool \<Rightarrow> (service \<Rightarrow> 'a res \<times> service) \<Rightarrow> 'a res wtask" where
  "interruptible a taken call =
     waiting (\<lambda>s.
       if taken then (if cancelled (wf a s) then Some (Inl (WorkflowPhase ''workflow cancelled''), s) else None)
       else Some (call s))"

definition manifest_of :: "workflow_config \<Rightarrow> nat \<Rightarrow> nat \<Rightarrow> string list \<Rightarrow> string list \<Rightarrow> bool \<Rightarrow> bool \<Rightarrow>
    manifest_entry list res wtask" where
  "manifest_of cfg me i include exclude seen taken =
     with_lease me i [WfPreparing, WfPulling] seen (\<lambda>a.
       bindT (snapshot a) (\<lambda>info. interruptible a taken
         (on_sync (manifest (wc_env cfg) (wc_sync cfg) (wi_project info) include exclude))))"

definition upload :: "workflow_config \<Rightarrow> nat \<Rightarrow> nat \<Rightarrow> string \<Rightarrow> string \<Rightarrow> nat option \<Rightarrow> body \<Rightarrow> nat option \<Rightarrow> bool \<Rightarrow> bool \<Rightarrow>
    upload_response res wtask" where
  "upload cfg me i k raw_path content_length body interrupt seen taken =
     with_lease me i [WfPreparing] seen (\<lambda>a.
       bindR (checked a (owns_sync k)) (\<lambda>_.
       bindT (snapshot a) (\<lambda>info. interruptible a taken
         (on_sync (upload_file (wc_env cfg) (wc_sync cfg) (wi_project info) k raw_path content_length body interrupt)))))"

definition pull_plan :: "workflow_config \<Rightarrow> nat \<Rightarrow> nat \<Rightarrow> push_request \<Rightarrow> bool \<Rightarrow> bool \<Rightarrow> pull_response res wtask" where
  "pull_plan cfg me i req seen taken =
     with_lease me i [WfPulling] seen (\<lambda>a.
       bindT (snapshot a) (\<lambda>info. interruptible a taken
         (on_sync (create_pull_plan (wc_env cfg) (wc_sync cfg) (wi_project info) req))))"

text \<open>
  The lease of a download lasts as long as its body: \<open>body_over\<close> says whether the body ended or the
  cancellation cut it.
\<close>

definition stream_body :: "nat \<Rightarrow> bool \<Rightarrow> unit wtask" where
  "stream_body a body_over =
     waiting (\<lambda>s. if body_over \<or> cancelled (wf a s) then Some ((), s) else None)"

definition download :: "workflow_config \<Rightarrow> nat \<Rightarrow> nat \<Rightarrow> string \<Rightarrow> string option \<Rightarrow> bool \<Rightarrow> bool \<Rightarrow> bool \<Rightarrow>
    download res wtask" where
  "download cfg me i raw_path if_match seen taken body_over =
     with_lease me i [WfPulling] seen (\<lambda>a.
       bindT (snapshot a) (\<lambda>info.
       bindR (interruptible a taken
         (on_sync (download_file (wc_env cfg) (wc_sync cfg) (wi_project info) raw_path if_match))) (\<lambda>r.
       bindT (stream_body a body_over) (\<lambda>_. Ret (Inr r)))))"

definition head_download :: "workflow_config \<Rightarrow> nat \<Rightarrow> nat \<Rightarrow> string \<Rightarrow> string option \<Rightarrow> bool \<Rightarrow> bool \<Rightarrow>
    download res wtask" where
  "head_download cfg me i raw_path if_match seen taken =
     with_lease me i [WfPulling] seen (\<lambda>a.
       bindT (snapshot a) (\<lambda>info. interruptible a taken
         (on_sync (head_file (wc_env cfg) (wc_sync cfg) (wi_project info) raw_path if_match))))"

section \<open>Upload plans\<close>

definition sync_over :: "sync_status \<Rightarrow> bool" where
  "sync_over st \<longleftrightarrow> st \<noteq> SsOpen \<and> st \<noteq> SsCommitting"

definition deadline_passed :: "service \<Rightarrow> workflow \<Rightarrow> bool" where
  "deadline_passed s w = (case open_sync_deadline w of None \<Rightarrow> False | Some d \<Rightarrow> clock (sync_part s) \<ge> d)"

text \<open>Whether the open plan is over; one that expired is aborted.\<close>

definition plan_over :: "workflow_config \<Rightarrow> string \<Rightarrow> string \<Rightarrow> bool \<Rightarrow> status_response res \<Rightarrow> bool res wtask" where
  "plan_over cfg project k expired st =
     (case st of
        Inr st \<Rightarrow>
          if st_status st = SsOpen \<and> expired
          then bindR (waiting (sync_wait (abort (wc_env cfg) (wc_sync cfg) project k))) (\<lambda>_. Ret (Inr True))
          else Ret (Inr (sync_over (st_status st)))
      | Inl (NotFound _) \<Rightarrow> Ret (Inr True)
      | Inl e \<Rightarrow> Ret (Inl e))"

definition refresh_open_sync :: "workflow_config \<Rightarrow> nat \<Rightarrow> unit res wtask" where
  "refresh_open_sync cfg a =
     bindT (reading (\<lambda>s. (wf_project (wf a s), open_sync (wf a s), deadline_passed s (wf a s))))
       (\<lambda>(project, plan, expired).
     case plan of
       None \<Rightarrow> Ret (Inr ())
     | Some k \<Rightarrow>
         bindT (reading (\<lambda>s. sync_session_status k project (sync_part s))) (\<lambda>st.
         bindR (plan_over cfg project k expired st) (\<lambda>over.
         if over then bindT (update (upd_wf a close_plan)) (\<lambda>_. Ret (Inr ())) else Ret (Inr ()))))"

definition no_open_plan :: "app_error \<Rightarrow> workflow \<Rightarrow> unit res" where
  "no_open_plan e w = ensure (open_sync w = None) e"

definition plan_uploads :: "workflow_config \<Rightarrow> nat \<Rightarrow> push_request \<Rightarrow> push_response res wtask" where
  "plan_uploads cfg a req =
     bindR (checked a (in_phase [WfPreparing])) (\<lambda>_.
     bindR (refresh_open_sync cfg a) (\<lambda>_.
     bindR (checked a (no_open_plan (Conflict ''an upload plan is already open''))) (\<lambda>_.
     bindT (snapshot a) (\<lambda>info.
     bindR (atomic (on_sync ((if requires_full_upload info then push_reset_plan else push_plan)
              (wc_env cfg) (wc_sync cfg) (wi_project info) req))) (\<lambda>plan.
     bindT (update (\<lambda>s. upd_wf a (record_plan (resp_id plan) (clock (sync_part s) + session_ttl (wc_sync cfg))) s)) (\<lambda>_.
     Ret (Inr plan)))))))"

definition workflow_push_plan :: "workflow_config \<Rightarrow> nat \<Rightarrow> nat \<Rightarrow> push_request \<Rightarrow> unit res \<Rightarrow> push_response res wtask" where
  "workflow_push_plan cfg me i req history = exclusive history me i (\<lambda>a. plan_uploads cfg a req)"

definition is_reupload :: "app_error \<Rightarrow> bool" where
  "is_reupload e = (case e of ProjectReuploadRequired _ \<Rightarrow> True | _ \<Rightarrow> False)"

definition still_open :: "string \<Rightarrow> string \<Rightarrow> service \<Rightarrow> bool" where
  "still_open project k s =
     (case sync_session_status k project (sync_part s) of Inr st \<Rightarrow> st_status st = SsOpen | Inl _ \<Rightarrow> False)"

text \<open>The marker is made valid again where the failed commit left the project as it was.\<close>

definition restore_marker :: "workflow_config \<Rightarrow> nat \<Rightarrow> string \<Rightarrow> bool \<Rightarrow> unit res wtask" where
  "restore_marker cfg a project unchanged =
     (if unchanged
      then bindT (marked cfg True project) (\<lambda>r. case r of Inl e \<Rightarrow> failing a e True | Inr _ \<Rightarrow> Ret (Inr ()))
      else Ret (Inr ()))"

definition commit_failed :: "workflow_config \<Rightarrow> nat \<Rightarrow> string \<Rightarrow> string \<Rightarrow> bool \<Rightarrow> app_error \<Rightarrow> commit_response res wtask" where
  "commit_failed cfg a project k was_clean e =
     bindT (checked a baseline_clean) (\<lambda>base.
     bindT (reading (still_open project k)) (\<lambda>opened.
     bindR (restore_marker cfg a project
         (\<not> is_reupload e \<and> ((opened \<and> was_clean) \<or> (\<not> opened \<and> base)))) (\<lambda>_.
     if opened \<and> \<not> is_reupload e then Ret (Inl e) else failing a e (is_reupload e))))"

definition commit_open :: "workflow_config \<Rightarrow> nat \<Rightarrow> string \<Rightarrow> string \<Rightarrow> commit_response res wtask" where
  "commit_open cfg a project k =
     bindR (on_project cfg (\<lambda>ps. is_clean ps project)) (\<lambda>was_clean.
     bindT (marked cfg False project) (\<lambda>r.
     case r of
       Inl e \<Rightarrow> failing a e True
     | Inr _ \<Rightarrow>
         bindT (waiting (sync_wait (commit (wc_env cfg) (wc_sync cfg) project k))) (\<lambda>result.
         case result of
           Inr _ \<Rightarrow> bindT (update (upd_wf a committed)) (\<lambda>_. Ret result)
         | Inl e \<Rightarrow> commit_failed cfg a project k was_clean e)))"

definition commit_plan_of :: "workflow_config \<Rightarrow> nat \<Rightarrow> string \<Rightarrow> commit_response res wtask" where
  "commit_plan_of cfg a k =
     bindR (checked a (in_phase [WfPreparing])) (\<lambda>_.
     bindR (checked a (owns_sync k)) (\<lambda>_.
     bindT (snapshot a) (\<lambda>info.
     bindT (checked a (\<lambda>w. open_sync w = Some k)) (\<lambda>opened.
     if opened then commit_open cfg a (wi_project info) k
     else waiting (sync_wait (commit (wc_env cfg) (wc_sync cfg) (wi_project info) k))))))"

definition workflow_commit :: "workflow_config \<Rightarrow> nat \<Rightarrow> nat \<Rightarrow> string \<Rightarrow> unit res \<Rightarrow> commit_response res wtask" where
  "workflow_commit cfg me i k history = exclusive history me i (\<lambda>a. commit_plan_of cfg a k)"

definition abort_plan :: "workflow_config \<Rightarrow> nat \<Rightarrow> string \<Rightarrow> string res wtask" where
  "abort_plan cfg a k =
     bindR (checked a (in_phase [WfPreparing])) (\<lambda>_.
     bindR (checked a (owns_sync k)) (\<lambda>_.
     bindT (snapshot a) (\<lambda>info.
     bindR (waiting (sync_wait (abort (wc_env cfg) (wc_sync cfg) (wi_project info) k))) (\<lambda>r.
     bindT (update (upd_wf a (\<lambda>w. if open_sync w = Some k then close_plan w else w))) (\<lambda>_. Ret (Inr r))))))"

definition workflow_abort_sync :: "workflow_config \<Rightarrow> nat \<Rightarrow> nat \<Rightarrow> string \<Rightarrow> string res wtask" where
  "workflow_abort_sync cfg me i k = exclusive (Inr ()) me i (\<lambda>a. abort_plan cfg a k)"

definition sync_status_of :: "nat \<Rightarrow> string \<Rightarrow> status_response res wtask" where
  "sync_status_of i k =
     bindR (reading (find_workflow i)) (\<lambda>a.
     bindR (checked a (owns_sync k)) (\<lambda>_.
     bindT (snapshot a) (\<lambda>info. reading (\<lambda>s. sync_session_status k (wi_project info) (sync_part s)))))"

section \<open>The Vivado session\<close>

text \<open>\<open>create_session_with_workflow\<close> with its wait for the supervisor's reply.\<close>

definition create_vivado :: "workflow_config \<Rightarrow> nat \<Rightarrow> string \<Rightarrow> string list \<Rightarrow> unit res \<Rightarrow> app_error \<Rightarrow>
    session_info res wtask" where
  "create_vivado cfg i project args history late =
     bindR (atomic (on_sessions (create_session (wc_session cfg) (Some i) project args history))) (\<lambda>sid.
     waiting (\<lambda>s. case map_of (vsessions (session_part s)) sid of
         None \<Rightarrow> Some (Inl late, s)
       | Some x \<Rightarrow> map_option (\<lambda>r. (r, s)) (reply x)))"

definition run_vivado :: "workflow_config \<Rightarrow> nat \<Rightarrow> nat \<Rightarrow> string list \<Rightarrow> unit res \<Rightarrow> app_error \<Rightarrow> session_info res wtask" where
  "run_vivado cfg i a args history late =
     bindR (checked a (in_phase [WfPreparing])) (\<lambda>_.
     bindR (refresh_open_sync cfg a) (\<lambda>_.
     bindT (snapshot a) (\<lambda>info.
     if requires_full_upload info then Ret (Inl (ProjectReuploadRequired (wi_project info)))
     else
       bindR (checked a (no_open_plan (WorkflowPhase ''commit or abort the open plan first''))) (\<lambda>_.
       bindT (marked cfg False (wi_project info)) (\<lambda>r.
       case r of
         Inl e \<Rightarrow> failing a e True
       | Inr _ \<Rightarrow>
           bindR (checked a (in_phase [WfPreparing])) (\<lambda>_.
           bindT (create_vivado cfg i (wi_project info) args history late) (\<lambda>result.
           case result of
             Inl e \<Rightarrow> failing a e True
           | Inr session \<Rightarrow>
               bindT (update (\<lambda>s. upd_wf a (session_started (instant_of s) (session_id session)) s)) (\<lambda>_.
               bindT (update (spawn (Observe a (session_id session)))) (\<lambda>_. Ret (Inr session))))))))))"

definition workflow_start_session :: "workflow_config \<Rightarrow> nat \<Rightarrow> nat \<Rightarrow> string list \<Rightarrow> unit res \<Rightarrow> unit res \<Rightarrow> app_error \<Rightarrow>
    session_info res wtask" where
  "workflow_start_session cfg me i args history session_history late =
     (case validate_vivado_args args of
        Inl e \<Rightarrow> Ret (Inl e)
      | Inr _ \<Rightarrow> exclusive history me i (\<lambda>a. run_vivado cfg i a args session_history late))"

text \<open>One round of \<open>observe_session\<close>; the next one follows after 25 milliseconds.\<close>

definition session_over :: "workflow_config \<Rightarrow> nat \<Rightarrow> session_info \<Rightarrow> worker wtask" where
  "session_over cfg a session =
     bindT (snapshot a) (\<lambda>info.
     if wi_status info \<noteq> WfRunning then Ret NoMore
     else if termination_reason session = Some ProcessExited \<and> exit_code session = Some 0
     then
       bindT (snapshot a) (\<lambda>info.
       bindT (marked cfg True (wi_project info)) (\<lambda>r.
       bindT (case r of
           Inr _ \<Rightarrow> update (\<lambda>s. upd_wf a (session_succeeded (instant_of s)) s)
         | Inl e \<Rightarrow> update (fail a e True)) (\<lambda>_. Ret NoMore)))
     else
       bindT (update (fail a (ProjectReuploadRequired ''Vivado did not exit normally with status zero'') True))
         (\<lambda>_. Ret NoMore))"

definition observe_session :: "workflow_config \<Rightarrow> nat \<Rightarrow> nat \<Rightarrow> nat \<Rightarrow> worker wtask" where
  "observe_session cfg me a sid =
     bindT (snapshot a) (\<lambda>info.
     if wi_status info \<noteq> WfRunning then Ret NoMore
     else
       bindT (atomic (on_sessions (get_session (wc_session cfg) sid))) (\<lambda>r.
       case r of
         Inl e \<Rightarrow> bindT (update (fail a e True)) (\<lambda>_. Ret NoMore)
       | Inr session \<Rightarrow>
           if is_terminal (si_status session) then locked me a (session_over cfg a session)
           else Ret (Observe a sid)))"

definition session_info_of :: "workflow_config \<Rightarrow> nat \<Rightarrow> session_info res wtask" where
  "session_info_of cfg i =
     bindR (reading (find_workflow i)) (\<lambda>a.
     bindR (checked a session_of) (\<lambda>sid. atomic (on_sessions (get_session (wc_session cfg) sid))))"

text \<open>The answer to an input, as soon as the supervisor has sent it.\<close>

definition input_answer :: "nat \<Rightarrow> session_info res \<Rightarrow> nat \<Rightarrow> service \<Rightarrow> (session_info res \<times> service) option" where
  "input_answer sid late n s =
     (case map_of (vsessions (session_part s)) sid of
        None \<Rightarrow> Some (late, s)
      | Some x \<Rightarrow>
          (case find (\<lambda>(j, _). in_id j = n) (answers x) of
             None \<Rightarrow> None
           | Some (_, Inl e) \<Rightarrow> Some (Inl e, s)
           | Some (_, Inr _) \<Rightarrow> Some (Inr (vs_info x), s)))"

definition send_stdin :: "workflow_config \<Rightarrow> nat \<Rightarrow> string \<Rightarrow> unit res \<Rightarrow> session_info res \<Rightarrow> session_info res wtask" where
  "send_stdin cfg sid input history late =
     bindR (atomic (on_sessions (send_input_begin (wc_session cfg) sid input))) (\<lambda>n.
     case n of
       None \<Rightarrow> atomic (on_sessions (get_session (wc_session cfg) sid))
     | Some n \<Rightarrow>
         bindT (update (\<lambda>s. s\<lparr>session_part := send_input_queue sid history n (session_part s)\<rparr>)) (\<lambda>_.
         waiting (input_answer sid late n)))"

definition workflow_stdin :: "workflow_config \<Rightarrow> nat \<Rightarrow> string \<Rightarrow> unit res \<Rightarrow> session_info res \<Rightarrow> session_info res wtask" where
  "workflow_stdin cfg i input history late =
     bindR (reading admit) (\<lambda>_.
     bindR (reading (find_workflow i)) (\<lambda>a.
     bindR (checked a (in_phase [WfRunning])) (\<lambda>_.
     bindR (checked a session_of) (\<lambda>sid. send_stdin cfg sid input history late))))"

definition workflow_output :: "workflow_config \<Rightarrow> nat \<Rightarrow> nat \<Rightarrow> nat option \<Rightarrow> output_response res wtask" where
  "workflow_output cfg i cursor timeout_ms =
     bindR (reading (find_workflow i)) (\<lambda>a.
     bindR (checked a session_of) (\<lambda>sid.
     bindR (atomic (on_sessions (lookup_session (wc_session cfg) sid))) (\<lambda>x.
     bindT (reading (\<lambda>s. instant_of s + output_timeout timeout_ms)) (\<lambda>deadline.
     waiting (\<lambda>s. map_option (\<lambda>r. (Inr r, s))
       (read_output cursor deadline (instant_of s)
         (case map_of (vsessions (session_part s)) sid of Some y \<Rightarrow> y | None \<Rightarrow> x)))))))"

definition stopped_by_client :: app_error where
  "stopped_by_client = ProjectReuploadRequired ''Vivado was stopped by the client''"

definition workflow_stop_session :: "workflow_config \<Rightarrow> nat \<Rightarrow> session_info res wtask" where
  "workflow_stop_session cfg i =
     managed (Inr ())
       (bindR (reading (find_workflow i)) (\<lambda>a.
        bindR (checked a session_of) (\<lambda>sid.
        bindR (atomic (on_sessions (get_session (wc_session cfg) sid))) (\<lambda>session.
        if is_terminal (si_status session) then Ret (Inr session)
        else
          bindT (update (request_cleanup a ClientRequested WfFailed (Some stopped_by_client) True)) (\<lambda>_.
          Ret (Inr (session\<lparr>si_status := Stopping,
            termination_reason := Some (case termination_reason session of None \<Rightarrow> ClientRequested | Some r \<Rightarrow> r)\<rparr>)))))))"

section \<open>The end of a workflow\<close>

definition finish_pulling :: "workflow_config \<Rightarrow> nat \<Rightarrow> workflow_info res wtask" where
  "finish_pulling cfg a =
     bindR (checked a (in_phase [WfPulling])) (\<lambda>_.
     bindT (snapshot a) (\<lambda>info.
     bindT (waiting (sync_wait (abort_open (wc_env cfg) (wc_sync cfg) (wi_project info)))) (\<lambda>r.
     case r of
       Inl e \<Rightarrow> bindT (update (upd_wf a (cleanup_due_error e))) (\<lambda>_. Ret (Inl e))
     | Inr _ \<Rightarrow>
         bindT (atomic (terminate cfg a WfCompleted None False)) (\<lambda>b.
         if b then bindT (snapshot a) (\<lambda>info. Ret (Inr info))
         else Ret (Inl (WorkflowPhase ''workflow is stopping''))))))"

definition workflow_finish :: "workflow_config \<Rightarrow> nat \<Rightarrow> nat \<Rightarrow> workflow_info res wtask" where
  "workflow_finish cfg me i =
     managed (Inr ())
       (bindR (reading (find_workflow i)) (\<lambda>a.
        bindT (snapshot a) (\<lambda>info.
        if wi_status info = WfCompleted then bindT (snapshot a) (\<lambda>info. Ret (Inr info))
        else
          bindT (try_acquire me a) (\<lambda>b.
          if b then holding a (finish_pulling cfg a)
          else Ret (Inl (WorkflowPhase ''transfers are still active''))))))"

definition workflow_cancel :: "nat \<Rightarrow> workflow_info res wtask" where
  "workflow_cancel i =
     managed (Inr ())
       (bindR (reading (find_workflow i)) (\<lambda>a.
        bindT (update (request_cleanup a WorkflowClosed WfCancelled None False)) (\<lambda>_.
        bindT (snapshot a) (\<lambda>info. Ret (Inr info)))))"

definition session_gone :: "nat \<Rightarrow> service \<Rightarrow> bool" where
  "session_gone sid s =
     (case map_of (vsessions (session_part s)) sid of None \<Rightarrow> True | Some x \<Rightarrow> is_terminal (si_status (vs_info x)))"

text \<open>
  The Vivado part of a cleanup attempt. The wait of \<open>stop_session\<close> ends with the session or after ten
  seconds, so the snapshot that follows may be taken at any time.
\<close>

definition stop_vivado :: "workflow_config \<Rightarrow> nat option \<Rightarrow> termination_reason \<Rightarrow> unit res wtask" where
  "stop_vivado cfg session reason =
     (case session of
        Some sid \<Rightarrow>
          bindR (atomic (on_sessions (stop_session (wc_session cfg) sid reason))) (\<lambda>_.
          reading (\<lambda>s. ensure (session_gone sid s) (Internal ''waiting for confirmed Vivado process cleanup'')))
      | None \<Rightarrow>
          reading (\<lambda>s. ensure (\<not> degraded (session_part s)) (Internal ''Vivado startup cleanup is not confirmed'')))"

definition cleanup_attempt :: "workflow_config \<Rightarrow> workflow_info \<Rightarrow> termination_reason \<Rightarrow> bool \<Rightarrow> bool res wtask" where
  "cleanup_attempt cfg info reason invalidate =
     bindR (stop_vivado cfg (wi_session info) reason) (\<lambda>_.
     bindR (if invalidate then marked cfg False (wi_project info) else Ret (Inr ())) (\<lambda>_.
     bindR (waiting (sync_wait (abort_open (wc_env cfg) (wc_sync cfg) (wi_project info)))) (\<lambda>_.
     on_project cfg (\<lambda>ps. is_clean ps (wi_project info)))))"

text \<open>One round of the loop of \<open>cleanup_workflow\<close>; the lock stays held between rounds.\<close>

definition end_cleanup :: "workflow_config \<Rightarrow> nat \<Rightarrow> bool \<Rightarrow> bool \<Rightarrow> worker wtask" where
  "end_cleanup cfg a invalidate clean =
     bindT (checked a (\<lambda>w. (cleanup_target w, terminal_error w, invalidate_project w)))
       (\<lambda>(target, e, invalidated).
     if invalidated \<and> \<not> invalidate then Ret (CleanRound a)
     else
       bindT (atomic (terminate cfg a target e (\<not> clean))) (\<lambda>b.
       if b then holding a (Ret NoMore) else Ret (CleanRound a)))"

definition cleanup_round :: "workflow_config \<Rightarrow> nat \<Rightarrow> worker wtask" where
  "cleanup_round cfg a =
     bindT (snapshot a) (\<lambda>info.
     if final (wi_status info) then holding a (Ret NoMore)
     else
       bindT (checked a (\<lambda>w. (cleanup_reason w, invalidate_project w))) (\<lambda>(reason, invalidate).
       bindT (cleanup_attempt cfg info reason invalidate) (\<lambda>r.
       case r of
         Inr clean \<Rightarrow> end_cleanup cfg a invalidate clean
       | Inl e \<Rightarrow> bindT (update (upd_wf a (report_error e))) (\<lambda>_. Ret (CleanRound a)))))"

definition cleanup_workflow :: "nat \<Rightarrow> nat \<Rightarrow> worker wtask" where
  "cleanup_workflow me a = bindT (acquire me a) (\<lambda>_. Ret (CleanRound a))"

text \<open>A managed task ended in a panic; \<open>poisoned\<close> when it held the registry or the workflow's metadata.\<close>

definition recover_task_failure :: "nat \<Rightarrow> app_error \<Rightarrow> bool \<Rightarrow> unit wtask" where
  "recover_task_failure i e poisoned =
     (if poisoned then update (\<lambda>s. s\<lparr>background_fault := True\<rparr>)
      else
        bindT (reading (\<lambda>s. map_of (wf_entries s) i)) (\<lambda>x.
        case x of
          None \<Rightarrow> Ret ()
        | Some a \<Rightarrow>
            bindT (update (upd_wf a (initialization_failed e))) (\<lambda>_. update (fail a e True))))"

end
