(* ===== verification/Workflow_System.thy ===== *)
theory Workflow_System
  imports Workflow_Handlers
begin

text \<open>
  The whole service as a transition system: clients start handlers, every task runs one section at a
  time, tasks are dropped or panic, sessions and the sync manager go on by themselves, time passes,
  the reaper of \<open>src/src/workflow.rs\<close> ticks and the service is shut down.
\<close>

text \<open>
  \<open>owner\<close> lists the managed tasks: the workflow a task works for and what is started again after a panic.
\<close>

record system =
  srv :: service
  pool :: "(nat \<times> worker wtask) list"
  owner :: "(nat \<times> nat \<times> worker) list"
  next_task :: nat

definition quietly :: "'a wtask \<Rightarrow> worker wtask" where
  "quietly t = bindT t (\<lambda>_. Ret NoMore)"

section \<open>Tasks\<close>

text \<open>The managed operations, each for one workflow.\<close>

inductive managed_task :: "workflow_config \<Rightarrow> nat \<Rightarrow> nat \<Rightarrow> worker wtask \<Rightarrow> bool" for cfg me i where
  mt_create: "managed_task cfg me i (quietly (workflow_create cfg me i req h))"
| mt_push: "managed_task cfg me i (quietly (workflow_push_plan cfg me i r h))"
| mt_commit: "managed_task cfg me i (quietly (workflow_commit cfg me i k h))"
| mt_abort: "managed_task cfg me i (quietly (workflow_abort_sync cfg me i k))"
| mt_start: "managed_task cfg me i (quietly (workflow_start_session cfg me i args h h' late))"
| mt_stop: "managed_task cfg me i (quietly (workflow_stop_session cfg i))"
| mt_finish: "managed_task cfg me i (quietly (workflow_finish cfg me i))"
| mt_cancel: "managed_task cfg me i (quietly (workflow_cancel i))"

text \<open>The operations that live in the request and end with it.\<close>

inductive request_task :: "workflow_config \<Rightarrow> nat \<Rightarrow> worker wtask \<Rightarrow> bool" for cfg me where
  rt_heartbeat: "request_task cfg me (quietly (atomic (heartbeat_of i)))"
| rt_manifest: "request_task cfg me (quietly (manifest_of cfg me i inc exc seen taken))"
| rt_upload: "request_task cfg me (quietly (upload cfg me i k p len body interrupt seen taken))"
| rt_pull: "request_task cfg me (quietly (pull_plan cfg me i r seen taken))"
| rt_download: "request_task cfg me (quietly (download cfg me i p im seen taken over))"
| rt_head: "request_task cfg me (quietly (head_download cfg me i p im seen taken))"
| rt_sync_status: "request_task cfg me (quietly (sync_status_of i k))"
| rt_session: "request_task cfg me (quietly (session_info_of cfg i))"
| rt_stdin: "request_task cfg me (quietly (workflow_stdin cfg i input h answer))"
| rt_output: "request_task cfg me (quietly (workflow_output cfg i cursor timeout_ms))"

fun worker_task :: "workflow_config \<Rightarrow> nat \<Rightarrow> worker \<Rightarrow> worker wtask option" where
  "worker_task cfg me NoMore = None"
| "worker_task cfg me (Observe a sid) = Some (observe_session cfg me a sid)"
| "worker_task cfg me (Clean a) = Some (cleanup_workflow me a)"
| "worker_task cfg me (CleanRound a) = Some (cleanup_round cfg a)"

text \<open>The cleanup starts again after a panic unless the fault is permanent; no other task does.\<close>

fun restart_of :: "worker \<Rightarrow> worker" where
  "restart_of (Clean a) = Clean a"
| "restart_of _ = NoMore"

fun worker_address :: "worker \<Rightarrow> nat" where
  "worker_address NoMore = 0"
| "worker_address (Observe a _) = a"
| "worker_address (Clean a) = a"
| "worker_address (CleanRound a) = a"

definition recovered :: "nat \<Rightarrow> worker \<Rightarrow> app_error \<Rightarrow> bool \<Rightarrow> worker wtask" where
  "recovered i again e poisoned =
     bindT (recover_task_failure i e poisoned) (\<lambda>_.
     reading (\<lambda>s. if background_fault s then NoMore else again))"

definition put :: "nat \<Rightarrow> 'a \<Rightarrow> (nat \<times> 'a) list \<Rightarrow> (nat \<times> 'a) list" where
  "put i t xs = (i, t) # filter (\<lambda>(j, _). j \<noteq> i) xs"

definition remove :: "nat \<Rightarrow> (nat \<times> 'a) list \<Rightarrow> (nat \<times> 'a) list" where
  "remove i xs = filter (\<lambda>(j, _). j \<noteq> i) xs"

section \<open>The environment\<close>

inductive environment :: "workflow_config \<Rightarrow> service \<Rightarrow> service \<Rightarrow> bool" for cfg where
  env_session: "mstep (wc_session cfg) (session_part s) m \<Longrightarrow> environment cfg s (s\<lparr>session_part := m\<rparr>)"
| env_sync_reaper: "environment cfg s (s\<lparr>sync_part := snd (reaper_tick (wc_env cfg) (wc_sync cfg) (sync_part s))\<rparr>)"
| env_sync_upload: "environment cfg s (snd (on_sync (upload_file (wc_env cfg) (wc_sync cfg) project k p len body interrupt) s))"
| env_sync_clock: "environment cfg s (s\<lparr>sync_part := (sync_part s)\<lparr>clock := clock (sync_part s) + d\<rparr>\<rparr>)"
| env_expire: "environment cfg s (expire_active cfg s)"
| env_prune: "environment cfg s (prune_workflows cfg s)"
| env_shutdown: "environment cfg s (shutdown_start s)"

section \<open>Steps\<close>

inductive sys_step :: "workflow_config \<Rightarrow> system \<Rightarrow> system \<Rightarrow> bool" for cfg where
  sys_managed: "managed_task cfg (next_task x) i t \<Longrightarrow>
     sys_step cfg x (x\<lparr>pool := (next_task x, t) # pool x, owner := (next_task x, i, NoMore) # owner x,
       next_task := Suc (next_task x)\<rparr>)"
| sys_request: "request_task cfg (next_task x) t \<Longrightarrow>
     sys_step cfg x (x\<lparr>pool := (next_task x, t) # pool x, next_task := Suc (next_task x)\<rparr>)"
| sys_spawn: "spawned_tasks (srv x) = r # rs \<Longrightarrow>
     sys_step cfg x (x\<lparr>srv := (srv x)\<lparr>spawned_tasks := rs\<rparr>, pool := (next_task x, Ret r) # pool x,
       owner := (next_task x, workflow_id (wf_info (wf (worker_address r) (srv x))), restart_of r) # owner x,
       next_task := Suc (next_task x)\<rparr>)"
| sys_run: "(i, Act g) \<in> set (pool x) \<Longrightarrow> g (srv x) = Some (t, s) \<Longrightarrow>
     sys_step cfg x (x\<lparr>srv := s, pool := put i t (pool x)\<rparr>)"
| sys_again: "(i, Ret r) \<in> set (pool x) \<Longrightarrow> worker_task cfg i r = Some t \<Longrightarrow>
     sys_step cfg x (x\<lparr>pool := put i t (pool x)\<rparr>)"
| sys_over: "(i, Ret r) \<in> set (pool x) \<Longrightarrow> worker_task cfg i r = None \<Longrightarrow>
     sys_step cfg x (x\<lparr>pool := remove i (pool x), owner := remove i (owner x)\<rparr>)"
| sys_drop: "i \<notin> fst ` set (owner x) \<Longrightarrow>
     sys_step cfg x (x\<lparr>srv := unwind i (srv x), pool := remove i (pool x)\<rparr>)"
| sys_panic: "(i, t) \<in> set (pool x) \<Longrightarrow> map_of (owner x) i = Some (w, again) \<Longrightarrow>
     sys_step cfg x (x\<lparr>srv := unwind i (srv x), pool := put i (recovered w again e poisoned) (pool x)\<rparr>)"
| sys_environment: "environment cfg (srv x) s \<Longrightarrow> sys_step cfg x (x\<lparr>srv := s\<rparr>)"
| sys_close_sessions: "wf_stopping (srv x) \<Longrightarrow> spawned_tasks (srv x) = [] \<Longrightarrow> owner x = [] \<Longrightarrow>
     sys_step cfg x (x\<lparr>srv := (srv x)\<lparr>session_part := shutdown_begin (session_part (srv x))\<rparr>\<rparr>)"
| sys_close_sync: "shutting_down (session_part (srv x)) \<Longrightarrow>
     sys_step cfg x (x\<lparr>srv := (srv x)\<lparr>sync_part := shutdown_close (sync_part (srv x))\<rparr>\<rparr>)"
| sys_abort_sync: "closed (sync_part (srv x)) \<Longrightarrow>
     sys_step cfg x (x\<lparr>srv := (srv x)\<lparr>sync_part := shutdown_abort (wc_env cfg) (wc_sync cfg) (sync_part (srv x))\<rparr>\<rparr>)"

inductive sys_steps :: "workflow_config \<Rightarrow> system \<Rightarrow> system \<Rightarrow> bool" for cfg where
  sys_refl: "sys_steps cfg x x"
| sys_more: "sys_steps cfg x y \<Longrightarrow> sys_step cfg y z \<Longrightarrow> sys_steps cfg x z"

text \<open>The service as \<open>WorkflowManager::new\<close> makes it, over any state of the sync manager.\<close>

definition service_new :: "manager \<Rightarrow> service" where
  "service_new m =
     \<lparr>sync_part = m, session_part = manager_new, wf_heap = [], wf_active = None, wf_entries = [],
      wf_stopping = False, background_fault = False, spawned_tasks = []\<rparr>"

definition system_new :: "manager \<Rightarrow> system" where
  "system_new m = \<lparr>srv = service_new m, pool = [], owner = [], next_task = 1\<rparr>"

definition wf_reachable :: "workflow_config \<Rightarrow> system \<Rightarrow> bool" where
  "wf_reachable cfg x \<longleftrightarrow> (\<exists>m. sys_steps cfg (system_new m) x)"

end
