(* ===== verification/Session_Identity.thy ===== *)
theory Session_Identity
  imports Session_Inv
begin

text \<open>
  A session shows the identifier it is registered under, also in the reply to the caller that created it.
\<close>

definition id_view :: "'z supervised_scheme \<Rightarrow> nat \<times> session_info res option" where
  "id_view s = (session_id (vs_info s), reply s)"

definition named :: "nat \<Rightarrow> 'z supervised_scheme \<Rightarrow> bool" where
  "named i s \<longleftrightarrow> session_id (vs_info s) = i \<and> (\<forall>info. reply s = Some (Inr info) \<longrightarrow> session_id info = i)"

definition all_named :: "'z session_manager_scheme \<Rightarrow> bool" where
  "all_named m \<longleftrightarrow> (\<forall>i s. map_of (vsessions m) i = Some s \<longrightarrow> named i s)"

lemma named_view: "id_view t = id_view s \<Longrightarrow> named i t = named i s"
  by (simp add: id_view_def named_def)

lemma id_view_ops [simp]:
  "id_view (report_cleanup_error e s) = id_view s" "id_view (request_stop r s) = id_view s"
  "id_view (stopping r s) = id_view s" "id_view (push_output t out s) = id_view s"
  "id_view (finish t r x tr s) = id_view s" "id_view (begin_retention t s) = id_view s"
  "id_view (drain_tick t s) = id_view s" "id_view (reject_inputs s) = id_view s"
  "id_view (answer_input a r' s) = id_view s"
  by (simp_all add: id_view_def report_cleanup_error_def request_stop_def stopping_def push_output_def
      finish_def begin_retention_def drain_tick_def reject_inputs_eq answer_input_def split: prod.splits option.splits)

lemma id_view_updates [simp]:
  "id_view (s\<lparr>proc := p\<rparr>) = id_view s" "id_view (s\<lparr>sv_stop := x\<rparr>) = id_view s"
  "id_view (s\<lparr>leader_exited := b\<rparr>) = id_view s" "id_view (s\<lparr>reader_done := b\<rparr>) = id_view s"
  "id_view (s\<lparr>sv_truncated := b\<rparr>) = id_view s" "id_view (s\<lparr>fd_open := b\<rparr>) = id_view s"
  "id_view (s\<lparr>decoder := d\<rparr>) = id_view s" "id_view (s\<lparr>reaped_at := x'\<rparr>) = id_view s"
  "id_view (s\<lparr>sv_exit_code := c\<rparr>) = id_view s" "id_view (s\<lparr>phase := ph\<rparr>) = id_view s"
  "id_view (s\<lparr>command := cmd\<rparr>) = id_view s" "id_view (s\<lparr>vs_pid := pid\<rparr>) = id_view s"
  "id_view (s\<lparr>unclaimed := b\<rparr>) = id_view s" "id_view (s\<lparr>startup_error := er\<rparr>) = id_view s"
  "id_view (s\<lparr>raised := b\<rparr>) = id_view s" "id_view (s\<lparr>pending := q\<rparr>) = id_view s"
  "id_view (s\<lparr>queue := qs\<rparr>) = id_view s" "id_view (s\<lparr>pty_input := w\<rparr>) = id_view s"
  "id_view (s\<lparr>vs_info := i\<rparr>) = (session_id i, reply s)" "id_view (s\<lparr>reply := r\<rparr>) = (session_id (vs_info s), r)"
  by (simp_all add: id_view_def)

lemma id_view_ticks [simp]:
  "id_view (term_tick env st s) = id_view s" "id_view (kill_tick t env s) = id_view s"
  "id_view (deadline_tick t st s) = id_view s" "id_view (reap_tick t env s) = id_view s"
  "id_view (observe_tick t env s) = id_view s"
  by (simp_all add: term_tick_def kill_tick_def deadline_tick_def reap_tick_def observe_tick_def Let_def
      split: sum.splits option.splits prod.splits bool.splits)

lemma id_view_tick [simp]: "id_view (tick t env s) = id_view s"
  by (simp add: tick_def stop_tick_def finalize_tick_def confirm_tick_def split: sum.splits bool.splits option.splits)

lemma id_view_step [simp]: "id_view (sv_step t e s) = id_view s"
proof (cases e)
  case (EvRead r)
  then show ?thesis by (auto simp: read_event_def Let_def split: sum.splits prod.splits option.splits)
next
  case (EvWritten r)
  then show ?thesis by (auto simp: written_event_def Let_def split: sum.splits option.splits)
qed (auto simp: stop_event_def input_event_def split: list.splits)

lemma id_view_clients [simp]:
  "id_view (send_reserve cfg i input s) = id_view s" "id_view (run_return s) = id_view s"
  by (simp_all add: send_reserve_def run_return_def id_view_def reject_inputs_eq split: sum.splits option.splits)

lemma id_view_queue [simp]: "id_view (send_queue h i s) = id_view s"
proof (cases "map_of (reserved s) i")
  case (Some input)
  show ?thesis by (rule send_queue_cases [OF Some, of h]) (simp_all add: id_view_def unreserve_def answer_input_def)
qed (simp add: send_queue_def)

lemma named_keeps [simp]:
  "named j (begin_retention t s) = named j s" "named j (send_reserve cfg i input s) = named j s"
  "named j (send_queue h i s) = named j s" "named j (request_stop why s) = named j s"
  "named j (run_return s) = named j s" "named j (sv_step t e s) = named j s"
  by (rule named_view, simp)+

lemma named_seal: "named i s \<Longrightarrow> named i (seal t r e s)"
  by (simp add: named_def seal_def finish_def begin_retention_def)

lemma named_prepare: "named i s \<Longrightarrow> named i (prepare t dir gone s)"
  by (auto simp: prepare_def named_seal split: sum.splits) (simp add: named_def)

lemma named_spawned:
  assumes "named i s" shows "named i (spawned t r gone s)"
proof (cases r)
  case (SpawnOk pid registered)
  with assms show ?thesis by (auto simp: spawned_def Let_def named_def request_stop_def split: sum.splits)
next
  case (SpawnLost e)
  with assms show ?thesis
    by (simp add: spawned_def named_def reject_inputs_eq report_cleanup_error_def stopping_def)
qed (simp add: spawned_def named_seal [OF assms])

lemma named_end:
  assumes "named i s" shows "named i (supervise_end t s)"
proof -
  have "fst (id_view (supervise_end t s)) = fst (id_view s) \<and>
      (snd (id_view (supervise_end t s)) = snd (id_view s) \<or> (\<exists>e. snd (id_view (supervise_end t s)) = Some (Inl e)))"
    by (simp add: supervise_end_def Let_def id_view_def [symmetric] split: option.splits)
       (simp add: id_view_def push_output_def finish_def begin_retention_def reject_inputs_eq split: prod.splits)
  with assms show ?thesis by (auto simp: named_def id_view_def)
qed

section \<open>Every step\<close>

lemma all_named_upd: "all_named m \<Longrightarrow> (\<And>s. named i s \<Longrightarrow> named i (f s)) \<Longrightarrow> all_named (on_session i f m)"
  by (auto simp: all_named_def)

lemma all_named_task:
  assumes "all_named m" "\<And>s. named i s \<Longrightarrow> named i (f s)"
  shows "all_named (on_task i f m)"
proof (cases "map_of (vsessions m) i")
  case (Some s)
  with assms(1) have "named i s" by (simp add: all_named_def)
  then have "named i (s\<lparr>raised := False\<rparr>)" by (simp add: named_def)
  from assms(2) [OF this] assms(1) Some show ?thesis by (auto simp: on_task_eq all_named_def)
qed (use assms(1) in \<open>simp add: on_task_def\<close>)

lemma all_named_prune:
  assumes "all_named m" "distinct (map fst (vsessions m))" shows "all_named (prune cfg m)"
  using assms session_retention.lookup_old [of "vsessions m"] unfolding all_named_def by fastforce

lemma all_named_lookup:
  "all_named m \<Longrightarrow> distinct (map fst (vsessions m)) \<Longrightarrow> lookup_session cfg i m = (r, n) \<Longrightarrow> all_named n"
  using all_named_prune lookup_sessionD(1) by metis

lemma all_named_fields: "vsessions n = vsessions m \<Longrightarrow> all_named n = all_named m"
  by (simp add: all_named_def)

lemma named_new: "named i (new_session cfg i w p a t)"
  by (simp add: named_def new_session_def new_info_def)

lemma all_named_create: "all_named m \<Longrightarrow> distinct (map fst (vsessions m)) \<Longrightarrow> all_named (snd (create_session cfg w p a h m))"
proof -
  let ?m = "m\<lparr>next_uuid := Suc (next_uuid m)\<rparr>"
  assume a: "all_named m" "distinct (map fst (vsessions m))"
  then have n: "all_named ?m" by (simp add: all_named_def)
  then have "all_named (prune cfg ?m)" by (rule all_named_prune) (use a in simp)
  moreover from this
  have "all_named ((prune cfg ?m)\<lparr>active := x, vsessions := (next_uuid m, new_session cfg (next_uuid m) w p a t) # vsessions (prune cfg ?m)\<rparr>)"
    for x t using named_new by (simp add: all_named_def)
  ultimately show ?thesis using a n
    by (auto simp: create_session_def register_session_def Let_def split: sum.splits)
qed

lemma all_named_release: "all_named m \<Longrightarrow> sm_ok cfg m \<Longrightarrow> all_named (snd (release_session cfg i m))"
proof -
  assume a: "all_named m" "sm_ok cfg m"
  obtain r n where r: "lookup_session cfg i m = (r, n)" by fastforce
  note l = all_named_lookup [OF a(1) sm_okD(1) [OF a(2)] r]
  have d: "distinct (map fst (vsessions n))"
    using sm_okD(1) [OF sm_ok_prune [OF a(2)]] lookup_sessionD(1) [OF r] by simp
  have "all_named (prune cfg (on_session i (begin_retention (clock_ms n)) n))"
    by (rule all_named_prune [OF all_named_upd [OF l]]) (simp_all add: d)
  with l r show ?thesis by (auto simp: release_session_def split: sum.splits)
qed

theorem all_named_step: "mstep cfg m n \<Longrightarrow> sm_ok cfg m \<Longrightarrow> all_named m \<Longrightarrow> all_named n"
proof (induction rule: mstep.induct)
  case (step_create m w p a h)
  then show ?case using all_named_create sm_okD(1) by blast
next
  case (step_lookup m i)
  then show ?case using all_named_prune sm_okD(1) by (auto simp: get_session_def lookup_session_def Let_def)
next
  case (step_release m i)
  then show ?case using all_named_release by blast
next
  case (step_send m i input)
  obtain r n where r: "lookup_session cfg i m = (r, n)" by fastforce
  note l = all_named_lookup [OF step_send(2) sm_okD(1) [OF step_send(1)] r]
  have "all_named (on_session i (send_reserve cfg (next_uuid n) input) (n\<lparr>next_uuid := Suc (next_uuid n)\<rparr>))"
    by (rule all_named_upd) (use l in \<open>simp_all add: all_named_def\<close>)
  with l r show ?case by (auto simp: send_input_begin_def Let_def split: sum.splits option.splits)
next
  case (step_queue m i h k)
  then show ?case unfolding send_input_queue_def by (intro all_named_upd) simp_all
next
  case (step_stop why m i)
  obtain r n where r: "lookup_session cfg i m = (r, n)" by fastforce
  note l = all_named_lookup [OF step_stop(3) sm_okD(1) [OF step_stop(2)] r]
  have "all_named (on_session i (request_stop why) n)" by (rule all_named_upd [OF l]) simp
  with l r show ?case by (auto simp: stop_session_def split: sum.splits)
next
  case (step_shutdown m)
  then show ?case by (auto simp: shutdown_begin_def map_of_map all_named_def)
next
  case (step_prepare m i s dir gone)
  then show ?case unfolding task_prepare_def by (intro all_named_task) (simp_all add: named_prepare)
next
  case (step_spawned m i s r gone)
  then show ?case unfolding task_spawned_def by (intro all_named_task) (simp_all add: named_spawned)
next
  case (step_event m i s e)
  then show ?case unfolding task_event_def by (intro all_named_task) simp_all
next
  case (step_end m i s)
  then show ?case unfolding task_end_def by (intro all_named_task) (simp_all add: named_end)
next
  case (step_finished m i)
  have t: "all_named (on_task i run_return m)" by (rule all_named_task [OF step_finished(4)]) simp
  have k: "map fst (vsessions (on_task i run_return m)) = map fst (vsessions m)"
    by (simp add: on_task_def Let_def split: option.splits)
  show ?case unfolding task_finished_def finished_def
    by (rule all_named_prune) (use t k sm_okD(1) [OF step_finished(3)] in \<open>simp_all add: all_named_def\<close>)
qed (simp_all add: all_named_def shutdown_deadline_def)

end
