(* ===== verification/Workflow_Inv.thy ===== *)
theory Workflow_Inv
  imports Workflow_System Session_Properties Session_Identity
begin

text \<open>
  The invariant of the workflow service and what a section may do to it while other tasks run: the
  interpretation of \<open>rely_guarantee\<close>. One task at a time holds the activity lock of a workflow; only its
  holder ends the workflow or gives it a session, any other task can at most stop it.
\<close>

section \<open>Workflows\<close>

text \<open>The phases a workflow may enter next.\<close>

definition follows :: "workflow_status \<Rightarrow> workflow_status \<Rightarrow> bool" where
  "follows p q \<longleftrightarrow> p = q \<or> (p, q) \<in>
     {(WfPreparing, WfRunning), (WfPreparing, WfStopping), (WfPreparing, WfFailed), (WfRunning, WfPulling),
      (WfRunning, WfStopping), (WfPulling, WfStopping), (WfPulling, WfCompleted), (WfStopping, WfCancelled),
      (WfStopping, WfFailed)}"

definition phase_shape :: "workflow \<Rightarrow> bool" where
  "phase_shape w \<longleftrightarrow> (wf_status w = WfPreparing \<longrightarrow> wi_session (wf_info w) = None) \<and>
     (wf_status w \<in> {WfRunning, WfPulling, WfCompleted} \<longrightarrow> wi_session (wf_info w) \<noteq> None)"

definition cleanup_shape :: "workflow \<Rightarrow> bool" where
  "cleanup_shape w \<longleftrightarrow>
     (wf_status w = WfStopping \<longrightarrow> cleanup_started w \<and> cancelled w \<and> cleanup_due (wf_info w)) \<and>
     (cleanup_started w \<longrightarrow> wf_status w = WfStopping \<or> final (wf_status w)) \<and>
     cleanup_target w \<in> {WfCancelled, WfFailed} \<and> external_reason (cleanup_reason w)"

definition ended_shape :: "workflow \<Rightarrow> bool" where
  "ended_shape w \<longleftrightarrow> (final (wf_status w) \<longleftrightarrow> wf_ended w \<noteq> None) \<and> wi_ended_at (wf_info w) = wf_ended w \<and>
     (final (wf_status w) \<longrightarrow> open_sync w = None \<and> \<not> cleanup_due (wf_info w) \<and>
        (invalidate_project w \<longrightarrow> requires_full_upload (wf_info w)))"

definition wf_ok :: "workflow \<Rightarrow> bool" where
  "wf_ok w \<longleftrightarrow> phase_shape w \<and> cleanup_shape w \<and> ended_shape w \<and> (writer w \<noteq> None \<longrightarrow> readers w = [])"

lemmas wf_ok_defs = wf_ok_def phase_shape_def cleanup_shape_def ended_shape_def

text \<open>What task \<open>i\<close> may do to a workflow.\<close>

definition identity_of :: "workflow \<Rightarrow> nat \<times> workflow_request \<times> string" where
  "identity_of w = (workflow_id (wf_info w), wf_request w, wf_project w)"

definition wmove :: "nat \<Rightarrow> workflow \<Rightarrow> workflow \<Rightarrow> bool" where
  "wmove i w w' \<longleftrightarrow> identity_of w' = identity_of w \<and> follows (wf_status w) (wf_status w') \<and>
     (final (wf_status w) \<longrightarrow> wf_info w' = wf_info w \<and> wf_ended w' = wf_ended w) \<and>
     (wi_session (wf_info w) \<noteq> None \<longrightarrow> wi_session (wf_info w') = wi_session (wf_info w)) \<and>
     (writer w \<noteq> Some i \<longrightarrow>
        (wf_status w' = wf_status w \<or> \<not> final (wf_status w) \<and> wf_status w' = WfStopping) \<and>
        wi_session (wf_info w') = wi_session (wf_info w))"

lemma follows_stopping: "follows p q \<Longrightarrow> p = WfStopping \<or> final p \<Longrightarrow> q = WfStopping \<or> final q"
  by (cases p) (auto simp: follows_def)

lemma follows_final: "follows p q \<Longrightarrow> final p \<Longrightarrow> q = p"
  by (cases p) (auto simp: follows_def)

lemma wmoveD:
  assumes "wmove i w w'"
  shows "follows (wf_status w) (wf_status w')" "identity_of w' = identity_of w"
    "workflow_id (wf_info w') = workflow_id (wf_info w)"
    "final (wf_status w) \<Longrightarrow> wf_info w' = wf_info w"
    "wi_session (wf_info w) = Some sid \<Longrightarrow> wi_session (wf_info w') = Some sid"
    "writer w \<noteq> Some i \<Longrightarrow> wf_status w' = wf_status w \<or> \<not> final (wf_status w) \<and> wf_status w' = WfStopping"
    "writer w \<noteq> Some i \<Longrightarrow> wi_session (wf_info w') = wi_session (wf_info w)"
  using assms by (simp_all add: wmove_def identity_of_def)

lemma wmove_refl [simp]: "wmove i w w"
  by (simp add: wmove_def follows_def)

text \<open>An update that leaves alone what the invariant is about.\<close>

definition core :: "workflow \<Rightarrow> (nat \<times> workflow_request \<times> string) \<times> workflow_status \<times> nat option \<times> nat option \<times>
    nat option \<times> bool \<times> workflow_status \<times> termination_reason \<times> bool \<times> nat option \<times> nat list \<times> bool" where
  "core w = (identity_of w, wf_status w, wi_session (wf_info w), wf_ended w, wi_ended_at (wf_info w), cleanup_started w,
     cleanup_target w, cleanup_reason w, invalidate_project w, writer w, readers w, cancelled w)"

lemma core_ok:
  assumes "core w' = core w" "wf_ok w" "\<not> final (wf_status w)" "cleanup_due (wf_info w) \<Longrightarrow> cleanup_due (wf_info w')"
  shows "wf_ok w'"
  using assms by (auto simp: core_def wf_ok_defs)

lemma core_wmove:
  assumes "core w' = core w" "final (wf_status w) \<Longrightarrow> wf_info w' = wf_info w"
  shows "wmove i w w'"
  using assms by (auto simp: core_def wmove_def follows_def)

lemma core_updates [simp]:
  "core (close_plan w) = core w" "core (record_plan k d w) = core w" "core (committed w) = core w"
  "core (report_error e w) = core w" "core (initialized r w) = core w" "core (initialization_failed e w) = core w"
  "core (beat t w) = core w" "core (cleanup_due_error e w) = core w"
  by (auto simp: core_def identity_of_def close_plan_def record_plan_def committed_def report_error_def initialized_def
      initialization_failed_def beat_def cleanup_due_error_def upd_info_def Let_def split: sum.splits)

lemma due_updates [simp]:
  "cleanup_due (wf_info (close_plan w)) = cleanup_due (wf_info w)"
  "cleanup_due (wf_info (record_plan k d w)) = cleanup_due (wf_info w)"
  "cleanup_due (wf_info (committed w)) = cleanup_due (wf_info w)"
  "cleanup_due (wf_info (report_error e w)) = cleanup_due (wf_info w)"
  "cleanup_due (wf_info (initialized r w)) = cleanup_due (wf_info w)"
  "cleanup_due (wf_info (initialization_failed e w)) = cleanup_due (wf_info w)"
  "cleanup_due (wf_info (beat t w)) = cleanup_due (wf_info w)"
  "cleanup_due (wf_info (cleanup_due_error e w))"
  by (auto simp: close_plan_def record_plan_def committed_def report_error_def initialized_def
      initialization_failed_def beat_def cleanup_due_error_def upd_info_def Let_def split: sum.splits)

section \<open>The service\<close>

definition sealed :: "nat \<Rightarrow> session_manager \<Rightarrow> bool" where
  "sealed sid m \<longleftrightarrow> sid < next_uuid m \<and> (\<forall>x. map_of (vsessions m) sid = Some x \<longrightarrow> vs_terminal x)"

definition session_shape :: "session_manager \<Rightarrow> workflow \<Rightarrow> bool" where
  "session_shape m w \<longleftrightarrow> (\<forall>sid. wi_session (wf_info w) = Some sid \<longrightarrow> sid < next_uuid m \<and>
     (wf_status w = WfPulling \<or> final (wf_status w) \<longrightarrow> sealed sid m))"

definition registered :: "nat \<Rightarrow> nat \<Rightarrow> service \<Rightarrow> bool" where
  "registered i a s \<longleftrightarrow> (i, a) \<in> set (wf_entries s)"

text \<open>An address that a lookup may have given: a registered workflow, or one that has ended.\<close>

definition known :: "nat \<Rightarrow> service \<Rightarrow> bool" where
  "known a s \<longleftrightarrow> a < length (wf_heap s) \<and>
     (registered (workflow_id (wf_info (wf a s))) a s \<or> final (wf_status (wf a s)))"

fun worker_ok :: "worker \<Rightarrow> service \<Rightarrow> bool" where
  "worker_ok NoMore s = True"
| "worker_ok (Observe a sid) s = (known a s \<and> wi_session (wf_info (wf a s)) = Some sid)"
| "worker_ok (Clean a) s = (known a s \<and> (wf_status (wf a s) = WfStopping \<or> final (wf_status (wf a s))))"
| "worker_ok (CleanRound a) s = False"

definition registry_ok :: "service \<Rightarrow> bool" where
  "registry_ok s \<longleftrightarrow> distinct (map fst (wf_entries s)) \<and>
     (\<forall>i a. registered i a s \<longrightarrow> a < length (wf_heap s) \<and> workflow_id (wf_info (wf a s)) = i \<and>
        (final (wf_status (wf a s)) \<or> wf_active s = Some i)) \<and>
     (\<forall>i. wf_active s = Some i \<longrightarrow> (\<exists>a. registered i a s \<and> \<not> final (wf_status (wf a s))))"

definition service_ok :: "workflow_config \<Rightarrow> service \<Rightarrow> bool" where
  "service_ok cfg s \<longleftrightarrow> registry_ok s \<and>
     (\<forall>a<length (wf_heap s). wf_ok (wf a s) \<and> session_shape (session_part s) (wf a s)) \<and>
     sm_ok (wc_session cfg) (session_part s) \<and> all_named (session_part s) \<and>
     (\<forall>r\<in>set (spawned_tasks s). worker_ok r s)"

definition locks :: "nat \<Rightarrow> service \<Rightarrow> nat set" where
  "locks i s = {a. a < length (wf_heap s) \<and> writer (wf a s) = Some i}"

definition leases :: "nat \<Rightarrow> service \<Rightarrow> nat set" where
  "leases i s = {a. a < length (wf_heap s) \<and> i \<in> set (readers (wf a s))}"

definition guar :: "nat \<Rightarrow> service \<Rightarrow> service \<Rightarrow> bool" where
  "guar i s s' \<longleftrightarrow> length (wf_heap s) \<le> length (wf_heap s') \<and>
     (\<forall>a<length (wf_heap s). wmove i (wf a s) (wf a s')) \<and>
     (\<forall>j. j \<noteq> i \<longrightarrow> locks j s' = locks j s \<and> leases j s' = leases j s) \<and>
     continues (session_part s) (session_part s') \<and>
     (\<forall>k a. registered k a s \<longrightarrow> \<not> final (wf_status (wf a s')) \<longrightarrow> registered k a s')"

lemma continues_refl [simp]: "continues m m"
  by (simp add: continues_same)

lemma guar_refl [simp]: "guar i s s"
  by (simp add: guar_def)

interpretation svc: rely_guarantee "service_ok cfg" guar for cfg
  by unfold_locales simp

lemma continues_sealed: "continues m n \<Longrightarrow> sealed sid m \<Longrightarrow> sealed sid n"
  unfolding sealed_def continues_def shown_def by fastforce

lemma continues_issued: "continues m n \<Longrightarrow> sid < next_uuid m \<Longrightarrow> sid < next_uuid n"
  by (simp add: continues_def)

section \<open>Updates of one workflow\<close>

lemma wf_upd [simp]: "wf b (upd_wf a f s) = (if b = a \<and> a < length (wf_heap s) then f (wf a s) else wf b s)"
  by (cases "a < length (wf_heap s)") (auto simp: wf_def upd_wf_def nth_list_update list_update_beyond)

lemma upd_wf_fields [simp]:
  "length (wf_heap (upd_wf a f s)) = length (wf_heap s)" "sync_part (upd_wf a f s) = sync_part s"
  "session_part (upd_wf a f s) = session_part s" "wf_active (upd_wf a f s) = wf_active s"
  "wf_entries (upd_wf a f s) = wf_entries s" "wf_stopping (upd_wf a f s) = wf_stopping s"
  "background_fault (upd_wf a f s) = background_fault s" "spawned_tasks (upd_wf a f s) = spawned_tasks s"
  "registered k b (upd_wf a f s) = registered k b s" "instant_of (upd_wf a f s) = instant_of s"
  by (simp_all add: upd_wf_def registered_def instant_of_def)

lemma service_okD:
  assumes "service_ok cfg s"
  shows "registry_ok s" "sm_ok (wc_session cfg) (session_part s)" "all_named (session_part s)"
    "a < length (wf_heap s) \<Longrightarrow> wf_ok (wf a s)"
    "a < length (wf_heap s) \<Longrightarrow> session_shape (session_part s) (wf a s)"
    "r \<in> set (spawned_tasks s) \<Longrightarrow> worker_ok r s"
  using assms by (auto simp: service_ok_def)

lemma registryD:
  assumes "service_ok cfg s" "registered i a s"
  shows "a < length (wf_heap s)" "workflow_id (wf_info (wf a s)) = i" "final (wf_status (wf a s)) \<or> wf_active s = Some i"
    "known a s"
  using service_okD(1) [OF assms(1)] assms(2) by (auto simp: registry_ok_def known_def)

lemma known_wmove:
  assumes "known a s" "wmove i (wf a s) (wf a s')" "length (wf_heap s) \<le> length (wf_heap s')"
    "\<And>k. registered k a s \<Longrightarrow> \<not> final (wf_status (wf a s')) \<Longrightarrow> registered k a s'"
  shows "known a s'"
  using assms wmoveD(3,4) [OF assms(2)] by (auto simp: known_def)

lemma worker_ok_wmove:
  assumes "worker_ok r s" "\<And>a. a < length (wf_heap s) \<Longrightarrow> wmove i (wf a s) (wf a s')"
    "length (wf_heap s) \<le> length (wf_heap s')"
    "\<And>k a. registered k a s \<Longrightarrow> \<not> final (wf_status (wf a s')) \<Longrightarrow> registered k a s'"
  shows "worker_ok r s'"
proof -
  have k: "known a s'" if "known a s" for a
  proof (rule known_wmove [OF that])
    show "wmove i (wf a s) (wf a s')" by (rule assms(2)) (use that in \<open>simp add: known_def\<close>)
  qed (use assms(3,4) in simp_all)
  have f: "wf_status (wf a s') = WfStopping \<or> final (wf_status (wf a s'))"
    if "known a s" "wf_status (wf a s) = WfStopping \<or> final (wf_status (wf a s))" for a
    using follows_stopping [OF wmoveD(1) [OF assms(2)]] that by (simp add: known_def)
  have w: "wi_session (wf_info (wf a s')) = Some sid" if "known a s" "wi_session (wf_info (wf a s)) = Some sid" for a sid
    using wmoveD(5) [OF assms(2)] that by (simp add: known_def)
  show ?thesis
  proof (cases r)
    case (Observe a sid)
    with assms(1) k [of a] w [of a] show ?thesis by simp
  next
    case (Clean a)
    with assms(1) k [of a] f [of a] show ?thesis by simp
  qed (use assms(1) in simp_all)
qed

text \<open>An update that does not end the workflow.\<close>

lemma service_ok_upd:
  assumes ok: "service_ok cfg s" and a: "a < length (wf_heap s)"
    and w: "wf_ok (f (wf a s))" "session_shape (session_part s) (f (wf a s))" "wmove i (wf a s) (f (wf a s))"
      "final (wf_status (f (wf a s))) = final (wf_status (wf a s))"
  shows "service_ok cfg (upd_wf a f s)"
proof -
  have i: "workflow_id (wf_info (f (wf a s))) = workflow_id (wf_info (wf a s))"
    using w(3) by (simp add: wmove_def identity_of_def)
  have "registry_ok (upd_wf a f s)"
    using service_okD(1) [OF ok] w(4) i a unfolding registry_ok_def by auto
  moreover have "worker_ok r (upd_wf a f s)" if "worker_ok r s" for r
    by (rule worker_ok_wmove [OF that, where i = i]) (use w(3) in simp_all)
  ultimately show ?thesis using ok a w unfolding service_ok_def by auto
qed

lemma guar_upd:
  assumes "a < length (wf_heap s) \<Longrightarrow> wmove i (wf a s) (f (wf a s))"
    "\<And>j. j \<noteq> i \<Longrightarrow> (writer (f (wf a s)) = Some j) = (writer (wf a s) = Some j)"
    "\<And>j. j \<noteq> i \<Longrightarrow> (j \<in> set (readers (f (wf a s)))) = (j \<in> set (readers (wf a s)))"
  shows "guar i s (upd_wf a f s)"
  using assms by (auto simp: guar_def locks_def leases_def)

lemma core_session_shape: "core w' = core w \<Longrightarrow> session_shape m w' = session_shape m w"
  by (simp add: core_def session_shape_def)

lemma core_locks: "core w' = core w \<Longrightarrow> writer w' = writer w \<and> readers w' = readers w"
  by (simp add: core_def)

lemma core_status: "core w' = core w \<Longrightarrow> wf_status w' = wf_status w \<and> wi_session (wf_info w') = wi_session (wf_info w)"
  by (simp add: core_def)

lemma quiet_upd:
  assumes ok: "service_ok cfg s" and a: "a < length (wf_heap s)" and f: "core (f (wf a s)) = core (wf a s)"
    and n: "\<not> final (wf_status (wf a s))" "cleanup_due (wf_info (wf a s)) \<Longrightarrow> cleanup_due (wf_info (f (wf a s)))"
  shows "service_ok cfg (upd_wf a f s) \<and> guar i s (upd_wf a f s)"
proof
  have m: "wmove i (wf a s) (f (wf a s))" by (rule core_wmove [OF f]) (use n in simp)
  show "service_ok cfg (upd_wf a f s)"
  proof (rule service_ok_upd [where f = f and i = i, OF ok a])
    show "wf_ok (f (wf a s))" by (rule core_ok [OF f service_okD(4) [OF ok a] n])
  qed (use m service_okD(5) [OF ok a] core_status [OF f] core_session_shape [OF f] in simp_all)
  show "guar i s (upd_wf a f s)"
    using core_locks [OF f] m by (intro guar_upd) simp_all
qed

end
