(* ===== verification/Workflow_Sections.thy ===== *)
theory Workflow_Sections
  imports Workflow_Inv
begin

text \<open>
  Every section of the workflow service keeps the invariant and respects the guarantee of the task that
  runs it.
\<close>

section \<open>The lower managers\<close>

lemma other_fields [simp]:
  "wf a (s\<lparr>sync_part := m\<rparr>) = wf a s" "wf a (s\<lparr>session_part := n\<rparr>) = wf a s" "wf a (s\<lparr>wf_stopping := b\<rparr>) = wf a s"
  "wf a (s\<lparr>background_fault := b\<rparr>) = wf a s" "wf a (s\<lparr>spawned_tasks := rs\<rparr>) = wf a s"
  "wf a (s\<lparr>wf_active := k\<rparr>) = wf a s" "wf a (s\<lparr>wf_entries := es\<rparr>) = wf a s"
  "registered i a (s\<lparr>sync_part := m\<rparr>) = registered i a s" "registered i a (s\<lparr>session_part := n\<rparr>) = registered i a s"
  "registered i a (s\<lparr>wf_stopping := b\<rparr>) = registered i a s" "registered i a (s\<lparr>background_fault := b\<rparr>) = registered i a s"
  "registered i a (s\<lparr>spawned_tasks := rs\<rparr>) = registered i a s" "registered i a (s\<lparr>wf_active := k\<rparr>) = registered i a s"
  by (simp_all add: wf_def registered_def)

lemma other_locks [simp]:
  "locks i (s\<lparr>sync_part := m\<rparr>) = locks i s" "locks i (s\<lparr>session_part := n\<rparr>) = locks i s"
  "locks i (s\<lparr>wf_stopping := b\<rparr>) = locks i s" "locks i (s\<lparr>background_fault := b\<rparr>) = locks i s"
  "locks i (s\<lparr>spawned_tasks := rs\<rparr>) = locks i s" "locks i (s\<lparr>wf_active := k\<rparr>) = locks i s"
  "locks i (s\<lparr>wf_entries := es\<rparr>) = locks i s"
  "leases i (s\<lparr>sync_part := m\<rparr>) = leases i s" "leases i (s\<lparr>session_part := n\<rparr>) = leases i s"
  "leases i (s\<lparr>wf_stopping := b\<rparr>) = leases i s" "leases i (s\<lparr>background_fault := b\<rparr>) = leases i s"
  "leases i (s\<lparr>spawned_tasks := rs\<rparr>) = leases i s" "leases i (s\<lparr>wf_active := k\<rparr>) = leases i s"
  "leases i (s\<lparr>wf_entries := es\<rparr>) = leases i s"
  by (simp_all add: locks_def leases_def)

lemma worker_ok_other [simp]:
  "worker_ok r (s\<lparr>sync_part := m\<rparr>) = worker_ok r s" "worker_ok r (s\<lparr>session_part := n\<rparr>) = worker_ok r s"
  "worker_ok r (s\<lparr>wf_stopping := b\<rparr>) = worker_ok r s" "worker_ok r (s\<lparr>background_fault := b\<rparr>) = worker_ok r s"
  "worker_ok r (s\<lparr>spawned_tasks := rs\<rparr>) = worker_ok r s" "worker_ok r (s\<lparr>wf_active := k\<rparr>) = worker_ok r s"
  by (cases r; simp add: known_def)+

lemma quiet_other [simp]:
  "service_ok cfg (s\<lparr>sync_part := m\<rparr>) = service_ok cfg s" "guar i s (s\<lparr>sync_part := m\<rparr>)"
  "service_ok cfg (s\<lparr>wf_stopping := b\<rparr>) = service_ok cfg s" "guar i s (s\<lparr>wf_stopping := b\<rparr>)"
  "service_ok cfg (s\<lparr>background_fault := b\<rparr>) = service_ok cfg s" "guar i s (s\<lparr>background_fault := b\<rparr>)"
  "guar i s (s\<lparr>spawned_tasks := rs\<rparr>)"
  by (simp_all add: service_ok_def registry_ok_def guar_def)

lemma on_sync_ok: "on_sync f s = (r, s') \<Longrightarrow> service_ok cfg s \<Longrightarrow> service_ok cfg s' \<and> guar i s s'"
  by (auto simp: on_sync_def split: prod.splits)

lemma sync_wait_ok: "sync_wait f s = Some (r, s') \<Longrightarrow> service_ok cfg s \<Longrightarrow> service_ok cfg s' \<and> guar i s s'"
  by (auto simp: sync_wait_def split: prod.splits option.splits)

lemma session_shape_continues: "continues m n \<Longrightarrow> session_shape m w \<Longrightarrow> session_shape n w"
  unfolding session_shape_def using continues_sealed continues_issued by blast

lemma session_step_ok:
  assumes ok: "service_ok cfg s" and m: "mstep (wc_session cfg) (session_part s) m"
  shows "service_ok cfg (s\<lparr>session_part := m\<rparr>) \<and> guar i s (s\<lparr>session_part := m\<rparr>)"
proof -
  note c = continues_step [OF m service_okD(2) [OF ok]]
  have "service_ok cfg (s\<lparr>session_part := m\<rparr>)"
    using ok c sm_ok_step [OF m] all_named_step [OF m] session_shape_continues [OF c]
    by (simp add: service_ok_def registry_ok_def)
  with c show ?thesis by (simp add: guar_def)
qed

section \<open>Stopping\<close>

lemma stop_workflow_fields [simp]:
  "wf_status (stop_workflow t reason target e spoil w) = WfStopping"
  "identity_of (stop_workflow t reason target e spoil w) = identity_of w"
  "wi_session (wf_info (stop_workflow t reason target e spoil w)) = wi_session (wf_info w)"
  "wf_ended (stop_workflow t reason target e spoil w) = wf_ended w"
  "workflow_id (wf_info (stop_workflow t reason target e spoil w)) = workflow_id (wf_info w)"
  "wi_ended_at (wf_info (stop_workflow t reason target e spoil w)) = wi_ended_at (wf_info w)"
  "cleanup_started (stop_workflow t reason target e spoil w)" "cancelled (stop_workflow t reason target e spoil w)"
  "cleanup_due (wf_info (stop_workflow t reason target e spoil w))"
  "cleanup_target (stop_workflow t reason target e spoil w) = (if target = WfFailed then target else cleanup_target w)"
  "cleanup_reason (stop_workflow t reason target e spoil w) = (if cleanup_started w then cleanup_reason w else reason)"
  "writer (stop_workflow t reason target e spoil w) = writer w" "readers (stop_workflow t reason target e spoil w) = readers w"
  by (simp_all add: stop_workflow_def transition_def upd_info_def report_error_def identity_of_def Let_def split: option.splits)

lemma stop_workflow_ok:
  assumes "wf_ok w" "\<not> final (wf_status w)" "external_reason reason"
  shows "wf_ok (stop_workflow t reason target e spoil w)" "wmove i w (stop_workflow t reason target e spoil w)"
proof -
  show "wf_ok (stop_workflow t reason target e spoil w)"
    using assms by (auto simp: wf_ok_defs)
  show "wmove i w (stop_workflow t reason target e spoil w)"
    using assms by (cases "wf_status w") (auto simp: wmove_def follows_def)
qed

lemma request_cleanup_ok:
  assumes ok: "service_ok cfg s" and k: "known a s" and r: "external_reason reason"
  shows "service_ok cfg (request_cleanup a reason target e spoil s) \<and> guar i s (request_cleanup a reason target e spoil s)"
proof (cases "final (wf_status (wf a s)) \<or> wf_active s \<noteq> Some (workflow_id (wf_info (wf a s)))")
  case False
  let ?f = "stop_workflow (instant_of s) reason target e spoil"
  let ?s = "upd_wf a ?f s"
  from k have a: "a < length (wf_heap s)" by (simp add: known_def)
  note w = stop_workflow_ok [OF service_okD(4) [OF ok a] _ r, where t = "instant_of s" and target = target and e = e and spoil = spoil]
  have ok1: "service_ok cfg ?s"
    using False w service_okD(5) [OF ok a]
    by (intro service_ok_upd [where i = i, OF ok a]) (simp_all add: session_shape_def)
  have g1: "guar i s ?s" using False w by (intro guar_upd) simp_all
  have "known a ?s" using False k a by (auto simp: known_def)
  then have "worker_ok (Clean a) ?s" using a by simp
  with ok1 have "service_ok cfg (spawn (Clean a) ?s)" by (auto simp: service_ok_def registry_ok_def spawn_def)
  moreover have "guar i s (spawn (Clean a) ?s)" using g1 by (simp add: guar_def spawn_def)
  ultimately show ?thesis using False ok1 g1 by (simp add: request_cleanup_def Let_def)
qed (use ok in \<open>auto simp: request_cleanup_def Let_def\<close>)

lemma fail_ok:
  "service_ok cfg s \<Longrightarrow> known a s \<Longrightarrow> service_ok cfg (fail a e spoil s) \<and> guar i s (fail a e spoil s)"
  unfolding fail_def by (rule request_cleanup_ok) (simp_all add: external_reason_def)

lemma request_cleanup_locks [simp]:
  "locks i (request_cleanup a reason target e spoil s) = locks i s" "leases i (request_cleanup a reason target e spoil s) = leases i s"
  by (auto simp: request_cleanup_def locks_def leases_def Let_def spawn_def)

lemma active_known:
  assumes ok: "service_ok cfg s" and a: "Option.bind (wf_active s) (map_of (wf_entries s)) = Some a"
  shows "known a s"
proof -
  from a obtain i where "map_of (wf_entries s) i = Some a" by (auto simp: bind_eq_Some_conv)
  then have "registered i a s" by (auto simp: registered_def dest: map_of_SomeD)
  from registryD(4) [OF ok this] show ?thesis .
qed

lemma expire_ok: "service_ok cfg s \<Longrightarrow> service_ok cfg (expire_active c s) \<and> guar i s (expire_active c s)"
  using request_cleanup_ok [OF _ active_known, of cfg s] 
  by (auto simp: expire_active_def Let_def external_reason_def split: option.splits)

lemma shutdown_start_ok: "service_ok cfg s \<Longrightarrow> service_ok cfg (shutdown_start s) \<and> guar i s (shutdown_start s)"
proof -
  assume ok: "service_ok cfg s"
  let ?s = "s\<lparr>wf_stopping := True\<rparr>"
  have ok1: "service_ok cfg ?s" using ok by simp
  show ?thesis
  proof (cases "Option.bind (wf_active s) (map_of (wf_entries s))")
    case (Some a)
    with request_cleanup_ok [OF ok1 active_known [OF ok1], of a ServiceShutdown WfCancelled None False i]
    show ?thesis by (simp add: shutdown_start_def Let_def external_reason_def guar_def)
  qed (use ok in \<open>simp add: shutdown_start_def Let_def\<close>)
qed

section \<open>Ending\<close>

lemma end_workflow_fields [simp]:
  "wf_status (end_workflow t next e full w) = next" "identity_of (end_workflow t next e full w) = identity_of w"
  "workflow_id (wf_info (end_workflow t next e full w)) = workflow_id (wf_info w)"
  "wi_session (wf_info (end_workflow t next e full w)) = wi_session (wf_info w)"
  "wf_ended (end_workflow t next e full w) = Some t" "wi_ended_at (wf_info (end_workflow t next e full w)) = Some t"
  "open_sync (end_workflow t next e full w) = None" "\<not> cleanup_due (wf_info (end_workflow t next e full w))"
  "requires_full_upload (wf_info (end_workflow t next e full w)) = full"
  "cleanup_started (end_workflow t next e full w) = cleanup_started w"
  "cancelled (end_workflow t next e full w) = cancelled w"
  "invalidate_project (end_workflow t next e full w) = invalidate_project w"
  "cleanup_target (end_workflow t next e full w) = cleanup_target w"
  "cleanup_reason (end_workflow t next e full w) = cleanup_reason w"
  "writer (end_workflow t next e full w) = writer w" "readers (end_workflow t next e full w) = readers w"
  by (simp_all add: end_workflow_def transition_def upd_info_def report_error_def close_plan_def identity_of_def Let_def
      split: option.splits)

definition may_end :: "workflow_status \<Rightarrow> workflow \<Rightarrow> bool" where
  "may_end next w \<longleftrightarrow> next = WfCompleted \<or> final (wf_status w) \<or>
     next \<in> {WfCancelled, WfFailed} \<and> wf_status w = WfStopping \<or> next = WfFailed \<and> wf_status w = WfPreparing"

lemma end_workflow_ok:
  assumes "wf_ok w" "\<not> final (wf_status w)" "may_end next w" "next = WfCompleted \<Longrightarrow> wf_status w = WfPulling"
    "invalidate_project w \<Longrightarrow> full" "writer w = Some i"
  shows "wf_ok (end_workflow t next e full w)" "wmove i w (end_workflow t next e full w)" "final next"
proof -
  show n: "final next" using assms(2,3) by (auto simp: may_end_def)
  then show "wf_ok (end_workflow t next e full w)" using assms by (auto simp: wf_ok_defs)
  have "follows (wf_status w) next" using assms(2-4) by (auto simp: may_end_def follows_def)
  with assms(2,6) show "wmove i w (end_workflow t next e full w)" by (simp add: wmove_def)
qed

lemma locks_upd:
  "(\<And>w. (writer (f w) = Some i) = (writer w = Some i)) \<Longrightarrow> locks i (upd_wf a f s) = locks i s"
  by (auto simp: locks_def)

lemma leases_upd:
  "(\<And>w. (i \<in> set (readers (f w))) = (i \<in> set (readers w))) \<Longrightarrow> leases i (upd_wf a f s) = leases i s"
  by (auto simp: leases_def)

lemma registered_unique: "service_ok cfg s \<Longrightarrow> registered k a s \<Longrightarrow> registered k b s \<Longrightarrow> a = b"
  using service_okD(1) [of cfg s] unfolding registry_ok_def registered_def by (metis eq_key_imp_eq_value)

lemma end_slot_ok:
  fixes t :: nat and e :: "app_error option"
  assumes ok: "service_ok cfg s" and k: "known a s" and n: "\<not> final (wf_status (wf a s))"
    and w: "writer (wf a s) = Some i" "may_end next (wf a s)" "next = WfCompleted \<Longrightarrow> wf_status (wf a s) = WfPulling"
      "invalidate_project (wf a s) \<Longrightarrow> full"
    and d: "\<And>sid. wi_session (wf_info (wf a s)) = Some sid \<Longrightarrow> sealed sid (session_part s)"
  defines "s1 \<equiv> (upd_wf a (end_workflow t next e full) s)\<lparr>wf_active := None\<rparr>"
  shows "service_ok cfg s1" "guar i s s1" "wf_active s = Some (workflow_id (wf_info (wf a s)))"
proof -
  let ?w = "end_workflow t next e full (wf a s)"
  from k have a: "a < length (wf_heap s)" by (simp add: known_def)
  note e = end_workflow_ok(1,2) [OF service_okD(4) [OF ok a] n w(2,3,4,1), where t = t and e = e]
    end_workflow_ok(3) [OF service_okD(4) [OF ok a] n w(2,3,4,1)]
  from k n have ra: "registered (workflow_id (wf_info (wf a s))) a s" by (simp add: known_def)
  with registryD(3) [OF ok] n show act: "wf_active s = Some (workflow_id (wf_info (wf a s)))" by blast
  have wa: "wf b s1 = (if b = a then ?w else wf b s)" for b using a by (simp add: s1_def)
  have others: "final (wf_status (wf b s))" if "registered j b s" "b \<noteq> a" for j b
  proof (rule ccontr)
    assume "\<not> final (wf_status (wf b s))"
    with registryD(3) [OF ok that(1)] act have "j = workflow_id (wf_info (wf a s))" by simp
    with registered_unique [OF ok that(1)] ra that(2) show False by blast
  qed
  have "registry_ok s1"
    using service_okD(1) [OF ok] registryD [OF ok] others e(3) a
    by (auto simp: registry_ok_def wa) (simp_all add: s1_def)
  moreover have m: "wmove i (wf b s) (wf b s1)" for b using e(2) by (simp add: wa)
  have len: "length (wf_heap s1) = length (wf_heap s)" "session_part s1 = session_part s"
    "spawned_tasks s1 = spawned_tasks s" "registered j b s1 = registered j b s" for j b by (simp_all add: s1_def)
  have wk: "worker_ok r s1" if "worker_ok r s" for r
    by (rule worker_ok_wmove [OF that m]) (simp_all add: len)
  have "session_shape (session_part s) ?w"
    unfolding session_shape_def using d by (auto simp: sealed_def)
  ultimately show "service_ok cfg s1" using service_okD [OF ok] e(1) wk unfolding service_ok_def by (simp add: wa len)
  show "guar i s s1" using guar_upd [of a s i "end_workflow t next e full"] e(2) by (simp add: guar_def s1_def)
qed

lemma terminate_ok:
  assumes ok: "service_ok cfg s" and k: "known a s" and w: "writer (wf a s) = Some i" "may_end next (wf a s)"
    and d: "\<And>sid. next \<noteq> WfCompleted \<Longrightarrow> wi_session (wf_info (wf a s)) = Some sid \<Longrightarrow> sealed sid (session_part s)"
    and t: "terminate cfg a next e full s = (b, s')"
  shows "service_ok cfg s' \<and> guar i s s' \<and> locks i s' = locks i s \<and> leases i s' = leases i s \<and>
    (b \<longrightarrow> final (wf_status (wf a s'))) \<and> known a s' \<and> (\<not> b \<longrightarrow> s' = s)"
proof -
  let ?w = "wf a s"
  from k have a: "a < length (wf_heap s)" by (simp add: known_def)
  consider (over) "final (wf_status ?w)" | (no) "s' = s" "\<not> b" "\<not> final (wf_status ?w)"
    | (yes) "\<not> final (wf_status ?w)" "next = WfCompleted \<Longrightarrow> wf_status ?w = WfPulling" "invalidate_project ?w \<Longrightarrow> full"
    using t by (auto simp: terminate_def Let_def split: if_splits)
  then show ?thesis
  proof cases
    case over
    then have "s' = s" using t by (simp add: terminate_def)
    with over ok k show ?thesis by simp
  next
    case no
    with ok k show ?thesis by simp
  next
    case yes
    let ?s = "(upd_wf a (end_workflow (instant_of s) next e full) s)\<lparr>wf_active := None\<rparr>"
    have d': "sealed sid (session_part s)" if "wi_session (wf_info ?w) = Some sid" for sid
      using d [OF _ that] service_okD(5) [OF ok a] yes(2) that by (auto simp: session_shape_def)
    note e = end_slot_ok(1,2) [OF ok k yes(1) w(1,2) yes(2,3) d', where t = "instant_of s" and e = e]
      end_slot_ok(3) [OF ok k yes(1) w(1,2) yes(2,3) d']
    obtain m where m: "s' = ?s\<lparr>session_part := m\<rparr>" "b" "m = session_part s \<or> mstep (wc_session cfg) (session_part s) m"
    proof (cases "wi_session (wf_info ?w)")
      case None
      show thesis
        by (rule that [of "session_part s"])
           (use t yes None e(3) in \<open>auto simp: terminate_def Let_def release_of_def split: if_splits\<close>)
    next
      case (Some sid)
      show thesis
        by (rule that [of "snd (release_session (wc_session cfg) sid (session_part s))"])
           (use t yes Some e(3) in \<open>auto simp: terminate_def Let_def release_of_def on_sessions_def case_prod_unfold
              intro: step_release split: if_splits\<close>)
    qed
    have o: "service_ok cfg s' \<and> guar i s s'"
      using m(3)
    proof
      assume "m = session_part s"
      then have "s' = ?s" using m(1) by simp
      with e show ?thesis by simp
    next
      assume "mstep (wc_session cfg) (session_part s) m"
      then have "mstep (wc_session cfg) (session_part ?s) m" by simp
      from session_step_ok [OF e(1) this] e(2) show ?thesis by (simp add: m(1) guar_def)
    qed
    moreover have "final next" using end_workflow_ok(3) [OF service_okD(4) [OF ok a] yes(1) w(2) yes(2,3) w(1)] .
    moreover have "known a s'" using \<open>final next\<close> a by (simp add: m(1) known_def)
    ultimately show ?thesis using m a by (simp add: locks_upd leases_upd)
  qed
qed

section \<open>The registry\<close>

lemma known_length: "known a s \<Longrightarrow> a < length (wf_heap s)"
  by (simp add: known_def)

lemma entries_ok:
  assumes ok: "service_ok cfg s" and d: "distinct (map fst es)" "set es \<subseteq> set (wf_entries s)"
    and keep: "\<And>k a. registered k a s \<Longrightarrow> \<not> final (wf_status (wf a s)) \<Longrightarrow> (k, a) \<in> set es"
  shows "service_ok cfg (s\<lparr>wf_entries := es\<rparr>) \<and> guar i s (s\<lparr>wf_entries := es\<rparr>)"
proof -
  let ?s = "s\<lparr>wf_entries := es\<rparr>"
  have r: "registered k a s" if "registered k a ?s" for k a using that d(2) by (auto simp: registered_def)
  have l: "registered k a ?s" if "registered k a s" "\<not> final (wf_status (wf a s))" for k a
    using keep [OF that] by (simp add: registered_def)
  have "registry_ok ?s"
    using service_okD(1) [OF ok] r l d(1) unfolding registry_ok_def by simp blast
  moreover have "worker_ok t ?s" if "worker_ok t s" for t
    by (rule worker_ok_wmove [OF that, where i = i]) (use l in simp_all)
  ultimately show ?thesis using ok l by (simp add: service_ok_def guar_def)
qed

interpretation workflow_registry: retention_policy "\<lambda>a. wf_ended (wf a s)" "max_retained_workflows c"
    "prune_entries (\<lambda>a. wf_ended (wf a s)) (max_retained_workflows c) (workflow_retention c)" for s c
  by (rule prune_entries_policy)

lemma prune_ok: "service_ok cfg s \<Longrightarrow> service_ok cfg (prune_workflows c s) \<and> guar i s (prune_workflows c s)"
proof -
  assume ok: "service_ok cfg s"
  let ?p = "prune_entries (\<lambda>a. wf_ended (wf a s)) (max_retained_workflows (wc_session c))
        (workflow_retention (wc_session c)) (instant_of s) (wf_entries s)"
  have d: "distinct (map fst (wf_entries s))" using service_okD(1) [OF ok] by (simp add: registry_ok_def)
  have "(k, a) \<in> set ?p" if "registered k a s" "\<not> final (wf_status (wf a s))" for k a
    using service_okD(4) [OF ok registryD(1) [OF ok that(1)]] that
    by (intro workflow_registry.live_kept [OF d]) (auto simp: registered_def wf_ok_defs)
  from entries_ok [OF ok workflow_registry.keys_distinct [OF d] workflow_registry.nothing_new this] show ?thesis
    by (simp add: prune_workflows_def)
qed

lemma find_known: "service_ok cfg s \<Longrightarrow> find_workflow i s = Inr a \<Longrightarrow> known a s"
  by (rule registryD(4)) (auto simp: find_workflow_def ok_or_def registered_def split: option.splits dest: map_of_SomeD)

lemma heartbeat_ok:
  assumes ok: "service_ok cfg s" and h: "heartbeat_of i s = (r, s')"
  shows "service_ok cfg s' \<and> guar j s s'"
proof (cases "wf_stopping s")
  case False
  show ?thesis
  proof (cases "find_workflow i s")
    case (Inr a)
    note q = quiet_upd [OF ok known_length [OF find_known [OF ok Inr]], where f = "beat (instant_of s)" and i = j]
    show ?thesis
    proof (cases "final (wf_status (wf a s)) \<or> wf_status (wf a s) = WfStopping")
      case True
      then have "s' = s" using h False Inr by (auto simp: heartbeat_of_def)
      with ok show ?thesis by simp
    next
      case no: False
      then have "s' = upd_wf a (beat (instant_of s)) s" using h False Inr by (simp add: heartbeat_of_def Let_def)
      with q no show ?thesis by simp
    qed
  qed (use h ok False in \<open>simp add: heartbeat_of_def\<close>)
qed (use h ok in \<open>simp add: heartbeat_of_def\<close>)

lemma registry_cong:
  assumes ok: "service_ok cfg s" and e: "wf_entries s' = wf_entries s" "wf_active s' = wf_active s"
    and l: "length (wf_heap s) \<le> length (wf_heap s')"
    and w: "\<And>b. b < length (wf_heap s) \<Longrightarrow> wf_info (wf b s') = wf_info (wf b s)"
  shows "registry_ok s'"
proof -
  have reg: "registered k b s' = registered k b s" for k b by (simp add: registered_def e)
  have i: "wf_info (wf b s') = wf_info (wf b s)" if "registered k b s" for k b
    using w [OF registryD(1) [OF ok that]] .
  show ?thesis
    unfolding registry_ok_def reg e
  proof (intro conjI allI impI)
    show "distinct (map fst (wf_entries s))" using service_okD(1) [OF ok] by (simp add: registry_ok_def)
  next
    fix k b assume r: "registered k b s"
    show "b < length (wf_heap s')" using registryD(1) [OF ok r] l by simp
    show "workflow_id (wf_info (wf b s')) = k" using registryD(2) [OF ok r] i [OF r] by simp
    show "final (wf_status (wf b s')) \<or> wf_active s = Some k" using registryD(3) [OF ok r] i [OF r] by simp
  next
    fix k assume "wf_active s = Some k"
    then obtain a where "registered k a s" "\<not> final (wf_status (wf a s))"
      using service_okD(1) [OF ok] unfolding registry_ok_def by blast
    then show "\<exists>a. registered k a s \<and> \<not> final (wf_status (wf a s'))" using i by auto
  qed
qed

lemma alloc_fields [simp]:
  "length (wf_heap (snd (alloc me i req s))) = Suc (length (wf_heap s))"
  "session_part (snd (alloc me i req s)) = session_part s" "spawned_tasks (snd (alloc me i req s)) = spawned_tasks s"
  "registered k b (snd (alloc me i req s)) = registered k b s" "wf_active (snd (alloc me i req s)) = wf_active s"
  "wf_entries (snd (alloc me i req s)) = wf_entries s" "fst (alloc me i req s) = length (wf_heap s)"
  by (simp_all add: alloc_def registered_def)

lemma wf_alloc: "b \<le> length (wf_heap s) \<Longrightarrow> wf b (snd (alloc me i req s)) =
    (if b = length (wf_heap s) then take_lock me (new_workflow i req (instant_of s)) else wf b s)"
  by (auto simp: alloc_def wf_def nth_append)

lemma new_workflow_ok:
  "wf_ok (take_lock me (new_workflow i req t))" "session_shape m (take_lock me (new_workflow i req t))"
  by (simp_all add: wf_ok_defs session_shape_def take_lock_def new_workflow_def external_reason_def)

lemma alloc_ok:
  assumes ok: "service_ok cfg s"
  shows "service_ok cfg (snd (alloc me i req s)) \<and> guar me s (snd (alloc me i req s)) \<and>
    locks me (snd (alloc me i req s)) = insert (length (wf_heap s)) (locks me s) \<and>
    leases me (snd (alloc me i req s)) = leases me s"
proof -
  let ?s = "snd (alloc me i req s)"
  have w: "wf b ?s = wf b s" if "b < length (wf_heap s)" for b using that by (simp add: wf_alloc)
  have wk: "worker_ok r ?s" if "worker_ok r s" for r
    by (rule worker_ok_wmove [OF that, where i = me]) (use w in simp_all)
  have "registry_ok ?s" by (rule registry_cong [OF ok]) (use w in simp_all)
  moreover have "wf_ok (wf b ?s) \<and> session_shape (session_part s) (wf b ?s)" if "b < Suc (length (wf_heap s))" for b
    using that service_okD(4,5) [OF ok] new_workflow_ok by (auto simp: less_Suc_eq wf_alloc)
  ultimately have "service_ok cfg ?s" using ok wk by (simp add: service_ok_def)
  moreover have "locks j ?s = (if j = me then insert (length (wf_heap s)) (locks j s) else locks j s)" for j
    by (auto simp: locks_def less_Suc_eq wf_alloc take_lock_def new_workflow_def)
  moreover have "leases j ?s = leases j s" for j
    by (auto simp: leases_def less_Suc_eq wf_alloc take_lock_def new_workflow_def)
  ultimately show ?thesis using w by (simp add: guar_def)
qed

lemma reserve_ok:
  assumes ok: "service_ok cfg s" and a: "a < length (wf_heap s)" "workflow_id (wf_info (wf a s)) = i"
    "\<not> final (wf_status (wf a s))" and r: "reserve i req a s = (r, s')"
  shows "service_ok cfg s' \<and> guar me s s' \<and> locks k s' = locks k s \<and> leases k s' = leases k s \<and>
    wf b s' = wf b s \<and> length (wf_heap s') = length (wf_heap s) \<and>
    (r = Inr None \<longrightarrow> known a s') \<and> (\<forall>b. r = Inr (Some b) \<longrightarrow> known b s')"
proof -
  consider (no) e where "s' = s" "r = Inl e" | (old) b where "map_of (wf_entries s) i = Some b" "s' = s" "r = Inr (Some b)"
    | (new) "map_of (wf_entries s) i = None" "wf_active s = None" "r = Inr None"
      "s' = s\<lparr>wf_active := Some i, wf_entries := (i, a) # wf_entries s\<rparr>"
  proof (cases "wf_stopping s")
    case True
    show thesis by (rule no) (use r True in \<open>auto simp: reserve_def\<close>)
  next
    case False
    show thesis
    proof (cases "map_of (wf_entries s) i")
      case None
      show thesis
        by (cases "wf_active s") (use r False None in \<open>auto simp: reserve_def intro: no new\<close>)
    next
      case (Some b)
      show thesis
        by (cases "wf_request (wf b s) = req") (use r False Some in \<open>auto simp: reserve_def intro: no old\<close>)
    qed
  qed
  then show ?thesis
  proof cases
    case (old b)
    then have "registered i b s" by (auto simp: registered_def dest: map_of_SomeD)
    with ok old registryD(4) show ?thesis by simp
  next
    case new
    have reg: "registered j b s' \<longleftrightarrow> (j = i \<and> b = a) \<or> registered j b s" for j b
      by (simp add: new(4) registered_def)
    have i: "i \<notin> fst ` set (wf_entries s)" using new(1) by (simp add: map_of_eq_None_iff)
    have "wf_active s' = Some i" "\<And>b. wf b s' = wf b s" "length (wf_heap s') = length (wf_heap s)"
      by (simp_all add: new(4) wf_def)
    note eqs = this
    have "registry_ok s'"
      using service_okD(1) [OF ok] new(2) a i unfolding registry_ok_def reg eqs by (auto simp: new(4))
    moreover have "worker_ok t s'" if "worker_ok t s" for t
      by (rule worker_ok_wmove [OF that, where i = me]) (simp_all add: eqs reg)
    ultimately have "service_ok cfg s'" using ok unfolding service_ok_def eqs by (simp add: new(4))
    moreover have "guar me s s'" by (simp add: guar_def eqs reg) (simp add: new(4))
    moreover have "known a s'" using a by (simp add: known_def eqs reg)
    ultimately show ?thesis using new(3) eqs by (simp add: new(4))
  qed (use ok in simp)
qed

section \<open>Locks and leases\<close>

definition relocked :: "workflow \<Rightarrow> workflow \<Rightarrow> bool" where
  "relocked w w' \<longleftrightarrow> (\<exists>x ys. w' = w\<lparr>writer := x, readers := ys\<rparr> \<and> (x \<noteq> None \<longrightarrow> ys = []))"

lemma relocked_same: "relocked w w' \<Longrightarrow> wf_info w' = wf_info w"
  by (auto simp: relocked_def)

lemma relocked_ok:
  assumes "relocked w w'" "wf_ok w"
  shows "wf_ok w'" "wmove i w w'" "session_shape m w' = session_shape m w" "final (wf_status w') = final (wf_status w)"
proof -
  from assms(1) obtain x ys where w: "w' = w\<lparr>writer := x, readers := ys\<rparr>" "x \<noteq> None \<longrightarrow> ys = []"
    unfolding relocked_def by blast
  show "wf_ok w'" using assms(2) w(2) by (auto simp: w(1) wf_ok_defs)
  show "wmove i w w'" by (simp add: w(1) wmove_def follows_def identity_of_def)
  show "session_shape m w' = session_shape m w" by (simp add: w(1) session_shape_def)
  show "final (wf_status w') = final (wf_status w)" by (simp add: w(1))
qed

lemma relock_upd:
  assumes ok: "service_ok cfg s" and a: "a < length (wf_heap s)" and r: "relocked (wf a s) (f (wf a s))"
    and o: "\<And>j. j \<noteq> i \<Longrightarrow> (writer (f (wf a s)) = Some j) = (writer (wf a s) = Some j)"
      "\<And>j. j \<noteq> i \<Longrightarrow> (j \<in> set (readers (f (wf a s)))) = (j \<in> set (readers (wf a s)))"
  shows "service_ok cfg (upd_wf a f s) \<and> guar i s (upd_wf a f s)"
proof
  note r = relocked_ok [OF r service_okD(4) [OF ok a]]
  show "service_ok cfg (upd_wf a f s)"
    by (rule service_ok_upd [where f = f and i = i, OF ok a r(1) _ r(2) r(4)]) (simp add: r(3) service_okD(5) [OF ok a])
  show "guar i s (upd_wf a f s)" by (rule guar_upd) (use r(2) o in simp_all)
qed

lemma take_lock_ok:
  assumes ok: "service_ok cfg s" and a: "a < length (wf_heap s)" and l: "lock_free (wf a s)"
  shows "service_ok cfg (upd_wf a (take_lock i) s) \<and> guar i s (upd_wf a (take_lock i) s) \<and>
    locks i (upd_wf a (take_lock i) s) = insert a (locks i s) \<and> leases i (upd_wf a (take_lock i) s) = leases i s"
proof -
  have "relocked (wf a s) (take_lock i (wf a s))" using l
    unfolding relocked_def lock_free_def take_lock_def by (intro exI [of _ "Some i"] exI [of _ "[]"]) simp
  from relock_upd [where f = "take_lock i", OF ok a this, where i = i] l a show ?thesis
    by (auto simp: take_lock_def lock_free_def locks_def leases_def)
qed

lemma drop_lock_ok:
  assumes ok: "service_ok cfg s" and l: "a \<in> locks i s"
  shows "service_ok cfg (upd_wf a drop_lock s) \<and> guar i s (upd_wf a drop_lock s) \<and>
    locks i (upd_wf a drop_lock s) = locks i s - {a} \<and> leases i (upd_wf a drop_lock s) = leases i s"
proof -
  from l have a: "a < length (wf_heap s)" "writer (wf a s) = Some i" by (simp_all add: locks_def)
  have "relocked (wf a s) (drop_lock (wf a s))"
    unfolding relocked_def drop_lock_def by (intro exI [of _ None] exI [of _ "readers (wf a s)"]) simp
  from relock_upd [where f = drop_lock, OF ok a(1) this, where i = i] a show ?thesis
    by (auto simp: drop_lock_def locks_def leases_def)
qed

lemma enter_lease_ok:
  assumes ok: "service_ok cfg s" and a: "known a s" and e: "enter_lease i allowed seen a s = Some (r, s')"
  shows "service_ok cfg s' \<and> guar i s s' \<and> locks i s' = locks i s \<and> known a s' \<and>
    leases i s' = (case r of Inl _ \<Rightarrow> leases i s | Inr b \<Rightarrow> insert a (leases i s)) \<and> (\<forall>b. r = Inr b \<longrightarrow> b = a)"
proof -
  let ?f = "\<lambda>w. w\<lparr>readers := i # readers w\<rparr>"
  have "s' = s \<and> (\<exists>e. r = Inl e) \<or> r = Inr a \<and> writer (wf a s) = None \<and> s' = upd_wf a ?f s"
    using e by (cases "writer (wf a s)"; cases "cancelled (wf a s)") (auto simp: enter_lease_def Let_def split: if_splits)
  then show ?thesis
  proof
    assume 2: "r = Inr a \<and> writer (wf a s) = None \<and> s' = upd_wf a ?f s"
    note a' = known_length [OF a]
    have "relocked (wf a s) (?f (wf a s))"
      unfolding relocked_def using 2 by (intro exI [of _ None] exI [of _ "i # readers (wf a s)"]) simp
    from relock_upd [where f = ?f, OF ok a' this, where i = i] a a' 2 show ?thesis
      by (auto simp: locks_def leases_def known_def)
  qed (use ok a in auto)
qed

lemma drop_lease_ok:
  assumes ok: "service_ok cfg s" and a: "a < length (wf_heap s)"
  shows "service_ok cfg (upd_wf a (drop_lease i) s) \<and> guar i s (upd_wf a (drop_lease i) s) \<and>
    locks i (upd_wf a (drop_lease i) s) = locks i s \<and> leases i (upd_wf a (drop_lease i) s) = leases i s - {a}"
proof -
  have "relocked (wf a s) (drop_lease i (wf a s))"
    unfolding relocked_def drop_lease_def using service_okD(4) [OF ok a]
    by (intro exI [of _ "writer (wf a s)"] exI [of _ "removeAll i (readers (wf a s))"]) (simp add: wf_ok_def)
  from relock_upd [where f = "drop_lease i", OF ok a this, where i = i] a show ?thesis
    by (auto simp: drop_lease_def locks_def leases_def)
qed

definition unwound :: "nat \<Rightarrow> workflow \<Rightarrow> workflow" where
  "unwound i w = (let w = drop_lease i w in if writer w = Some i then drop_lock w else w)"

lemma wf_unwind: "b < length (wf_heap s) \<Longrightarrow> wf b (unwind i s) = unwound i (wf b s)"
  by (simp add: unwind_def wf_def unwound_def)

lemma unwound_fields [simp]:
  "writer (unwound i w) = (if writer w = Some i then None else writer w)" "readers (unwound i w) = removeAll i (readers w)"
  by (simp_all add: unwound_def drop_lease_def drop_lock_def Let_def)

lemma unwound_relocked: "wf_ok w \<Longrightarrow> relocked w (unwound i w)"
  unfolding relocked_def
  by (intro exI [of _ "writer (unwound i w)"] exI [of _ "readers (unwound i w)"])
     (auto simp: unwound_def drop_lease_def drop_lock_def Let_def wf_ok_def)

lemma unwind_ok:
  assumes ok: "service_ok cfg s"
  shows "service_ok cfg (unwind i s) \<and> guar i s (unwind i s) \<and> locks i (unwind i s) = {} \<and> leases i (unwind i s) = {}"
proof -
  let ?s = "unwind i s"
  note w = wf_unwind [of _ s i]
  have fields: "length (wf_heap ?s) = length (wf_heap s)" "session_part ?s = session_part s" "wf_active ?s = wf_active s"
    "wf_entries ?s = wf_entries s" "spawned_tasks ?s = spawned_tasks s" "\<And>k b. registered k b ?s = registered k b s"
    by (simp_all add: unwind_def registered_def)
  have rel: "relocked (wf b s) (wf b ?s)" if "b < length (wf_heap s)" for b
    using unwound_relocked [OF service_okD(4) [OF ok that]] w [OF that] by simp
  note r = relocked_ok [OF rel service_okD(4) [OF ok]]
  have "registry_ok ?s" by (rule registry_cong [OF ok]) (use relocked_same [OF rel] in \<open>simp_all add: fields\<close>)
  moreover have "worker_ok t ?s" if "worker_ok t s" for t
    by (rule worker_ok_wmove [OF that, where i = i]) (use r(2) in \<open>simp_all add: fields\<close>)
  ultimately have "service_ok cfg ?s"
    using ok r(1,3) unfolding service_ok_def fields by simp
  moreover have "guar i s ?s" using r(2) unfolding guar_def fields locks_def leases_def by (auto simp: w split: if_splits)
  ultimately show ?thesis by (auto simp: locks_def leases_def w fields)
qed

end
