(* ===== verification/Workflow_Safe.thy ===== *)
theory Workflow_Safe
  imports Workflow_Sections
begin

text \<open>
  Every handler of the workflow service is safe for any interleaving: under the guarantees of the other
  tasks it keeps the invariant, respects its own guarantee, and gives back the lock and the lease it took.
\<close>

section \<open>Assertions\<close>

definition free :: "nat \<Rightarrow> service \<Rightarrow> bool" where
  "free me s \<longleftrightarrow> locks me s = {} \<and> leases me s = {}"

definition holds :: "nat \<Rightarrow> nat \<Rightarrow> service \<Rightarrow> bool" where
  "holds me a s \<longleftrightarrow> known a s \<and> locks me s = {a} \<and> leases me s = {}"

definition leased :: "nat \<Rightarrow> nat \<Rightarrow> service \<Rightarrow> bool" where
  "leased me a s \<longleftrightarrow> known a s \<and> locks me s = {} \<and> leases me s = {a}"

text \<open>The holder of the lock found the workflow in preparation: since then it can only have been stopped.\<close>

definition in_status :: "nat \<Rightarrow> (workflow_status \<Rightarrow> nat option \<Rightarrow> bool) \<Rightarrow> service \<Rightarrow> bool" where
  "in_status a R s \<longleftrightarrow> R (wf_status (wf a s)) (wi_session (wf_info (wf a s)))"

definition closed_under_stop :: "(workflow_status \<Rightarrow> nat option \<Rightarrow> bool) \<Rightarrow> bool" where
  "closed_under_stop R \<longleftrightarrow> (\<forall>p x. R p x \<longrightarrow> \<not> final p \<longrightarrow> R WfStopping x)"

definition preparing :: "workflow_status \<Rightarrow> nat option \<Rightarrow> bool" where
  "preparing p x \<longleftrightarrow> p \<in> {WfPreparing, WfStopping} \<and> x = None"

definition unended :: "workflow_status \<Rightarrow> nat option \<Rightarrow> bool" where
  "unended p x \<longleftrightarrow> \<not> final p"

definition with_session :: "nat \<Rightarrow> workflow_status \<Rightarrow> nat option \<Rightarrow> bool" where
  "with_session sid p x \<longleftrightarrow> x = Some sid"

definition hold :: "nat \<Rightarrow> nat \<Rightarrow> (workflow_status \<Rightarrow> nat option \<Rightarrow> bool) \<Rightarrow> service \<Rightarrow> bool" where
  "hold me a R s \<longleftrightarrow> holds me a s \<and> in_status a R s"

lemma closed_under_stop [simp]:
  "closed_under_stop preparing" "closed_under_stop unended" "closed_under_stop (with_session sid)"
  by (simp_all add: closed_under_stop_def preparing_def unended_def with_session_def)

lemma hold_unended: "hold me a preparing s \<Longrightarrow> hold me a unended s"
  by (auto simp: hold_def in_status_def preparing_def unended_def)

section \<open>Stability\<close>

lemma guar_others:
  assumes "guar j s t" "j \<noteq> i"
  shows "locks i t = locks i s" "leases i t = leases i s"
  using assms by (simp_all add: guar_def)

lemma guar_known: "guar j s t \<Longrightarrow> known a s \<Longrightarrow> known a t"
  by (frule known_length, erule known_wmove [where i = j]) (auto simp: guar_def)

lemma guar_status:
  assumes "guar j s t" "j \<noteq> i" "a \<in> locks i s"
  shows "wf_status (wf a t) = wf_status (wf a s) \<or> \<not> final (wf_status (wf a s)) \<and> wf_status (wf a t) = WfStopping"
    "wi_session (wf_info (wf a t)) = wi_session (wf_info (wf a s))"
proof -
  from assms(3) have a: "a < length (wf_heap s)" "writer (wf a s) = Some i" by (simp_all add: locks_def)
  with assms(1) have m: "wmove j (wf a s) (wf a t)" by (simp add: guar_def)
  have "writer (wf a s) \<noteq> Some j" using a assms(2) by simp
  from wmoveD(6,7) [OF m this]
  show "wf_status (wf a t) = wf_status (wf a s) \<or> \<not> final (wf_status (wf a s)) \<and> wf_status (wf a t) = WfStopping"
    "wi_session (wf_info (wf a t)) = wi_session (wf_info (wf a s))" by blast+
qed

lemma stableI:
  "(\<And>j s t. j \<noteq> i \<Longrightarrow> guar j s t \<Longrightarrow> P s \<Longrightarrow> P t) \<Longrightarrow> svc.stable cfg i P"
  unfolding svc.stable_def by blast

lemma stable_free [simp]: "svc.stable cfg i (free i)"
  by (rule stableI) (simp add: free_def guar_others)

lemma stable_known [simp]: "svc.stable cfg i (known a)"
  by (rule stableI) (rule guar_known)

lemma stable_holds [simp]: "svc.stable cfg i (holds i a)"
  by (rule stableI) (auto simp: holds_def guar_others dest: guar_known)

lemma stable_leased [simp]: "svc.stable cfg i (leased i a)"
  by (rule stableI) (auto simp: leased_def guar_others dest: guar_known)

lemma stable_hold [simp]:
  assumes "closed_under_stop R" shows "svc.stable cfg i (hold i a R)"
proof (rule stableI)
  fix j s t assume g: "j \<noteq> i" "guar j s t" "hold i a R s"
  then have "a \<in> locks i s" by (simp add: hold_def holds_def)
  note st = guar_status [OF g(2,1) this]
  have "holds i a t" using g svc.stable_across [OF stable_holds] stable_holds
    by (auto simp: hold_def holds_def guar_others dest: guar_known)
  moreover have "in_status a R t"
    using st assms g(3) unfolding hold_def in_status_def closed_under_stop_def by metis
  ultimately show "hold i a R t" by (simp add: hold_def)
qed

lemma stable_sealed [simp]: "svc.stable cfg i (\<lambda>s. sealed sid (session_part s))"
  by (rule stableI) (auto simp: guar_def intro: continues_sealed)

lemma stable_issued [simp]: "svc.stable cfg i (\<lambda>s. sid < next_uuid (session_part s))"
  by (rule stableI) (auto simp: guar_def intro: continues_issued)

lemma stable_session [simp]: "svc.stable cfg i (\<lambda>s. known a s \<and> wi_session (wf_info (wf a s)) = Some sid)"
proof (rule stableI)
  fix j s t assume g: "guar j s t" and k: "known a s \<and> wi_session (wf_info (wf a s)) = Some sid"
  then have "wmove j (wf a s) (wf a t)" using known_length by (simp add: guar_def)
  from wmoveD(5) [OF this] guar_known [OF g] k show "known a t \<and> wi_session (wf_info (wf a t)) = Some sid" by blast
qed

section \<open>Sections that every assertion survives\<close>

text \<open>A gentle step could be the environment's.\<close>

definition gentle :: "workflow_config \<Rightarrow> service \<Rightarrow> service \<Rightarrow> bool" where
  "gentle cfg s s' \<longleftrightarrow> service_ok cfg s' \<and> (\<forall>i. guar i s s')"

definition keeps :: "workflow_config \<Rightarrow> nat \<Rightarrow> (service \<Rightarrow> bool) \<Rightarrow> 'a wtask \<Rightarrow> bool" where
  "keeps cfg me P t \<longleftrightarrow> svc.safe cfg me (\<lambda>_. P) P t"

lemma gentle_stable: "gentle cfg s s' \<Longrightarrow> svc.stable cfg i P \<Longrightarrow> service_ok cfg s \<Longrightarrow> P s \<Longrightarrow> P s'"
  using svc.stable_across [of cfg i P "Suc i" s s'] by (simp add: gentle_def)

lemma keeps_waiting:
  assumes "svc.stable cfg me P" "\<And>s x s'. service_ok cfg s \<Longrightarrow> P s \<Longrightarrow> f s = Some (x, s') \<Longrightarrow> gentle cfg s s'"
  shows "keeps cfg me P (waiting f)"
  unfolding keeps_def
proof (rule svc.safe_waiting)
  fix s x s' assume s: "service_ok cfg s" "P s" "f s = Some (x, s')"
  from assms(2) [OF this] have g: "gentle cfg s s'" .
  with gentle_stable [OF g assms(1) s(1,2)] show "service_ok cfg s' \<and> guar me s s' \<and> P s'" by (simp add: gentle_def)
qed (rule assms(1))

lemma keeps_atomic:
  assumes "svc.stable cfg me P" "\<And>s x s'. service_ok cfg s \<Longrightarrow> P s \<Longrightarrow> f s = (x, s') \<Longrightarrow> gentle cfg s s'"
  shows "keeps cfg me P (atomic f)"
  unfolding atomic_def using assms by (intro keeps_waiting) auto

lemma keeps_update:
  assumes "svc.stable cfg me P" "\<And>s. service_ok cfg s \<Longrightarrow> P s \<Longrightarrow> gentle cfg s (f s)"
  shows "keeps cfg me P (update f)"
  unfolding update_def using assms by (intro keeps_atomic) auto

lemma gentle_refl [simp]: "gentle cfg s s = service_ok cfg s"
  by (simp add: gentle_def)

lemma keeps_reading [intro]: "svc.stable cfg me P \<Longrightarrow> keeps cfg me P (reading f)"
  unfolding reading_def by (intro keeps_atomic) auto

lemma keeps_Ret [intro]: "keeps cfg me P (Ret x)"
  unfolding keeps_def by (rule svc.safe_ret)

lemma keeps_bind: "keeps cfg me P t \<Longrightarrow> (\<And>x. keeps cfg me P (f x)) \<Longrightarrow> keeps cfg me P (bindT t f)"
  unfolding keeps_def by (rule svc.safe_bind)

lemma keeps_bindR: "keeps cfg me P t \<Longrightarrow> (\<And>x. keeps cfg me P (f x)) \<Longrightarrow> keeps cfg me P (bindR t f)"
  unfolding bindR_def by (intro keeps_bind) (auto split: sum.splits)

lemma keeps_sync [intro]: "svc.stable cfg me P \<Longrightarrow> keeps cfg me P (atomic (on_sync f))"
  by (rule keeps_atomic) (auto simp: gentle_def dest: on_sync_ok)

lemma keeps_project [intro]: "svc.stable cfg me P \<Longrightarrow> keeps cfg me P (on_project cfg' f)"
  unfolding on_project_def by (rule keeps_sync)

lemma keeps_marked [intro]: "svc.stable cfg me P \<Longrightarrow> keeps cfg me P (marked cfg' b p)"
  unfolding marked_def by (rule keeps_project)

lemma keeps_sync_wait [intro]: "svc.stable cfg me P \<Longrightarrow> keeps cfg me P (waiting (sync_wait f))"
  by (rule keeps_waiting) (auto simp: gentle_def dest: sync_wait_ok)

lemma keeps_snapshot [intro]: "svc.stable cfg me P \<Longrightarrow> keeps cfg me P (snapshot a)"
  unfolding snapshot_def by (rule keeps_reading)

lemma keeps_checked [intro]: "svc.stable cfg me P \<Longrightarrow> keeps cfg me P (checked a f)"
  unfolding checked_def by (rule keeps_reading)

lemma gentle_session:
  "service_ok cfg s \<Longrightarrow> mstep (wc_session cfg) (session_part s) m \<Longrightarrow> gentle cfg s (s\<lparr>session_part := m\<rparr>)"
  unfolding gentle_def using session_step_ok by blast

lemma keeps_sessions:
  assumes "svc.stable cfg me P" "\<And>m. mstep (wc_session cfg) m (snd (f m))"
  shows "keeps cfg me P (atomic (on_sessions f))"
proof (rule keeps_atomic [OF assms(1)])
  fix s x s' assume "service_ok cfg s" "on_sessions f s = (x, s')"
  then show "gentle cfg s s'"
    using gentle_session [OF _ assms(2)] by (simp add: on_sessions_def case_prod_unfold) (metis snd_conv)
qed

lemma gentle_request: "service_ok cfg s \<Longrightarrow> known a s \<Longrightarrow> external_reason why \<Longrightarrow>
    gentle cfg s (request_cleanup a why target e spoil s)"
  unfolding gentle_def using request_cleanup_ok by blast

lemma gentle_fail: "service_ok cfg s \<Longrightarrow> known a s \<Longrightarrow> gentle cfg s (fail a e spoil s)"
  unfolding gentle_def using fail_ok by blast

lemma gentle_quiet:
  assumes "service_ok cfg s" "known a s" "core (f (wf a s)) = core (wf a s)" "\<not> final (wf_status (wf a s))"
    "cleanup_due (wf_info (wf a s)) \<Longrightarrow> cleanup_due (wf_info (f (wf a s)))"
  shows "gentle cfg s (upd_wf a f s)"
  unfolding gentle_def using quiet_upd [where f = f, OF assms(1) known_length [OF assms(2)] assms(3-)] by blast

lemma keeps_fail:
  assumes "svc.stable cfg me P" "\<And>s. P s \<Longrightarrow> known a s" shows "keeps cfg me P (update (fail a e spoil))"
  by (rule keeps_update [OF assms(1) gentle_fail]) (use assms(2) in auto)

lemma keeps_failing:
  assumes "svc.stable cfg me P" "\<And>s. P s \<Longrightarrow> known a s" shows "keeps cfg me P (failing a e spoil)"
  unfolding failing_def by (intro keeps_bind keeps_fail assms keeps_Ret)

lemma keeps_quiet:
  assumes "svc.stable cfg me P" "\<And>s. P s \<Longrightarrow> hold me a unended s" "\<And>w. core (f w) = core w"
    "\<And>w. cleanup_due (wf_info w) \<Longrightarrow> cleanup_due (wf_info (f w))"
  shows "keeps cfg me P (update (upd_wf a f))"
  by (rule keeps_update [OF assms(1) gentle_quiet])
     (use assms(2-) in \<open>auto simp: hold_def holds_def in_status_def unended_def\<close>)

end
