(* ===== verification/Workflow_Tasks.thy ===== *)
theory Workflow_Tasks
  imports Workflow_Safe
begin

text \<open>The handlers and workers of the workflow service, one by one.\<close>

abbreviation safe_task :: "workflow_config \<Rightarrow> nat \<Rightarrow> ('a \<Rightarrow> service \<Rightarrow> bool) \<Rightarrow> (service \<Rightarrow> bool) \<Rightarrow> 'a wtask \<Rightarrow> bool" where
  "safe_task cfg \<equiv> svc.safe cfg"

section \<open>Lock, lease and phase\<close>

lemma keeps_safe: "keeps cfg me P t \<Longrightarrow> (\<And>s. R s \<Longrightarrow> P s) \<Longrightarrow> (\<And>s. P s \<Longrightarrow> Q s) \<Longrightarrow> safe_task cfg me (\<lambda>_. Q) R t"
  unfolding keeps_def by (rule svc.safe_pre [OF svc.safe_post])

lemma keepsI: "safe_task cfg me (\<lambda>_. P) P t \<Longrightarrow> keeps cfg me P t"
  by (simp add: keeps_def)

definition owns :: "nat \<Rightarrow> nat \<Rightarrow> service \<Rightarrow> bool" where
  "owns me a s \<longleftrightarrow> locks me s = {a} \<and> leases me s = {}"

definition aware :: "nat \<Rightarrow> nat \<Rightarrow> service \<Rightarrow> bool" where
  "aware me a s \<longleftrightarrow> free me s \<and> known a s"

lemma stable_aware [simp]: "svc.stable cfg i (aware i a)"
  unfolding aware_def by (rule svc.stable_conj) simp_all

lemma stable_owns [simp]: "svc.stable cfg i (owns i a)"
  by (rule stableI) (simp add: owns_def guar_others)

lemma holds_owns: "holds me a s \<Longrightarrow> owns me a s"
  by (simp add: holds_def owns_def)

lemma hold_holds: "hold me a R s \<Longrightarrow> holds me a s"
  by (simp add: hold_def)

lemma hold_known: "hold me a R s \<Longrightarrow> known a s"
  by (simp add: hold_def holds_def)

lemma holds_known: "holds me a s \<Longrightarrow> known a s"
  by (simp add: holds_def)

lemma safe_unlock: "safe_task cfg me (\<lambda>_. free me) (owns me a) (unlock a)"
  unfolding unlock_def
proof (rule svc.safe_update)
  fix s assume "service_ok cfg s" "owns me a s"
  with drop_lock_ok [where a = a and i = me and s = s and cfg = cfg]
  show "service_ok cfg (upd_wf a drop_lock s) \<and> guar me s (upd_wf a drop_lock s) \<and> free me (upd_wf a drop_lock s)"
    by (simp add: owns_def free_def)
qed simp

lemma safe_holding:
  assumes "safe_task cfg me R P t" "\<And>r s. R r s \<Longrightarrow> owns me a s"
  shows "safe_task cfg me (\<lambda>_. free me) P (holding a t)"
  unfolding holding_def
  by (rule svc.safe_bind [OF svc.safe_post [OF assms(1), of "\<lambda>_. owns me a"]])
     (auto intro!: assms(2) svc.safe_bind [OF safe_unlock] svc.safe_ret)

text \<open>Taking the lock, with anything the task knew before.\<close>

lemma acquired:
  assumes ok: "service_ok cfg s" and f: "aware me a s" and l: "lock_free (wf a s)"
  shows "service_ok cfg (upd_wf a (take_lock me) s) \<and> guar me s (upd_wf a (take_lock me) s) \<and>
    holds me a (upd_wf a (take_lock me) s)"
proof -
  from f have a: "a < length (wf_heap s)" by (simp add: aware_def known_def)
  from take_lock_ok [OF ok a l, of me] f show ?thesis
    by (auto simp: aware_def free_def holds_def intro: guar_known)
qed

lemma in_status_take [simp]: "in_status b R (upd_wf a (take_lock me) s) = in_status b R s"
  by (simp add: in_status_def take_lock_def)

lemma safe_acquire:
  assumes "svc.stable cfg me P" "\<And>s. P s \<Longrightarrow> P (upd_wf a (take_lock me) s)"
  shows "safe_task cfg me (\<lambda>_ s. holds me a s \<and> P s) (\<lambda>s. aware me a s \<and> P s) (acquire me a)"
  unfolding acquire_def
proof (rule svc.safe_waiting)
  fix s x s'
  assume s: "service_ok cfg s" "aware me a s \<and> P s"
    "(if lock_free (wf a s) then Some ((), upd_wf a (take_lock me) s) else None) = Some (x, s')"
  then have l: "lock_free (wf a s)" "s' = upd_wf a (take_lock me) s" by (auto split: if_splits)
  from acquired [OF s(1) conjunct1 [OF s(2)] l(1)] assms(2) s(2)
  show "service_ok cfg s' \<and> guar me s s' \<and> holds me a s' \<and> P s'" by (simp add: l(2))
qed (intro svc.stable_conj stable_holds assms(1))

lemma safe_locked:
  assumes "safe_task cfg me R (holds me a) t" "\<And>r s. R r s \<Longrightarrow> owns me a s"
  shows "safe_task cfg me (\<lambda>_. free me) (aware me a) (locked me a t)"
  unfolding locked_def
proof (rule svc.safe_bind)
  show "safe_task cfg me (\<lambda>_ s. holds me a s \<and> True) (aware me a) (acquire me a)"
    by (rule svc.safe_pre [OF safe_acquire]) simp_all
  show "safe_task cfg me (\<lambda>_. free me) (\<lambda>s. holds me a s \<and> True) (holding a t)"
    using safe_holding [OF assms] by simp
qed

lemma safe_find:
  assumes "\<And>a. safe_task cfg me (\<lambda>_. free me) (aware me a) (f a)"
  shows "keeps cfg me (free me) (bindR (reading (find_workflow i)) f)"
proof (rule keepsI, rule svc.safe_bindR)
  let ?Q = "\<lambda>r s. case r of Inl _ \<Rightarrow> free me s | Inr a \<Rightarrow> aware me a s"
  show "safe_task cfg me ?Q (free me) (reading (find_workflow i))"
  proof (rule svc.safe_reading)
    show "svc.stable cfg me (?Q x)" for x by (cases x) simp_all
  qed (auto simp: aware_def split: sum.splits intro: find_known)
qed (use assms in simp_all)

lemma keeps_managed: "keeps cfg me (free me) t \<Longrightarrow> keeps cfg me (free me) (managed h t)"
  by (auto simp: managed_def split: sum.splits intro!: keeps_bindR keeps_reading)

lemma keeps_exclusive:
  assumes "\<And>a. safe_task cfg me (\<lambda>_. holds me a) (holds me a) (f a)"
  shows "keeps cfg me (free me) (exclusive h me i f)"
  unfolding exclusive_def
  by (intro keeps_managed safe_find safe_locked [OF assms] holds_owns)

lemma safe_phase:
  assumes t: "safe_task cfg me (\<lambda>_. holds me a) (hold me a R) t" and R: "closed_under_stop R"
    and p: "\<And>s. service_ok cfg s \<Longrightarrow> known a s \<Longrightarrow> wf_status (wf a s) \<in> set ps \<Longrightarrow> in_status a R s"
  shows "safe_task cfg me (\<lambda>_. holds me a) (holds me a) (bindR (checked a (in_phase ps)) (\<lambda>_. t))"
proof (rule svc.safe_bindR)
  let ?Q = "\<lambda>r s. case r of Inl _ \<Rightarrow> holds me a s | Inr _ \<Rightarrow> hold me a R s"
  show "safe_task cfg me ?Q (holds me a) (checked a (in_phase ps))"
    unfolding checked_def
  proof (rule svc.safe_reading)
    fix s assume s: "service_ok cfg s" "holds me a s"
    then show "?Q (in_phase ps (wf a s)) s"
      using p [OF s(1) holds_known [OF s(2)]] by (auto simp: in_phase_def ensure_def hold_def)
  next
    show "svc.stable cfg me (?Q x)" for x using R by (cases x) simp_all
  qed
qed (use t in simp_all)

lemma preparing_phase:
  "service_ok cfg s \<Longrightarrow> known a s \<Longrightarrow> wf_status (wf a s) \<in> set [WfPreparing] \<Longrightarrow> in_status a preparing s"
  using service_okD(4) [OF _ known_length] by (auto simp: in_status_def preparing_def wf_ok_defs)

lemma safe_preparing:
  "safe_task cfg me (\<lambda>_. holds me a) (hold me a preparing) t \<Longrightarrow>
   safe_task cfg me (\<lambda>_. holds me a) (holds me a) (bindR (checked a (in_phase [WfPreparing])) (\<lambda>_. t))"
  by (rule safe_phase [OF _ closed_under_stop(1) preparing_phase])

lemma keeps_preparing:
  "keeps cfg me (hold me a preparing) t \<Longrightarrow> safe_task cfg me (\<lambda>_. holds me a) (hold me a preparing) t"
  by (erule keeps_safe) (simp_all add: hold_holds)

section \<open>Upload plans\<close>

lemmas keeps_steps = keeps_bind keeps_bindR keeps_Ret keeps_reading keeps_snapshot keeps_checked keeps_sync
  keeps_sync_wait keeps_project keeps_marked

lemma keeps_quiet_prep:
  "(\<And>w. core (f w) = core w) \<Longrightarrow> (\<And>w. cleanup_due (wf_info w) \<Longrightarrow> cleanup_due (wf_info (f w))) \<Longrightarrow>
   keeps cfg me (hold me a preparing) (update (upd_wf a f))"
  by (rule keeps_quiet) (simp_all add: hold_unended)

lemma keeps_refresh: "keeps cfg me (hold me a preparing) (refresh_open_sync c a)"
proof -
  have over: "keeps cfg me (hold me a preparing) (plan_over c project k expired st)" for project k expired st
    unfolding plan_over_def by (auto intro!: keeps_steps split: sum.splits app_error.splits)
  show ?thesis
    unfolding refresh_open_sync_def
    by (auto intro!: keeps_steps over keeps_quiet_prep split: prod.splits option.splits)
qed

lemma keeps_plan_body:
  "safe_task cfg me (\<lambda>_. holds me a) (holds me a) (plan_uploads c a req)"
  unfolding plan_uploads_def
proof (intro safe_preparing keeps_preparing keeps_steps keeps_refresh, simp_all)
  fix plan :: push_response
  show "keeps cfg me (hold me a preparing)
      (update (\<lambda>s. upd_wf a (record_plan (resp_id plan) (clock (sync_part s) + session_ttl (wc_sync c))) s))"
    by (rule keeps_update [OF _ gentle_quiet]) (auto dest: hold_unended simp: hold_def holds_def in_status_def unended_def preparing_def)
qed

lemma keeps_push: "keeps cfg me (free me) (workflow_push_plan c me i req h)"
  unfolding workflow_push_plan_def by (rule keeps_exclusive [OF keeps_plan_body])

lemma keeps_failing_prep: "keeps cfg me (hold me a preparing) (failing a e spoil)"
  by (rule keeps_failing) (auto simp: hold_def holds_def)

lemma keeps_restore: "keeps cfg me (hold me a preparing) (restore_marker c a project b)"
  unfolding restore_marker_def
  by (auto intro!: keeps_steps keeps_failing_prep split: sum.splits)

lemma keeps_commit_failed: "keeps cfg me (hold me a preparing) (commit_failed c a project k b e)"
  unfolding commit_failed_def Let_def
  by (auto intro!: keeps_steps keeps_restore keeps_failing_prep)

lemma keeps_commit_open: "keeps cfg me (hold me a preparing) (commit_open c a project k)"
  unfolding commit_open_def
  by (auto intro!: keeps_steps keeps_commit_failed keeps_quiet_prep keeps_failing_prep split: sum.splits)

lemma keeps_commit: "keeps cfg me (free me) (workflow_commit c me i k h)"
  unfolding workflow_commit_def commit_plan_of_def
  by (rule keeps_exclusive) (auto intro!: safe_preparing keeps_preparing keeps_steps keeps_commit_open)

lemma keeps_abort: "keeps cfg me (free me) (workflow_abort_sync c me i k)"
  unfolding workflow_abort_sync_def abort_plan_def
  by (rule keeps_exclusive) (auto intro!: safe_preparing keeps_preparing keeps_steps keeps_quiet_prep)

section \<open>Creation\<close>

lemma safe_terminate:
  assumes P: "svc.stable cfg me P" "\<And>s. P s \<Longrightarrow> holds me a s" "\<And>s. service_ok cfg s \<Longrightarrow> P s \<Longrightarrow> may_end next (wf a s)"
    and d: "\<And>s sid. service_ok cfg s \<Longrightarrow> P s \<Longrightarrow> next \<noteq> WfCompleted \<Longrightarrow> wi_session (wf_info (wf a s)) = Some sid \<Longrightarrow>
      sealed sid (session_part s)"
  shows "safe_task cfg me (\<lambda>b s. holds me a s \<and> (b \<or> P s)) P (atomic (terminate cfg a next e full))"
proof (rule svc.safe_atomic)
  fix s b s' assume s: "service_ok cfg s" "P s" "terminate cfg a next e full s = (b, s')"
  from P(2) [OF s(2)] have h: "known a s" "locks me s = {a}" "leases me s = {}" by (simp_all add: holds_def)
  then have "writer (wf a s) = Some me" by (auto simp: locks_def)
  from terminate_ok [OF s(1) h(1) this P(3) [OF s(1,2)] d [OF s(1,2)] s(3)] h s(2)
  show "service_ok cfg s' \<and> guar me s s' \<and> holds me a s' \<and> (b \<or> P s')" by (auto simp: holds_def)
next
  show "svc.stable cfg me (\<lambda>s. holds me a s \<and> (x \<or> P s))" for x
    using P(1) by (cases x) (simp_all add: svc.stable_conj)
qed

lemma keeps_inspect: "svc.stable cfg me P \<Longrightarrow> keeps cfg me P (inspect_project c req)"
  unfolding inspect_project_def by (intro keeps_steps) simp_all

lemma safe_initialize: "safe_task cfg me (\<lambda>_. holds me a) (hold me a preparing) (initialize_workflow cfg a req)"
proof -
  have end_it: "safe_task cfg me (\<lambda>_. holds me a) (hold me a preparing)
      (bindT (atomic (terminate cfg a WfFailed (Some e) True)) (\<lambda>_. Ret r))" for e r
    by (rule svc.safe_bind [OF safe_terminate])
       (auto simp: hold_def in_status_def preparing_def may_end_def intro: svc.safe_ret)
  have go_on: "keeps cfg me (hold me a preparing) (bindT (snapshot a) (\<lambda>info. Ret (Inr info)))"
    by (intro keeps_steps) simp_all
  show ?thesis
    unfolding initialize_workflow_def
    by (rule svc.safe_bind [OF keeps_inspect [unfolded keeps_def]],
        simp, rule svc.safe_bind [OF keeps_quiet_prep [unfolded keeps_def]])
       (auto intro: end_it keeps_preparing go_on split: sum.splits)
qed

definition fresh_workflow :: "nat \<Rightarrow> nat \<Rightarrow> nat \<Rightarrow> service \<Rightarrow> bool" where
  "fresh_workflow me i a s \<longleftrightarrow> owns me a s \<and> workflow_id (wf_info (wf a s)) = i \<and> in_status a preparing s"

lemma stable_fresh [simp]: "svc.stable cfg me (fresh_workflow me i a)"
proof (rule stableI)
  fix j s t assume g: "j \<noteq> me" "guar j s t" and f: "fresh_workflow me i a s"
  then have a: "a \<in> locks me s" by (simp add: fresh_workflow_def owns_def)
  note st = guar_status [OF g(2,1) a]
  have "wmove j (wf a s) (wf a t)" using a g(2) by (simp add: guar_def locks_def)
  from wmoveD(3) [OF this] st f g show "fresh_workflow me i a t"
    by (auto simp: fresh_workflow_def owns_def guar_others in_status_def preparing_def)
qed

lemma safe_alloc: "safe_task cfg me (fresh_workflow me i) (free me) (atomic (alloc me i req))"
proof (rule svc.safe_atomic)
  fix s a s' assume s: "service_ok cfg s" "free me s" "alloc me i req s = (a, s')"
  then have a: "a = length (wf_heap s)" "s' = snd (alloc me i req s)" by (simp_all add: alloc_def)
  have "wf a s' = take_lock me (new_workflow i req (instant_of s))" by (simp add: a wf_alloc)
  with alloc_ok [OF s(1), of me i req] s(2) show "service_ok cfg s' \<and> guar me s s' \<and> fresh_workflow me i a s'"
    by (simp add: a fresh_workflow_def owns_def free_def in_status_def preparing_def take_lock_def new_workflow_def)
qed simp

lemma safe_reserve:
  "safe_task cfg me (\<lambda>r s. owns me a s \<and> (r = Inr None \<longrightarrow> hold me a preparing s)) (fresh_workflow me i a)
     (atomic (reserve i req a))"
proof (rule svc.safe_atomic)
  fix s r s' assume s: "service_ok cfg s" "fresh_workflow me i a s" "reserve i req a s = (r, s')"
  then have a: "a < length (wf_heap s)" "workflow_id (wf_info (wf a s)) = i" "\<not> final (wf_status (wf a s))"
    by (auto simp: fresh_workflow_def owns_def locks_def in_status_def preparing_def)
  from reserve_ok [OF s(1) a s(3), of me me a] s(2)
  show "service_ok cfg s' \<and> guar me s s' \<and> owns me a s' \<and> (r = Inr None \<longrightarrow> hold me a preparing s')"
    by (auto simp: fresh_workflow_def owns_def hold_def holds_def in_status_def)
next
  show "svc.stable cfg me (\<lambda>s. owns me a s \<and> (x = Inr None \<longrightarrow> hold me a preparing s))" for x
    by (cases "x = Inr None") (simp_all add: svc.stable_conj)
qed

lemma keeps_wait: "svc.stable cfg me P \<Longrightarrow> keeps cfg me P (wait_initialized b)"
  unfolding wait_initialized_def by (rule keeps_waiting) (auto simp: Let_def split: if_splits)

lemma keeps_create: "keeps cfg me (free me) (workflow_create cfg me i req h)"
proof -
  have rest: "safe_task cfg me (\<lambda>_. free me) (\<lambda>s. owns me a s \<and> (r = Inr None \<longrightarrow> hold me a preparing s))
      (case r of
         Inl e \<Rightarrow> holding a (Ret (Inl e))
       | Inr (Some b) \<Rightarrow> bindT (unlock a) (\<lambda>_. wait_initialized b)
       | Inr None \<Rightarrow> holding a (initialize_workflow cfg a req))" for a r
  proof (cases r)
    case (Inl e)
    have "safe_task cfg me (\<lambda>_. free me) (owns me a) (holding a (Ret (Inl e)))"
      by (rule safe_holding [where R = "\<lambda>_. owns me a"]) (auto intro: svc.safe_ret)
    then show ?thesis using Inl by (auto intro: svc.safe_pre)
  next
    case (Inr x)
    show ?thesis
    proof (cases x)
      case None
      have "safe_task cfg me (\<lambda>_. free me) (hold me a preparing) (holding a (initialize_workflow cfg a req))"
        by (rule safe_holding [OF safe_initialize holds_owns])
      then show ?thesis using Inr None by (auto intro: svc.safe_pre)
    next
      case (Some b)
      have "safe_task cfg me (\<lambda>_. free me) (owns me a) (bindT (unlock a) (\<lambda>_. wait_initialized b))"
        by (rule svc.safe_bind [OF safe_unlock]) (use keeps_wait in \<open>simp add: keeps_def\<close>)
      then show ?thesis using Inr Some by (auto intro: svc.safe_pre)
    qed
  qed
  have body: "keeps cfg me (free me) (bindT (atomic (alloc me i req)) (\<lambda>a. bindT (atomic (reserve i req a)) (\<lambda>r. case r of
         Inl e \<Rightarrow> holding a (Ret (Inl e))
       | Inr (Some b) \<Rightarrow> bindT (unlock a) (\<lambda>_. wait_initialized b)
       | Inr None \<Rightarrow> holding a (initialize_workflow cfg a req))))"
    by (rule keepsI, rule svc.safe_bind [OF safe_alloc], rule svc.safe_bind [OF safe_reserve rest])
  show ?thesis
    unfolding workflow_create_def by (cases "validate_project_name (wr_project req)") (simp_all add: keeps_managed [OF body] keeps_Ret)
qed

section \<open>Leases\<close>

lemma aware_known: "aware me a s \<Longrightarrow> known a s"
  by (simp add: aware_def)

lemma safe_enter:
  "safe_task cfg me (\<lambda>r s. case r of Inl _ \<Rightarrow> free me s | Inr b \<Rightarrow> b = a \<and> leased me a s) (aware me a)
     (waiting (enter_lease me allowed seen a))"
  (is "safe_task cfg me ?Q _ _")
proof (rule svc.safe_waiting)
  fix s r s' assume s: "service_ok cfg s" "aware me a s" "enter_lease me allowed seen a s = Some (r, s')"
  from enter_lease_ok [OF s(1) aware_known [OF s(2)] s(3)] s(2)
  show "service_ok cfg s' \<and> guar me s s' \<and> ?Q r s'"
    by (auto simp: aware_def free_def leased_def split: sum.splits)
next
  show "svc.stable cfg me (?Q r)" for r
  proof (cases r)
    case (Inr b)
    then show ?thesis by (cases "b = a") simp_all
  qed simp
qed

lemma safe_leave: "safe_task cfg me (\<lambda>_. free me) (leased me a) (update (upd_wf a (drop_lease me)))"
proof (rule svc.safe_update)
  fix s assume s: "service_ok cfg s" "leased me a s"
  then have "a < length (wf_heap s)" by (simp add: leased_def known_def)
  from drop_lease_ok [OF s(1) this, of me] s(2)
  show "service_ok cfg (upd_wf a (drop_lease me) s) \<and> guar me s (upd_wf a (drop_lease me) s) \<and>
      free me (upd_wf a (drop_lease me) s)" by (auto simp: leased_def free_def)
qed simp

lemma keeps_lease:
  assumes "\<And>a. keeps cfg me (leased me a) (body a)"
  shows "keeps cfg me (free me) (with_lease me i allowed seen body)"
proof -
  let ?t = "\<lambda>b. bindT (body b) (\<lambda>r. bindT (update (upd_wf b (drop_lease me))) (\<lambda>_. Ret r))"
  have t: "safe_task cfg me (\<lambda>_. free me) (leased me b) (?t b)" for b
    by (rule svc.safe_bind [OF assms [unfolded keeps_def]])
       (auto intro!: svc.safe_bind [OF safe_leave] svc.safe_ret)
  have "safe_task cfg me (\<lambda>_. free me) (aware me a) (bindR (waiting (enter_lease me allowed seen a)) ?t)" for a
    by (rule svc.safe_bindR [OF safe_enter]) (auto intro: svc.safe_pre [OF t])
  then show ?thesis
    unfolding with_lease_def by (intro keeps_bindR keeps_reading safe_find) simp_all
qed

lemma keeps_interruptible:
  assumes P: "svc.stable cfg me P" and c: "\<And>s x s'. service_ok cfg s \<Longrightarrow> call s = (x, s') \<Longrightarrow> gentle cfg s s'"
  shows "keeps cfg me P (interruptible a taken call)"
  unfolding interruptible_def by (rule keeps_waiting [OF P]) (auto split: if_splits intro: c)

lemma gentle_on_sync: "service_ok cfg s \<Longrightarrow> on_sync f s = (x, s') \<Longrightarrow> gentle cfg s s'"
  by (auto simp: gentle_def dest: on_sync_ok)

lemmas keeps_call = keeps_interruptible [OF _ gentle_on_sync]

lemma keeps_transfers:
  "keeps cfg me (free me) (manifest_of c me i inc exc seen taken)"
  "keeps cfg me (free me) (upload c me i k p len body interrupt seen taken)"
  "keeps cfg me (free me) (pull_plan c me i r seen taken)"
  "keeps cfg me (free me) (head_download c me i p im seen taken)"
  unfolding manifest_of_def upload_def pull_plan_def head_download_def
  by (auto intro!: keeps_lease keeps_steps keeps_call)

lemma keeps_download: "keeps cfg me (free me) (download c me i p im seen taken over)"
proof -
  have "keeps cfg me (leased me a) (stream_body a over)" for a
    unfolding stream_body_def by (rule keeps_waiting) (auto split: if_splits)
  then show ?thesis unfolding download_def by (auto intro!: keeps_lease keeps_steps keeps_call)
qed

lemma keeps_sync_status: "keeps cfg me (free me) (sync_status_of i k)"
  unfolding sync_status_of_def
  by (rule safe_find) (auto intro!: keeps_safe [where P = "aware me a" for a] keeps_steps simp: aware_def)

section \<open>The session\<close>

lemma mstep_get: "mstep cfg m (snd (get_session cfg i m))"
  by (rule step_lookup)

lemma mstep_lookup: "mstep cfg m (snd (lookup_session cfg i m))"
  using step_lookup [of cfg m i] by (simp add: get_session_def case_prod_unfold)

lemma aware_safe: "keeps cfg me (aware me a) t \<Longrightarrow> safe_task cfg me (\<lambda>_. free me) (aware me a) t"
  by (erule keeps_safe) (simp_all add: aware_def)

lemmas keeps_known_steps = keeps_steps keeps_sessions

lemma keeps_session_info: "keeps cfg me (free me) (session_info_of cfg i)"
  unfolding session_info_of_def
  by (intro safe_find aware_safe keeps_bindR keeps_checked keeps_sessions mstep_get) simp_all

lemma keeps_output: "keeps cfg me (free me) (workflow_output cfg i cursor timeout_ms)"
  unfolding workflow_output_def
proof (intro safe_find aware_safe keeps_bindR keeps_bind keeps_checked keeps_reading keeps_sessions mstep_lookup, simp_all)
  show "keeps cfg me (aware me a) (waiting (\<lambda>s. map_option (\<lambda>r. (Inr r, s)) (f s)))" for a and f :: "service \<Rightarrow> output_response option"
    by (rule keeps_waiting) auto
qed

lemma keeps_send: "svc.stable cfg me P \<Longrightarrow> keeps cfg me P (send_stdin cfg sid input h late)"
proof -
  assume P: "svc.stable cfg me P"
  have q: "keeps cfg me P (update (\<lambda>s. s\<lparr>session_part := send_input_queue sid h n (session_part s)\<rparr>))" for n
    by (rule keeps_update [OF P]) (rule gentle_session [OF _ step_queue])
  have w: "keeps cfg me P (waiting (input_answer sid late n))" for n
    by (rule keeps_waiting [OF P]) (auto simp: input_answer_def split: option.splits prod.splits sum.splits)
  show ?thesis
    unfolding send_stdin_def
    by (auto intro!: keeps_bindR keeps_bind keeps_sessions [OF P] q w step_send mstep_get split: option.splits)
qed

lemma keeps_stdin: "keeps cfg me (free me) (workflow_stdin cfg i input h late)"
  unfolding workflow_stdin_def
  by (intro keeps_bindR keeps_reading safe_find aware_safe keeps_checked keeps_send) simp_all

lemma keeps_heartbeat: "keeps cfg me (free me) (atomic (heartbeat_of i))"
  by (rule keeps_atomic) (use heartbeat_ok in \<open>auto simp: gentle_def\<close>)

lemma keeps_request:
  assumes "svc.stable cfg me P" "\<And>s. P s \<Longrightarrow> known a s" "external_reason why"
  shows "keeps cfg me P (update (request_cleanup a why target e spoil))"
  by (rule keeps_update [OF assms(1) gentle_request]) (use assms in auto)

lemma keeps_stop: "keeps cfg me (free me) (workflow_stop_session cfg i)"
proof -
  have r: "keeps cfg me (aware me a) (update (request_cleanup a ClientRequested WfFailed (Some stopped_by_client) True))" for a
    by (rule keeps_request) (simp_all add: aware_known external_reason_def)
  show ?thesis
    unfolding workflow_stop_session_def
    by (auto intro!: keeps_managed safe_find aware_safe keeps_bindR keeps_bind keeps_checked keeps_sessions mstep_get
        keeps_Ret r)
qed

lemma keeps_cancel: "keeps cfg me (free me) (workflow_cancel i)"
  unfolding workflow_cancel_def
  by (intro keeps_managed safe_find aware_safe keeps_steps keeps_request) (simp_all add: aware_known external_reason_def)

section \<open>Starting the session\<close>

lemma create_issued: "create_session cfg w p args h m = (Inr i, n) \<Longrightarrow> i < next_uuid n"
  by (auto simp: create_session_def register_session_def Let_def split: sum.splits if_splits)

lemma safe_create_vivado:
  assumes P: "svc.stable cfg me P"
  shows "safe_task cfg me (\<lambda>r s. P s \<and> (\<forall>info. r = Inr info \<longrightarrow> session_id info < next_uuid (session_part s))) P
    (create_vivado cfg i project args h late)"
  (is "safe_task cfg me ?Q _ _")
  unfolding create_vivado_def
proof (rule svc.safe_bindR)
  let ?R = "\<lambda>r s. P s \<and> (\<forall>sid. r = Inr sid \<longrightarrow> sid < next_uuid (session_part s))"
  show "safe_task cfg me ?R P (atomic (on_sessions (create_session (wc_session cfg) (Some i) project args h)))"
  proof (rule svc.safe_atomic)
    fix s r s' assume s: "service_ok cfg s" "P s" "on_sessions (create_session (wc_session cfg) (Some i) project args h) s = (r, s')"
    obtain n where n: "create_session (wc_session cfg) (Some i) project args h (session_part s) = (r, n)"
        "s' = s\<lparr>session_part := n\<rparr>" using s(3) by (auto simp: on_sessions_def split: prod.splits)
    have "mstep (wc_session cfg) (session_part s) n" using step_create n(1) by (metis snd_conv)
    then have g: "gentle cfg s s'" using gentle_session [OF s(1)] n(2) by simp
    from gentle_stable [OF g P s(1,2)] g create_issued n
    show "service_ok cfg s' \<and> guar me s s' \<and> ?R r s'" by (auto simp: gentle_def)
  next
    show "svc.stable cfg me (?R r)" for r using P by (cases r) (simp_all add: svc.stable_conj)
  qed
next
  fix sid
  show "safe_task cfg me ?Q (\<lambda>s. P s \<and> (\<forall>i. Inr sid = Inr i \<longrightarrow> i < next_uuid (session_part s)))
      (waiting (\<lambda>s. case map_of (vsessions (session_part s)) sid of
         None \<Rightarrow> Some (Inl late, s) | Some x \<Rightarrow> map_option (\<lambda>r. (r, s)) (reply x)))"
  proof (rule svc.safe_waiting)
    fix s r s' assume s: "service_ok cfg s" "P s \<and> (\<forall>i. Inr sid = Inr i \<longrightarrow> i < next_uuid (session_part s))"
      "(case map_of (vsessions (session_part s)) sid of
         None \<Rightarrow> Some (Inl late, s) | Some x \<Rightarrow> map_option (\<lambda>r. (r, s)) (reply x)) = Some (r, s')"
    have "session_id info = sid" if "r = Inr info" for info
      using service_okD(3) [OF s(1)] s(3) that by (auto simp: all_named_def named_def split: option.splits)
    moreover have "s' = s" using s(3) by (auto split: option.splits)
    ultimately show "service_ok cfg s' \<and> guar me s s' \<and> ?Q r s'" using s by auto
  next
    show "svc.stable cfg me (?Q r)" for r using P by (cases r) (simp_all add: svc.stable_conj)
  qed
qed auto

lemma session_started_fields [simp]:
  "identity_of (session_started t sid w) = identity_of w" "workflow_id (wf_info (session_started t sid w)) = workflow_id (wf_info w)"
  "wi_session (wf_info (session_started t sid w)) = Some sid"
  "wf_status (session_started t sid w) = (if wf_status w = WfStopping then WfStopping else WfRunning)"
  "wf_ended (session_started t sid w) = wf_ended w" "wi_ended_at (wf_info (session_started t sid w)) = wi_ended_at (wf_info w)"
  "cleanup_started (session_started t sid w) = cleanup_started w" "cancelled (session_started t sid w) = cancelled w"
  "cleanup_due (wf_info (session_started t sid w)) = cleanup_due (wf_info w)"
  "cleanup_target (session_started t sid w) = cleanup_target w" "cleanup_reason (session_started t sid w) = cleanup_reason w"
  "writer (session_started t sid w) = writer w" "readers (session_started t sid w) = readers w"
  by (simp_all add: session_started_def transition_def upd_info_def identity_of_def Let_def)

lemma holds_upd:
  "holds me a s \<Longrightarrow> workflow_id (wf_info (f (wf a s))) = workflow_id (wf_info (wf a s)) \<Longrightarrow>
   final (wf_status (f (wf a s))) = final (wf_status (wf a s)) \<Longrightarrow>
   writer (f (wf a s)) = writer (wf a s) \<Longrightarrow> readers (f (wf a s)) = readers (wf a s) \<Longrightarrow> holds me a (upd_wf a f s)"
  by (auto simp: holds_def known_def locks_def leases_def)

lemma safe_started:
  "safe_task cfg me (\<lambda>_. hold me a (with_session sid)) (\<lambda>s. hold me a preparing s \<and> sid < next_uuid (session_part s))
     (update (\<lambda>s. upd_wf a (session_started (instant_of s) sid) s))"
proof (rule svc.safe_update)
  fix s assume ok: "service_ok cfg s" and h: "hold me a preparing s \<and> sid < next_uuid (session_part s)"
  let ?f = "session_started (instant_of s) sid" let ?w = "wf a s"
  from h have a: "a < length (wf_heap s)" "writer ?w = Some me" "holds me a s"
    and p: "wf_status ?w = WfPreparing \<or> wf_status ?w = WfStopping" "wi_session (wf_info ?w) = None"
    by (auto simp: hold_def holds_def in_status_def preparing_def known_def locks_def)
  have f: "final (wf_status (?f ?w)) = final (wf_status ?w)" using p by auto
  have w: "wf_ok (?f ?w)" using service_okD(4) [OF ok a(1)] p by (auto simp: wf_ok_defs)
  have m: "wmove me ?w (?f ?w)" using p a(2) by (auto simp: wmove_def follows_def)
  have "session_shape (session_part s) (?f ?w)" using p h by (auto simp: session_shape_def)
  from service_ok_upd [where f = ?f and i = me, OF ok a(1) w this m f]
  have "service_ok cfg (upd_wf a ?f s)" .
  moreover have "guar me s (upd_wf a ?f s)" using m by (intro guar_upd) simp_all
  moreover have "hold me a (with_session sid) (upd_wf a ?f s)"
    using holds_upd [where f = ?f, OF a(3)] f a(1) by (simp add: hold_def in_status_def with_session_def)
  ultimately show "service_ok cfg (upd_wf a ?f s) \<and> guar me s (upd_wf a ?f s) \<and> hold me a (with_session sid) (upd_wf a ?f s)"
    by blast
qed simp

lemma gentle_spawn:
  assumes "service_ok cfg s" "worker_ok r s" shows "gentle cfg s (spawn r s)"
proof -
  have wk: "worker_ok t (spawn r s) = worker_ok t s" for t by (simp add: spawn_def)
  have "service_ok cfg (spawn r s)"
    using assms wk by (auto simp: service_ok_def) (auto simp: spawn_def registry_ok_def)
  then show ?thesis by (simp add: gentle_def) (simp add: guar_def spawn_def)
qed

lemma keeps_spawn:
  assumes "svc.stable cfg me P" "\<And>s. P s \<Longrightarrow> worker_ok r s" shows "keeps cfg me P (update (spawn r))"
  by (rule keeps_update [OF assms(1) gentle_spawn]) (use assms(2) in auto)

lemma keeps_hold: "keeps cfg me (hold me a R) t \<Longrightarrow> safe_task cfg me (\<lambda>_. holds me a) (hold me a R) t"
  by (erule keeps_safe) (simp_all add: hold_holds)

lemma keeps_start: "keeps cfg me (free me) (workflow_start_session cfg me i args h h' late)"
proof -
  let ?launch = "\<lambda>a project. bindT (create_vivado cfg i project args h' late) (\<lambda>result.
      case result of Inl e \<Rightarrow> failing a e True
      | Inr session \<Rightarrow> bindT (update (\<lambda>s. upd_wf a (session_started (instant_of s) (session_id session)) s)) (\<lambda>_.
          bindT (update (spawn (Observe a (session_id session)))) (\<lambda>_. Ret (Inr session))))"
  have observe: "safe_task cfg me (\<lambda>_. holds me a) (hold me a (with_session sid))
      (bindT (update (spawn (Observe a sid))) (\<lambda>_. Ret r))" for a sid and r :: "session_info res"
    by (rule keeps_hold) (auto intro!: keeps_bind keeps_spawn keeps_Ret simp: hold_def holds_def in_status_def with_session_def)
  have launch: "safe_task cfg me (\<lambda>_. holds me a) (hold me a preparing) (?launch a project)" for a project
    by (rule svc.safe_bind [OF safe_create_vivado])
       (auto intro!: svc.safe_pre [OF keeps_preparing [OF keeps_failing_prep]]
          svc.safe_bind [OF svc.safe_pre [OF safe_started]] observe split: sum.splits)
  have gate: "safe_task cfg me (\<lambda>_. holds me a) (hold me a preparing)
      (bindR (checked a (in_phase [WfPreparing])) (\<lambda>_. ?launch a project))" for a project
    by (rule svc.safe_pre [OF safe_preparing [OF launch]]) (rule hold_holds)
  let ?checked = "\<lambda>a project. bindR (checked a (no_open_plan (WorkflowPhase ''commit or abort the open plan first''))) (\<lambda>_.
      bindT (marked cfg False project) (\<lambda>r. case r of Inl e \<Rightarrow> failing a e True
        | Inr _ \<Rightarrow> bindR (checked a (in_phase [WfPreparing])) (\<lambda>_. ?launch a project)))"
  have dirty: "safe_task cfg me (\<lambda>_. holds me a) (hold me a preparing) (?checked a project)" for a project
  proof (rule svc.safe_bindR [OF keeps_checked [unfolded keeps_def]], simp, rule svc.safe_bind [OF keeps_marked [unfolded keeps_def]], simp)
    fix r :: "unit res"
    show "safe_task cfg me (\<lambda>_. holds me a) (hold me a preparing)
       (case r of Inl e \<Rightarrow> failing a e True | Inr _ \<Rightarrow> bindR (checked a (in_phase [WfPreparing])) (\<lambda>_. ?launch a project))"
      using gate by (cases r) (simp_all add: keeps_preparing [OF keeps_failing_prep])
  qed (rule hold_holds)
  have body: "safe_task cfg me (\<lambda>_. holds me a) (holds me a) (run_vivado cfg i a args h' late)" for a
    unfolding run_vivado_def
  proof (intro safe_preparing svc.safe_bindR [OF keeps_refresh [unfolded keeps_def]]
      svc.safe_bind [OF keeps_snapshot [unfolded keeps_def]])
    fix info
    show "safe_task cfg me (\<lambda>_. holds me a) (hold me a preparing)
       (if requires_full_upload info then Ret (Inl (ProjectReuploadRequired (wi_project info)))
        else ?checked a (wi_project info))"
      using dirty by (simp add: keeps_preparing [OF keeps_Ret])
  qed (simp_all add: hold_holds)
  show ?thesis
    unfolding workflow_start_session_def by (auto intro!: keeps_exclusive body keeps_Ret split: sum.splits)
qed

end
