(* ===== verification/Workflow_Workers.thy ===== *)
theory Workflow_Workers
  imports Workflow_Tasks
begin

text \<open>The tasks the workflow service runs for itself, and the end of a workflow.\<close>

text \<open>What is known when a round ends, at the start of the next one.\<close>

definition stopped :: "workflow_status \<Rightarrow> nat option \<Rightarrow> bool" where
  "stopped p x \<longleftrightarrow> p = WfStopping \<or> final p"

fun round_ok :: "nat \<Rightarrow> worker \<Rightarrow> service \<Rightarrow> bool" where
  "round_ok me (CleanRound a) s = hold me a stopped s"
| "round_ok me r s = (free me s \<and> worker_ok r s)"

definition worker_safe :: "workflow_config \<Rightarrow> nat \<Rightarrow> (service \<Rightarrow> bool) \<Rightarrow> worker wtask \<Rightarrow> bool" where
  "worker_safe cfg me P t \<longleftrightarrow> safe_task cfg me (round_ok me) P t"

lemma closed_stopped [simp]: "closed_under_stop stopped"
  by (simp add: closed_under_stop_def stopped_def)

lemma worker_ok_guar: "guar j s t \<Longrightarrow> worker_ok r s \<Longrightarrow> worker_ok r t"
  by (rule worker_ok_wmove [where s = s and i = j]) (auto simp: guar_def)

lemma stable_worker [simp]: "svc.stable cfg i (worker_ok r)"
  by (rule stableI) (rule worker_ok_guar)

lemma stable_round [simp]: "svc.stable cfg i (round_ok i r)"
proof (cases "\<exists>a. r = CleanRound a")
  case True
  then obtain a where "r = CleanRound a" by blast
  then have "round_ok i r = hold i a stopped" by (simp add: fun_eq_iff)
  then show ?thesis by simp
next
  case False
  then have "round_ok i r = (\<lambda>s. free i s \<and> worker_ok r s)" by (cases r) (auto simp: fun_eq_iff)
  then show ?thesis by (simp add: svc.stable_conj)
qed

lemma quietly_safe: "keeps cfg me (free me) t \<Longrightarrow> worker_safe cfg me (free me) (quietly t)"
  unfolding quietly_def worker_safe_def keeps_def by (rule svc.safe_bind) (auto intro: svc.safe_ret)

lemma over_safe: "safe_task cfg me (\<lambda>_. free me) P t \<Longrightarrow> worker_safe cfg me P (bindT t (\<lambda>_. Ret NoMore))"
  unfolding worker_safe_def by (rule svc.safe_bind) (auto intro: svc.safe_ret)

text \<open>The lock is given back on the way out.\<close>

lemma holding_over: "(\<And>s. P s \<Longrightarrow> owns me a s) \<Longrightarrow> worker_safe cfg me P (holding a (Ret NoMore))"
  unfolding worker_safe_def holding_def bindT.simps
  by (rule svc.safe_bind [OF svc.safe_pre [OF safe_unlock]]) (auto intro: svc.safe_ret)

section \<open>The observer\<close>

definition ran :: "nat \<Rightarrow> nat \<Rightarrow> nat \<Rightarrow> service \<Rightarrow> bool" where
  "ran me a sid s \<longleftrightarrow> hold me a (with_session sid) s \<and> sealed sid (session_part s)"

lemma stable_ran [simp]: "svc.stable cfg i (ran i a sid)"
  unfolding ran_def by (rule svc.stable_conj) simp_all

lemma session_succeeded_fields [simp]:
  "identity_of (session_succeeded t w) = identity_of w" "workflow_id (wf_info (session_succeeded t w)) = workflow_id (wf_info w)"
  "wi_session (wf_info (session_succeeded t w)) = wi_session (wf_info w)"
  "wf_status (session_succeeded t w) = (if wf_status w = WfRunning then WfPulling else wf_status w)"
  "wf_ended (session_succeeded t w) = wf_ended w" "wi_ended_at (wf_info (session_succeeded t w)) = wi_ended_at (wf_info w)"
  "cleanup_started (session_succeeded t w) = cleanup_started w" "cancelled (session_succeeded t w) = cancelled w"
  "cleanup_due (wf_info (session_succeeded t w)) = cleanup_due (wf_info w)"
  "cleanup_target (session_succeeded t w) = cleanup_target w" "cleanup_reason (session_succeeded t w) = cleanup_reason w"
  "writer (session_succeeded t w) = writer w" "readers (session_succeeded t w) = readers w"
  "wf_status w \<noteq> WfRunning \<Longrightarrow> session_succeeded t w = w"
  by (simp_all add: session_succeeded_def transition_def upd_info_def identity_of_def)

lemma safe_succeeded:
  "safe_task cfg me (\<lambda>_. ran me a sid) (ran me a sid) (update (\<lambda>s. upd_wf a (session_succeeded (instant_of s)) s))"
proof (rule svc.safe_update)
  fix s assume ok: "service_ok cfg s" and h: "ran me a sid s"
  let ?f = "session_succeeded (instant_of s)" let ?w = "wf a s"
  from h have a: "a < length (wf_heap s)" "writer ?w = Some me" "holds me a s" "wi_session (wf_info ?w) = Some sid"
    "sealed sid (session_part s)"
    by (auto simp: ran_def hold_def holds_def in_status_def with_session_def known_def locks_def)
  have f: "final (wf_status (?f ?w)) = final (wf_status ?w)" by simp
  have w: "wf_ok (?f ?w)"
    using service_okD(4) [OF ok a(1)] a(4)
    by (cases "wf_status ?w = WfRunning") (auto simp: wf_ok_defs)
  have m: "wmove me ?w (?f ?w)" using a(2) by (cases "wf_status ?w = WfRunning") (auto simp: wmove_def follows_def)
  have d: "session_shape (session_part s) (?f ?w)"
    using service_okD(5) [OF ok a(1)] a(4,5) by (auto simp: session_shape_def)
  have "service_ok cfg (upd_wf a ?f s)" by (rule service_ok_upd [where f = ?f and i = me, OF ok a(1) w d m f])
  moreover have "guar me s (upd_wf a ?f s)" using m by (intro guar_upd) simp_all
  moreover have "ran me a sid (upd_wf a ?f s)"
    using holds_upd [where f = ?f, OF a(3)] f a by (simp add: ran_def hold_def in_status_def with_session_def)
  ultimately show "service_ok cfg (upd_wf a ?f s) \<and> guar me s (upd_wf a ?f s) \<and> ran me a sid (upd_wf a ?f s)" by blast
qed simp

lemma ran_known: "ran me a sid s \<Longrightarrow> known a s"
  unfolding ran_def using hold_known by blast

lemma keeps_ran_fail: "keeps cfg me (ran me a sid) (update (fail a e spoil))"
  by (rule keeps_fail) (simp_all add: ran_known)

lemma keeps_session_over: "keeps cfg me (ran me a sid) (session_over c a session)"
proof -
  have "keeps cfg me (ran me a sid) (case r of
      Inr _ \<Rightarrow> update (\<lambda>s. upd_wf a (session_succeeded (instant_of s)) s) | Inl e \<Rightarrow> update (fail a e True))" for r :: "unit res"
    by (cases r) (simp_all add: keeps_ran_fail keepsI safe_succeeded)
  then show ?thesis unfolding session_over_def by (auto intro!: keeps_steps keeps_ran_fail)
qed

lemma session_over_ends: "worker_safe cfg me (ran me a sid) (holding a (session_over c a session))"
proof -
  have result: "safe_task cfg me (\<lambda>r s. r = NoMore \<and> ran me a sid s) (ran me a sid) (session_over c a session)"
  proof -
    have step: "safe_task cfg me (\<lambda>r s. r = NoMore \<and> ran me a sid s) (ran me a sid) (bindT t (\<lambda>_. Ret NoMore))"
      if "keeps cfg me (ran me a sid) t" for t :: "unit wtask"
      using that unfolding keeps_def by (rule svc.safe_bind) (auto intro: svc.safe_ret)
    have fin: "keeps cfg me (ran me a sid) (case r of
      Inr _ \<Rightarrow> update (\<lambda>s. upd_wf a (session_succeeded (instant_of s)) s) | Inl e \<Rightarrow> update (fail a e True))" for r :: "unit res"
      by (cases r) (simp_all add: keeps_ran_fail keepsI safe_succeeded)
    show ?thesis
      unfolding session_over_def
      by (auto intro!: svc.safe_bind [OF keeps_snapshot [unfolded keeps_def]] svc.safe_bind [OF keeps_marked [unfolded keeps_def]]
          step fin keeps_ran_fail svc.safe_ret)
  qed
  show ?thesis
    unfolding worker_safe_def holding_def
  proof (rule svc.safe_bind [OF result])
    fix r
    show "safe_task cfg me (round_ok me) (\<lambda>s. r = NoMore \<and> ran me a sid s) (bindT (unlock a) (\<lambda>_. Ret r))"
    proof (cases "r = NoMore")
      case True
      then show ?thesis
        by (intro svc.safe_bind [OF svc.safe_pre [OF safe_unlock]])
           (auto intro: svc.safe_ret simp: ran_def hold_def holds_owns)
    next
      case False
      show ?thesis by (rule svc.safe_pre [OF svc.safe_false]) (use False in simp)
    qed
  qed
qed

lemma get_session_sealed:
  assumes ok: "service_ok cfg s" and g: "get_session (wc_session cfg) sid (session_part s) = (Inr info, m)"
    and t: "is_terminal (si_status info)"
  shows "sealed sid m"
proof -
  have m: "m = snd (get_session (wc_session cfg) sid (session_part s))" using g by simp
  have sm: "sm_ok (wc_session cfg) m" unfolding m by (rule sm_ok_get [OF service_okD(2) [OF ok]])
  from g obtain x where x: "map_of (vsessions m) sid = Some x" "info = vs_info x"
    by (auto simp: get_session_def lookup_session_def Let_def ok_or_def split: option.splits)
  note e = sm_okD(2) [OF sm x(1)]
  from life_entry [OF e] t x(2) have "vs_terminal x" by (auto simp: life_ok_def shown_ok_def)
  with e x(1) show ?thesis by (auto simp: sealed_def entry_ok_def)
qed

lemma observe_safe: "worker_safe cfg me (\<lambda>s. free me s \<and> worker_ok (Observe a sid) s) (observe_session cfg me a sid)"
proof -
  let ?P = "\<lambda>s. aware me a s \<and> wi_session (wf_info (wf a s)) = Some sid"
  have st: "svc.stable cfg me ?P"
  proof -
    have "?P = (\<lambda>s. free me s \<and> (known a s \<and> wi_session (wf_info (wf a s)) = Some sid))" by (auto simp: aware_def fun_eq_iff)
    then show ?thesis by (simp add: svc.stable_conj)
  qed
  let ?R = "\<lambda>r s. ?P s \<and> (\<forall>info. r = Inr info \<longrightarrow> is_terminal (si_status info) \<longrightarrow> sealed sid (session_part s))"
  have get: "safe_task cfg me ?R ?P (atomic (on_sessions (get_session (wc_session cfg) sid)))"
  proof (rule svc.safe_atomic)
    fix s r s' assume s: "service_ok cfg s" "?P s" "on_sessions (get_session (wc_session cfg) sid) s = (r, s')"
    obtain n where n: "get_session (wc_session cfg) sid (session_part s) = (r, n)" "s' = s\<lparr>session_part := n\<rparr>"
      using s(3) by (auto simp: on_sessions_def split: prod.splits)
    have "mstep (wc_session cfg) (session_part s) n" using mstep_get n(1) by (metis snd_conv)
    then have g: "gentle cfg s s'" using gentle_session [OF s(1)] n(2) by simp
    from gentle_stable [OF g st s(1,2)] g get_session_sealed [OF s(1)] n
    show "service_ok cfg s' \<and> guar me s s' \<and> ?R r s'" by (auto simp: gentle_def)
  next
    show "svc.stable cfg me (?R r)" for r
    proof (cases "\<exists>info. r = Inr info \<and> is_terminal (si_status info)")
      case True
      then have "?R r = (\<lambda>s. ?P s \<and> sealed sid (session_part s))" by (auto simp: fun_eq_iff)
      then show ?thesis using svc.stable_conj [OF st stable_sealed] by (simp only:)
    next
      case False
      then have "?R r = ?P" by (auto simp: fun_eq_iff)
      with st show ?thesis by simp
    qed
  qed
  have over: "worker_safe cfg me (\<lambda>s. ?P s \<and> sealed sid (session_part s)) (locked me a (session_over cfg a session))" for session
    unfolding locked_def worker_safe_def
  proof (rule svc.safe_bind)
    let ?T = "\<lambda>s. (known a s \<and> wi_session (wf_info (wf a s)) = Some sid) \<and> sealed sid (session_part s)"
    have "svc.stable cfg me ?T" by (rule svc.stable_conj) simp_all
    then have "safe_task cfg me (\<lambda>_ s. holds me a s \<and> ?T s) (\<lambda>s. aware me a s \<and> ?T s) (acquire me a)"
      by (rule safe_acquire) (auto simp: known_def take_lock_def)
    then show "safe_task cfg me (\<lambda>_ s. holds me a s \<and> ?T s) (\<lambda>s. ?P s \<and> sealed sid (session_part s)) (acquire me a)"
      by (rule svc.safe_pre) (auto simp: aware_def)
    show "safe_task cfg me (round_ok me) (\<lambda>s. holds me a s \<and> ?T s) (holding a (session_over cfg a session))"
      by (rule svc.safe_pre [OF session_over_ends [unfolded worker_safe_def]])
         (auto simp: ran_def hold_def in_status_def with_session_def)
  qed
  have round: "safe_task cfg me (round_ok me) (?R r) (case r of
       Inl e \<Rightarrow> bindT (update (fail a e True)) (\<lambda>_. Ret NoMore)
     | Inr session \<Rightarrow> if is_terminal (si_status session) then locked me a (session_over cfg a session)
                      else Ret (Observe a sid))" for r
  proof (cases r)
    case (Inl e)
    have "keeps cfg me ?P (update (fail a e True))" by (rule keeps_fail [OF st]) (simp add: aware_def)
    then have "safe_task cfg me (round_ok me) ?P (bindT (update (fail a e True)) (\<lambda>_. Ret NoMore))"
      unfolding keeps_def by (rule svc.safe_bind) (auto intro: svc.safe_ret simp: aware_def)
    then show ?thesis using Inl by (auto intro: svc.safe_pre)
  next
    case (Inr session)
    then show ?thesis
      by (auto intro!: svc.safe_pre [OF over [unfolded worker_safe_def]] svc.safe_ret simp: aware_def)
  qed
  have "safe_task cfg me (round_ok me) ?P (observe_session cfg me a sid)"
    unfolding observe_session_def
  proof (rule svc.safe_bind [OF keeps_snapshot [unfolded keeps_def, OF st]])
    fix info
    have "safe_task cfg me (round_ok me) ?P (Ret NoMore)" by (rule svc.safe_ret) (simp add: aware_def)
    with svc.safe_bind [OF get round]
    show "safe_task cfg me (round_ok me) ?P (if wi_status info \<noteq> WfRunning then Ret NoMore
       else bindT (atomic (on_sessions (get_session (wc_session cfg) sid))) (\<lambda>r. case r of
         Inl e \<Rightarrow> bindT (update (fail a e True)) (\<lambda>_. Ret NoMore)
       | Inr session \<Rightarrow> if is_terminal (si_status session) then locked me a (session_over cfg a session)
                      else Ret (Observe a sid)))" by (simp only: if_split) blast
  qed
  then show ?thesis unfolding worker_safe_def by (rule svc.safe_pre) (auto simp: aware_def)
qed

section \<open>Finishing\<close>

lemma safe_try:
  "safe_task cfg me (\<lambda>b s. if b then holds me a s else free me s) (aware me a) (try_acquire me a)"
  (is "safe_task cfg me ?Q _ _")
  unfolding try_acquire_def
proof (rule svc.safe_atomic)
  fix s b s' assume s: "service_ok cfg s" "aware me a s"
    "(if lock_free (wf a s) then (True, upd_wf a (take_lock me) s) else (False, s)) = (b, s')"
  show "service_ok cfg s' \<and> guar me s s' \<and> ?Q b s'"
    using acquired [OF s(1,2)] s by (auto simp: aware_def split: if_splits)
next
  show "svc.stable cfg me (?Q b)" for b by (cases b) simp_all
qed

lemma pulling_phase:
  "service_ok cfg s \<Longrightarrow> known a s \<Longrightarrow> wf_status (wf a s) \<in> set [WfPulling] \<Longrightarrow> in_status a unended s"
  by (simp add: in_status_def unended_def)

lemma safe_finish_pulling: "safe_task cfg me (\<lambda>_. holds me a) (holds me a) (finish_pulling cfg a)"
proof -
  let ?P = "hold me a unended"
  have due: "keeps cfg me ?P (update (upd_wf a (cleanup_due_error e)))" for e
    by (rule keeps_quiet) simp_all
  have stop: "safe_task cfg me (\<lambda>_. holds me a) ?P
      (bindT (atomic (terminate cfg a WfCompleted None False)) (\<lambda>b.
         if b then bindT (snapshot a) (\<lambda>info. Ret (Inr info)) else Ret (Inl (WorkflowPhase ''workflow is stopping''))))"
  proof (rule svc.safe_bind [OF safe_terminate])
    fix b
    have "keeps cfg me (holds me a) (if b then bindT (snapshot a) (\<lambda>info. Ret (Inr info))
        else Ret (Inl (WorkflowPhase ''workflow is stopping'')))" by (auto intro!: keeps_steps)
    then show "safe_task cfg me (\<lambda>_. holds me a) (\<lambda>s. holds me a s \<and> (b \<or> ?P s))
        (if b then bindT (snapshot a) (\<lambda>info. Ret (Inr info)) else Ret (Inl (WorkflowPhase ''workflow is stopping'')))"
      unfolding keeps_def by (rule svc.safe_pre) blast
  qed (auto simp: hold_def may_end_def)
  have fin: "safe_task cfg me (\<lambda>_. holds me a) ?P (case r of
       Inl e \<Rightarrow> bindT (update (upd_wf a (cleanup_due_error e))) (\<lambda>_. Ret (Inl e))
     | Inr _ \<Rightarrow> bindT (atomic (terminate cfg a WfCompleted None False)) (\<lambda>b.
         if b then bindT (snapshot a) (\<lambda>info. Ret (Inr info)) else Ret (Inl (WorkflowPhase ''workflow is stopping''))))"
    for r :: "unit res"
    by (cases r) (auto intro!: keeps_hold keeps_bind due keeps_Ret stop)
  show ?thesis
    unfolding finish_pulling_def
    by (rule safe_phase [OF _ closed_under_stop(2) pulling_phase],
        rule svc.safe_bind [OF keeps_snapshot [unfolded keeps_def]], simp,
        rule svc.safe_bind [OF keeps_sync_wait [unfolded keeps_def]], simp, rule fin)
qed

lemma keeps_finish: "keeps cfg me (free me) (workflow_finish cfg me i)"
proof -
  have lock: "safe_task cfg me (\<lambda>_. free me) (aware me a)
      (bindT (try_acquire me a) (\<lambda>b. if b then holding a (finish_pulling cfg a)
         else Ret (Inl (WorkflowPhase ''transfers are still active''))))" for a
  proof (rule svc.safe_bind [OF safe_try])
    fix b
    show "safe_task cfg me (\<lambda>_. free me) (\<lambda>s. if b then holds me a s else free me s)
       (if b then holding a (finish_pulling cfg a) else Ret (Inl (WorkflowPhase ''transfers are still active'')))"
      by (cases b) (auto intro: safe_holding [OF safe_finish_pulling holds_owns] svc.safe_ret)
  qed
  have seen: "safe_task cfg me (\<lambda>_. free me) (aware me a) (bindT (snapshot a) (\<lambda>info. Ret (Inr info)))" for a
    by (intro aware_safe keeps_steps) simp_all
  have body: "safe_task cfg me (\<lambda>_. free me) (aware me a) (bindT (snapshot a) (\<lambda>info.
      if wi_status info = WfCompleted then bindT (snapshot a) (\<lambda>info. Ret (Inr info))
      else bindT (try_acquire me a) (\<lambda>b. if b then holding a (finish_pulling cfg a)
         else Ret (Inl (WorkflowPhase ''transfers are still active'')))))" for a
    by (rule svc.safe_bind [OF keeps_snapshot [unfolded keeps_def]]) (simp_all add: lock seen)
  show ?thesis unfolding workflow_finish_def by (rule keeps_managed [OF safe_find [OF body]])
qed

section \<open>Cleanup\<close>

definition stopping_with :: "nat option \<Rightarrow> workflow_status \<Rightarrow> nat option \<Rightarrow> bool" where
  "stopping_with y p x \<longleftrightarrow> p = WfStopping \<and> x = y"

lemma closed_stopping_with [simp]: "closed_under_stop (stopping_with y)"
  by (simp add: closed_under_stop_def stopping_with_def)

lemma cleanup_start_safe: "worker_safe cfg me (\<lambda>s. free me s \<and> worker_ok (Clean a) s) (cleanup_workflow me a)"
proof -
  let ?T = "worker_ok (Clean a)"
  have "safe_task cfg me (\<lambda>_ s. holds me a s \<and> ?T s) (\<lambda>s. aware me a s \<and> ?T s) (acquire me a)"
    by (rule safe_acquire [OF stable_worker]) (auto simp: known_def take_lock_def)
  then show ?thesis
    unfolding worker_safe_def cleanup_workflow_def
    by (rule svc.safe_pre [OF svc.safe_bind])
       (auto intro!: svc.safe_ret simp: aware_def hold_def in_status_def stopped_def)
qed

definition gone :: "nat \<Rightarrow> nat \<Rightarrow> nat option \<Rightarrow> service \<Rightarrow> bool" where
  "gone me a y s \<longleftrightarrow> hold me a (stopping_with y) s \<and> (\<forall>sid. y = Some sid \<longrightarrow> sealed sid (session_part s))"

lemma stable_gone [simp]: "svc.stable cfg i (gone i a y)"
proof (cases y)
  case (Some sid)
  then have "gone i a y = (\<lambda>s. hold i a (stopping_with y) s \<and> sealed sid (session_part s))"
    by (auto simp: gone_def fun_eq_iff)
  then show ?thesis by (simp add: svc.stable_conj)
next
  case None
  then have "gone i a y = hold i a (stopping_with y)" by (auto simp: gone_def fun_eq_iff)
  then show ?thesis by simp
qed

lemma session_gone_sealed:
  assumes ok: "service_ok cfg s" and h: "hold me a (stopping_with (Some sid)) s" and g: "session_gone sid s"
  shows "sealed sid (session_part s)"
proof -
  from h have "a < length (wf_heap s)" "wi_session (wf_info (wf a s)) = Some sid"
    by (auto simp: hold_def holds_def known_def in_status_def stopping_with_def)
  with service_okD(5) [OF ok] have i: "sid < next_uuid (session_part s)" by (auto simp: session_shape_def)
  show ?thesis
  proof (cases "map_of (vsessions (session_part s)) sid")
    case (Some x)
    with g have "is_terminal (si_status (vs_info x))" by (simp add: session_gone_def)
    with life_entry [OF sm_okD(2) [OF service_okD(2) [OF ok] Some]] have "vs_terminal x"
      by (auto simp: life_ok_def shown_ok_def)
    with i Some show ?thesis by (simp add: sealed_def)
  qed (simp add: sealed_def i)
qed

lemma safe_stop_vivado:
  assumes why: "external_reason why"
  shows "safe_task cfg me (\<lambda>r. case r of Inl _ \<Rightarrow> hold me a (stopping_with y) | Inr _ \<Rightarrow> gone me a y)
    (hold me a (stopping_with y)) (stop_vivado cfg y why)"
  (is "safe_task cfg me ?Q ?P _")
proof -
  have st: "svc.stable cfg me (?Q r)" for r :: "unit res" by (cases r) simp_all
  show ?thesis
  proof (cases y)
    case None
    show ?thesis
      unfolding stop_vivado_def None option.case
      by (rule svc.safe_reading) (use st None in \<open>auto simp: gone_def ensure_def split: sum.splits\<close>)
  next
    case (Some sid)
    have "keeps cfg me ?P (atomic (on_sessions (stop_session (wc_session cfg) sid why)))"
      by (intro keeps_sessions step_stop why) simp
    moreover have eq: "stop_vivado cfg y why =
        bindR (atomic (on_sessions (stop_session (wc_session cfg) sid why))) (\<lambda>_.
          reading (\<lambda>s. ensure (session_gone sid s) (Internal ''waiting for confirmed Vivado process cleanup'')))"
      by (simp add: stop_vivado_def Some)
    ultimately show ?thesis
      unfolding eq
    proof (intro svc.safe_bindR [where R = "\<lambda>_. ?P"])
      show "safe_task cfg me ?Q ?P
          (reading (\<lambda>s. ensure (session_gone sid s) (Internal ''waiting for confirmed Vivado process cleanup'')))"
        by (rule svc.safe_reading)
           (use st session_gone_sealed Some in \<open>auto simp: gone_def ensure_def split: sum.splits\<close>)
    qed (simp_all add: keeps_def Some)
  qed
qed

lemma safe_attempt:
  assumes why: "external_reason why"
  shows "safe_task cfg me (\<lambda>r. case r of Inl _ \<Rightarrow> hold me a (stopping_with (wi_session info)) | Inr _ \<Rightarrow> gone me a (wi_session info))
    (hold me a (stopping_with (wi_session info))) (cleanup_attempt cfg info why invalidate)"
proof -
  let ?G = "gone me a (wi_session info)"
  have "keeps cfg me ?G (bindR (if invalidate then marked cfg False (wi_project info) else Ret (Inr ())) (\<lambda>_.
     bindR (waiting (sync_wait (abort_open (wc_env cfg) (wc_sync cfg) (wi_project info)))) (\<lambda>_.
     on_project cfg (\<lambda>ps. is_clean ps (wi_project info)))))"
    by (auto intro!: keeps_steps)
  then show ?thesis
    unfolding cleanup_attempt_def
    by (intro svc.safe_bindR [OF safe_stop_vivado [OF why]])
       (auto intro: keeps_safe [unfolded keeps_def] svc.safe_post simp: keeps_def gone_def split: sum.splits)
qed

lemma gone_round: "gone me a y s \<Longrightarrow> round_ok me (CleanRound a) s"
  by (auto simp: gone_def hold_def in_status_def stopping_with_def stopped_def)

lemma gone_holds: "gone me a y s \<Longrightarrow> holds me a s"
  by (simp add: gone_def hold_def)

lemma end_cleanup_safe: "worker_safe cfg me (gone me a y) (end_cleanup cfg a invalidate clean)"
proof -
  let ?G = "gone me a y"
  let ?f = "\<lambda>w. (cleanup_target w, terminal_error w, invalidate_project w)"
  let ?Q = "\<lambda>x s. fst x \<in> {WfCancelled, WfFailed} \<and> ?G s"
  have read: "safe_task cfg me ?Q ?G (checked a ?f)"
    unfolding checked_def
  proof (rule svc.safe_reading)
    fix s assume s: "service_ok cfg s" "?G s"
    then have "a < length (wf_heap s)" by (auto simp: gone_def hold_def holds_def known_def)
    from service_okD(4) [OF s(1) this] s(2) show "?Q (?f (wf a s)) s" by (simp add: wf_ok_defs)
  next
    show "svc.stable cfg me (?Q x)" for x by (cases "fst x \<in> {WfCancelled, WfFailed}") simp_all
  qed
  have ending: "safe_task cfg me (round_ok me) ?G (bindT (atomic (terminate cfg a target e full)) (\<lambda>b.
      if b then holding a (Ret NoMore) else Ret (CleanRound a)))" if t: "target \<in> {WfCancelled, WfFailed}" for target e full
  proof (rule svc.safe_bind [OF safe_terminate])
    fix b
    have "safe_task cfg me (round_ok me) (holds me a) (holding a (Ret NoMore))"
      using holding_over holds_owns unfolding worker_safe_def by blast
    then show "safe_task cfg me (round_ok me) (\<lambda>s. holds me a s \<and> (b \<or> ?G s))
        (if b then holding a (Ret NoMore) else Ret (CleanRound a))"
      by (cases b) (auto intro: svc.safe_pre svc.safe_ret simp del: round_ok.simps dest: gone_round)
  next
    show "may_end target (wf a s)" if "?G s" for s
      using that t by (auto simp: may_end_def gone_def hold_def in_status_def stopping_with_def)
    show "sealed sid (session_part s)" if "?G s" "wi_session (wf_info (wf a s)) = Some sid" for s sid
      using that by (auto simp: gone_def hold_def in_status_def stopping_with_def)
  qed (simp_all add: gone_holds)
  show ?thesis
    unfolding worker_safe_def end_cleanup_def
  proof (rule svc.safe_bind [OF read])
    fix x :: "workflow_status \<times> app_error option \<times> bool"
    obtain target e invalidated where x: "x = (target, e, invalidated)" by (cases x)
    show "safe_task cfg me (round_ok me) (?Q x) (case x of (target, e, invalidated) \<Rightarrow>
       if invalidated \<and> \<not> invalidate then Ret (CleanRound a)
       else bindT (atomic (terminate cfg a target e (\<not> clean))) (\<lambda>b. if b then holding a (Ret NoMore) else Ret (CleanRound a)))"
    proof (cases "target \<in> {WfCancelled, WfFailed}")
      case True
      then show ?thesis unfolding x
        using ending [OF True] by (auto intro: svc.safe_ret gone_round simp del: round_ok.simps)
    next
      case False
      show ?thesis by (rule svc.safe_pre [OF svc.safe_false]) (use False in \<open>simp add: x\<close>)
    qed
  qed
qed

lemma cleanup_round_safe: "worker_safe cfg me (round_ok me (CleanRound a)) (cleanup_round cfg a)"
proof -
  let ?S = "hold me a stopped"
  let ?Q = "\<lambda>info s. if final (wi_status info) then ?S s else hold me a (stopping_with (wi_session info)) s"
  have look: "safe_task cfg me ?Q ?S (snapshot a)"
    unfolding snapshot_def
  proof (rule svc.safe_reading)
    show "svc.stable cfg me (?Q info)" for info by (cases "final (wi_status info)") simp_all
  qed (auto simp: hold_def in_status_def stopped_def stopping_with_def)
  have round: "worker_safe cfg me (hold me a (stopping_with (wi_session info)))
      (bindT (checked a (\<lambda>w. (cleanup_reason w, invalidate_project w))) (\<lambda>(reason, invalidate).
       bindT (cleanup_attempt cfg info reason invalidate) (\<lambda>r.
       case r of
         Inr clean \<Rightarrow> end_cleanup cfg a invalidate clean
       | Inl e \<Rightarrow> bindT (update (upd_wf a (report_error e))) (\<lambda>_. Ret (CleanRound a)))))"
    (is "worker_safe cfg me ?P _") for info
  proof -
    let ?f = "\<lambda>w. (cleanup_reason w, invalidate_project w)"
    let ?R = "\<lambda>x s. external_reason (fst x) \<and> ?P s"
    have read: "safe_task cfg me ?R ?P (checked a ?f)"
      unfolding checked_def
    proof (rule svc.safe_reading)
      fix s assume s: "service_ok cfg s" "?P s"
      then have "a < length (wf_heap s)" by (auto simp: hold_def holds_def known_def)
      from service_okD(4) [OF s(1) this] s(2) show "?R (?f (wf a s)) s" by (simp add: wf_ok_defs)
    next
      show "svc.stable cfg me (?R x)" for x by (cases "external_reason (fst x)") simp_all
    qed
    have due: "safe_task cfg me (round_ok me) ?P (bindT (update (upd_wf a (report_error e))) (\<lambda>_. Ret (CleanRound a)))" for e
    proof (rule svc.safe_bind [where R = "\<lambda>_. ?P"])
      have "keeps cfg me ?P (update (upd_wf a (report_error e)))"
        by (rule keeps_quiet) (auto simp: hold_def in_status_def stopping_with_def unended_def)
      then show "safe_task cfg me (\<lambda>_. ?P) ?P (update (upd_wf a (report_error e)))" by (simp add: keeps_def)
    qed (auto intro!: svc.safe_ret simp: hold_def in_status_def stopping_with_def stopped_def)
    have attempt: "safe_task cfg me (round_ok me) ?P (bindT (cleanup_attempt cfg info reason invalidate) (\<lambda>r.
       case r of
         Inr clean \<Rightarrow> end_cleanup cfg a invalidate clean
       | Inl e \<Rightarrow> bindT (update (upd_wf a (report_error e))) (\<lambda>_. Ret (CleanRound a))))"
      if "external_reason reason" for reason invalidate
      by (rule svc.safe_bind [OF safe_attempt [OF that]])
         (use due end_cleanup_safe [unfolded worker_safe_def] in \<open>simp split: sum.splits\<close>)
    show ?thesis
      unfolding worker_safe_def
    proof (rule svc.safe_bind [OF read])
      fix x :: "termination_reason \<times> bool"
      show "safe_task cfg me (round_ok me) (?R x) (case x of (reason, invalidate) \<Rightarrow>
         bindT (cleanup_attempt cfg info reason invalidate) (\<lambda>r. case r of
           Inr clean \<Rightarrow> end_cleanup cfg a invalidate clean
         | Inl e \<Rightarrow> bindT (update (upd_wf a (report_error e))) (\<lambda>_. Ret (CleanRound a))))"
      proof (cases "external_reason (fst x)")
        case True
        then show ?thesis using attempt [of "fst x" "snd x"] by (simp add: case_prod_unfold)
      next
        case False
        show ?thesis by (rule svc.safe_pre [OF svc.safe_false]) (use False in simp)
      qed
    qed
  qed
  have over: "worker_safe cfg me ?S (holding a (Ret NoMore))"
    by (rule holding_over) (simp add: hold_def holds_owns)
  have "safe_task cfg me (round_ok me) ?S (cleanup_round cfg a)"
    unfolding cleanup_round_def
  proof (rule svc.safe_bind [OF look])
    fix info
    show "safe_task cfg me (round_ok me) (?Q info) (if final (wi_status info) then holding a (Ret NoMore)
        else bindT (checked a (\<lambda>w. (cleanup_reason w, invalidate_project w))) (\<lambda>(reason, invalidate).
       bindT (cleanup_attempt cfg info reason invalidate) (\<lambda>r.
       case r of
         Inr clean \<Rightarrow> end_cleanup cfg a invalidate clean
       | Inl e \<Rightarrow> bindT (update (upd_wf a (report_error e))) (\<lambda>_. Ret (CleanRound a)))))"
      using over round [of info] by (simp add: worker_safe_def)
  qed
  moreover have "round_ok me (CleanRound a) = ?S" by (simp add: fun_eq_iff)
  ultimately show ?thesis by (simp add: worker_safe_def)
qed

section \<open>After a panic\<close>

lemma gentle_init_failed:
  assumes ok: "service_ok cfg s" and k: "known a s" shows "gentle cfg s (upd_wf a (initialization_failed e) s)"
proof -
  let ?f = "initialization_failed e" let ?w = "wf a s"
  have a: "a < length (wf_heap s)" by (rule known_length [OF k])
  have i: "wf_info (?f ?w) = wf_info ?w" "open_sync (?f ?w) = open_sync ?w" by (simp_all add: initialization_failed_def)
  have c: "core (?f ?w) = core ?w" by simp
  have "wf_ok (?f ?w)" using service_okD(4) [OF ok a] c i by (auto simp: wf_ok_defs core_def)
  moreover have m: "wmove j ?w (?f ?w)" for j by (rule core_wmove [OF c]) (simp add: i)
  ultimately have "service_ok cfg (upd_wf a ?f s)"
    using service_okD(5) [OF ok a] core_session_shape [OF c] i
    by (intro service_ok_upd [where f = ?f and i = 0, OF ok a]) simp_all
  moreover have "guar j s (upd_wf a ?f s)" for j using m core_locks [OF c] by (intro guar_upd) simp_all
  ultimately show ?thesis by (simp add: gentle_def)
qed

lemma safe_recover: "keeps cfg me (free me) (recover_task_failure i e poisoned)"
proof -
  have fault: "gentle cfg s (s\<lparr>background_fault := True\<rparr>)" if "service_ok cfg s" for s
    using that by (simp add: gentle_def)
  let ?Q = "\<lambda>x s. case x of None \<Rightarrow> free me s | Some a \<Rightarrow> aware me a s"
  have find: "safe_task cfg me ?Q (free me) (reading (\<lambda>s. map_of (wf_entries s) i))"
  proof (rule svc.safe_reading)
    fix s assume "service_ok cfg s" "free me s"
    then show "?Q (map_of (wf_entries s) i) s"
      by (auto simp: aware_def registered_def split: option.splits dest!: map_of_SomeD intro: registryD(4))
  next
    show "svc.stable cfg me (?Q x)" for x by (cases x) simp_all
  qed
  have body: "keeps cfg me (aware me a) (bindT (update (upd_wf a (initialization_failed e))) (\<lambda>_. update (fail a e True)))" for a
    by (intro keeps_bind keeps_update keeps_fail gentle_init_failed) (simp_all add: aware_known)
  show ?thesis
  proof (cases poisoned)
    case True
    then show ?thesis by (auto simp: recover_task_failure_def intro!: keeps_update fault)
  next
    case False
    have "safe_task cfg me (\<lambda>_. free me) (free me) (recover_task_failure i e poisoned)"
      using False unfolding recover_task_failure_def if_False
    proof (simp, intro svc.safe_bind [OF find])
      fix x
      show "safe_task cfg me (\<lambda>_. free me) (?Q x) (case x of None \<Rightarrow> Ret ()
          | Some a \<Rightarrow> bindT (update (upd_wf a (initialization_failed e))) (\<lambda>_. update (fail a e True)))"
        using aware_safe [OF body] by (cases x) (auto intro: svc.safe_ret)
    qed
    then show ?thesis by (rule keepsI)
  qed
qed

lemma recovered_safe:
  "again = NoMore \<or> (\<exists>a. again = Clean a) \<Longrightarrow>
   worker_safe cfg me (\<lambda>s. free me s \<and> worker_ok again s) (recovered i again e poisoned)"
  unfolding worker_safe_def recovered_def
proof (rule svc.safe_bind [where R = "\<lambda>_ s. free me s \<and> worker_ok again s"])
  have P: "svc.stable cfg me (\<lambda>s. free me s \<and> worker_ok again s)" by (rule svc.stable_conj) simp_all
  show "safe_task cfg me (\<lambda>_ s. free me s \<and> worker_ok again s) (\<lambda>s. free me s \<and> worker_ok again s)
      (recover_task_failure i e poisoned)"
    by (rule svc.safe_frame [OF safe_recover [unfolded keeps_def]])
       (rule worker_ok_guar)
  assume "again = NoMore \<or> (\<exists>a. again = Clean a)"
  then show "safe_task cfg me (round_ok me) (\<lambda>s. free me s \<and> worker_ok again s)
      (reading (\<lambda>s. if background_fault s then NoMore else again))"
    by (intro svc.safe_reading) auto
qed

end
