(* ===== verification/Workflow_Reach.thy ===== *)
theory Workflow_Reach
  imports Workflow_Workers
begin

text \<open>Every reachable state of the whole service satisfies the invariant.\<close>

definition restartable :: "worker \<Rightarrow> bool" where
  "restartable r \<longleftrightarrow> r = NoMore \<or> (\<exists>a. r = Clean a)"

definition owners_ok :: "(nat \<times> nat \<times> worker) list \<Rightarrow> service \<Rightarrow> bool" where
  "owners_ok os s \<longleftrightarrow> (\<forall>x\<in>set os. worker_ok (snd (snd x)) s \<and> restartable (snd (snd x)))"

definition sys_ok :: "workflow_config \<Rightarrow> system \<Rightarrow> bool" where
  "sys_ok cfg x \<longleftrightarrow> service_ok cfg (srv x) \<and> svc.pool_ok cfg round_ok (srv x) (pool x) \<and>
     0 < next_task x \<and> (\<forall>i\<in>fst ` set (pool x). i < next_task x) \<and>
     (\<forall>i. i \<notin> fst ` set (pool x) \<longrightarrow> free i (srv x)) \<and>
     (owners_ok (owner x) (srv x))"

lemma managed_safe: "managed_task cfg me i t \<Longrightarrow> worker_safe cfg me (free me) t"
  by (induction rule: managed_task.induct)
     (auto intro: quietly_safe keeps_create keeps_push keeps_commit keeps_abort keeps_start keeps_stop keeps_finish keeps_cancel)

lemma request_safe: "request_task cfg me t \<Longrightarrow> worker_safe cfg me (free me) t"
  by (induction rule: request_task.induct)
     (auto intro: quietly_safe keeps_heartbeat keeps_transfers keeps_download keeps_sync_status keeps_session_info
        keeps_stdin keeps_output)

lemma worker_round_safe:
  assumes "worker_task cfg me r = Some t" shows "worker_safe cfg me (round_ok me r) t"
proof (cases "\<exists>a. r = CleanRound a")
  case True
  with assms show ?thesis using cleanup_round_safe by auto
next
  case False
  then have eq: "round_ok me r = (\<lambda>s. free me s \<and> worker_ok r s)" by (cases r) (auto simp: fun_eq_iff)
  have "worker_safe cfg me (\<lambda>s. free me s \<and> worker_ok r s) t"
  proof (cases r)
    case (Observe a sid)
    with assms show ?thesis using observe_safe [of cfg me a sid] by simp
  next
    case (Clean a)
    with assms show ?thesis using cleanup_start_safe [of cfg me a] by simp
  qed (use assms False in auto)
  then show ?thesis by (simp only: eq)
qed

lemma environment_gentle: "environment cfg s s' \<Longrightarrow> service_ok cfg s \<Longrightarrow> gentle cfg s s'"
proof (induction rule: environment.induct)
  case (env_session s m)
  then show ?case by (rule gentle_session [rotated])
next
  case (env_sync_upload s project k p len body interrupt)
  then show ?case by (metis gentle_on_sync prod.collapse)
next
  case (env_expire s)
  then show ?case using expire_ok unfolding gentle_def by blast
next
  case (env_prune s)
  then show ?case using prune_ok unfolding gentle_def by blast
next
  case (env_shutdown s)
  then show ?case using shutdown_start_ok unfolding gentle_def by blast
qed (simp_all add: gentle_def)

lemma free_others: "guar i s s' \<Longrightarrow> j \<noteq> i \<Longrightarrow> free j s \<Longrightarrow> free j s'"
  by (simp add: free_def guar_others)

lemma owner_guar:
  assumes "guar i s s'" "owners_ok os s"
  shows "owners_ok os s'"
  unfolding owners_ok_def
proof
  fix x assume "x \<in> set os"
  with assms(2) have "worker_ok (snd (snd x)) s" "restartable (snd (snd x))" by (simp_all add: owners_ok_def)
  with worker_ok_guar [OF assms(1)] show "worker_ok (snd (snd x)) s' \<and> restartable (snd (snd x))" by blast
qed

lemma fst_put: "fst ` set (put i t xs) = insert i (fst ` set xs)"
  by (force simp: put_def)

lemma fst_remove: "fst ` set (remove i xs) = fst ` set xs - {i}"
  by (force simp: remove_def)

lemma sys_okD:
  assumes "sys_ok cfg x"
  shows "service_ok cfg (srv x)" "svc.pool_ok cfg round_ok (srv x) (pool x)" "0 < next_task x"
    "\<And>i. i \<in> fst ` set (pool x) \<Longrightarrow> i < next_task x" "\<And>i. i \<notin> fst ` set (pool x) \<Longrightarrow> free i (srv x)"
    "owners_ok (owner x) (srv x)"
  using assms unfolding sys_ok_def by blast+

lemma sys_okI:
  "service_ok cfg s \<Longrightarrow> svc.pool_ok cfg round_ok s ts \<Longrightarrow> 0 < n \<Longrightarrow> (\<And>i. i \<in> fst ` set ts \<Longrightarrow> i < n) \<Longrightarrow>
   (\<And>i. i \<notin> fst ` set ts \<Longrightarrow> free i s) \<Longrightarrow>
   owners_ok os s \<Longrightarrow>
   sys_ok cfg \<lparr>srv = s, pool = ts, owner = os, next_task = n\<rparr>"
  by (simp add: sys_ok_def)

lemma gentle_step:
  assumes ok: "sys_ok cfg x" and g: "gentle cfg (srv x) s"
  shows "sys_ok cfg (x\<lparr>srv := s\<rparr>) \<and> (\<exists>i. guar i (srv x) s)"
proof -
  from g have s: "service_ok cfg s" "\<And>i. guar i (srv x) s" by (simp_all add: gentle_def)
  have "svc.pool_ok cfg round_ok s (pool x)"
    by (rule svc.pool_environment [OF _ _ s(1) s(2)]) (use ok in \<open>simp_all add: sys_ok_def\<close>)
  moreover have "free i s" if "i \<notin> fst ` set (pool x)" for i
    by (rule free_others [of "Suc i", OF s(2) _ sys_okD(5) [OF ok that]]) simp
  moreover have "owners_ok (owner x) s"
    by (rule owner_guar [OF s(2) [of 0] sys_okD(6) [OF ok]])
  ultimately have "sys_ok cfg (x\<lparr>srv := s\<rparr>)" using s(1) sys_okD(3,4) [OF ok] by (cases x) (auto intro!: sys_okI)
  with s(2) show ?thesis by blast
qed

lemma new_task_ok:
  assumes ok: "sys_ok cfg x" and t: "worker_safe cfg (next_task x) P t" "svc.stable cfg (next_task x) P" "P (srv x)"
    and o: "owners_ok os (srv x)"
  shows "sys_ok cfg (x\<lparr>pool := (next_task x, t) # pool x, owner := os, next_task := Suc (next_task x)\<rparr>)"
proof -
  have n: "next_task x \<notin> fst ` set (pool x)" "0 < next_task x" using ok by (auto simp: sys_ok_def)
  have "svc.pool_ok cfg round_ok (srv x) ((next_task x, t) # pool x)"
    by (rule svc.pool_add [where Q = round_ok and P = P])
       (use ok n t in \<open>simp_all add: sys_ok_def worker_safe_def\<close>)
  with ok o show ?thesis by (auto simp: sys_ok_def less_Suc_eq)
qed

lemma system_free: "sys_ok cfg x \<Longrightarrow> free (next_task x) (srv x)"
  using nat_neq_iff unfolding sys_ok_def by blast

lemma spawn_taken:
  assumes "service_ok cfg s" "spawned_tasks s = r # rs"
  shows "gentle cfg s (s\<lparr>spawned_tasks := rs\<rparr>)" "worker_ok r s"
  using assms by (auto simp: gentle_def service_ok_def registry_ok_def)

theorem sys_ok_step: "sys_step cfg x y \<Longrightarrow> sys_ok cfg x \<Longrightarrow> sys_ok cfg y \<and> (\<exists>i. guar i (srv x) (srv y))"
proof (induction rule: sys_step.induct)
  case (sys_managed x i t)
  have "sys_ok cfg (x\<lparr>pool := (next_task x, t) # pool x, owner := (next_task x, i, NoMore) # owner x,
      next_task := Suc (next_task x)\<rparr>)"
    by (rule new_task_ok [OF sys_managed(2) managed_safe [OF sys_managed(1)] stable_free system_free [OF sys_managed(2)]])
       (use sys_okD(6) [OF sys_managed(2)] in \<open>simp add: owners_ok_def restartable_def\<close>)
  then show ?case by (auto intro: guar_refl)
next
  case (sys_request x t)
  have "sys_ok cfg (x\<lparr>pool := (next_task x, t) # pool x, owner := owner x, next_task := Suc (next_task x)\<rparr>)"
    by (rule new_task_ok [OF sys_request(2) request_safe [OF sys_request(1)] stable_free system_free [OF sys_request(2)]])
       (use sys_request(2) in \<open>simp add: sys_ok_def\<close>)
  then show ?case by (auto intro: guar_refl)
next
  case (sys_spawn x r rs)
  let ?s = "(srv x)\<lparr>spawned_tasks := rs\<rparr>" let ?x = "x\<lparr>srv := ?s\<rparr>" let ?n = "next_task x"
  have so: "service_ok cfg (srv x)" using sys_spawn(2) by (simp add: sys_ok_def)
  note g = spawn_taken [OF so sys_spawn(1)]
  from gentle_step [OF sys_spawn(2) g(1)] have x: "sys_ok cfg ?x" "\<exists>i. guar i (srv x) ?s" by blast+
  have w: "worker_ok r ?s" using g(2) by simp
  have safe: "worker_safe cfg ?n (\<lambda>s. free ?n s \<and> worker_ok r s) (Ret r)"
    unfolding worker_safe_def by (rule svc.safe_ret) (cases r; simp)
  have st: "svc.stable cfg ?n (\<lambda>s. free ?n s \<and> worker_ok r s)" by (rule svc.stable_conj) simp_all
  have "sys_ok cfg (?x\<lparr>pool := (next_task ?x, Ret r) # pool ?x,
      owner := (?n, workflow_id (wf_info (wf (worker_address r) (srv x))), restart_of r) # owner x, next_task := Suc (next_task ?x)\<rparr>)"
  proof (rule new_task_ok [OF x(1)])
    show "free (next_task ?x) (srv ?x) \<and> worker_ok r (srv ?x)" using system_free [OF x(1)] w by simp
    show "owners_ok ((?n, workflow_id (wf_info (wf (worker_address r) (srv x))), restart_of r) # owner x) (srv ?x)"
      using sys_okD(6) [OF x(1)] w by (cases r) (simp_all add: owners_ok_def restartable_def)
  qed (use safe st in simp_all)
  with x(2) show ?case by simp
next
  case (sys_run i g x t s)
  from sys_run(3) have p: "svc.pool_ok cfg round_ok (srv x) (pool x)" "service_ok cfg (srv x)" by (simp_all add: sys_ok_def)
  from svc.pool_run [OF p sys_run(1,2)]
  have r: "service_ok cfg s" "guar i (srv x) s" "svc.pool_ok cfg round_ok s (put i t (pool x))" by (simp_all add: put_def)
  have i: "i \<in> fst ` set (pool x)" using sys_run(1) by force
  then have ids: "fst ` set (put i t (pool x)) = fst ` set (pool x)" by (auto simp: fst_put)
  have "free j s" if "j \<notin> fst ` set (pool x)" for j
    by (rule free_others [OF r(2) _ sys_okD(5) [OF sys_run(3) that]]) (use that i in auto)
  moreover have "owners_ok (owner x) s"
    by (rule owner_guar [OF r(2) sys_okD(6) [OF sys_run(3)]])
  ultimately have "sys_ok cfg (x\<lparr>srv := s, pool := put i t (pool x)\<rparr>)"
    using sys_run(3) r(1,3) unfolding sys_ok_def by (simp add: ids)
  with r(2) show ?case by auto
next
  case (sys_again i r x t)
  from sys_again(3) have p: "svc.pool_ok cfg round_ok (srv x) (pool x)" "service_ok cfg (srv x)" by (simp_all add: sys_ok_def)
  have "svc.pool_ok cfg round_ok (srv x) (put i t (pool x))"
    unfolding put_def
    by (rule svc.pool_again [OF p sys_again(1) stable_round])
       (use worker_round_safe [OF sys_again(2)] in \<open>simp add: worker_safe_def\<close>)
  moreover have "i \<in> fst ` set (pool x)" using sys_again(1) by force
  then have "fst ` set (put i t (pool x)) = fst ` set (pool x)" by (auto simp: fst_put)
  ultimately have "sys_ok cfg (x\<lparr>pool := put i t (pool x)\<rparr>)" using sys_again(3) by (simp add: sys_ok_def)
  then show ?case by (auto intro: guar_refl)
next
  case (sys_over i r x)
  from sys_over(3) have p: "svc.pool_ok cfg round_ok (srv x) (pool x)" "service_ok cfg (srv x)" by (simp_all add: sys_ok_def)
  have "r = NoMore" using sys_over(2) by (cases r) simp_all
  with svc.pool_value [OF p(1) sys_over(1)] have f: "free i (srv x)" by simp
  have "svc.pool_ok cfg round_ok (srv x) (remove i (pool x))"
    unfolding remove_def by (rule svc.pool_remove [OF p p(2) guar_refl])
  moreover have "owners_ok (remove i (owner x)) (srv x)"
    using sys_okD(6) [OF sys_over(3)] by (simp add: owners_ok_def remove_def)
  ultimately have "sys_ok cfg (x\<lparr>pool := remove i (pool x), owner := remove i (owner x)\<rparr>)"
    using sys_over(3) f by (auto simp: sys_ok_def fst_remove)
  then show ?case by (auto intro: guar_refl)
next
  case (sys_drop i x)
  note ok = sys_okD [OF sys_drop(2)]
  note u = unwind_ok [OF ok(1), of i]
  have p: "svc.pool_ok cfg round_ok (unwind i (srv x)) (remove i (pool x))"
    unfolding remove_def by (rule svc.pool_remove [OF ok(2,1)]) (use u in simp_all)
  have f: "free j (unwind i (srv x))" if "j \<notin> fst ` set (remove i (pool x))" for j
  proof (cases "j = i")
    case False
    with that have "j \<notin> fst ` set (pool x)" by (simp add: fst_remove)
    from free_others [of i, OF _ False ok(5) [OF this]] u show ?thesis by blast
  qed (use u in \<open>simp add: free_def\<close>)
  have "owners_ok (owner x) (unwind i' (srv x))" for i'
    using owner_guar [OF _ ok(6), of i'] unwind_ok [OF ok(1), of i'] by blast
  then have "sys_ok cfg (x\<lparr>srv := unwind i (srv x), pool := remove i (pool x)\<rparr>)"
    using sys_okI [OF conjunct1 [OF u] p ok(3) _ f] ok(4) by (cases x) (simp add: fst_remove)
  with u show ?case by auto
next
  case (sys_panic i t x w again e poisoned)
  let ?s = "unwind i (srv x)" let ?p = "put i (recovered w again e poisoned) (pool x)"
  note ok = sys_okD [OF sys_panic(3)]
  note u = unwind_ok [OF ok(1), of i]
  have i: "i \<in> fst ` set (pool x)" "0 < i" using sys_panic(1) ok(2) by (force simp: svc.pool_ok_def)+
  have ow: "owners_ok (owner x) ?s" by (rule owner_guar [OF _ ok(6), of i]) (use u in blast)
  with map_of_SomeD [OF sys_panic(2)] have a: "worker_ok again ?s" "restartable again" by (auto simp: owners_ok_def)
  have p: "svc.pool_ok cfg round_ok ?s ?p"
    unfolding put_def
  proof (rule svc.pool_add [OF svc.pool_remove [OF ok(2,1)]])
    show "svc.stable cfg i (\<lambda>s. free i s \<and> worker_ok again s)" by (rule svc.stable_conj) simp_all
    show "svc.safe cfg i (round_ok i) (\<lambda>s. free i s \<and> worker_ok again s) (recovered w again e poisoned)"
      using recovered_safe [OF a(2) [unfolded restartable_def]] by (simp add: worker_safe_def)
  qed (use u i a in \<open>auto simp: free_def\<close>)
  have ids: "fst ` set ?p = fst ` set (pool x)" using i by (auto simp: fst_put)
  have f: "free j ?s" if "j \<notin> fst ` set ?p" for j
    by (rule free_others [of i, OF _ _ ok(5)]) (use that i u ids in auto)
  have "sys_ok cfg (x\<lparr>srv := ?s, pool := ?p\<rparr>)"
    using sys_okI [OF conjunct1 [OF u] p ok(3) _ f ow] ok(4) ids by (cases x) simp
  with u show ?case by auto
next
  case (sys_environment x s)
  have "service_ok cfg (srv x)" using sys_environment(2) by (simp add: sys_ok_def)
  from gentle_step [OF sys_environment(2) environment_gentle [OF sys_environment(1) this]] show ?case by simp
next
  case (sys_close_sessions x)
  have so: "service_ok cfg (srv x)" using sys_close_sessions(4) by (simp add: sys_ok_def)
  from gentle_step [OF sys_close_sessions(4) gentle_session [OF so step_shutdown]] show ?case by simp
next
  case (sys_close_sync x)
  have "gentle cfg (srv x) ((srv x)\<lparr>sync_part := m\<rparr>)" for m using sys_close_sync(2) by (simp add: gentle_def sys_ok_def)
  from gentle_step [OF sys_close_sync(2) this] show ?case by simp
next
  case (sys_abort_sync x)
  have "gentle cfg (srv x) ((srv x)\<lparr>sync_part := m\<rparr>)" for m using sys_abort_sync(2) by (simp add: gentle_def sys_ok_def)
  from gentle_step [OF sys_abort_sync(2) this] show ?case by simp
qed

lemma sys_ok_new: "sys_ok cfg (system_new m)"
proof -
  have "sm_ok (wc_session cfg) manager_new" by (simp add: sm_ok_def manager_new_def)
  then show ?thesis
    by (simp add: sys_ok_def system_new_def service_new_def service_ok_def registry_ok_def registered_def
        all_named_def manager_new_def svc.pool_ok_def free_def locks_def leases_def owners_ok_def)
qed

section \<open>Runs\<close>

text \<open>What is true of a workflow at two moments of a run.\<close>

definition later :: "service \<Rightarrow> service \<Rightarrow> bool" where
  "later s s' \<longleftrightarrow> length (wf_heap s) \<le> length (wf_heap s') \<and>
     (\<forall>a<length (wf_heap s). identity_of (wf a s') = identity_of (wf a s) \<and>
        (final (wf_status (wf a s)) \<longrightarrow> wf_info (wf a s') = wf_info (wf a s)))"

lemma later_guar: "guar i s s' \<Longrightarrow> later s s'"
  by (auto simp: guar_def later_def wmove_def)

lemma later_trans: "later s t \<Longrightarrow> later t u \<Longrightarrow> later s u"
  unfolding later_def by (metis order.trans order_less_le_trans)

lemma sys_ok_steps: "sys_steps cfg x y \<Longrightarrow> sys_ok cfg x \<Longrightarrow> sys_ok cfg y \<and> later (srv x) (srv y)"
proof (induction rule: sys_steps.induct)
  case (sys_more x y z)
  then have "sys_ok cfg y \<and> later (srv x) (srv y)" by simp
  then have y: "sys_ok cfg y" "later (srv x) (srv y)" by simp_all
  from sys_ok_step [OF sys_more(2) y(1)] obtain i where "sys_ok cfg z" "guar i (srv y) (srv z)" by blast
  with later_trans [OF y(2) later_guar] show ?case by blast
next
  case (sys_refl x)
  then show ?case by (simp add: later_def)
qed

lemma wf_reachable_ok: "wf_reachable cfg x \<Longrightarrow> sys_ok cfg x"
  unfolding wf_reachable_def using sys_ok_steps sys_ok_new by blast

end
