(* ===== verification/Workflow_Cleanup.thy ===== *)
theory Workflow_Cleanup
  imports Workflow_Reach
begin

text \<open>
  A cleanup that was requested is not lost: a second reading of the tasks as \<open>rely_guarantee\<close>, for what
  happens to the list of tasks the service starts by itself. The worker of a cleanup gives up only when
  its workflow has ended or the service has recorded a permanent fault.
\<close>

section \<open>Steady sections\<close>

definition ends_known :: "service \<Rightarrow> bool" where
  "ends_known s \<longleftrightarrow> (\<forall>w\<in>set (wf_heap s). final (wf_status w) \<longrightarrow> wf_ended w \<noteq> None)"

definition has_ended :: "nat \<Rightarrow> service \<Rightarrow> bool" where
  "has_ended a s \<longleftrightarrow> a < length (wf_heap s) \<and> wf_ended (wf a s) \<noteq> None"

definition wants_cleanup :: "nat \<Rightarrow> service \<Rightarrow> bool" where
  "wants_cleanup a s \<longleftrightarrow> a < length (wf_heap s) \<and> cleanup_started (wf a s)"

definition steady :: "service \<Rightarrow> service \<Rightarrow> bool" where
  "steady s s' \<longleftrightarrow> length (wf_heap s) \<le> length (wf_heap s') \<and>
     (background_fault s \<longrightarrow> background_fault s') \<and>
     (\<forall>a. wants_cleanup a s' \<longrightarrow> wants_cleanup a s \<or> Clean a \<in> set (spawned_tasks s')) \<and>
     (\<forall>a. has_ended a s \<longrightarrow> has_ended a s')"

lemma steady_refl [simp]: "steady s s"
  by (simp add: steady_def)

text \<open>Only the environment, number 0, takes a task from the list and starts it.\<close>

definition steady_by :: "nat \<Rightarrow> service \<Rightarrow> service \<Rightarrow> bool" where
  "steady_by i s s' \<longleftrightarrow> steady s s' \<and> (i = 0 \<or> set (spawned_tasks s) \<subseteq> set (spawned_tasks s'))"

lemma steady_by_refl [simp]: "steady_by i s s"
  by (simp add: steady_by_def)

interpretation st: rely_guarantee ends_known steady_by
  by unfold_locales simp

definition mild :: "(workflow \<Rightarrow> workflow) \<Rightarrow> bool" where
  "mild f \<longleftrightarrow> (\<forall>w. (cleanup_started (f w) \<longrightarrow> cleanup_started w) \<and> (wf_ended w \<noteq> None \<longrightarrow> wf_ended (f w) \<noteq> None) \<and>
     (final (wf_status (f w)) \<longrightarrow> final (wf_status w) \<or> wf_ended (f w) \<noteq> None))"

definition even_step :: "service \<Rightarrow> service \<Rightarrow> bool" where
  "even_step s s' \<longleftrightarrow> (ends_known s \<longrightarrow> ends_known s' \<and> steady s s' \<and> set (spawned_tasks s) \<subseteq> set (spawned_tasks s'))"

lemma even_stepD: "even_step s s' \<Longrightarrow> ends_known s \<Longrightarrow> ends_known s' \<and> steady_by i s s'"
  by (simp add: even_step_def steady_by_def)

lemma even_refl [simp]: "even_step s s"
  by (simp add: even_step_def)

lemma even_trans: "even_step s t \<Longrightarrow> even_step t u \<Longrightarrow> even_step s u"
  unfolding even_step_def steady_def by (auto intro: order_trans)

lemma even_heap:
  assumes "wf_heap s' = wf_heap s" "background_fault s' = background_fault s \<or> background_fault s'"
    "set (spawned_tasks s) \<subseteq> set (spawned_tasks s')"
  shows "even_step s s'"
  using assms by (auto simp: even_step_def steady_def ends_known_def has_ended_def wants_cleanup_def wf_def)

lemma even_upd: "mild f \<Longrightarrow> even_step s (upd_wf a f s)"
  by (auto simp: even_step_def steady_def ends_known_def has_ended_def wants_cleanup_def mild_def all_set_conv_all_nth
      simp flip: wf_def split: if_splits)

lemma core_mild: "(\<And>w. core (f w) = core w) \<Longrightarrow> mild f"
  unfolding mild_def core_def by auto

lemma mild_locks [simp]: "mild (take_lock i)" "mild drop_lock" "mild (drop_lease i)" "mild (\<lambda>w. w\<lparr>readers := i # readers w\<rparr>)"
  by (simp_all add: mild_def take_lock_def drop_lock_def drop_lease_def)

lemma mild_updates [simp]:
  "mild close_plan" "mild (record_plan k d)" "mild committed" "mild (report_error e)" "mild (initialized r)"
  "mild (initialization_failed e)" "mild (beat t)" "mild (cleanup_due_error e)"
  "mild (\<lambda>w. if b w then close_plan w else w)"
  by (rule core_mild, simp)+

lemma mild_phases [simp]: "mild (session_started t i)" "mild (session_succeeded t)" "mild (end_workflow t next e full)"
  by (auto simp: mild_def session_started_def session_succeeded_def end_workflow_def transition_def upd_info_def Let_def
      close_plan_def report_error_def split: option.splits)

section \<open>Sections\<close>

lemma even_calls [simp]: "even_step s (snd (on_sync f s))" "even_step s (snd (on_sessions h s))"
  by (auto simp: on_sync_def on_sessions_def split: prod.splits intro!: even_heap)

lemma even_wait: "sync_wait f s = Some (r, s') \<Longrightarrow> even_step s s'"
  by (auto simp: sync_wait_def split: prod.splits option.splits intro!: even_heap)

lemma even_request [simp]: "even_step s (request_cleanup a reason target e invalidate s)"
proof (cases "final (wf_status (wf a s)) \<or> wf_active s \<noteq> Some (workflow_id (wf_info (wf a s)))")
  case False
  let ?f = "stop_workflow (instant_of s) reason target e invalidate"
  have f: "wf_ended (?f w) = wf_ended w" "wf_status (?f w) = WfStopping" "cleanup_started w \<Longrightarrow> cleanup_started (?f w)" for w
    by simp_all
  show ?thesis
  proof (cases "cleanup_started (wf a s)")
    case True
    with False show ?thesis using f
      by (auto simp: request_cleanup_def even_step_def steady_def ends_known_def has_ended_def wants_cleanup_def
          all_set_conv_all_nth Let_def simp flip: wf_def split: if_splits)
  next
    case not: False
    with False show ?thesis using f
      by (auto simp: request_cleanup_def even_step_def steady_def ends_known_def has_ended_def wants_cleanup_def
          all_set_conv_all_nth Let_def spawn_def simp flip: wf_def split: if_splits)
  qed
qed (auto simp: request_cleanup_def Let_def)

lemma even_fail [simp]: "even_step s (fail a e invalidate s)"
  by (simp add: fail_def)

lemma even_release [simp]: "even_step s (release_of cfg w s)"
  by (auto simp: release_of_def split: option.splits)

lemma even_slot [simp]: "even_step s (s\<lparr>wf_active := slot\<rparr>)" "even_step s (s\<lparr>wf_entries := es\<rparr>)"
  "even_step s (s\<lparr>wf_active := slot, wf_entries := es\<rparr>)" "even_step s (s\<lparr>wf_stopping := b\<rparr>)"
  "even_step s (s\<lparr>sync_part := m\<rparr>)" "even_step s (s\<lparr>session_part := n\<rparr>)" "even_step s (s\<lparr>background_fault := True\<rparr>)"
  "even_step s (spawn r s)"
  by (auto intro!: even_heap simp: spawn_def)

lemma even_terminate [simp]: "even_step s (snd (terminate cfg a next e full s))"
proof -
  let ?t = "release_of cfg (wf a s) (upd_wf a (end_workflow (instant_of s) next e full) s)"
  have "even_step s ?t" by (rule even_trans [OF even_upd even_release]) simp
  moreover have "even_step ?t (?t\<lparr>wf_active := None\<rparr>)" by simp
  ultimately show ?thesis using even_trans by (auto simp: terminate_def Let_def)
qed

lemma even_heartbeat [simp]: "even_step s (snd (heartbeat_of i s))"
  by (auto simp: heartbeat_of_def Let_def split: sum.splits intro: even_upd)

lemma even_expire [simp]: "even_step s (expire_active cfg s)"
  by (auto simp: expire_active_def Let_def split: option.splits)

lemma even_prune [simp]: "even_step s (prune_workflows cfg s)"
  by (simp add: prune_workflows_def)

lemma even_shutdown [simp]: "even_step s (shutdown_start s)"
proof -
  have "even_step s (request_cleanup a ServiceShutdown WfCancelled None False (s\<lparr>wf_stopping := True\<rparr>))" for a
    by (rule even_trans [OF even_slot(4) even_request])
  then show ?thesis by (auto simp: shutdown_start_def Let_def split: option.splits)
qed

lemma even_alloc [simp]: "even_step s (snd (alloc me i req s))"
  by (auto simp: alloc_def even_step_def steady_def ends_known_def has_ended_def wants_cleanup_def wf_def nth_append
      new_workflow_def take_lock_def split: if_splits)

lemma even_reserve [simp]: "even_step s (snd (reserve i req a s))"
  by (auto simp: reserve_def split: option.splits)

lemma even_enter: "enter_lease me allowed seen a s = Some (r, s') \<Longrightarrow> even_step s s'"
  by (auto simp: enter_lease_def Let_def split: if_splits intro!: even_upd)

lemma even_unwind [simp]: "even_step s (unwind i s)"
  by (auto simp: unwind_def even_step_def steady_def ends_known_def has_ended_def wants_cleanup_def wf_def drop_lease_def
      drop_lock_def Let_def split: if_splits)

section \<open>Tasks\<close>

abbreviation even_task :: "nat \<Rightarrow> ('a, service) task \<Rightarrow> bool" where
  "even_task i t \<equiv> st.safe i (\<lambda>_ _. True) (\<lambda>_. True) t"

lemma even_Ret [simp]: "even_task i (Ret r)"
  by (rule st.safe_ret) simp

lemma even_bindT: "even_task i t \<Longrightarrow> (\<And>r. even_task i (f r)) \<Longrightarrow> even_task i (bindT t f)"
  by (rule st.safe_bind)

lemma even_bindR: "even_task i t \<Longrightarrow> (\<And>r. even_task i (f r)) \<Longrightarrow> even_task i (bindR t f)"
  by (rule st.safe_bindR) simp_all

lemma even_waiting: "(\<And>s r s'. f s = Some (r, s') \<Longrightarrow> even_step s s') \<Longrightarrow> even_task i (waiting f)"
  by (rule st.safe_waiting) (auto dest: even_stepD)

lemma even_atomic: "(\<And>s. even_step s (snd (f s))) \<Longrightarrow> even_task i (atomic f)"
  unfolding atomic_def by (rule even_waiting) (metis option.inject snd_conv)

lemma even_update: "(\<And>s. even_step s (f s)) \<Longrightarrow> even_task i (update f)"
  unfolding update_def by (rule even_atomic) simp

lemma even_reading [simp]: "even_task i (reading f)"
  unfolding reading_def by (rule even_atomic) simp

lemma even_cases:
  "(\<And>e. even_task i (f e)) \<Longrightarrow> (\<And>r. even_task i (g r)) \<Longrightarrow> even_task i (case x of Inl e \<Rightarrow> f e | Inr r \<Rightarrow> g r)"
  "even_task i u \<Longrightarrow> (\<And>y. even_task i (h y)) \<Longrightarrow> even_task i (case z of None \<Rightarrow> u | Some y \<Rightarrow> h y)"
  "even_task i t \<Longrightarrow> even_task i t' \<Longrightarrow> even_task i (if b then t else t')"
  "(\<And>y y'. even_task i (k y y')) \<Longrightarrow> even_task i (case p of (y, y') \<Rightarrow> k y y')"
  by (auto split: sum.splits option.splits prod.splits)

lemma even_parts [simp]:
  "even_task i (snapshot a)" "even_task i (checked a c)" "even_task i (acquire j a)" "even_task i (try_acquire j a)"
  "even_task i (unlock a)" "even_task i (on_project cfg f)" "even_task i (marked cfg b project)"
  by (auto simp: snapshot_def checked_def acquire_def try_acquire_def unlock_def on_project_def marked_def
      intro!: even_waiting even_atomic even_update even_upd split: if_splits)

lemma even_waits [simp]:
  "even_task i (waiting (sync_wait f))" "even_task i (interruptible a b (on_sync g))" "even_task i (stream_body a b)"
  "even_task i (waiting (enter_lease j allowed seen a))" "even_task i (waiting (input_answer sid late n))"
  "even_task i (wait_initialized a)"
proof -
  show "even_task i (interruptible a b (on_sync g))"
    unfolding interruptible_def by (rule even_waiting) (metis even_calls(1) even_refl option.distinct(1) option.inject snd_conv)
qed (auto simp: stream_body_def wait_initialized_def input_answer_def Let_def
      intro!: even_waiting intro: even_wait even_enter split: if_splits option.splits prod.splits sum.splits)

lemmas even_steps = even_bindT even_bindR even_cases even_atomic even_update even_upd

lemma even_holding: "even_task i t \<Longrightarrow> even_task i (holding a t)"
  unfolding holding_def by (intro even_steps) simp_all

lemma even_locked: "even_task i t \<Longrightarrow> even_task i (locked j a t)"
  unfolding locked_def by (intro even_steps even_holding) simp_all

lemma even_managed: "even_task i t \<Longrightarrow> even_task i (managed h t)"
  unfolding managed_def by (intro even_steps) simp_all

lemma even_exclusive: "(\<And>a. even_task i (f a)) \<Longrightarrow> even_task i (exclusive h j k f)"
  unfolding exclusive_def by (intro even_managed even_locked even_steps) simp_all

lemma even_lease: "(\<And>a. even_task i (f a)) \<Longrightarrow> even_task i (with_lease j k allowed seen f)"
  unfolding with_lease_def by (intro even_steps) simp_all

lemma even_failing [simp]: "even_task i (failing a e b)"
  unfolding failing_def by (intro even_steps) simp_all

lemma even_refresh [simp]: "even_task i (refresh_open_sync cfg a)"
  unfolding refresh_open_sync_def plan_over_def by (intro even_steps) (auto split: app_error.splits intro!: even_steps)

lemma even_create [simp]: "even_task i (workflow_create cfg me k req h)"
  unfolding workflow_create_def initialize_workflow_def inspect_project_def
  by (intro even_steps even_managed even_holding) simp_all

lemma even_plans [simp]:
  "even_task i (workflow_push_plan cfg me k r h)" "even_task i (workflow_commit cfg me k p h)"
  "even_task i (workflow_abort_sync cfg me k p)"
  unfolding workflow_push_plan_def plan_uploads_def workflow_commit_def commit_plan_of_def commit_open_def commit_failed_def
    restore_marker_def workflow_abort_sync_def abort_plan_def
  by (intro even_exclusive even_steps; simp)+

lemma even_look: "(\<And>s r s'. f s = Some (r, s') \<Longrightarrow> s' = s) \<Longrightarrow> even_task i (waiting f)"
  by (rule even_waiting) (metis even_refl)

lemma even_calls_of [simp]: "even_task i (atomic (on_sync f))" "even_task i (atomic (on_sessions h))"
  "even_task i (atomic (terminate cfg a next e full))" "even_task i (atomic (heartbeat_of k))"
  by (simp_all add: even_atomic)

lemma even_create_vivado [simp]: "even_task i (create_vivado cfg k project args h late)"
  unfolding create_vivado_def by (intro even_bindR even_look) (auto split: option.splits)

lemma even_start [simp]: "even_task i (workflow_start_session cfg me k args h h' late)"
  unfolding workflow_start_session_def run_vivado_def by (intro even_exclusive even_steps) simp_all

lemma even_stop [simp]: "even_task i (workflow_stop_session cfg k)"
  unfolding workflow_stop_session_def by (intro even_managed even_steps) simp_all

lemma even_stdin [simp]: "even_task i (workflow_stdin cfg k inp h late)"
  unfolding workflow_stdin_def send_stdin_def by (intro even_steps) simp_all

lemma even_output [simp]: "even_task i (workflow_output cfg k cursor timeout)"
  unfolding workflow_output_def by (intro even_bindR even_bindT even_look) auto

lemma even_session_info [simp]: "even_task i (session_info_of cfg k)" "even_task i (sync_status_of k p)"
  unfolding session_info_of_def sync_status_of_def by (intro even_steps; simp)+

lemma even_observe [simp]: "even_task i (observe_session cfg me a sid)"
  unfolding observe_session_def session_over_def by (intro even_locked even_steps) simp_all

lemma even_ends [simp]: "even_task i (workflow_finish cfg me k)" "even_task i (workflow_cancel k)"
  unfolding workflow_finish_def finish_pulling_def workflow_cancel_def
  by (intro even_managed even_holding even_steps; simp)+

lemma even_transfers [simp]:
  "even_task i (manifest_of cfg me k inc exc seen taken)" "even_task i (upload cfg me k p q len body interrupt seen taken)"
  "even_task i (pull_plan cfg me k r seen taken)" "even_task i (download cfg me k p im seen taken over)"
  "even_task i (head_download cfg me k p im seen taken)"
  unfolding manifest_of_def upload_def pull_plan_def download_def head_download_def
  by (intro even_lease even_steps; simp)+

lemma even_recover [simp]: "even_task i (recover_task_failure k e poisoned)"
  unfolding recover_task_failure_def by (intro even_steps) simp_all

lemma even_quietly: "even_task i t \<Longrightarrow> even_task i (quietly t)"
  unfolding quietly_def by (intro even_steps) simp_all

lemma even_managed_task: "managed_task cfg me k t \<Longrightarrow> even_task i t"
  by (induction rule: managed_task.induct) (simp_all add: even_quietly)

lemma even_request_task: "request_task cfg me t \<Longrightarrow> even_task i t"
  by (induction rule: request_task.induct) (simp_all add: even_quietly)

section \<open>The worker of a cleanup\<close>

text \<open>What the worker of the cleanup of \<open>a\<close> may return.\<close>

definition on_duty :: "nat \<Rightarrow> worker \<Rightarrow> service \<Rightarrow> bool" where
  "on_duty a r s \<longleftrightarrow> a < length (wf_heap s) \<and>
     (r = Clean a \<or> r = CleanRound a \<or> (r = NoMore \<and> (has_ended a s \<or> background_fault s)))"

abbreviation duty_task :: "nat \<Rightarrow> nat \<Rightarrow> (service \<Rightarrow> bool) \<Rightarrow> worker wtask \<Rightarrow> bool" where
  "duty_task i a P t \<equiv> st.safe i (on_duty a) P t"

lemma steadyD: "steady_by i s t \<Longrightarrow> has_ended a s \<Longrightarrow> has_ended a t"
  "steady_by i s t \<Longrightarrow> background_fault s \<Longrightarrow> background_fault t"
  "steady_by i s t \<Longrightarrow> a < length (wf_heap s) \<Longrightarrow> a < length (wf_heap t)"
  by (simp_all add: steady_by_def steady_def)

lemma stable_duty [simp]: "st.stable i (on_duty a r)" "st.stable i (has_ended a)" "st.stable i (\<lambda>s. background_fault s)"
  "st.stable i (\<lambda>s. a < length (wf_heap s))"
  using steadyD unfolding st.stable_def on_duty_def by blast+

lemma stable_imp [simp]: "st.stable i P \<Longrightarrow> st.stable i (\<lambda>s. b \<longrightarrow> P s)"
  unfolding st.stable_def by blast

lemma duty_bind:
  assumes "even_task i t" "\<And>r. duty_task i a (\<lambda>s. a < length (wf_heap s)) (f r)"
  shows "duty_task i a (\<lambda>s. a < length (wf_heap s)) (bindT t f)"
proof (rule st.safe_bind [OF _ assms(2)])
  have "st.safe i (\<lambda>_ s. True \<and> a < length (wf_heap s)) (\<lambda>s. True \<and> a < length (wf_heap s)) t"
    by (rule st.safe_frame [OF assms(1)]) (rule steadyD(3))
  then show "st.safe i (\<lambda>_ s. a < length (wf_heap s)) (\<lambda>s. a < length (wf_heap s)) t" by simp
qed

lemma duty_Ret: "(\<And>s. P s \<Longrightarrow> on_duty a r s) \<Longrightarrow> duty_task i a P (Ret r)"
  by (rule st.safe_ret)

lemma duty_over: "duty_task i a (has_ended a) (holding a (Ret NoMore))"
proof -
  have "st.safe i (\<lambda>_. has_ended a) (has_ended a) (unlock a)"
    unfolding unlock_def
  proof (rule st.safe_update)
    fix s assume s: "ends_known s" "has_ended a s"
    have "even_step s (upd_wf a drop_lock s)" by (rule even_upd) simp
    with s show "ends_known (upd_wf a drop_lock s) \<and> steady_by i s (upd_wf a drop_lock s) \<and> has_ended a (upd_wf a drop_lock s)"
      using even_stepD steadyD(1) by blast
  qed simp
  then show ?thesis unfolding holding_def
    by (auto intro!: st.safe_bind [where R = "\<lambda>_. has_ended a"] st.safe_ret simp: on_duty_def has_ended_def)
qed

lemma terminate_ends:
  assumes "terminate cfg a next e full s = (True, s')" "ends_known s" "a < length (wf_heap s)"
  shows "has_ended a s'"
proof (cases "final (wf_status (wf a s))")
  case True
  with assms have "s' = s" by (auto simp: terminate_def Let_def split: if_splits)
  with True assms show ?thesis by (auto simp: has_ended_def ends_known_def wf_def)
next
  case False
  let ?u = "upd_wf a (end_workflow (instant_of s) next e full) s"
  have "has_ended a ?u" using assms(3) by (simp add: has_ended_def)
  moreover have "wf_heap (release_of cfg (wf a s) ?u) = wf_heap ?u"
    by (auto simp: release_of_def on_sessions_def split: option.splits prod.splits)
  ultimately show ?thesis using assms(1) False
    by (auto simp: terminate_def Let_def has_ended_def wf_def split: if_splits)
qed

lemma duty_end: "duty_task i a (\<lambda>s. a < length (wf_heap s)) (end_cleanup cfg a b clean)"
proof -
  have t: "st.safe i (\<lambda>r s. a < length (wf_heap s) \<and> (r \<longrightarrow> has_ended a s)) (\<lambda>s. a < length (wf_heap s)) (atomic (terminate cfg a nxt e full))"
    for nxt e full
  proof (rule st.safe_atomic)
    fix s r s' assume s: "ends_known s" "a < length (wf_heap s)" "terminate cfg a nxt e full s = (r, s')"
    have "even_step s s'" using even_terminate [of s cfg a nxt e full] s(3) by simp
    with s show "ends_known s' \<and> steady_by i s s' \<and> a < length (wf_heap s') \<and> (r \<longrightarrow> has_ended a s')"
      using terminate_ends [of cfg a nxt e full s s'] even_stepD [of s s' i] steadyD(3) [of i s s' a] by (cases r) auto
    next
    show "st.stable i (\<lambda>s. a < length (wf_heap s) \<and> (r \<longrightarrow> has_ended a s))" for r
      by (rule st.stable_conj) simp_all
  qed
  have "duty_task i a (\<lambda>s. a < length (wf_heap s))
      (bindT (atomic (terminate cfg a nxt e full)) (\<lambda>b. if b then holding a (Ret NoMore) else Ret (CleanRound a)))" for nxt e full
    by (rule st.safe_bind [OF t]) (auto intro!: duty_Ret st.safe_pre [OF duty_over] simp: on_duty_def)
  then show ?thesis unfolding end_cleanup_def by (intro duty_bind) (auto intro!: duty_Ret simp: on_duty_def)
qed

lemma even_attempt: "even_task i (cleanup_attempt cfg info reason b)"
  unfolding cleanup_attempt_def stop_vivado_def by (intro even_steps) simp_all

lemma even_cleanup: "even_task i (cleanup_round cfg a)" "even_task i (cleanup_workflow j a)"
  unfolding cleanup_round_def end_cleanup_def cleanup_workflow_def
  by (intro even_steps even_holding even_attempt; simp)+

lemma duty_round: "duty_task i a (\<lambda>s. a < length (wf_heap s)) (cleanup_round cfg a)"
proof -
  have t: "st.safe i (\<lambda>info s. a < length (wf_heap s) \<and> (final (wi_status info) \<longrightarrow> has_ended a s))
      (\<lambda>s. a < length (wf_heap s)) (snapshot a)"
    unfolding snapshot_def
  proof (rule st.safe_reading)
    show "st.stable i (\<lambda>s. a < length (wf_heap s) \<and> (final (wi_status info) \<longrightarrow> has_ended a s))" for info
      by (rule st.stable_conj) simp_all
  qed (simp add: ends_known_def has_ended_def wf_def)
  have "duty_task i a (\<lambda>s. a < length (wf_heap s))
     (bindT (checked a (\<lambda>w. (cleanup_reason w, invalidate_project w))) (\<lambda>(reason, invalidate).
       bindT (cleanup_attempt cfg info reason invalidate) (\<lambda>r.
       case r of
         Inr clean \<Rightarrow> end_cleanup cfg a invalidate clean
       | Inl e \<Rightarrow> bindT (update (upd_wf a (report_error e))) (\<lambda>_. Ret (CleanRound a)))))" for info
    by (intro duty_bind; auto simp: even_attempt on_duty_def intro!: duty_bind duty_Ret duty_end even_update even_upd split: sum.splits prod.splits)
  then show ?thesis unfolding cleanup_round_def
    by (intro st.safe_bind [OF t]) (auto intro: st.safe_pre [OF duty_over] st.safe_pre)
qed

lemma duty_start: "duty_task i a (\<lambda>s. a < length (wf_heap s)) (cleanup_workflow me a)"
  unfolding cleanup_workflow_def by (rule duty_bind) (auto intro!: duty_Ret simp: on_duty_def)

lemma duty_recovered: "duty_task i a (\<lambda>s. a < length (wf_heap s)) (recovered j (Clean a) e poisoned)"
  unfolding recovered_def
proof (rule duty_bind)
  show "duty_task i a (\<lambda>s. a < length (wf_heap s)) (reading (\<lambda>s. if background_fault s then NoMore else Clean a))"
    by (rule st.safe_reading) (auto simp: on_duty_def)
qed simp

section \<open>The system\<close>

definition duty_of :: "(nat \<times> nat \<times> worker) list \<Rightarrow> nat \<Rightarrow> worker \<Rightarrow> service \<Rightarrow> bool" where
  "duty_of os i r s \<longleftrightarrow> (\<forall>w a. map_of os i = Some (w, Clean a) \<longrightarrow> on_duty a r s)"

text \<open>Some worker has the cleanup of \<open>a\<close>, or is about to be started for it.\<close>

definition in_charge :: "system \<Rightarrow> nat \<Rightarrow> bool" where
  "in_charge x a \<longleftrightarrow> Clean a \<in> set (spawned_tasks (srv x)) \<or>
     (\<exists>i w. map_of (owner x) i = Some (w, Clean a) \<and> i \<in> fst ` set (pool x))"

definition cleaned :: "system \<Rightarrow> bool" where
  "cleaned x \<longleftrightarrow> ends_known (srv x) \<and> st.pool_ok (duty_of (owner x)) (srv x) (pool x) \<and>
     (\<forall>i\<in>fst ` set (owner x). i < next_task x) \<and>
     (\<forall>a. wants_cleanup a (srv x) \<longrightarrow> has_ended a (srv x) \<or> background_fault (srv x) \<or> in_charge x a)"

lemma cleanedD:
  assumes "cleaned x"
  shows "ends_known (srv x)" "st.pool_ok (duty_of (owner x)) (srv x) (pool x)"
    "wants_cleanup a (srv x) \<Longrightarrow> has_ended a (srv x) \<or> background_fault (srv x) \<or> in_charge x a"
    "i \<in> fst ` set (owner x) \<Longrightarrow> i < next_task x"
  using assms unfolding cleaned_def by blast+

lemma stable_duty_of [simp]: "st.stable i (duty_of os j r)"
  using stable_duty(1) [of i] unfolding st.stable_def duty_of_def by blast

lemma off_duty: "(\<And>w a. map_of os i \<noteq> Some (w, Clean a)) \<Longrightarrow> even_task i t \<Longrightarrow> st.safe i (duty_of os i) (\<lambda>_. True) t"
  by (rule st.safe_post) (auto simp: duty_of_def)

lemma on_duty_task: "map_of os i = Some (w, Clean a) \<Longrightarrow> duty_task i a P t \<Longrightarrow> st.safe i (duty_of os i) P t"
  by (rule st.safe_post) (auto simp: duty_of_def)

lemma pool_duty_cong:
  "st.pool_ok (duty_of os) s ts \<Longrightarrow> (\<And>i. i \<in> fst ` set ts \<Longrightarrow> map_of os' i = map_of os i) \<Longrightarrow> st.pool_ok (duty_of os') s ts"
  unfolding st.pool_ok_def duty_of_def by fastforce

text \<open>A step that keeps every worker where it is.\<close>

lemma cleaned_kept:
  assumes "cleaned x" "steady_by i (srv x) s" "0 < i \<or> set (spawned_tasks (srv x)) \<subseteq> set (spawned_tasks s)"
    "ends_known s" "st.pool_ok (duty_of os) s ts"
    "\<And>j w a. map_of (owner x) j = Some (w, Clean a) \<Longrightarrow> j \<in> fst ` set (pool x) \<Longrightarrow>
       (map_of os j = Some (w, Clean a) \<and> j \<in> fst ` set ts) \<or> has_ended a s \<or> background_fault s"
    "\<And>j. j \<in> fst ` set os \<Longrightarrow> j < n"
  shows "cleaned \<lparr>srv = s, pool = ts, owner = os, next_task = n\<rparr>"
proof -
  have k: "set (spawned_tasks (srv x)) \<subseteq> set (spawned_tasks s)" using assms(2,3) by (auto simp: steady_by_def)
  have "has_ended a s \<or> background_fault s \<or> in_charge \<lparr>srv = s, pool = ts, owner = os, next_task = n\<rparr> a"
    if w: "wants_cleanup a s" for a
  proof (cases "Clean a \<in> set (spawned_tasks s)")
    case False
    then have "wants_cleanup a (srv x)" "Clean a \<notin> set (spawned_tasks (srv x))"
      using w assms(2) k by (auto simp: steady_by_def steady_def)
    with cleanedD(3) [OF assms(1)]
    consider "has_ended a (srv x)" | "background_fault (srv x)"
      | j v where "map_of (owner x) j = Some (v, Clean a)" "j \<in> fst ` set (pool x)"
      unfolding in_charge_def by blast
    then show ?thesis
    proof cases
      case (3 j v)
      from assms(6) [OF this] show ?thesis by (auto simp: in_charge_def)
    qed (use steadyD(1,2) [OF assms(2)] in blast)+
  qed (simp add: in_charge_def)
  with assms(4,5,7) show ?thesis by (simp add: cleaned_def)
qed

lemma worker_duty:
  assumes "worker_task cfg i r = Some t" shows "st.safe i (duty_of os i) (duty_of os i r) t"
proof (cases "\<exists>w a. map_of os i = Some (w, Clean a)")
  case True
  then obtain w a where m: "map_of os i = Some (w, Clean a)" by blast
  have l: "duty_of os i r s \<Longrightarrow> a < length (wf_heap s)" "duty_of os i r s \<Longrightarrow> r = Clean a \<or> r = CleanRound a \<or> r = NoMore" for s
    using m by (auto simp: duty_of_def on_duty_def)
  show ?thesis
  proof (cases "r = Clean a \<or> r = CleanRound a")
    case True
    with assms have "duty_task i a (\<lambda>s. a < length (wf_heap s)) t" using duty_start duty_round by auto
    from st.safe_pre [OF on_duty_task [OF m this]] l(1) show ?thesis by blast
  next
    case False
    with assms l(2) have "\<not> duty_of os i r s" for s by (cases r) auto
    then show ?thesis using st.safe_pre [OF st.safe_false] by blast
  qed
next
  case False
  have "even_task i t"
    using assms even_cleanup by (cases r) auto
  with False show ?thesis by (intro st.safe_pre [OF off_duty]) auto
qed

lemma even_environment: "environment cfg s s' \<Longrightarrow> even_step s s'"
  by (induction rule: environment.induct) simp_all

lemma even_duty: "even_step s s' \<Longrightarrow> cleaned x \<Longrightarrow> srv x = s \<Longrightarrow> cleaned (x\<lparr>srv := s'\<rparr>)"
proof -
  assume e: "even_step s s'" and x: "cleaned x" "srv x = s"
  note k = even_stepD [OF e, of 0, folded x(2), OF cleanedD(1) [OF x(1)]]
  have "cleaned \<lparr>srv = s', pool = pool x, owner = owner x, next_task = next_task x\<rparr>"
  proof (rule cleaned_kept [OF x(1), where i = 0])
    show "st.pool_ok (duty_of (owner x)) s' (pool x)"
      by (rule st.pool_environment [OF cleanedD(2,1) [OF x(1)]]) (use k in simp_all)
  qed (use k e cleanedD(1,4) [OF x(1)] x(2) in \<open>simp_all add: even_step_def\<close>)
  then show ?thesis by (cases x) simp
qed

text \<open>A new task.\<close>

lemma cleaned_new:
  assumes "cleaned x" "0 < next_task x" "next_task x \<notin> fst ` set (pool x)"
    "st.safe (next_task x) (duty_of os (next_task x)) P t" "st.stable (next_task x) P" "P (srv x)"
    "os = owner x \<or> os = (next_task x, w, c) # owner x"
  shows "cleaned \<lparr>srv = srv x, pool = (next_task x, t) # pool x, owner = os, next_task = Suc (next_task x)\<rparr>"
proof (rule cleaned_kept [OF assms(1), where i = 1])
  have m: "map_of os i = map_of (owner x) i" if "i \<in> fst ` set (pool x)" for i
    using that assms(3,7) by (cases "i = next_task x") auto
  have "st.pool_ok (duty_of os) (srv x) (pool x)"
    by (rule pool_duty_cong [OF cleanedD(2) [OF assms(1)]]) (rule m)
  then show "st.pool_ok (duty_of os) (srv x) ((next_task x, t) # pool x)"
    by (rule st.pool_add [where Q = "duty_of os" and P = P]) (use assms in simp_all)
  show "(map_of os j = Some (v, Clean a) \<and> j \<in> fst ` set ((next_task x, t) # pool x)) \<or> has_ended a (srv x) \<or> background_fault (srv x)"
    if "map_of (owner x) j = Some (v, Clean a)" "j \<in> fst ` set (pool x)" for j v a
    using that m by auto
  show "j < Suc (next_task x)" if "j \<in> fst ` set os" for j
    using that assms(7) cleanedD(4) [OF assms(1), of j] by (force intro: less_SucI)
qed (use assms(1) cleanedD(1) in simp_all)

lemma fresh_number:
  assumes "sys_ok cfg x" "cleaned x"
  shows "0 < next_task x" "next_task x \<notin> fst ` set (pool x)" "map_of (owner x) (next_task x) = None"
  using sys_okD(3,4) [OF assms(1)] cleanedD(4) [OF assms(2)] by (auto simp: map_of_eq_None_iff)

text \<open>A task of the pool goes on as another one.\<close>

lemma cleaned_put:
  assumes "cleaned x" "steady_by i (srv x) s" "0 < i \<or> set (spawned_tasks (srv x)) \<subseteq> set (spawned_tasks s)" "ends_known s"
    "st.pool_ok (duty_of (owner x)) s (put i t (pool x))"
  shows "cleaned (x\<lparr>srv := s, pool := put i t (pool x)\<rparr>)"
proof -
  have "cleaned \<lparr>srv = s, pool = put i t (pool x), owner = owner x, next_task = next_task x\<rparr>"
    by (rule cleaned_kept [OF assms]) (use cleanedD(4) [OF assms(1)] in \<open>auto simp: fst_put\<close>)
  then show ?thesis by (cases x) simp
qed

lemma map_of_remove: "map_of (remove i os) j = (if j = i then None else map_of os j)"
  by (induction os) (auto simp: remove_def)

theorem cleaned_step: "sys_step cfg x y \<Longrightarrow> sys_ok cfg x \<Longrightarrow> cleaned x \<Longrightarrow> cleaned y"
proof (induction rule: sys_step.induct)
  case (sys_managed x i t)
  note n = fresh_number [OF sys_managed(2,3)]
  have "st.safe (next_task x) (duty_of ((next_task x, i, NoMore) # owner x) (next_task x)) (\<lambda>_. True) t"
    by (rule off_duty [OF _ even_managed_task [OF sys_managed(1)]]) simp
  from cleaned_new [OF sys_managed(3) n(1,2) this] show ?case by (cases x) simp
next
  case (sys_request x t)
  note n = fresh_number [OF sys_request(2,3)]
  have "st.safe (next_task x) (duty_of (owner x) (next_task x)) (\<lambda>_. True) t"
    by (rule off_duty [OF _ even_request_task [OF sys_request(1)]]) (simp add: n(3))
  from cleaned_new [OF sys_request(3) n(1,2) this] show ?case by (cases x) simp
next
  case (sys_spawn x r rs)
  let ?n = "next_task x" and ?s = "(srv x)\<lparr>spawned_tasks := rs\<rparr>"
  let ?w = "workflow_id (wf_info (wf (worker_address r) (srv x)))"
  let ?os = "(?n, ?w, restart_of r) # owner x"
  note n = fresh_number [OF sys_spawn(2,3)]
  have st: "steady_by 0 (srv x) ?s" "ends_known ?s" 
    using cleanedD(1) [OF sys_spawn(3)] by (auto simp: steady_by_def steady_def ends_known_def has_ended_def wants_cleanup_def wf_def)
  have m: "map_of ?os i = map_of (owner x) i" if "i \<in> fst ` set (pool x)" for i
    using that n(2) by (cases "i = ?n") auto
  have p: "st.pool_ok (duty_of ?os) ?s (pool x)"
    by (rule pool_duty_cong [OF st.pool_environment [OF cleanedD(2,1) [OF sys_spawn(3)] st(2,1)]]) (rule m)
  have a: "a < length (wf_heap (srv x))" if "r = Clean a" for a
    using spawn_taken(2) [OF sys_okD(1) [OF sys_spawn(2)] sys_spawn(1)] that by (simp add: known_def)
  have t: "st.safe ?n (duty_of ?os ?n) (\<lambda>s. \<forall>a. r = Clean a \<longrightarrow> a < length (wf_heap s)) (Ret r)"
    by (rule st.safe_ret) (cases r; simp add: duty_of_def on_duty_def)
  have q: "st.stable ?n (\<lambda>s. \<forall>a. r = Clean a \<longrightarrow> a < length (wf_heap s))"
    using steadyD(3) unfolding st.stable_def by blast
  have pool: "st.pool_ok (duty_of ?os) ?s ((?n, Ret r) # pool x)"
    by (rule st.pool_add [where Q = "duty_of ?os" and P = "\<lambda>s. \<forall>a. r = Clean a \<longrightarrow> a < length (wf_heap s)"])
       (use p n q t a in simp_all)
  let ?y = "\<lparr>srv = ?s, pool = (?n, Ret r) # pool x, owner = ?os, next_task = Suc ?n\<rparr>"
  have "has_ended a ?s \<or> background_fault ?s \<or> in_charge ?y a" if w: "wants_cleanup a ?s" for a
  proof -
    have "wants_cleanup a (srv x)" using w by (simp add: wants_cleanup_def wf_def)
    from cleanedD(3) [OF sys_spawn(3) this]
    consider "has_ended a (srv x)" | "background_fault (srv x)" | "Clean a \<in> set (r # rs)"
      | j v where "map_of (owner x) j = Some (v, Clean a)" "j \<in> fst ` set (pool x)"
      using sys_spawn(1) by (auto simp: in_charge_def)
    then show ?thesis
    proof cases
      case 3
      then show ?thesis by (cases "r = Clean a") (auto simp: in_charge_def)
    next
      case (4 j v)
      with m have "map_of ?os j = Some (v, Clean a)" by metis
      moreover have "j \<in> fst ` set (pool ?y)" using 4(2) by simp
      moreover have "owner ?y = ?os" by simp
      ultimately show ?thesis unfolding in_charge_def by metis
    qed (simp_all add: has_ended_def wf_def)
  qed
  moreover have "j < Suc ?n" if "j \<in> fst ` set ?os" for j
    using that cleanedD(4) [OF sys_spawn(3), of j] by (force intro: less_SucI)
  ultimately have "cleaned ?y" using pool st(2) by (simp add: cleaned_def)
  then show ?case by (cases x) simp
next
  case (sys_run i g x t s)
  have i: "0 < i" using cleanedD(2) [OF sys_run(4)] sys_run(1) by (auto simp: st.pool_ok_def)
  from st.pool_run [OF cleanedD(2,1) [OF sys_run(4)] sys_run(1,2)]
  show ?case by (intro cleaned_put [OF sys_run(4)]) (use i in \<open>simp_all add: put_def\<close>)
next
  case (sys_again i r x t)
  have i: "0 < i" using cleanedD(2) [OF sys_again(4)] sys_again(1) by (auto simp: st.pool_ok_def)
  have "st.pool_ok (duty_of (owner x)) (srv x) (put i t (pool x))"
    unfolding put_def
    by (rule st.pool_again [OF cleanedD(2,1) [OF sys_again(4)] sys_again(1) stable_duty_of worker_duty [OF sys_again(2)]])
  from cleaned_put [OF sys_again(4) _ _ cleanedD(1) [OF sys_again(4)] this] show ?case by (cases x) simp
next
  case (sys_over i r x)
  have r: "r = NoMore" using sys_over(2) by (cases r) simp_all
  from st.pool_value [OF cleanedD(2) [OF sys_over(4)] sys_over(1)]
  have d: "duty_of (owner x) i NoMore (srv x)" "0 < i" by (simp_all add: r)
  have "cleaned \<lparr>srv = srv x, pool = remove i (pool x), owner = remove i (owner x), next_task = next_task x\<rparr>"
  proof (rule cleaned_kept [OF sys_over(4), where i = i])
    have "st.pool_ok (duty_of (owner x)) (srv x) (remove i (pool x))"
      unfolding remove_def by (rule st.pool_remove [OF cleanedD(2,1,1) [OF sys_over(4)] steady_by_refl])
    then show "st.pool_ok (duty_of (remove i (owner x))) (srv x) (remove i (pool x))"
      by (rule pool_duty_cong) (auto simp: map_of_remove fst_remove)
    show "(map_of (remove i (owner x)) j = Some (w, Clean a) \<and> j \<in> fst ` set (remove i (pool x))) \<or> has_ended a (srv x) \<or> background_fault (srv x)"
      if "map_of (owner x) j = Some (w, Clean a)" "j \<in> fst ` set (pool x)" for j w a
      using that d(1) by (cases "j = i") (auto simp: map_of_remove fst_remove duty_of_def on_duty_def)
  qed (use d cleanedD(1,4) [OF sys_over(4)] in \<open>auto simp: fst_remove\<close>)
  then show ?case by (cases x) simp
next
  case (sys_drop i x)
  note e = even_stepD [OF even_unwind [of "srv x" i] cleanedD(1) [OF sys_drop(3)]]
  have "cleaned \<lparr>srv = unwind i (srv x), pool = remove i (pool x), owner = owner x, next_task = next_task x\<rparr>"
  proof (rule cleaned_kept [OF sys_drop(3), where i = 1])
    show "st.pool_ok (duty_of (owner x)) (unwind i (srv x)) (remove i (pool x))"
      unfolding remove_def by (rule st.pool_remove [OF cleanedD(2,1) [OF sys_drop(3)]]) (use e in blast)+
    show "(map_of (owner x) j = Some (w, Clean a) \<and> j \<in> fst ` set (remove i (pool x))) \<or> has_ended a (unwind i (srv x)) \<or>
        background_fault (unwind i (srv x))"
      if "map_of (owner x) j = Some (w, Clean a)" "j \<in> fst ` set (pool x)" for j w a
      using that sys_drop(1) map_of_SomeD [OF that(1)] by (force simp: fst_remove)
  qed (use e cleanedD(4) [OF sys_drop(3)] in simp_all)
  then show ?case by (cases x) simp
next
  case (sys_panic i t x w again e poisoned)
  note ok = sys_okD [OF sys_panic(3)]
  have i: "0 < i" using cleanedD(2) [OF sys_panic(4)] sys_panic(1) by (auto simp: st.pool_ok_def)
  note u = even_stepD [OF even_unwind [of "srv x" i] cleanedD(1) [OF sys_panic(4)]]
  let ?t = "recovered w again e poisoned"
  have safe: "st.safe i (duty_of (owner x) i) (\<lambda>s. \<forall>a. again = Clean a \<longrightarrow> a < length (wf_heap s)) ?t"
  proof (cases "\<exists>a. again = Clean a")
    case True
    then obtain a where a: "again = Clean a" by blast
    have "st.safe i (duty_of (owner x) i) (\<lambda>s. a < length (wf_heap s)) ?t"
      unfolding a by (rule on_duty_task [OF sys_panic(2) [unfolded a] duty_recovered])
    then show ?thesis by (rule st.safe_pre) (simp add: a)
  next
    case False
    have "even_task i ?t" unfolding recovered_def by (intro even_steps) simp_all
    with False sys_panic(2) show ?thesis by (intro st.safe_pre [OF off_duty [OF _ \<open>even_task i ?t\<close>]]) auto
  qed
  have q: "st.stable i (\<lambda>s. \<forall>a. again = Clean a \<longrightarrow> a < length (wf_heap s))"
    using steadyD(3) unfolding st.stable_def by blast
  have l: "\<forall>a. again = Clean a \<longrightarrow> a < length (wf_heap (unwind i (srv x)))"
    using ok(6) map_of_SomeD [OF sys_panic(2)] by (auto simp: owners_ok_def known_def unwind_def)
  have "st.pool_ok (duty_of (owner x)) (unwind i (srv x)) (remove i (pool x))"
    unfolding remove_def by (rule st.pool_remove [OF cleanedD(2,1) [OF sys_panic(4)]]) (use u in blast)+
  then have "st.pool_ok (duty_of (owner x)) (unwind i (srv x)) (put i ?t (pool x))"
    unfolding put_def remove_def
    by (rule st.pool_add [where Q = "duty_of (owner x)" and P = "\<lambda>s. \<forall>a. again = Clean a \<longrightarrow> a < length (wf_heap s)"])
       (use i q l safe in auto)
  from cleaned_put [OF sys_panic(4) _ _ _ this] u i show ?case by blast
next
  case (sys_environment x s)
  then show ?case using even_duty even_environment by blast
next
  case (sys_close_sessions x)
  then show ?case by (intro even_duty [OF even_slot(6)]) simp_all
next
  case (sys_close_sync x)
  then show ?case by (intro even_duty [OF even_slot(5)]) simp_all
next
  case (sys_abort_sync x)
  then show ?case by (intro even_duty [OF even_slot(5)]) simp_all
qed

lemma cleaned_new_system: "cleaned (system_new m)"
  by (simp add: cleaned_def system_new_def service_new_def ends_known_def st.pool_ok_def wants_cleanup_def)

lemma cleaned_reachable: "wf_reachable cfg x \<Longrightarrow> cleaned x"
proof -
  have "cleaned y" if "sys_steps cfg x y" "sys_ok cfg x" "cleaned x" for x y
    using that by induction (use cleaned_step sys_ok_steps in blast)+
  then show "wf_reachable cfg x \<Longrightarrow> cleaned x"
    unfolding wf_reachable_def using sys_ok_new cleaned_new_system by blast
qed

end
