(* ===== verification/Workflow_Demo.thy ===== *)
theory Workflow_Demo
  imports Workflow_Reach Manager_Results Project_Properties
begin

text \<open>
  A run of the whole service: a workflow on a clean project is created, starts Vivado, which ends with
  exit code zero, and is finished. The runs show that the states the properties speak of are reached.
\<close>

section \<open>Runs of one task\<close>

lemma steps_step: "sys_steps cfg x y \<Longrightarrow> sys_step cfg y z \<Longrightarrow> sys_steps cfg x z"
  by (rule sys_more)

lemma put_single [simp]: "put i t [(i, u)] = [(i, t)]"
  by (simp add: put_def)

lemma alone:
  assumes "sys_steps cfg x \<lparr>srv = s, pool = [(i, bindT t k)], owner = os, next_task = n\<rparr>" "run t s = Some (r, s')"
  shows "sys_steps cfg x \<lparr>srv = s', pool = [(i, k r)], owner = os, next_task = n\<rparr>"
  using assms
proof (induction t arbitrary: s)
  case (Act g)
  then obtain u s1 where g: "g s = Some (u, s1)" "run u s1 = Some (r, s')" by (auto split: option.splits)
  let ?x = "\<lparr>srv = s, pool = [(i, bindT (Act g) k)], owner = os, next_task = n\<rparr>"
  have "sys_step cfg ?x (?x\<lparr>srv := s1, pool := put i (bindT u k) (pool ?x)\<rparr>)"
    by (rule sys_run [where g = "\<lambda>s. map_option (map_prod (\<lambda>t. bindT t k) id) (g s)"]) (simp_all add: g)
  with steps_step [OF Act.prems(1)] have "sys_steps cfg x \<lparr>srv = s1, pool = [(i, bindT u k)], owner = os, next_task = n\<rparr>"
    by simp
  from Act.IH [OF rangeI [of g s], unfolded g(1)] this g(2) show ?case by (auto simp: prod_set_defs)
qed simp

lemma task_over:
  assumes "sys_steps cfg x \<lparr>srv = s, pool = [(i, Ret NoMore)], owner = [(i, w, c)], next_task = n\<rparr>"
  shows "sys_steps cfg x \<lparr>srv = s, pool = [], owner = [], next_task = n\<rparr>"
proof -
  let ?y = "\<lparr>srv = s, pool = [(i, Ret NoMore)], owner = [(i, w, c)], next_task = n\<rparr>"
  have "sys_step cfg ?y (?y\<lparr>pool := remove i (pool ?y), owner := remove i (owner ?y)\<rparr>)"
    by (rule sys_over [where r = NoMore]) simp_all
  with steps_step [OF assms] show ?thesis by (simp add: remove_def)
qed

lemma task_begins:
  assumes "sys_steps cfg x \<lparr>srv = s, pool = [], owner = [], next_task = n\<rparr>" "managed_task cfg n i t"
  shows "sys_steps cfg x \<lparr>srv = s, pool = [(n, t)], owner = [(n, i, NoMore)], next_task = Suc n\<rparr>"
  using steps_step [OF assms(1) sys_managed [of cfg _ i t]] assms(2) by simp

lemma whole_task:
  assumes "sys_steps cfg x \<lparr>srv = s, pool = [], owner = [], next_task = n\<rparr>" "managed_task cfg n i (quietly t)"
    "run t s = Some (r, s')"
  shows "sys_steps cfg x \<lparr>srv = s', pool = [], owner = [], next_task = Suc n\<rparr>"
  by (rule task_over, rule alone, rule task_begins [OF assms(1), of i "quietly t", unfolded quietly_def])
     (use assms(2,3) in \<open>simp_all add: quietly_def\<close>)

lemma worker_begins:
  assumes "sys_steps cfg x \<lparr>srv = s, pool = [], owner = [], next_task = n\<rparr>" "spawned_tasks s = [r]"
    "worker_task cfg n r = Some t"
  shows "sys_steps cfg x \<lparr>srv = s\<lparr>spawned_tasks := []\<rparr>, pool = [(n, t)],
    owner = [(n, workflow_id (wf_info (wf (worker_address r) s)), restart_of r)], next_task = Suc n\<rparr>"
proof -
  let ?o = "[(n, workflow_id (wf_info (wf (worker_address r) s)), restart_of r)]"
  let ?y = "\<lparr>srv = s\<lparr>spawned_tasks := []\<rparr>, pool = [(n, Ret r)], owner = ?o, next_task = Suc n\<rparr>"
  have "sys_steps cfg x ?y"
    using steps_step [OF assms(1) sys_spawn [of _ r "[]"]] assms(2) by simp
  moreover have "sys_step cfg ?y (?y\<lparr>pool := put n t (pool ?y)\<rparr>)"
    by (rule sys_again [where r = r]) (simp_all add: assms(3))
  ultimately show ?thesis using steps_step by fastforce
qed

text \<open>A task that is interrupted after some of its sections, and goes on in another state.\<close>

fun sections :: "nat \<Rightarrow> ('a, 's) task \<Rightarrow> 's \<Rightarrow> (('a, 's) task \<times> 's) option" where
  "sections 0 t s = Some (t, s)"
| "sections (Suc m) (Act g) s = (case g s of None \<Rightarrow> None | Some (t, s1) \<Rightarrow> sections m t s1)"
| "sections (Suc m) (Ret r) s = None"

definition stops_at :: "nat \<Rightarrow> ('a, 's) task \<Rightarrow> 's \<Rightarrow> 's option" where
  "stops_at m t s = map_option snd (sections m t s)"

definition goes_on :: "nat \<Rightarrow> 's \<Rightarrow> ('a, 's) task \<Rightarrow> 's \<Rightarrow> ('a \<times> 's) option" where
  "goes_on m s2 t s = Option.bind (sections m t s) (\<lambda>(u, _). run u s2)"

lemma bindT_assoc: "bindT (bindT t f) g = bindT t (\<lambda>x. bindT (f x) g)"
proof (induction t)
  case (Act g')
  have "map_option (map_prod (\<lambda>t. bindT t g) id) (map_option (map_prod (\<lambda>t. bindT t f) id) (g' s)) =
      map_option (map_prod (\<lambda>t. bindT t (\<lambda>x. bindT (f x) g)) id) (g' s)" for s
    using Act.IH [OF rangeI [of g' s]] by (cases "g' s") (auto simp: prod_set_defs)
  then show ?case by (simp add: fun_eq_iff)
qed simp

lemma sections_waiting [simp]:
  "sections (Suc m) (bindT (waiting h) k) s = (case h s of None \<Rightarrow> None | Some (r, s1) \<Rightarrow> sections m (k r) s1)"
  by (auto simp: waiting_def split: option.splits)

lemma bindT_Ret_right: "bindT t Ret = t"
proof (induction t)
  case (Act g)
  have "map_option (map_prod (\<lambda>t. bindT t Ret) id) (g s) = g s" for s
    using Act.IH [OF rangeI [of g s]] by (cases "g s") (auto simp: prod_set_defs)
  then show ?case by (simp add: fun_eq_iff)
qed simp

lemma stops_at_steps [simp]:
  "stops_at 0 t s = Some s"
  "stops_at (Suc m) (bindT (waiting h) k) s = (case h s of None \<Rightarrow> None | Some (r, s1) \<Rightarrow> stops_at m (k r) s1)"
  "goes_on 0 s2 t s = run t s2"
  "goes_on (Suc m) s2 (bindT (waiting h) k) s = (case h s of None \<Rightarrow> None | Some (r, s1) \<Rightarrow> goes_on m s2 (k r) s1)"
  by (auto simp: stops_at_def goes_on_def split: option.splits)

lemma some_sections:
  assumes "sys_steps cfg x \<lparr>srv = s, pool = [(i, bindT t k)], owner = os, next_task = n\<rparr>" "sections m t s = Some (u, s')"
  shows "sys_steps cfg x \<lparr>srv = s', pool = [(i, bindT u k)], owner = os, next_task = n\<rparr>"
  using assms
proof (induction m t s rule: sections.induct)
  case (2 m g s)
  then obtain v s1 where g: "g s = Some (v, s1)" "sections m v s1 = Some (u, s')" by (auto split: option.splits)
  let ?x = "\<lparr>srv = s, pool = [(i, bindT (Act g) k)], owner = os, next_task = n\<rparr>"
  have "sys_step cfg ?x (?x\<lparr>srv := s1, pool := put i (bindT v k) (pool ?x)\<rparr>)"
    by (rule sys_run [where g = "\<lambda>s. map_option (map_prod (\<lambda>t. bindT t k) id) (g s)"]) (simp_all add: g)
  with steps_step [OF 2(2)] have "sys_steps cfg x \<lparr>srv = s1, pool = [(i, bindT v k)], owner = os, next_task = n\<rparr>"
    by simp
  from 2(1) [OF g(1) refl this g(2)] show ?case .
qed simp_all

inductive surroundings :: "workflow_config \<Rightarrow> service \<Rightarrow> service \<Rightarrow> bool" for cfg where
  sur_refl: "surroundings cfg s s"
| sur_more: "surroundings cfg s t \<Longrightarrow> environment cfg t u \<Longrightarrow> surroundings cfg s u"

lemma surroundings_steps:
  assumes "surroundings cfg s s'" "sys_steps cfg x \<lparr>srv = s, pool = ts, owner = os, next_task = n\<rparr>"
  shows "sys_steps cfg x \<lparr>srv = s', pool = ts, owner = os, next_task = n\<rparr>"
  using assms
proof induction
  case (sur_more s t u)
  let ?y = "\<lparr>srv = t, pool = ts, owner = os, next_task = n\<rparr>"
  have "sys_step cfg ?y (?y\<lparr>srv := u\<rparr>)" by (rule sys_environment) (use sur_more(2) in simp)
  with steps_step [OF sur_more.IH [OF sur_more.prems]] show ?case by simp
qed simp

lemma interrupted_task:
  assumes "sys_steps cfg x \<lparr>srv = s, pool = [(i, bindT t k)], owner = os, next_task = n\<rparr>"
    "stops_at m t s = Some s1" "surroundings cfg s1 s2" "goes_on m s2 t s = Some (r, s')"
  shows "sys_steps cfg x \<lparr>srv = s', pool = [(i, k r)], owner = os, next_task = n\<rparr>"
proof -
  from assms(2,4) obtain u where u: "sections m t s = Some (u, s1)" "run u s2 = Some (r, s')"
    by (auto simp: stops_at_def goes_on_def)
  show ?thesis
    by (rule alone [OF surroundings_steps [OF assms(3) some_sections [OF assms(1) u(1)]] u(2)])
qed

section \<open>The service of the run\<close>

definition demo_workflows :: workflow_config where
  "demo_workflows = \<lparr>wc_env = Manager_Properties.demo_env, wc_sync = demo_manager_config, wc_session = demo_cfg,
     heartbeat_timeout = 30, wc_projects = demo_projects\<rparr>"

definition demo_create :: workflow_request where
  "demo_create = \<lparr>wr_project = ''p'', reset_project = False\<rparr>"

text \<open>The sync manager over a clean project, and after each call of the run on the project.\<close>

definition demo_sync :: manager where
  "demo_sync = Manager_Steps.manager_new demo_marked"

definition demo_located :: manager where
  "demo_located = snd (project_path demo_projects ''p'' demo_sync)"

definition demo_inspected :: manager where
  "demo_inspected = snd (is_clean demo_projects ''p'' demo_located)"

definition demo_dirty :: manager where
  "demo_dirty = snd (mark_dirty (demo_file []) demo_uuid demo_projects ''p'' demo_inspected)"

definition demo_clean :: manager where
  "demo_clean = snd (mark_clean (demo_file []) demo_uuid demo_projects ''p'' demo_dirty)"

definition demo_settled :: manager where
  "demo_settled = snd (abort_open Manager_Properties.demo_env demo_manager_config ''p'' demo_clean)"

lemma demo_name: "validate_project_name ''p'' = Inr ()"
  by code_simp

lemma demo_path: "\<exists>p. project_path demo_projects ''p'' demo_sync = (Inr p, demo_located)"
proof -
  have "is_ok (fst (project_path demo_projects ''p'' demo_sync))" by code_simp
  then show ?thesis unfolding demo_located_def
    by (cases "project_path demo_projects ''p'' demo_sync") (auto simp: is_ok_def split: sum.splits)
qed

lemma demo_is_clean: "is_clean demo_projects ''p'' demo_located = (Inr True, demo_inspected)"
proof -
  have "fst (is_clean demo_projects ''p'' demo_located) = Inr True" by code_simp
  then show ?thesis unfolding demo_inspected_def by (metis prod.collapse)
qed

lemma demo_mark_dirty: "mark_dirty (demo_file []) demo_uuid demo_projects ''p'' demo_inspected = (Inr (), demo_dirty)"
proof -
  have "fst (mark_dirty (demo_file []) demo_uuid demo_projects ''p'' demo_inspected) = Inr ()" by code_simp
  then show ?thesis unfolding demo_dirty_def by (metis prod.collapse)
qed

lemma demo_mark_clean: "mark_clean (demo_file []) demo_uuid demo_projects ''p'' demo_dirty = (Inr (), demo_clean)"
proof -
  have "fst (mark_clean (demo_file []) demo_uuid demo_projects ''p'' demo_dirty) = Inr ()" by code_simp
  then show ?thesis unfolding demo_clean_def by (metis prod.collapse)
qed

lemma demo_abort_open: "abort_open Manager_Properties.demo_env demo_manager_config ''p'' demo_clean = (Some (Inr ()), demo_settled)"
proof -
  have "fst (abort_open Manager_Properties.demo_env demo_manager_config ''p'' demo_clean) = Some (Inr ())" by code_simp
  then show ?thesis unfolding demo_settled_def by (metis prod.collapse)
qed

section \<open>Creation\<close>

definition demo_at :: "manager \<Rightarrow> session_manager \<Rightarrow> workflow \<Rightarrow> nat option \<Rightarrow> service" where
  "demo_at m sm w slot = \<lparr>sync_part = m, session_part = sm, wf_heap = [w], wf_active = slot, wf_entries = [(7, 0)],
     wf_stopping = False, background_fault = False, spawned_tasks = []\<rparr>"

lemma demo_at_fields [simp]:
  "wf 0 (demo_at m sm w slot) = w" "wf_heap (demo_at m sm w slot) = [w]" "sync_part (demo_at m sm w slot) = m"
  "session_part (demo_at m sm w slot) = sm" "wf_active (demo_at m sm w slot) = slot"
  "wf_entries (demo_at m sm w slot) = [(7, 0)]" "wf_stopping (demo_at m sm w slot) = False"
  "background_fault (demo_at m sm w slot) = False" "spawned_tasks (demo_at m sm w slot) = []"
  "instant_of (demo_at m sm w slot) = clock_ms sm"
  "(demo_at m sm w slot)\<lparr>sync_part := m'\<rparr> = demo_at m' sm w slot"
  "(demo_at m sm w slot)\<lparr>session_part := sm'\<rparr> = demo_at m sm' w slot"
  "(demo_at m sm w slot)\<lparr>wf_active := slot'\<rparr> = demo_at m sm w slot'"
  "upd_wf 0 f (demo_at m sm w slot) = demo_at m sm (f w) slot"
  by (simp_all add: demo_at_def wf_def upd_wf_def instant_of_def)

definition demo_created :: workflow where
  "demo_created = initialized (Inr True) (new_workflow 7 demo_create 0)"

lemma demo_workflows_fields [simp]:
  "wc_projects demo_workflows = demo_projects" "wc_session demo_workflows = demo_cfg"
  "wc_env demo_workflows = Manager_Properties.demo_env" "wc_sync demo_workflows = demo_manager_config"
  "env_fresh Manager_Properties.demo_env = demo_file []" "env_uuid Manager_Properties.demo_env = demo_uuid"
  by (simp_all add: demo_workflows_def Manager_Properties.demo_env_def)

lemma demo_alloc: "alloc 1 7 demo_create (service_new demo_sync) =
    (0, (demo_at demo_sync Session_Manager.manager_new (take_lock 1 (new_workflow 7 demo_create 0)) None)\<lparr>wf_entries := []\<rparr>)"
  by (simp add: alloc_def service_new_def demo_at_def instant_of_def Session_Manager.manager_new_def)

lemma demo_reserve: "reserve 7 demo_create 0 ((demo_at m sm w None)\<lparr>wf_entries := []\<rparr>) =
    (Inr None, demo_at m sm w (Some 7))"
  by (simp add: reserve_def demo_at_def)

lemma demo_inspect: "run (inspect_project demo_workflows demo_create) (demo_at demo_sync sm w slot) =
    Some (Inr True, demo_at demo_inspected sm w slot)"
proof -
  obtain p where "project_path demo_projects ''p'' demo_sync = (Inr p, demo_located)" using demo_path by blast
  then show ?thesis
    by (simp add: inspect_project_def run_bindT run_bindR on_project_def on_sync_def demo_create_def demo_is_clean)
qed

lemma demo_create_run: "run (workflow_create demo_workflows 1 7 demo_create (Inr ())) (service_new demo_sync) =
    Some (Inr (wf_info demo_created), demo_at demo_inspected Session_Manager.manager_new demo_created (Some 7))"
proof -
  have w: "initialized (Inr True) (take_lock 1 (new_workflow 7 demo_create 0)) = take_lock 1 demo_created"
    by (simp add: initialized_def demo_created_def take_lock_def new_workflow_def upd_info_def)
  have d: "drop_lock (take_lock 1 demo_created) = demo_created" "wf_info (take_lock 1 demo_created) = wf_info demo_created"
    by (simp_all add: demo_created_def take_lock_def drop_lock_def initialized_def new_workflow_def upd_info_def)
  have n: "validate_project_name (wr_project demo_create) = Inr ()" by (simp add: demo_create_def demo_name)
  have a: "admit (service_new demo_sync) = Inr ()" by (simp add: admit_def service_new_def ensure_def)
  show ?thesis
    by (simp add: workflow_create_def n a run_bindT run_bindR managed_def holding_def unlock_def snapshot_def
      demo_alloc demo_reserve initialize_workflow_def demo_inspect w d del: One_nat_def)
qed

section \<open>The session\<close>

definition demo_vivado :: supervised where
  "demo_vivado = demo_live\<lparr>vs_workflow := Some 7\<rparr>"

definition demo_quits :: tick_env where
  "demo_quits = Session_Properties.demo_env\<lparr>te_reap := Inr 0\<rparr>"

definition demo_quit :: supervised where
  "demo_quit = (stopping ProcessExited demo_vivado)\<lparr>leader_exited := True, queue_closed := True,
     sv_stop := Some \<lparr>stop_why = ProcessExited, stop_since = 0, term_sent = True, last_kill = None\<rparr>,
     proc := \<lparr>child = False, identity_owned = False\<rparr>, sv_exit_code := Some 0, reaped_at := Some 0\<rparr>"

definition demo_exited :: supervised where
  "demo_exited = (finish 0 ProcessExited (Some 0) False demo_quit)\<lparr>fd_open := False, reader_done := True, phase := Sealed\<rparr>"

abbreviation demo_unstarted :: supervised where
  "demo_unstarted \<equiv> new_session demo_cfg 0 (Some 7) ''p'' [''x''] 0"

lemma demo_session: "create_session demo_cfg (Some 7) ''p'' [''x''] (Inr ()) Session_Manager.manager_new = (Inr 0, one_session demo_unstarted 1)"
  by (simp add: eval_manager Session_Manager.manager_new_def) code_simp

lemma demo_runs: "task_spawned 0 (SpawnOk 7 (Inr ())) False (task_prepare 0 (Inr []) False (one_session demo_unstarted 1)) =
    one_session demo_vivado 1"
  by (simp add: eval_manager demo_vivado_def demo_live_def)

lemma demo_quits: "task_event 0 (EvTick demo_quits) (one_session demo_vivado 1) = one_session demo_quit 1"
  by (simp add: eval_manager eval_steps demo_vivado_def demo_live_def demo_quit_def demo_quits_def)

lemma demo_exits: "task_end 0 (task_event 0 (EvRead (Inr [])) (one_session demo_quit 1)) = one_session demo_exited 1"
  by (simp add: eval_manager eval_steps demo_vivado_def demo_live_def demo_quit_def demo_exited_def read_event_def
      supervise_end_def push_output_def decode_finish_def from_utf8_lossy.simps [of "[]"] finish_def)

lemma sur_session: "surroundings cfg s t \<Longrightarrow> mstep (wc_session cfg) (session_part t) m \<Longrightarrow>
    surroundings cfg s (t\<lparr>session_part := m\<rparr>)"
  by (rule sur_more [OF _ env_session])

lemma demo_starts: "surroundings demo_workflows (demo_at m (one_session demo_unstarted 1) w slot) (demo_at m (one_session demo_vivado 1) w slot)"
proof -
  let ?n = "one_session demo_unstarted 1"
  have 1: "mstep demo_cfg ?n (task_prepare 0 (Inr []) False ?n)"
    by (rule step_prepare) (auto simp: one_session_def new_session_def)
  have 2: "mstep demo_cfg (task_prepare 0 (Inr []) False ?n) (one_session demo_vivado 1)"
    unfolding demo_runs [symmetric] by (rule step_spawned) (auto simp: eval_manager)
  from sur_session [OF sur_session [OF sur_refl, of demo_workflows "demo_at m ?n w slot"]] 1 2 show ?thesis by fastforce
qed

lemma demo_ends: "surroundings demo_workflows (demo_at m (one_session demo_vivado 1) w slot) (demo_at m (one_session demo_exited 1) w slot)"
proof -
  have 1: "mstep demo_cfg (one_session demo_vivado 1) (one_session demo_quit 1)"
    unfolding demo_quits [symmetric]
    by (rule step_event [where s = demo_vivado])
      (auto simp: one_session_def demo_vivado_def demo_live_def new_session_def enabled_def loop_over_def stop_waiting_def)
  have 2: "mstep demo_cfg (one_session demo_quit 1) (task_event 0 (EvRead (Inr [])) (one_session demo_quit 1))"
    by (rule step_event [where s = demo_quit])
      (auto simp: one_session_def demo_quit_def demo_vivado_def demo_live_def new_session_def stopping_def enabled_def
        loop_over_def stop_waiting_def)
  have 3: "mstep demo_cfg (task_event 0 (EvRead (Inr [])) (one_session demo_quit 1)) (one_session demo_exited 1)"
    unfolding demo_exits [symmetric]
    by (rule step_end) (auto simp: eval_manager demo_quit_def demo_vivado_def demo_live_def stopping_def read_event_def loop_over_def)
  from sur_session [OF sur_session [OF sur_session [OF sur_refl, of demo_workflows "demo_at m (one_session demo_vivado 1) w slot"]]] 1 2 3
  show ?thesis by fastforce
qed

section \<open>Start\<close>

definition demo_running :: workflow where
  "demo_running = session_started 0 0 demo_created"

lemma demo_created_fields [simp]:
  "wf_info (take_lock i w) = wf_info w" "initializing (take_lock i w) = initializing w"
  "open_sync (take_lock i w) = open_sync w" "lock_free demo_created" "\<not> initializing demo_created"
  "open_sync demo_created = None" "wf_status demo_created = WfPreparing" "wf_project demo_created = ''p''"
  "\<not> requires_full_upload (wf_info demo_created)" "workflow_id (wf_info demo_created) = 7"
  by (simp_all add: demo_created_def take_lock_def initialized_def new_workflow_def upd_info_def lock_free_def demo_create_def)

lemma one_session_fields [simp]: "clock_ms (one_session x n) = 0" "map_of (vsessions (one_session x n)) 0 = Some x"
  by (simp_all add: one_session_def)

abbreviation demo_start :: "session_info res wtask" where
  "demo_start \<equiv> workflow_start_session demo_workflows 2 7 [''x''] (Inr ()) (Inr ()) SessionNotFound"

lemmas demo_eval = workflow_start_session_def exclusive_def managed_def locked_def holding_def acquire_def unlock_def
  run_vivado_def refresh_open_sync_def no_open_plan_def create_vivado_def marked_def on_project_def checked_def snapshot_def
  bindR_def reading_def update_def atomic_def bindT_assoc

lemma demo_args: "validate_vivado_args [''x''] = Inr ()"
  by code_simp

lemma demo_start_stops: "stops_at (Suc (Suc (Suc (Suc (Suc (Suc (Suc (Suc (Suc (Suc 0)))))))))) demo_start (demo_at demo_inspected Session_Manager.manager_new demo_created (Some 7)) =
    Some (demo_at demo_dirty (one_session demo_unstarted 1) (take_lock 2 demo_created) (Some 7))"
  unfolding demo_eval
  by (simp add: bindT_assoc demo_args admit_def find_workflow_def ensure_def ok_or_def in_phase_def on_sync_def demo_mark_dirty
      on_sessions_def demo_session del: One_nat_def)

lemma demo_spawned [simp]:
  "spawn r (demo_at m sm w slot) = (demo_at m sm w slot)\<lparr>spawned_tasks := [r]\<rparr>"
  "upd_wf 0 f ((demo_at m sm w slot)\<lparr>spawned_tasks := rs\<rparr>) = (demo_at m sm (f w) slot)\<lparr>spawned_tasks := rs\<rparr>"
  "(demo_at m sm w slot)\<lparr>spawned_tasks := []\<rparr> = demo_at m sm w slot"
  by (simp_all add: spawn_def demo_at_def upd_wf_def)

lemma demo_replied [simp]: "reply demo_vivado = Some (Inr (new_info 0 ''p'' 0))" "session_id (new_info i p t) = i"
  by (simp_all add: demo_vivado_def demo_live_def new_info_def)

lemma demo_started_session: "drop_lock (session_started 0 0 (take_lock 2 demo_created)) = demo_running"
  by (simp add: demo_running_def session_started_def drop_lock_def take_lock_def upd_info_def transition_def demo_created_def
      initialized_def new_workflow_def)

lemma demo_start_goes_on:
  "goes_on (Suc (Suc (Suc (Suc (Suc (Suc (Suc (Suc (Suc (Suc 0)))))))))) (demo_at demo_dirty (one_session demo_vivado 1) (take_lock 2 demo_created) (Some 7))
     demo_start (demo_at demo_inspected Session_Manager.manager_new demo_created (Some 7)) =
   Some (Inr (new_info 0 ''p'' 0), (demo_at demo_dirty (one_session demo_vivado 1) demo_running (Some 7))\<lparr>spawned_tasks := [Observe 0 0]\<rparr>)"
  unfolding demo_eval
  by (simp add: bindT_assoc demo_args admit_def find_workflow_def ensure_def ok_or_def in_phase_def on_sync_def demo_mark_dirty
      on_sessions_def demo_session run_bindT demo_started_session del: One_nat_def)

section \<open>The end of the session\<close>

definition demo_pulling :: workflow where
  "demo_pulling = session_succeeded 0 demo_running"

lemma demo_get: "get_session demo_cfg 0 (one_session demo_exited 1) = (Inr (vs_info demo_exited), one_session demo_exited 1)"
  by (simp add: get_session_def lookup_session_def prune_def prune_sessions_def prune_entries_def ended_entries_def young_def
      map_filter_def one_session_def Let_def ok_or_def demo_exited_def finish_def demo_quit_def demo_vivado_def demo_live_def
      stopping_def new_session_def)

lemma demo_outcome: "is_terminal (si_status (vs_info demo_exited))" "termination_reason (vs_info demo_exited) = Some ProcessExited"
    "exit_code (vs_info demo_exited) = Some 0"
  by (simp_all add: demo_exited_def finish_def demo_quit_def stopping_def demo_vivado_def demo_live_def new_session_def new_info_def)

lemma demo_running_fields [simp]:
  "wf_status demo_running = WfRunning" "wf_project demo_running = ''p''" "lock_free demo_running"
  "workflow_id (wf_info demo_running) = 7"
  by (simp_all add: demo_running_def session_started_def upd_info_def transition_def demo_created_def
      initialized_def new_workflow_def demo_create_def lock_free_def)

lemma demo_succeeded: "drop_lock (session_succeeded 0 (take_lock 3 demo_running)) = demo_pulling"
  by (simp add: demo_pulling_def session_succeeded_def drop_lock_def take_lock_def upd_info_def transition_def demo_running_def session_started_def demo_created_def
      initialized_def new_workflow_def)

lemma demo_observe: "run (observe_session demo_workflows 3 0 0) (demo_at demo_dirty (one_session demo_exited 1) demo_running (Some 7)) =
    Some (NoMore, demo_at demo_clean (one_session demo_exited 1) demo_pulling (Some 7))"
  by (simp add: observe_session_def run_bindT snapshot_def on_sessions_def demo_get demo_outcome locked_def acquire_def
      holding_def unlock_def session_over_def marked_def on_project_def on_sync_def demo_mark_clean demo_succeeded
      del: One_nat_def)

section \<open>The end of the workflow\<close>

definition demo_completed :: workflow where
  "demo_completed = end_workflow 0 WfCompleted None False demo_pulling"

definition demo_released :: session_manager where
  "demo_released = snd (release_session demo_cfg 0 (one_session demo_exited 1))"

lemma demo_pulling_fields [simp]:
  "wf_status demo_pulling = WfPulling" "wf_project demo_pulling = ''p''" "lock_free demo_pulling"
  "workflow_id (wf_info demo_pulling) = 7" "wi_session (wf_info demo_pulling) = Some 0" "\<not> initializing demo_pulling"
  "\<not> invalidate_project demo_pulling" "invalidate_project (take_lock i w) = invalidate_project w"
  by (simp_all add: demo_pulling_def session_succeeded_def demo_running_def session_started_def upd_info_def transition_def demo_created_def
      initialized_def new_workflow_def demo_create_def lock_free_def take_lock_def)

lemma demo_finished_workflow: "drop_lock (end_workflow 0 WfCompleted None False (take_lock 4 demo_pulling)) = demo_completed"
  by (simp add: demo_completed_def end_workflow_def close_plan_def demo_pulling_def session_succeeded_def drop_lock_def take_lock_def
      upd_info_def transition_def demo_running_def session_started_def demo_created_def initialized_def new_workflow_def)

lemma demo_finished_info: "wf_info (end_workflow 0 WfCompleted None False (take_lock 4 demo_pulling)) = wf_info demo_completed"
  by (simp flip: demo_finished_workflow add: drop_lock_def)

lemma demo_finish: "run (workflow_finish demo_workflows 4 7) (demo_at demo_clean (one_session demo_exited 1) demo_pulling (Some 7)) =
    Some (Inr (wf_info demo_completed), demo_at demo_settled demo_released demo_completed None)"
  by (simp add: workflow_finish_def run_bindT run_bindR managed_def admit_def ensure_def find_workflow_def ok_or_def snapshot_def
      try_acquire_def holding_def unlock_def finish_pulling_def checked_def in_phase_def sync_wait_def demo_abort_open terminate_def
      release_of_def on_sessions_def case_prod_unfold demo_released_def demo_finished_workflow
      demo_finished_info Let_def)

section \<open>The run\<close>

lemma demo_reach_created: "sys_steps demo_workflows (system_new demo_sync)
    \<lparr>srv = demo_at demo_inspected Session_Manager.manager_new demo_created (Some 7), pool = [], owner = [], next_task = 2\<rparr>"
proof -
  have "sys_steps demo_workflows (system_new demo_sync) \<lparr>srv = service_new demo_sync, pool = [], owner = [], next_task = 1\<rparr>"
    unfolding system_new_def by (rule sys_refl)
  from whole_task [OF this mt_create demo_create_run] show ?thesis by (simp add: numeral_2_eq_2)
qed

lemma demo_reach_running: "sys_steps demo_workflows (system_new demo_sync)
    \<lparr>srv = (demo_at demo_dirty (one_session demo_vivado 1) demo_running (Some 7))\<lparr>spawned_tasks := [Observe 0 0]\<rparr>,
     pool = [], owner = [], next_task = 3\<rparr>"
  using task_over [OF interrupted_task [OF task_begins [OF demo_reach_created mt_start, unfolded quietly_def]
        demo_start_stops demo_starts demo_start_goes_on]] by simp

lemma demo_reach_pulling: "sys_steps demo_workflows (system_new demo_sync)
    \<lparr>srv = demo_at demo_clean (one_session demo_exited 1) demo_pulling (Some 7), pool = [], owner = [], next_task = 4\<rparr>"
proof -
  have "sys_steps demo_workflows (system_new demo_sync)
      \<lparr>srv = demo_at demo_dirty (one_session demo_vivado 1) demo_running (Some 7),
       pool = [(3, bindT (observe_session demo_workflows 3 0 0) Ret)], owner = [(3, 7, NoMore)], next_task = 4\<rparr>"
    using worker_begins [OF demo_reach_running, of "Observe 0 0"] by (simp add: bindT_Ret_right)
  from alone [OF surroundings_steps [OF demo_ends this] demo_observe] show ?thesis by (rule task_over)
qed

lemma demo_reach_completed: "sys_steps demo_workflows
    \<lparr>srv = demo_at demo_clean (one_session demo_exited 1) demo_pulling (Some 7), pool = [], owner = [], next_task = 4\<rparr>
    \<lparr>srv = demo_at demo_settled demo_released demo_completed None, pool = [], owner = [], next_task = 5\<rparr>"
  using whole_task [OF sys_refl mt_finish demo_finish] by simp

lemma demo_reaches: "sys_steps cfg (system_new m) x \<Longrightarrow> wf_reachable cfg x"
  by (auto simp: wf_reachable_def)

end
