(* ===== verification/Workflow_Properties.thy ===== *)
theory Workflow_Properties
  imports Workflow_Cleanup Workflow_Demo
begin

text \<open>
  What holds of the workflow service in every reachable state of the whole system, whatever clients,
  tasks, sessions and the clock do in whatever order.
\<close>

section \<open>Facts\<close>

lemma reachable_service: "wf_reachable cfg x \<Longrightarrow> service_ok cfg (srv x)"
  using wf_reachable_ok sys_okD(1) by blast

lemma held_by_pool:
  assumes "wf_reachable cfg x" "a < length (wf_heap (srv x))"
    "writer (wf a (srv x)) = Some i \<or> i \<in> set (readers (wf a (srv x)))"
  shows "i \<in> fst ` set (pool x)"
proof (rule ccontr)
  assume "i \<notin> fst ` set (pool x)"
  from sys_okD(5) [OF wf_reachable_ok [OF assms(1)] this] have "locks i (srv x) = {}" "leases i (srv x) = {}"
    by (simp_all add: free_def)
  with assms(2,3) show False by (auto simp: locks_def leases_def)
qed

lemma steps_trans: "sys_steps cfg y z \<Longrightarrow> sys_steps cfg x y \<Longrightarrow> sys_steps cfg x z"
  by (induction rule: sys_steps.induct) (auto intro: sys_more)

lemmas demo_completed_reachable = demo_reaches [OF steps_trans [OF demo_reach_completed demo_reach_pulling]]

lemmas demo_states = demo_reaches [OF demo_reach_created] demo_reaches [OF demo_reach_running]
  demo_reaches [OF demo_reach_pulling] demo_completed_reachable

section \<open>Properties\<close>

text \<open>
  C33. One workflow at a time. In every reachable state a registered workflow that has not ended is the
  active one, no other registered workflow is live, and a request for a new identifier is refused.
\<close>

theorem single_workflow:
  assumes "wf_reachable cfg x" "registered i a (srv x)" "\<not> final (wf_status (wf a (srv x)))"
  shows "wf_active (srv x) = Some i \<and>
    (\<forall>j b. registered j b (srv x) \<and> \<not> final (wf_status (wf b (srv x))) \<longrightarrow> j = i \<and> b = a) \<and>
    (\<forall>k req c. map_of (wf_entries (srv x)) k = None \<longrightarrow>
       fst (reserve k req c (srv x)) = Inl (if wf_stopping (srv x) then ShuttingDown else WorkflowBusy))"
proof -
  note ok = reachable_service [OF assms(1)]
  have act: "wf_active (srv x) = Some j" if "registered j b (srv x)" "\<not> final (wf_status (wf b (srv x)))" for j b
    using registryD(3) [OF ok that(1)] that(2) by simp
  have "fst (reserve k req c (srv x)) = Inl (if wf_stopping (srv x) then ShuttingDown else WorkflowBusy)"
    if "map_of (wf_entries (srv x)) k = None" for k req c
    using that act [OF assms(2,3)] by (simp add: reserve_def)
  moreover have "j = i \<and> b = a" if "registered j b (srv x)" "\<not> final (wf_status (wf b (srv x)))" for j b
  proof
    show "j = i" using act [OF that] act [OF assms(2,3)] by simp
    with that(1) assms(2) show "b = a" using registered_unique [OF ok] by blast
  qed
  ultimately show ?thesis using act [OF assms(2,3)] by blast
qed

theorem single_workflow_witness:
  "fst (reserve 8 demo_create 1 (demo_at demo_inspected Session_Manager.manager_new demo_created (Some 7))) = Inl WorkflowBusy"
  using single_workflow [OF demo_states(1), of 7 0] by (simp add: registered_def)

text \<open>
  C34. The states a workflow can be in. In every reachable state of the system every workflow is in one of
  the shapes its phase allows: before the start of Vivado it has no session, while it runs and afterwards
  it has one; it is stopping only with its cancellation sent and its cleanup requested, for a reason and
  a target of a cleanup; it carries an end time exactly when it has ended, and then no open plan, no due
  cleanup, and the demand for a full upload if the project was invalidated; and its activity lock is
  never held exclusively and shared at once.
\<close>

theorem workflow_well_formed:
  assumes "wf_reachable cfg x" "w \<in> set (wf_heap (srv x))"
  shows "(wf_status w = WfPreparing \<longrightarrow> wi_session (wf_info w) = None) \<and>
    (wf_status w \<in> {WfRunning, WfPulling, WfCompleted} \<longrightarrow> wi_session (wf_info w) \<noteq> None) \<and>
    (wf_status w = WfStopping \<longrightarrow> cancelled w \<and> cleanup_started w \<and> cleanup_due (wf_info w)) \<and>
    (cleanup_started w \<longrightarrow> wf_status w = WfStopping \<or> final (wf_status w)) \<and>
    cleanup_target w \<in> {WfCancelled, WfFailed} \<and> cleanup_reason w \<noteq> ProcessExited \<and>
    (final (wf_status w) \<longleftrightarrow> wi_ended_at (wf_info w) \<noteq> None) \<and>
    (final (wf_status w) \<longrightarrow> open_sync w = None \<and> \<not> cleanup_due (wf_info w) \<and>
       (invalidate_project w \<longrightarrow> requires_full_upload (wf_info w))) \<and>
    (writer w \<noteq> None \<longrightarrow> readers w = [])"
proof -
  from assms(2) obtain a where "a < length (wf_heap (srv x))" "w = wf a (srv x)"
    by (auto simp: in_set_conv_nth wf_def)
  with service_okD(4) [OF reachable_service [OF assms(1)]] have w: "wf_ok w" by simp
  then have "external_reason (cleanup_reason w)" by (simp add: wf_ok_def cleanup_shape_def)
  then have "cleanup_reason w \<noteq> ProcessExited" by (auto simp: external_reason_def)
  with w show ?thesis unfolding wf_ok_defs by (simp, blast)
qed

theorem workflow_well_formed_witness:
  "wi_session (wf_info demo_pulling) \<noteq> None \<and> wi_ended_at (wf_info demo_pulling) = None"
  using workflow_well_formed [OF demo_states(3), of demo_pulling] by simp

text \<open>
  C35. Phases and ends. A step of the system moves a workflow along the phase graph only, never changes
  its identifier, request or project, and what an ended workflow shows is the same in every later state.
\<close>

theorem workflow_is_frozen:
  assumes "wf_reachable cfg x" "sys_steps cfg x y" "sys_step cfg y z" "a < length (wf_heap (srv x))"
  shows "(wf_status (wf a (srv z)) = wf_status (wf a (srv y)) \<or>
      (wf_status (wf a (srv y)), wf_status (wf a (srv z))) \<in>
        {(WfPreparing, WfRunning), (WfPreparing, WfStopping), (WfPreparing, WfFailed), (WfRunning, WfPulling),
         (WfRunning, WfStopping), (WfPulling, WfStopping), (WfPulling, WfCompleted), (WfStopping, WfCancelled),
         (WfStopping, WfFailed)}) \<and>
    workflow_id (wf_info (wf a (srv z))) = workflow_id (wf_info (wf a (srv x))) \<and>
    wf_request (wf a (srv z)) = wf_request (wf a (srv x)) \<and> wf_project (wf a (srv z)) = wf_project (wf a (srv x)) \<and>
    (final (wf_status (wf a (srv x))) \<longrightarrow> wf_info (wf a (srv z)) = wf_info (wf a (srv x)))"
proof -
  from sys_ok_steps [OF assms(2) wf_reachable_ok [OF assms(1)]] have y: "sys_ok cfg y" "later (srv x) (srv y)" by simp_all
  from sys_ok_step [OF assms(3) y(1)] obtain i where g: "guar i (srv y) (srv z)" by blast
  with later_trans [OF y(2) later_guar] have z: "later (srv x) (srv z)" by blast
  have "a < length (wf_heap (srv y))" using y(2) assms(4) by (simp add: later_def)
  with g have f: "follows (wf_status (wf a (srv y))) (wf_status (wf a (srv z)))" by (simp add: guar_def wmove_def)
  from z assms(4) have i: "identity_of (wf a (srv z)) = identity_of (wf a (srv x))"
    "final (wf_status (wf a (srv x))) \<longrightarrow> wf_info (wf a (srv z)) = wf_info (wf a (srv x))"
    by (simp_all add: later_def)
  from f i(1) show ?thesis unfolding follows_def identity_of_def by (intro conjI i(2)) (simp_all only: prod.inject eq_commute)
qed

text \<open>
  C36. The session ends first. In every reachable state a workflow from which results are pulled, or that
  has ended, has no live Vivado session: if it had one, that session is sealed or gone from the registry,
  and its process is reaped.
\<close>

theorem session_ends_first:
  assumes "wf_reachable cfg x" "w \<in> set (wf_heap (srv x))" "wi_session (wf_info w) = Some sid"
    "wf_status w = WfPulling \<or> final (wf_status w)"
  shows "case map_of (vsessions (session_part (srv x))) sid of
      None \<Rightarrow> sid < next_uuid (session_part (srv x))
    | Some s \<Rightarrow> is_terminal (si_status (vs_info s)) \<and> \<not> child (proc s)"
proof -
  note ok = reachable_service [OF assms(1)]
  from assms(2) obtain a where "a < length (wf_heap (srv x))" "w = wf a (srv x)"
    by (auto simp: in_set_conv_nth wf_def)
  with service_okD(5) [OF ok] assms(3,4) have s: "sealed sid (session_part (srv x))" "sid < next_uuid (session_part (srv x))"
    by (auto simp: session_shape_def)
  show ?thesis
  proof (cases "map_of (vsessions (session_part (srv x))) sid")
    case (Some s)
    with s(1) sm_okD(2) [OF service_okD(2) [OF ok] Some] have "vs_terminal s" "shown_ok s"
      by (auto simp: sealed_def Session_Inv.entry_ok_def life_ok_def)
    then show ?thesis using Some by (auto simp: shown_ok_def)
  qed (simp add: s(2))
qed

theorem session_ends_first_witness:
  "is_terminal (si_status (vs_info demo_exited)) \<and> \<not> child (proc demo_exited)"
  using session_ends_first [OF demo_states(3), of demo_pulling 0] by simp

theorem workflow_is_frozen_witness:
  "wf_info (wf 0 (expire_active demo_workflows (demo_at demo_settled demo_released demo_completed None))) = wf_info demo_completed \<and>
   final (wf_status demo_completed)"
proof -
  let ?x = "\<lparr>srv = demo_at demo_settled demo_released demo_completed None, pool = [], owner = [], next_task = 5\<rparr> :: system"
  have f: "final (wf_status demo_completed)" by (simp add: demo_completed_def)
  have "sys_step demo_workflows ?x (?x\<lparr>srv := expire_active demo_workflows (srv ?x)\<rparr>)"
    by (rule sys_environment) (rule env_expire)
  from workflow_is_frozen [OF demo_states(3) demo_reach_completed this, of 0]
    workflow_is_frozen [OF demo_states(4) sys_refl this, of 0] f show ?thesis by simp
qed

text \<open>
  C37. The activity lock. In every reachable state a workflow whose lock is held exclusively has no
  transfer under way, and every holder of a lock or of a transfer lease is a task that still runs: no
  task, dropped, panicked or ended, leaves a lock behind. A step takes a workflow to any phase other than
  stopping only while its lock is held exclusively, so never during a transfer.
\<close>

theorem activity_lock:
  assumes "wf_reachable cfg x" "sys_step cfg x y" "a < length (wf_heap (srv x))"
  shows "(\<forall>i. writer (wf a (srv x)) = Some i \<longrightarrow> readers (wf a (srv x)) = [] \<and> i \<in> fst ` set (pool x)) \<and>
    set (readers (wf a (srv x))) \<subseteq> fst ` set (pool x) \<and>
    (wf_status (wf a (srv y)) \<noteq> wf_status (wf a (srv x)) \<and> wf_status (wf a (srv y)) \<noteq> WfStopping \<longrightarrow>
       writer (wf a (srv x)) \<noteq> None \<and> readers (wf a (srv x)) = [])"
proof -
  have r: "readers (wf a (srv x)) = []" if "writer (wf a (srv x)) = Some i" for i
    using service_okD(4) [OF reachable_service [OF assms(1)] assms(3)] that by (simp add: wf_ok_def)
  from sys_ok_step [OF assms(2) wf_reachable_ok [OF assms(1)]] obtain i where "guar i (srv x) (srv y)" by blast
  with assms(3) have "wmove i (wf a (srv x)) (wf a (srv y))" by (simp add: guar_def)
  then have "writer (wf a (srv x)) = Some i"
    if "wf_status (wf a (srv y)) \<noteq> wf_status (wf a (srv x))" "wf_status (wf a (srv y)) \<noteq> WfStopping"
    using that wmoveD(6) by blast
  with r held_by_pool [OF assms(1,3)] show ?thesis by blast
qed

theorem activity_lock_witness: "readers (take_lock 2 demo_created) = [] \<and> writer (take_lock 2 demo_created) = Some 2"
proof -
  let ?s = "demo_at demo_dirty (one_session demo_unstarted 1) (take_lock 2 demo_created) (Some 7)"
  obtain u where u: "sections (Suc (Suc (Suc (Suc (Suc (Suc (Suc (Suc (Suc (Suc 0)))))))))) demo_start
      (demo_at demo_inspected Session_Manager.manager_new demo_created (Some 7)) = Some (u, ?s)"
    using demo_start_stops by (auto simp: stops_at_def)
  let ?x = "\<lparr>srv = ?s, pool = [(2, bindT u (\<lambda>_. Ret NoMore))], owner = [(2, 7, NoMore)], next_task = Suc 2\<rparr> :: system"
  have x: "wf_reachable demo_workflows ?x"
    by (rule demo_reaches, rule some_sections [OF task_begins [OF demo_reach_created mt_start, unfolded quietly_def] u])
  have "sys_step demo_workflows ?x (?x\<lparr>srv := expire_active demo_workflows (srv ?x)\<rparr>)"
    by (rule sys_environment) (rule env_expire)
  from activity_lock [OF x this, of 0] show ?thesis by (simp add: take_lock_def)
qed

text \<open>
  C38. A cleanup is never lost. In every reachable state a workflow that is stopping has a worker for its
  cleanup, in the pool or about to be started, unless the service has recorded a permanent fault. Hence
  the sessions are closed, on shutdown, only after every cleanup has ended its workflow.
\<close>

theorem cleanup_is_owned:
  assumes "wf_reachable cfg x" "a < length (wf_heap (srv x))" "wf_status (wf a (srv x)) = WfStopping"
    "\<not> background_fault (srv x)"
  shows "(Clean a \<in> set (spawned_tasks (srv x)) \<or>
      (\<exists>i w t. (i, w, Clean a) \<in> set (owner x) \<and> (i, t) \<in> set (pool x))) \<and>
    (spawned_tasks (srv x) \<noteq> [] \<or> owner x \<noteq> [])"
proof -
  have "wf_ok (wf a (srv x))" using service_okD(4) [OF reachable_service [OF assms(1)] assms(2)] .
  with assms(2,3) have "wants_cleanup a (srv x)" "\<not> has_ended a (srv x)"
    by (auto simp: wf_ok_def cleanup_shape_def ended_shape_def wants_cleanup_def has_ended_def)
  with cleanedD(3) [OF cleaned_reachable [OF assms(1)]] assms(4) have "in_charge x a" by blast
  then show ?thesis unfolding in_charge_def by (force dest: map_of_SomeD)
qed

lemma demo_cancel: "run (workflow_cancel 7) (demo_at m Session_Manager.manager_new demo_created (Some 7)) =
    Some (Inr (wf_info (stop_workflow 0 WorkflowClosed WfCancelled None False demo_created)),
      (demo_at m Session_Manager.manager_new (stop_workflow 0 WorkflowClosed WfCancelled None False demo_created) (Some 7))
        \<lparr>spawned_tasks := [Clean 0]\<rparr>)"
proof -
  have "\<not> cleanup_started demo_created" "workflow_id (wf_info (stop_workflow 0 WorkflowClosed WfCancelled None False demo_created)) = 7"
    by (simp_all add: demo_created_def initialized_def new_workflow_def upd_info_def stop_workflow_def transition_def Let_def)
  then show ?thesis
    by (simp add: workflow_cancel_def run_bindT run_bindR managed_def admit_def ensure_def find_workflow_def ok_or_def
        request_cleanup_def Let_def snapshot_def Session_Manager.manager_new_def)
qed

definition demo_stopping :: system where
  "demo_stopping = \<lparr>srv = (demo_at demo_inspected Session_Manager.manager_new
       (stop_workflow 0 WorkflowClosed WfCancelled None False demo_created) (Some 7))\<lparr>spawned_tasks := [Clean 0]\<rparr>,
     pool = [], owner = [], next_task = 3\<rparr>"

lemma demo_reach_stopping: "sys_steps demo_workflows (system_new demo_sync) demo_stopping"
  using whole_task [OF demo_reach_created mt_cancel demo_cancel] by (simp add: demo_stopping_def)

theorem cleanup_is_owned_witness:
  "wf_status (wf 0 (srv demo_stopping)) = WfStopping \<and> Clean 0 \<in> set (spawned_tasks (srv demo_stopping))"
proof -
  have s: "wf_status (wf 0 (srv demo_stopping)) = WfStopping"
    by (simp add: demo_stopping_def wf_def demo_at_def)
  from cleanup_is_owned [OF demo_reaches [OF demo_reach_stopping], of 0] s show ?thesis
    by (simp add: demo_stopping_def demo_at_def)
qed

end
