(* ===== verification/Spec2Isabelle.thy ===== *)
theory Spec2Isabelle
  imports Sync_Properties Manager_Results Manager_Retention Project_Properties Session_Properties
    Workflow_Properties
begin

text \<open>
  A verification library for the VivadoServer repository: the crate under \<open>src/src\<close>, an HTTP service that
  synchronises project trees with its clients and runs Vivado on them. This theory imports the whole
  library and holds its documentation.

  \<^bold>\<open>The program.\<close> A client creates a workflow for a project, uploads the project's files in a sync session,
  starts one Vivado process, exchanges input and output with it, pulls the results and finishes the
  workflow. The parts are layered.
  \<^item> \<open>workspace.rs\<close>, \<open>sync/files.rs\<close> and \<open>sync/transaction.rs\<close> keep every file operation inside real
    directories below the workspace and make a commit undoable.
  \<^item> \<open>sync.rs\<close> is the sync manager: at most one open push plan, its uploads in a staging directory, its
    commit, and the results that are retained.
  \<^item> \<open>project.rs\<close> keeps one durable marker per project, which says whether its tree may be trusted.
  \<^item> \<open>session.rs\<close> with \<open>session/model.rs\<close>, \<open>session/output.rs\<close>, \<open>session/process.rs\<close> and
    \<open>session/supervisor.rs\<close> owns at most one Vivado process, its input queue and its output.
  \<^item> \<open>workflow.rs\<close> is the service a client talks to. It calls the three managers below it, holds the one
    active workflow and a lock per workflow, and cleans up after every failure.

  \<^bold>\<open>Theories.\<close> Models come first in each group, then their facts, then the properties.
  \<^item> \<open>Prelude\<close> has the result combinators, byte-string operations and shared lemmas; \<open>Errors\<close> is \<open>error.rs\<close>.
  \<^item> \<open>FileSystem\<close> models the calls of \<open>std::fs\<close> the sources use over an explicit store (a finite map from
    paths to files, directories and links); each call may also fail from outside, by the list \<open>faults\<close>.
    \<open>Store_Facts\<close> has the laws of these calls.
  \<^item> \<open>Paths\<close> and \<open>Workspace\<close> are \<open>workspace.rs\<close> and the path checks of \<open>sync/files.rs\<close>; \<open>Utf8\<close> is the
    validation and the lossy decoding of the standard library.
  \<^item> \<open>Manifest\<close>, \<open>File_Transfer\<close> are the manifests and transfers of \<open>sync/files.rs\<close>, with \<open>Manifest_Facts\<close> and
    \<open>Scan_Facts\<close>; \<open>Sync_Plan\<close> and \<open>Pull_Plan\<close> are the planners of \<open>sync.rs\<close>, with \<open>Plan_Correct\<close>.
  \<^item> \<open>Transaction\<close> is \<open>sync/transaction.rs\<close>. \<open>Rollback\<close> states the contract of an undo log as the locales
    \<open>undo_log\<close> and \<open>undo_log_calm\<close> and interprets them on the transaction; \<open>Commit_Undo\<close> shows that every
    operation honours it; \<open>Sync_Commit\<close> is the commit itself, \<open>Attr_Undo\<close> and \<open>Commit_Atomic\<close> show that it is
    all or nothing, \<open>Push_Commit\<close> what it leaves on disk when it succeeds.
  \<^item> \<open>Staging\<close>, \<open>Sync_Manager\<close> and \<open>Sync_Handlers\<close> are the sync manager. \<open>Manager_Frame\<close>, \<open>Manager_Inv\<close> and
    \<open>Manager_Steps\<close> make it a transition system with an invariant; \<open>Manager_Properties\<close> (with the locale
    \<open>session_relation\<close>), \<open>Manager_Results\<close> and \<open>Manager_Retention\<close> say what its clients can rely on.
  \<^item> \<open>Project_Store\<close>, \<open>Project_Facts\<close> and \<open>Project_Properties\<close> are \<open>project.rs\<close>.
  \<^item> \<open>Session_Output\<close> is \<open>session/output.rs\<close> (locale \<open>incremental\<close>), \<open>Process_Group\<close> is \<open>session/process.rs\<close>,
    \<open>Retention\<close> (locale \<open>retention_policy\<close>) the pruning that sessions and workflows share, \<open>Session\<close>,
    \<open>Supervisor\<close> and \<open>Session_Manager\<close> the rest of the session component. \<open>Session_Facts\<close>, \<open>Session_Life\<close>,
    \<open>Session_Inv\<close> and \<open>Session_Identity\<close> are its invariants, \<open>Session_Properties\<close> its promises.
  \<^item> \<open>Task\<close> defines tasks that interleave, and the locale \<open>rely_guarantee\<close>. \<open>Workflow\<close> and \<open>Workflow_Handlers\<close> are
    \<open>workflow.rs\<close>, \<open>Workflow_System\<close> the whole service as a transition system. \<open>Workflow_Inv\<close> has the invariant
    and the interpretation \<open>svc\<close>; \<open>Workflow_Sections\<close>, \<open>Workflow_Safe\<close>, \<open>Workflow_Tasks\<close>, \<open>Workflow_Workers\<close> and
    \<open>Workflow_Reach\<close> carry it over every section, handler, worker and step; \<open>Workflow_Cleanup\<close> is a second
    interpretation, for the workers of cleanups; \<open>Workflow_Demo\<close> runs the service from creation to
    completion, and \<open>Workflow_Properties\<close> states what holds.

  \<^bold>\<open>Conventions.\<close> Fallible functions return \<open>error + value\<close>; effects are explicit state passing over extensible
  records, so that an operation on a store works on the transaction, the sync manager and the service that
  extend or contain it. What the program cannot decide itself is an argument: the results of kernel and PTY
  calls are part of the events of the supervisor, the result of a critical history write is an argument of
  the operation that waits for it, hashes, identifiers and glob matching are fields of \<open>sync_env\<close>, and the
  outside failures of file-system calls are the list \<open>faults\<close>. The clock is read once per event or section.

  \<^bold>\<open>Concurrency.\<close> The sync manager and the session manager are transition systems whose steps are the stretches
  between two suspensions of their handlers, with three exceptions: receiving the body of an upload, applying a
  commit, and removing a staging directory together with recording the outcome are one step each. Each works on
  files that no other task of the manager uses meanwhile: the staged file of the upload, the project and staging
  directory of the one committing session, and the staging directory of a session whose cleanup lock is held. A
  prune is not one step: it looks at the sessions one by one while others run (\<open>prune_visits\<close>). In \<open>workflow.rs\<close> a handler is a \<open>task\<close>: a sequence of sections,
  each what happens while a mutex is held or in one awaited call of a lower manager. The system keeps a pool of
  tasks and runs one section of any task at a time; between sections sessions proceed, the sync reaper runs, the
  clock advances, the workflow reaper expires and prunes, requests are dropped, managed tasks panic and are
  recovered, and shutdown goes on in its order. The activity lock is a field of the workflow; a dropped or
  panicked task gives back what it holds. Properties are proved of every reachable state by rely/guarantee
  reasoning: every handler is safe under the guarantees of the others.

  \<^bold>\<open>Bounds and termination.\<close> Resolving symbolic links stops after 40 links, the limit of the kernel; the retry
  of interrupted calls (\<open>retry_loop\<close>) is a partial function, which returns for the calls it is used with, because
  only outside failures interrupt them (\<open>Project_Facts.retry_interrupted_ends\<close>); all other recursion is structural or has a measure. Loops that wait (the cleanup loop, the session
  observer) are rounds that the system may run any number of times.

  \<^bold>\<open>What the lemmas show.\<close> The synchronisation engine: a push that succeeds leaves exactly the client's
  entries and what the filters keep from it, a commit is atomic under any outside failure, rollback is exact, scans are faithful, no path leaves its root. The sync manager:
  one open plan, decided once, results final and bounded by every prune. Markers: old or new, read as written. Sessions: one live process,
  input accounted for exactly, terminal states sealed, the slot kept until the process group is known to be
  empty. Workflows: one at a time, well-formed in every phase, frozen when ended, sessions ended first, the
  lock exclusive and never leaked, cleanups never lost.

  \<^bold>\<open>Not modelled.\<close> Telemetry, tracing and the history records no operation waits for, because no decision depends
  on them; the PTY set-up and the nonblocking loops of \<open>session/process.rs\<close>, which are system calls; the
  queue order of the activity lock; \<open>create_dir_all\<close> and \<open>remove_dir_all\<close> stopping half-way (they succeed or
  change nothing); the commit worker of the sync manager being lost to a panic; the read-only views of a
  workspace (\<open>workspace_read.rs\<close>, \<open>diagnostics.rs\<close>); the event journal (\<open>history.rs\<close>); configuration,
  authentication, request bodies and the runtime that builds the managers (\<open>config.rs\<close>, \<open>auth.rs\<close>, \<open>body.rs\<close>,
  \<open>observability.rs\<close>, \<open>runtime.rs\<close>); the HTTP layer (\<open>api.rs\<close>, \<open>openapi.rs\<close>, \<open>main.rs\<close>, \<open>lib.rs\<close>), which routes
  and serialises; \<open>logging.rs\<close>.
\<close>

end
